(* ===== verification/Ox_Prelude.thy ===== *)
theory Ox_Prelude
  imports Main "HOL-Library.Word" "HOL-Library.State_Monad" "HOL-Library.Sublist"
    "HOL-Library.Code_Target_Numeral"
begin

text \<open>
  Shared vocabulary of the development.

  A Rust \<^verbatim>\<open>&str\<close> or \<^verbatim>\<open>String\<close> is the list of its UTF-8 bytes, one
  \<^typ>\<open>char\<close> (an 8-bit value) per byte, so indexing, slicing and length count
  bytes as they do in the source.  The theory holds the string operations of the
  Rust standard library that several components call (splitting, joining,
  prefixes, ASCII case folding), the saturating integer operations, the
  interface record of the \<^verbatim>\<open>lru\<close> crate, and a small refinement calculus for
  code that threads a cache through its calls.
\<close>

named_theorems ox_defs \<open>unfolding rules of the component operations\<close>
named_theorems ox_inv \<open>preservation lemmas of component invariants\<close>

section \<open>Splitting and joining\<close>

text \<open>\<^verbatim>\<open>str::split(c)\<close>: one more segment than there are separators.\<close>

fun split_on :: "'a \<Rightarrow> 'a list \<Rightarrow> 'a list list" where
  "split_on c [] = [[]]"
| "split_on c (x # xs) =
     (if x = c then [] # split_on c xs
      else (case split_on c xs of [] \<Rightarrow> [[x]] | s # ss \<Rightarrow> (x # s) # ss))"

text \<open>Segments written one after the other with a separator between them.\<close>

fun join_with :: "'a \<Rightarrow> 'a list list \<Rightarrow> 'a list" where
  "join_with c [] = []"
| "join_with c [s] = s"
| "join_with c (s # t # ss) = s @ c # join_with c (t # ss)"

lemma split_on_not_Nil [simp]: "split_on c xs \<noteq> []"
  by (induction xs) (auto split: list.splits)

lemma ball_hd_tl: "xs \<noteq> [] \<Longrightarrow> (\<forall>x \<in> set xs. P x) = (P (hd xs) \<and> (\<forall>x \<in> set (tl xs). P x))"
  by (cases xs) auto

lemma ball_split_on:
  "(\<forall>s \<in> set (split_on c xs). P s) =
     (P (hd (split_on c xs)) \<and> (\<forall>s \<in> set (tl (split_on c xs)). P s))"
  by (rule ball_hd_tl) simp

lemma split_on_Cons_neq:
  "x \<noteq> c \<Longrightarrow> split_on c (x # xs) = (x # hd (split_on c xs)) # tl (split_on c xs)"
  by (cases "split_on c xs") auto

lemma split_on_segments: "s \<in> set (split_on c xs) \<Longrightarrow> c \<notin> set s"
  by (induction xs arbitrary: s) (auto split: list.splits if_splits)

lemma split_on_subset: "s \<in> set (split_on c xs) \<Longrightarrow> set s \<subseteq> set xs"
proof (induction xs arbitrary: s)
  case (Cons x xs)
  then show ?case
    by (cases "split_on c xs") (fastforce split: if_splits)+
qed simp

lemma join_with_Cons: "ss \<noteq> [] \<Longrightarrow> join_with c (s # ss) = s @ c # join_with c ss"
  by (cases ss) auto

lemma join_split [simp]: "join_with c (split_on c xs) = xs"
proof (induction xs)
  case (Cons x xs)
  show ?case
  proof (cases "x = c")
    case True
    then show ?thesis by (simp add: join_with_Cons Cons.IH)
  next
    case False
    obtain s ss where "split_on c xs = s # ss" by (cases "split_on c xs") auto
    with Cons.IH False show ?thesis by (cases ss) auto
  qed
qed simp

lemma split_on_no_sep: "c \<notin> set s \<Longrightarrow> split_on c s = [s]"
  by (induction s) auto

lemma split_on_append_sep:
  "c \<notin> set s \<Longrightarrow> split_on c (s @ c # xs) = s # split_on c xs"
  by (induction s) auto

lemma split_on_append:
  "split_on c (xs @ c # ys) = split_on c xs @ split_on c ys"
  by (induction xs) (auto split: list.splits)

lemma split_join:
  "ss \<noteq> [] \<Longrightarrow> \<forall>s \<in> set ss. c \<notin> set s \<Longrightarrow> split_on c (join_with c ss) = ss"
  by (induction c ss rule: join_with.induct)
     (auto simp: split_on_no_sep split_on_append_sep)

lemma set_join_with: "set (join_with c ss) \<subseteq> insert c (\<Union> (set ` set ss))"
  by (induction c ss rule: join_with.induct) auto

lemma hd_join_with:
  "s \<noteq> [] \<Longrightarrow> hd (join_with c (s # ss)) = hd s"
  by (cases ss) auto

lemma join_with_eq_Nil: "\<forall>s \<in> set ss. s \<noteq> [] \<Longrightarrow> join_with c ss = [] \<longleftrightarrow> ss = []"
  by (induction c ss rule: join_with.induct) auto

lemma join_with_append:
  "xs \<noteq> [] \<Longrightarrow> ys \<noteq> [] \<Longrightarrow> join_with c (xs @ ys) = join_with c xs @ c # join_with c ys"
proof (induction c xs rule: join_with.induct)
  case (2 c s)
  then show ?case by (simp add: join_with_Cons)
qed simp_all

lemma in_split_on_iff:
  "s \<in> set (split_on c xs) \<longleftrightarrow>
     c \<notin> set s \<and> (\<exists>a b. xs = a @ s @ b \<and> (a = [] \<or> last a = c) \<and> (b = [] \<or> hd b = c))"
proof
  assume s: "s \<in> set (split_on c xs)"
  then obtain us vs where uv: "split_on c xs = us @ s # vs" by (meson split_list)
  have xs: "xs = join_with c (us @ s # vs)" by (metis join_split uv)
  have tail: "\<exists>b. join_with c (s # vs) = s @ b \<and> (b = [] \<or> hd b = c)"
    by (cases vs) auto
  have "\<exists>a b. xs = a @ s @ b \<and> (a = [] \<or> last a = c) \<and> (b = [] \<or> hd b = c)"
  proof (cases "us = []")
    case True
    with xs tail show ?thesis by (metis append_Nil)
  next
    case False
    then have "xs = (join_with c us @ [c]) @ join_with c (s # vs)"
      by (simp add: xs join_with_append)
    with tail show ?thesis by (metis last_snoc)
  qed
  with s show "c \<notin> set s \<and> (\<exists>a b. xs = a @ s @ b \<and> (a = [] \<or> last a = c) \<and> (b = [] \<or> hd b = c))"
    by (auto dest: split_on_segments)
next
  assume "c \<notin> set s \<and> (\<exists>a b. xs = a @ s @ b \<and> (a = [] \<or> last a = c) \<and> (b = [] \<or> hd b = c))"
  then obtain a b where s: "c \<notin> set s" and xs: "xs = a @ s @ b"
    and a: "a = [] \<or> last a = c" and b: "b = [] \<or> hd b = c" by blast
  have sb: "s \<in> set (split_on c (s @ b))"
    using b s by (cases b) (auto simp: split_on_no_sep split_on_append_sep)
  show "s \<in> set (split_on c xs)"
  proof (cases "a = []")
    case False
    with a have "a = butlast a @ [c]" by (metis append_butlast_last_id)
    then have "xs = butlast a @ c # s @ b" using xs by (metis append.assoc append_Cons append_Nil)
    with sb show ?thesis by (simp add: split_on_append)
  qed (use sb xs in simp)
qed

lemma last_segment: "\<exists>a m. xs = a @ m \<and> (a = [] \<or> last a = c) \<and> c \<notin> set m"
proof (induction xs rule: rev_induct)
  case (snoc x xs)
  then obtain a m where "xs = a @ m" "a = [] \<or> last a = c" "c \<notin> set m" by blast
  then show ?case
    by (cases "x = c")
       (rule exI [of _ "xs @ [x]"], simp, rule exI [of _ a], rule exI [of _ "m @ [x]"], simp)
qed simp

section \<open>Prefixes, suffixes and ASCII case\<close>

definition starts_with :: "'a list \<Rightarrow> 'a list \<Rightarrow> bool" where
  "starts_with s p = (take (length p) s = p)"

definition ends_with :: "'a list \<Rightarrow> 'a list \<Rightarrow> bool" where
  "ends_with s p = (length p \<le> length s \<and> drop (length s - length p) s = p)"

definition strip_prefix :: "'a list \<Rightarrow> 'a list \<Rightarrow> 'a list option" where
  "strip_prefix s p = (if starts_with s p then Some (drop (length p) s) else None)"

lemma starts_with_iff: "starts_with s p \<longleftrightarrow> (\<exists>r. s = p @ r)"
  unfolding starts_with_def by (metis append_eq_conv_conj append_take_drop_id)

lemma ends_with_iff: "ends_with s p \<longleftrightarrow> (\<exists>r. s = r @ p)"
proof
  assume "ends_with s p"
  then show "\<exists>r. s = r @ p"
    unfolding ends_with_def by (metis append_take_drop_id)
qed (auto simp: ends_with_def)

lemma strip_prefix_Some: "strip_prefix s p = Some r \<longleftrightarrow> s = p @ r"
  by (auto simp: strip_prefix_def starts_with_iff)

lemma starts_with_append [simp]: "starts_with (p @ r) p"
  by (simp add: starts_with_def)

lemma ends_with_append [simp]: "ends_with (r @ p) p"
  by (simp add: ends_with_def)

text \<open>\<^verbatim>\<open>u8::is_ascii_uppercase\<close> and the others, on the byte value.\<close>

definition is_upper_byte :: "char \<Rightarrow> bool" where
  "is_upper_byte c = (65 \<le> (of_char c :: nat) \<and> (of_char c :: nat) \<le> 90)"

definition is_lower_byte :: "char \<Rightarrow> bool" where
  "is_lower_byte c = (97 \<le> (of_char c :: nat) \<and> (of_char c :: nat) \<le> 122)"

definition is_digit_byte :: "char \<Rightarrow> bool" where
  "is_digit_byte c = (48 \<le> (of_char c :: nat) \<and> (of_char c :: nat) \<le> 57)"

definition is_alnum_byte :: "char \<Rightarrow> bool" where
  "is_alnum_byte c = (is_upper_byte c \<or> is_lower_byte c \<or> is_digit_byte c)"

text \<open>\<^verbatim>\<open>u8::to_ascii_lowercase\<close>: bytes outside \<open>A..Z\<close> stay as they are.\<close>

definition lower_byte :: "char \<Rightarrow> char" where
  "lower_byte c = (if is_upper_byte c then char_of ((of_char c :: nat) + 32) else c)"

definition lower_str :: "string \<Rightarrow> string" where
  "lower_str s = map lower_byte s"

definition eq_ignore_case :: "string \<Rightarrow> string \<Rightarrow> bool" where
  "eq_ignore_case a b = (lower_str a = lower_str b)"

lemma lower_byte_idem [simp]: "lower_byte (lower_byte c) = lower_byte c"
  by (auto simp: lower_byte_def is_upper_byte_def)

lemma lower_str_idem [simp]: "lower_str (lower_str s) = lower_str s"
  by (simp add: lower_str_def)

lemma length_lower_str [simp]: "length (lower_str s) = length s"
  by (simp add: lower_str_def)

lemma lower_str_append [simp]: "lower_str (a @ b) = lower_str a @ lower_str b"
  by (simp add: lower_str_def)


section \<open>Whitespace, numbers and UTF-8\<close>

text \<open>
  One character with the Unicode \<open>White_Space\<close> property at the front of a byte
  string, and the bytes after it.
\<close>

definition ws3 :: "nat \<Rightarrow> nat \<Rightarrow> nat \<Rightarrow> bool" where
  "ws3 a b c =
     ((a = 0xE1 \<and> b = 0x9A \<and> c = 0x80) \<or>
      (a = 0xE2 \<and> b = 0x80 \<and> (0x80 \<le> c \<and> c \<le> 0x8A \<or> c = 0xA8 \<or> c = 0xA9 \<or> c = 0xAF)) \<or>
      (a = 0xE2 \<and> b = 0x81 \<and> c = 0x9F) \<or>
      (a = 0xE3 \<and> b = 0x80 \<and> c = 0x80))"

definition ws1 :: "nat \<Rightarrow> bool" where
  "ws1 a = (9 \<le> a \<and> a \<le> 13 \<or> a = 32)"

definition ws2 :: "nat \<Rightarrow> nat \<Rightarrow> bool" where
  "ws2 a b = (a = 0xC2 \<and> (b = 0x85 \<or> b = 0xA0))"

fun trim_start :: "string \<Rightarrow> string" where
  "trim_start [] = []"
| "trim_start (a # s) =
     (if ws1 (of_char a) then trim_start s
      else (case s of
              b # c # r \<Rightarrow>
                if ws2 (of_char a) (of_char b) then trim_start (c # r)
                else if ws3 (of_char a) (of_char b) (of_char c) then trim_start r
                else a # s
            | [b] \<Rightarrow> if ws2 (of_char a) (of_char b) then [] else a # s
            | [] \<Rightarrow> a # s))"

text \<open>The same from the end: the argument is the reversed string.\<close>

fun trim_start_rev :: "string \<Rightarrow> string" where
  "trim_start_rev [] = []"
| "trim_start_rev (z # s) =
     (if ws1 (of_char z) then trim_start_rev s
      else (case s of
              y # x # r \<Rightarrow>
                if ws2 (of_char y) (of_char z) then trim_start_rev (x # r)
                else if ws3 (of_char x) (of_char y) (of_char z) then trim_start_rev r
                else z # s
            | [y] \<Rightarrow> if ws2 (of_char y) (of_char z) then [] else z # s
            | [] \<Rightarrow> z # s))"

definition str_trim :: "string \<Rightarrow> string" where
  "str_trim s = rev (trim_start_rev (rev (trim_start s)))"

text \<open>\<^verbatim>\<open>str::parse\<close> for an unsigned integer type whose largest value is \<open>lim\<close>.\<close>

definition digit_val :: "char \<Rightarrow> nat" where
  "digit_val c = of_char c - 48"

definition digits_val :: "string \<Rightarrow> nat" where
  "digits_val s = foldl (\<lambda>n c. n * 10 + digit_val c) 0 s"

definition parse_uint :: "nat \<Rightarrow> string \<Rightarrow> nat option" where
  "parse_uint lim s =
     (let d = (case strip_prefix s ''+'' of Some r \<Rightarrow> r | None \<Rightarrow> s) in
      if d \<noteq> [] \<and> list_all is_digit_byte d \<and> digits_val d \<le> lim then Some (digits_val d) else None)"

text \<open>\<^verbatim>\<open>to_string\<close> of an unsigned integer.\<close>

fun show_nat :: "nat \<Rightarrow> string" where
  "show_nat n =
     (if n < 10 then [char_of (48 + n)] else show_nat (n div 10) @ [char_of (48 + n mod 10)])"

declare show_nat.simps [simp del]

lemma is_digit_char_of [simp]: "d < 10 \<Longrightarrow> is_digit_byte (char_of (48 + d :: nat))"
  by (simp add: is_digit_byte_def)

lemma show_nat_digits: "list_all is_digit_byte (show_nat n) \<and> show_nat n \<noteq> []"
proof (induction n rule: show_nat.induct)
  case (1 n)
  then show ?case
    by (subst (1 2) show_nat.simps) auto
qed

lemma digits_val_snoc: "digits_val (s @ [c]) = digits_val s * 10 + digit_val c"
  by (simp add: digits_val_def)

lemma digits_val_show: "digits_val (show_nat n) = n"
proof (induction n rule: show_nat.induct)
  case (1 n)
  then show ?case
    by (subst show_nat.simps)
       (auto simp: digits_val_snoc digit_val_def, simp add: digits_val_def digit_val_def)
qed

lemma parse_show: "n \<le> lim \<Longrightarrow> parse_uint lim (show_nat n) = Some n"
proof -
  assume n: "n \<le> lim"
  obtain c r where cr: "show_nat n = c # r" using show_nat_digits [of n] by (cases "show_nat n") auto
  then have "is_digit_byte c" using show_nat_digits [of n] by simp
  then have "c \<noteq> CHR ''+''" by (auto simp: is_digit_byte_def)
  then have "strip_prefix (show_nat n) ''+'' = None"
    by (simp add: cr strip_prefix_def starts_with_def)
  then show ?thesis
    using n show_nat_digits [of n] by (simp add: parse_uint_def digits_val_show)
qed

lemma parse_uint_le: "parse_uint lim s = Some n \<Longrightarrow> n \<le> lim"
  by (auto simp: parse_uint_def Let_def split: if_splits option.splits)

text \<open>Well-formed UTF-8, as \<^verbatim>\<open>OsStr::to_str\<close> requires it.\<close>

definition cont :: "char \<Rightarrow> bool" where
  "cont c = (0x80 \<le> (of_char c :: nat) \<and> (of_char c :: nat) \<le> 0xBF)"

definition in_range :: "char \<Rightarrow> nat \<Rightarrow> nat \<Rightarrow> bool" where
  "in_range c lo hi = (lo \<le> of_char c \<and> of_char c \<le> hi)"

fun utf8_valid :: "string \<Rightarrow> bool" where
  "utf8_valid [] = True"
| "utf8_valid (a # s) =
     (if in_range a 0 0x7F then utf8_valid s
      else if in_range a 0xC2 0xDF then
        (case s of b # r \<Rightarrow> cont b \<and> utf8_valid r | [] \<Rightarrow> False)
      else if in_range a 0xE0 0xEF then
        (case s of
           b # c # r \<Rightarrow>
             in_range b (if in_range a 0xE0 0xE0 then 0xA0 else 0x80)
                        (if in_range a 0xED 0xED then 0x9F else 0xBF) \<and> cont c \<and> utf8_valid r
         | _ \<Rightarrow> False)
      else if in_range a 0xF0 0xF4 then
        (case s of
           b # c # d # r \<Rightarrow>
             in_range b (if in_range a 0xF0 0xF0 then 0x90 else 0x80)
                        (if in_range a 0xF4 0xF4 then 0x8F else 0xBF) \<and> cont c \<and> cont d \<and> utf8_valid r
         | _ \<Rightarrow> False)
      else False)"

section \<open>Threading a cache\<close>

text \<open>
  The interface of the \<^verbatim>\<open>lru\<close> crate's \<^verbatim>\<open>LruCache\<close> as the code uses it.  \<open>'c\<close> is
  the crate's own state.
\<close>

record ('c, 'k, 'v) lru =
  lru_peek :: "'c \<Rightarrow> 'k \<Rightarrow> 'v option"
  lru_put :: "'c \<Rightarrow> 'k \<Rightarrow> 'v \<Rightarrow> 'c"

text \<open>
  The documented behaviour: a lookup after a \<open>put\<close> of the same key finds the value
  just stored, and under any other key either what was there or, when the entry
  was evicted, nothing.
\<close>

definition lru_laws :: "('c, 'k, 'v) lru \<Rightarrow> bool" where
  "lru_laws L \<longleftrightarrow>
     (\<forall>c k v k'. lru_peek L (lru_put L c k v) k' = (if k' = k then Some v else lru_peek L c k') \<or>
                 (k' \<noteq> k \<and> lru_peek L (lru_put L c k v) k' = None))"

lemma lru_laws_D:
  "lru_laws L \<Longrightarrow> lru_peek L (lru_put L c k v) k' = Some w \<Longrightarrow>
     (k' = k \<and> w = v) \<or> (k' \<noteq> k \<and> lru_peek L c k' = Some w)"
  unfolding lru_laws_def by (metis option.distinct(1) option.inject)

text \<open>
  A cached computation \<open>m\<close> that keeps an invariant \<open>ok\<close> and always yields the value
  \<open>a\<close>: what the cache holds does not show in the result.
\<close>

definition yields :: "('s \<Rightarrow> bool) \<Rightarrow> ('s, 'a) state \<Rightarrow> 'a \<Rightarrow> bool" where
  "yields ok m a \<longleftrightarrow> (\<forall>s. ok s \<longrightarrow> fst (run_state m s) = a \<and> ok (snd (run_state m s)))"

lemma yieldsI:
  "(\<And>s. ok s \<Longrightarrow> fst (run_state m s) = a) \<Longrightarrow> (\<And>s. ok s \<Longrightarrow> ok (snd (run_state m s))) \<Longrightarrow>
   yields ok m a"
  by (simp add: yields_def)

lemma yields_return: "yields ok (State_Monad.return a) a"
  by (simp add: yields_def State_Monad.return_def)

lemma yields_bind:
  "yields ok m a \<Longrightarrow> yields ok (f a) b \<Longrightarrow> yields ok (State_Monad.bind m f) b"
  unfolding yields_def State_Monad.bind_def by (simp split: prod.split) (metis fst_conv snd_conv)

lemma yields_if:
  "(b \<Longrightarrow> yields ok m1 a1) \<Longrightarrow> (\<not> b \<Longrightarrow> yields ok m2 a2) \<Longrightarrow>
   yields ok (if b then m1 else m2) (if b then a1 else a2)"
  by simp

lemma yields_run:
  "yields ok m a \<Longrightarrow> ok s \<Longrightarrow> fst (run_state m s) = a \<and> ok (snd (run_state m s))"
  by (simp add: yields_def)

end
