(* ===== verification/Uri_Path.thy ===== *)
theory Uri_Path
  imports Ox_Prelude
begin

unbundle bit_operations_syntax

text \<open>
  The URI-path functions of \<^verbatim>\<open>src/server/routing/mod.rs\<close> that run before any
  file is looked at: the dot-segment screen and its byte-level shortcut, the
  sanitizer and its borrow shortcut, the search for a \<open>.php\<close> component and the
  classification of a path by extension.  The last section models the
  operations of \<^verbatim>\<open>std::path\<close> the routers use.
\<close>

section \<open>Definitions\<close>

datatype UriKind = NoExtension | Php | OtherExtension

text \<open>\<^verbatim>\<open>has_dot_segment_markers\<close>: the loop looks at each byte and its successor.\<close>

fun dot_marker_scan :: "string \<Rightarrow> bool" where
  "dot_marker_scan [] = False"
| "dot_marker_scan (b # rest) =
     (if b = CHR ''%'' then True
      else if b = CHR ''/'' \<and> rest \<noteq> [] \<and> hd rest = CHR ''.'' then True
      else dot_marker_scan rest)"

definition has_dot_segment_markers :: "string \<Rightarrow> bool" where
  "has_dot_segment_markers uri_path =
     (if uri_path = [] then False
      else if hd uri_path = CHR ''.'' then True
      else dot_marker_scan uri_path)"

fun blocked_walk :: "bool \<Rightarrow> string list \<Rightarrow> bool" where
  "blocked_walk is_first [] = False"
| "blocked_walk is_first (seg # segments) =
     (if \<not> starts_with seg ''.'' then blocked_walk False segments
      else if seg = ''.well-known'' \<and> is_first then
        (case segments of
           [] \<Rightarrow> True
         | next # rest \<Rightarrow>
             if next \<noteq> [] \<and> \<not> starts_with next ''.'' then blocked_walk False rest else True)
      else True)"

definition contains_blocked_dot_segment :: "string \<Rightarrow> bool" where
  "contains_blocked_dot_segment decoded =
     blocked_walk True (filter (\<lambda>s. s \<noteq> []) (split_on CHR ''/'' decoded))"

text \<open>\<^verbatim>\<open>already_sanitized\<close>: the loop over the bytes after the leading \<open>/\<close>.\<close>

fun already_scan :: "bool \<Rightarrow> string \<Rightarrow> bool" where
  "already_scan at_segment_start [] = True"
| "already_scan at_segment_start (b # rest) =
     (if b = CHR ''/'' then (if at_segment_start then False else already_scan True rest)
      else if at_segment_start \<and> b = CHR ''.'' \<and>
              (case rest of
                 [] \<Rightarrow> True
               | b1 # rest1 \<Rightarrow>
                   b1 = CHR ''/'' \<or>
                   (b1 = CHR ''.'' \<and> (case rest1 of [] \<Rightarrow> True | b2 # _ \<Rightarrow> b2 = CHR ''/'')))
           then False
      else already_scan False rest)"

definition already_sanitized :: "string \<Rightarrow> string option" where
  "already_sanitized path =
     (if length path < 2 \<or> hd path \<noteq> CHR ''/'' \<or> last path = CHR ''/'' then None
      else if already_scan True (tl path) then Some (tl path) else None)"

fun sanitize_loop :: "string \<Rightarrow> string list \<Rightarrow> string" where
  "sanitize_loop result [] = result"
| "sanitize_loop result (segment # segments) =
     (if segment \<noteq> [] \<and> segment \<noteq> ''..'' \<and> segment \<noteq> ''.''
      then sanitize_loop ((if result \<noteq> [] then result @ ''/'' else result) @ segment) segments
      else sanitize_loop result segments)"

definition sanitize_path :: "string \<Rightarrow> string" where
  "sanitize_path path =
     (case already_sanitized path of
        Some clean \<Rightarrow> clean
      | None \<Rightarrow> sanitize_loop [] (split_on CHR ''/'' path))"

text \<open>
  \<^verbatim>\<open>has_php_component\<close>: every dot is a candidate, the three bytes after it are
  compared with bit \<open>0x20\<close> forced on.
\<close>

definition byte :: "char \<Rightarrow> 8 word" where
  "byte c = of_char c"

fun php_dot_scan :: "string \<Rightarrow> bool" where
  "php_dot_scan [] = False"
| "php_dot_scan (b # rest) =
     (if b = CHR ''.'' then
        (if length rest < 3 then False
         else if byte (rest ! 0) OR 0x20 = byte (CHR ''p'') \<and>
                 byte (rest ! 1) OR 0x20 = byte (CHR ''h'') \<and>
                 byte (rest ! 2) OR 0x20 = byte (CHR ''p'') \<and>
                 (length rest = 3 \<or> rest ! 3 = CHR ''/'')
              then True
         else php_dot_scan rest)
      else php_dot_scan rest)"

definition has_php_component :: "string \<Rightarrow> bool" where
  "has_php_component sanitized = (if length sanitized < 4 then False else php_dot_scan sanitized)"

text \<open>\<^verbatim>\<open>str::rfind\<close> of a byte: what precedes its last occurrence and what follows.\<close>

definition rsplit_once :: "char \<Rightarrow> string \<Rightarrow> (string \<times> string) option" where
  "rsplit_once c s =
     (if c \<in> set s
      then Some (rev (tl (dropWhile (\<lambda>x. x \<noteq> c) (rev s))), rev (takeWhile (\<lambda>x. x \<noteq> c) (rev s)))
      else None)"

definition classify_uri_with_php :: "string \<Rightarrow> bool \<Rightarrow> UriKind" where
  "classify_uri_with_php sanitized has_php =
     (if has_php then Php
      else
        (let filename = (case rsplit_once CHR ''/'' sanitized of
                           Some (_, after) \<Rightarrow> after | None \<Rightarrow> sanitized) in
         if filename = [] then NoExtension
         else (case rsplit_once CHR ''.'' filename of
                 None \<Rightarrow> NoExtension
               | Some (stem, ext) \<Rightarrow>
                   if stem = [] then NoExtension
                   else if ext \<noteq> [] \<and> list_all is_alnum_byte ext then OtherExtension
                   else NoExtension)))"

section \<open>Paths of the standard library\<close>

text \<open>\<^verbatim>\<open>Path::join\<close>: an absolute argument replaces the base.\<close>

definition path_join :: "string \<Rightarrow> string \<Rightarrow> string" where
  "path_join base s =
     (if starts_with s ''/'' then s
      else if base = [] \<or> last base = CHR ''/'' then base @ s
      else base @ ''/'' @ s)"

datatype component = RootDir | CurDir | ParentDir | Normal string

definition skip_seg :: "string \<Rightarrow> bool" where
  "skip_seg s = (s = [] \<or> s = ''.'')"

definition seg_component :: "string \<Rightarrow> component" where
  "seg_component s = (if s = ''..'' then ParentDir else Normal s)"

definition body_components :: "string list \<Rightarrow> component list" where
  "body_components raw = map seg_component (filter (\<lambda>s. \<not> skip_seg s) raw)"

text \<open>The root or leading \<open>.\<close> of a path, and the raw segments after it.\<close>

definition path_front :: "string \<Rightarrow> component option \<times> string list" where
  "path_front p =
     (if starts_with p ''/'' then (Some RootDir, tl (split_on CHR ''/'' p))
      else if hd (split_on CHR ''/'' p) = ''.'' then (Some CurDir, tl (split_on CHR ''/'' p))
      else (None, split_on CHR ''/'' p))"

definition path_components :: "string \<Rightarrow> component list" where
  "path_components p =
     (case path_front p of (f, raw) \<Rightarrow>
        (case f of None \<Rightarrow> [] | Some c \<Rightarrow> [c]) @ body_components raw)"

text \<open>
  \<^verbatim>\<open>Path::strip_prefix\<close> compares components and returns the rest of the text
  with separators and \<open>.\<close> segments trimmed at both of its ends.
\<close>

fun consume :: "component list \<Rightarrow> string list \<Rightarrow> string list option" where
  "consume [] raw = Some raw"
| "consume (c # cs) [] = None"
| "consume (c # cs) (s # ss) =
     (if skip_seg s then consume (c # cs) ss
      else if seg_component s = c then consume cs ss
      else None)"

definition trim_right_segs :: "string list \<Rightarrow> string list" where
  "trim_right_segs raw = rev (dropWhile skip_seg (rev raw))"

definition path_strip_prefix :: "string \<Rightarrow> string \<Rightarrow> string option" where
  "path_strip_prefix p base =
     (case (path_front p, path_front base) of ((fp, rp), (fb, rb)) \<Rightarrow>
        if fb = None \<and> body_components rb = [] then
          Some (case fp of
                  None \<Rightarrow> join_with CHR ''/'' (trim_right_segs rp)
                | Some RootDir \<Rightarrow> CHR ''/'' # join_with CHR ''/'' (trim_right_segs rp)
                | Some _ \<Rightarrow> join_with CHR ''/'' (''.'' # trim_right_segs rp))
        else if fp \<noteq> fb then None
        else map_option (\<lambda>rest. join_with CHR ''/'' (trim_right_segs (dropWhile skip_seg rest)))
               (consume (body_components rb) rp))"

text \<open>\<^verbatim>\<open>Path::starts_with\<close>: a prefix of whole components.\<close>

definition path_starts_with :: "string \<Rightarrow> string \<Rightarrow> bool" where
  "path_starts_with p base = starts_with (path_components p) (path_components base)"

text \<open>\<^verbatim>\<open>Path::file_name\<close> and \<^verbatim>\<open>Path::extension\<close>.\<close>

definition path_file_name :: "string \<Rightarrow> string option" where
  "path_file_name p =
     (if path_components p = [] then None
      else (case last (path_components p) of Normal s \<Rightarrow> Some s | _ \<Rightarrow> None))"

definition path_extension :: "string \<Rightarrow> string option" where
  "path_extension p =
     (case path_file_name p of
        None \<Rightarrow> None
      | Some name \<Rightarrow>
          (case rsplit_once CHR ''.'' name of
             None \<Rightarrow> None
           | Some (stem, after) \<Rightarrow> if stem = [] then None else Some after))"

section \<open>The dot-segment screen\<close>

definition dot_seg :: "string \<Rightarrow> bool" where
  "dot_seg s = starts_with s ''.''"

definition segments :: "string \<Rightarrow> string list" where
  "segments p = filter (\<lambda>s. s \<noteq> []) (split_on CHR ''/'' p)"

lemma dot_seg_simps [simp]:
  "dot_seg [] = False" "dot_seg (c # s) = (c = CHR ''.'')"
  by (auto simp: dot_seg_def starts_with_def)

lemma blocked_walk_False: "blocked_walk False segs = (\<exists>s \<in> set segs. dot_seg s)"
  by (induction segs) (auto simp: dot_seg_def)

lemma blocked_walk_True:
  "[] \<notin> set segs \<Longrightarrow>
   (\<not> blocked_walk True segs) =
     ((\<forall>s \<in> set segs. \<not> dot_seg s) \<or>
      (\<exists>next rest. segs = ''.well-known'' # next # rest \<and> (\<forall>s \<in> set (next # rest). \<not> dot_seg s)))"
  by (cases segs) (auto simp: blocked_walk_False starts_with_def dot_seg_def split: list.splits)

lemma contains_blocked_iff:
  "(\<not> contains_blocked_dot_segment d) =
     ((\<forall>s \<in> set (segments d). \<not> dot_seg s) \<or>
      (\<exists>next rest. segments d = ''.well-known'' # next # rest \<and>
                   (\<forall>s \<in> set (next # rest). \<not> dot_seg s)))"
  unfolding contains_blocked_dot_segment_def segments_def
  by (rule blocked_walk_True) simp


lemma dot_marker_scan_clean:
  "\<not> dot_marker_scan p \<Longrightarrow>
     CHR ''%'' \<notin> set p \<and> (\<forall>s \<in> set (tl (split_on CHR ''/'' p)). \<not> dot_seg s)"
proof (induction p)
  case (Cons b rest)
  show ?case
  proof (cases "b = CHR ''/''")
    case True
    have "\<not> dot_seg (hd (split_on CHR ''/'' rest))"
      using Cons.prems True
      by (cases rest) (auto split: list.splits if_splits)
    then have "\<forall>s \<in> set (split_on CHR ''/'' rest). \<not> dot_seg s"
      using Cons True by (subst ball_split_on) (auto split: if_splits)
    with Cons True show ?thesis by (auto split: if_splits)
  next
    case False
    with Cons show ?thesis
      by (auto simp: split_on_Cons_neq simp del: split_on.simps split: if_splits)
  qed
qed simp

lemma markers_clean:
  assumes "\<not> has_dot_segment_markers p"
  shows "CHR ''%'' \<notin> set p" and "\<forall>s \<in> set (segments p). \<not> dot_seg s"
proof -
  have scan: "\<not> dot_marker_scan p" using assms
    by (cases p) (simp_all add: has_dot_segment_markers_def split: if_splits)
  then show "CHR ''%'' \<notin> set p" using dot_marker_scan_clean by blast
  have "\<not> dot_seg (hd (split_on CHR ''/'' p))"
    using assms by (cases p) (auto simp: has_dot_segment_markers_def split: list.splits if_splits)
  with dot_marker_scan_clean [OF scan]
  have "\<forall>s \<in> set (split_on CHR ''/'' p). \<not> dot_seg s" by (subst ball_split_on) simp
  then show "\<forall>s \<in> set (segments p). \<not> dot_seg s" by (simp add: segments_def)
qed

section \<open>Sanitizing\<close>

definition kept :: "string \<Rightarrow> bool" where
  "kept s = (s \<noteq> [] \<and> s \<noteq> ''..'' \<and> s \<noteq> ''.'')"

lemma sanitize_loop_join:
  "result \<noteq> [] \<Longrightarrow>
     sanitize_loop result segs = join_with CHR ''/'' (result # filter kept segs)"
proof (induction segs arbitrary: result)
  case (Cons s segs)
  show ?case
  proof (cases "kept s")
    case True
    then have "sanitize_loop result (s # segs) =
        join_with CHR ''/'' ((result @ CHR ''/'' # s) # filter kept segs)"
      using Cons by (simp add: kept_def [of s])
    with True show ?thesis by (cases "filter kept segs") auto
  qed (use Cons in \<open>auto simp: kept_def [of s]\<close>)
qed simp

lemma sanitize_loop_spec: "sanitize_loop [] segs = join_with CHR ''/'' (filter kept segs)"
proof (induction segs)
  case (Cons s segs)
  then show ?case by (cases "kept s") (auto simp: sanitize_loop_join kept_def [of s])
qed simp

lemma already_scan_kept:
  "already_scan at bs \<Longrightarrow> (bs \<noteq> [] \<longrightarrow> last bs \<noteq> CHR ''/'') \<Longrightarrow>
     (\<forall>s \<in> set (tl (split_on CHR ''/'' bs)). kept s) \<and>
     (at \<longrightarrow> bs \<noteq> [] \<longrightarrow> kept (hd (split_on CHR ''/'' bs)))"
proof (induction at bs rule: already_scan.induct)
  case (2 at b rest)
  show ?case
  proof (cases "b = CHR ''/''")
    case True
    with "2.prems" have r: "rest \<noteq> []" "\<not> at" "already_scan True rest" by (auto split: if_splits)
    with 2 True have "kept (hd (split_on CHR ''/'' rest))"
      "\<forall>s \<in> set (tl (split_on CHR ''/'' rest)). kept s" by auto
    then have "\<forall>s \<in> set (split_on CHR ''/'' rest). kept s"
      by (subst ball_split_on) simp
    with True r show ?thesis by simp
  next
    case False
    with "2.prems" have "already_scan False rest" by (auto split: if_splits)
    with 2 False have tl: "\<forall>s \<in> set (tl (split_on CHR ''/'' rest)). kept s"
      by (auto split: if_splits)
    have "at \<Longrightarrow> kept (b # hd (split_on CHR ''/'' rest))"
      using "2.prems" False
      by (auto simp: kept_def split: list.splits if_splits)
    with tl False show ?thesis by (simp add: split_on_Cons_neq del: split_on.simps)
  qed
qed simp

lemma already_sanitized_Some:
  assumes "already_sanitized path = Some clean"
  shows "path = CHR ''/'' # clean \<and> (\<forall>s \<in> set (split_on CHR ''/'' clean). kept s)"
proof -
  from assms obtain b r where path: "path = CHR ''/'' # b # r" "clean = b # r"
    and scan: "already_scan True clean" and last: "last clean \<noteq> CHR ''/''"
    by (cases path; cases "tl path") (auto simp: already_sanitized_def split: if_splits)
  from already_scan_kept [OF scan] last path
  have "\<forall>s \<in> set (split_on CHR ''/'' clean). kept s"
    by (subst ball_split_on) blast
  with path show ?thesis by simp
qed

text \<open>The reference definition: keep the segments that are neither empty nor dots.\<close>

lemma sanitize_path_spec:
  "sanitize_path path = join_with CHR ''/'' (filter kept (split_on CHR ''/'' path))"
proof (cases "already_sanitized path")
  case None
  then show ?thesis by (simp add: sanitize_path_def sanitize_loop_spec)
next
  case (Some clean)
  with already_sanitized_Some have path: "path = CHR ''/'' # clean"
    and "\<forall>s \<in> set (split_on CHR ''/'' clean). kept s" by auto
  then have "filter kept (split_on CHR ''/'' path) = split_on CHR ''/'' clean"
    by (simp add: kept_def)
  with Some show ?thesis by (simp add: sanitize_path_def)
qed

lemma filter_kept_no_sep: "\<forall>s \<in> set (filter kept (split_on c p)). c \<notin> set s"
  by (auto dest: split_on_segments)

lemma sanitize_path_segments:
  "split_on CHR ''/'' (sanitize_path p) =
     (if sanitize_path p = [] then [[]] else filter kept (split_on CHR ''/'' p))"
proof (cases "filter kept (split_on CHR ''/'' p) = []")
  case False
  moreover have "sanitize_path p \<noteq> []"
    using False unfolding sanitize_path_spec
    by (subst join_with_eq_Nil) (auto simp: kept_def)
  ultimately show ?thesis
    using split_join [OF False filter_kept_no_sep] by (simp add: sanitize_path_spec)
qed (simp add: sanitize_path_spec)

lemma sanitize_path_kept:
  "sanitize_path p \<noteq> [] \<Longrightarrow> s \<in> set (split_on CHR ''/'' (sanitize_path p)) \<Longrightarrow> kept s"
  by (simp add: sanitize_path_segments)

lemma sanitize_path_idem: "sanitize_path (sanitize_path p) = sanitize_path p"
proof (cases "sanitize_path p = []")
  case True
  then show ?thesis by (simp add: sanitize_path_spec [of "[]"] kept_def)
next
  case False
  then show ?thesis
    by (simp add: sanitize_path_spec [of "sanitize_path p"] sanitize_path_segments)
       (simp add: sanitize_path_spec)
qed

lemma sanitize_path_relative: "\<not> starts_with (sanitize_path p) ''/''"
proof
  assume a: "starts_with (sanitize_path p) ''/''"
  then obtain r where r: "sanitize_path p = CHR ''/'' # r" by (auto simp: starts_with_iff)
  then have "[] \<in> set (split_on CHR ''/'' (sanitize_path p))" by simp
  with sanitize_path_kept r show False by (metis kept_def list.distinct(1))
qed


section \<open>The search for a PHP component\<close>

lemma byte_or_p: "byte c OR 0x20 = byte (CHR ''p'') \<longleftrightarrow> lower_byte c = CHR ''p''"
  unfolding byte_def lower_byte_def is_upper_byte_def
  by (cases c; rename_tac b0 b1 b2 b3 b4 b5 b6 b7; case_tac b0; case_tac b1; case_tac b2;
      case_tac b3; case_tac b4; case_tac b5; case_tac b6; case_tac b7; simp add: char_of_def bit_0)

lemma byte_or_h: "byte c OR 0x20 = byte (CHR ''h'') \<longleftrightarrow> lower_byte c = CHR ''h''"
  unfolding byte_def lower_byte_def is_upper_byte_def
  by (cases c; rename_tac b0 b1 b2 b3 b4 b5 b6 b7; case_tac b0; case_tac b1; case_tac b2;
      case_tac b3; case_tac b4; case_tac b5; case_tac b6; case_tac b7; simp add: char_of_def bit_0)


lemma lower_slash [simp]: "lower_byte CHR ''/'' = CHR ''/''"
  by (simp add: lower_byte_def is_upper_byte_def)

lemma lower_dot_iff [simp]: "lower_byte c = CHR ''.'' \<longleftrightarrow> c = CHR ''.''"
  unfolding lower_byte_def is_upper_byte_def
  by (cases c; rename_tac b0 b1 b2 b3 b4 b5 b6 b7; case_tac b0; case_tac b1; case_tac b2;
      case_tac b3; case_tac b4; case_tac b5; case_tac b6; case_tac b7; simp add: char_of_def bit_0)

definition php_at :: "string \<Rightarrow> string \<Rightarrow> bool" where
  "php_at t post = (lower_str t = ''.php'' \<and> (post = [] \<or> hd post = CHR ''/''))"

lemma lower_str_php:
  "lower_str t = ''.php'' \<longleftrightarrow>
     (\<exists>p h q. t = [CHR ''.'', p, h, q] \<and> lower_byte p = CHR ''p'' \<and> lower_byte h = CHR ''h'' \<and>
              lower_byte q = CHR ''p'')"
  by (auto simp: lower_str_def map_eq_Cons_conv)

lemma php_dot_scan_iff:
  "php_dot_scan s \<longleftrightarrow> (\<exists>pre t post. s = pre @ t @ post \<and> php_at t post)"
proof (induction s)
  case Nil
  show ?case by (auto simp: php_at_def lower_str_def)
next
  case (Cons b rest)
  have step: "(\<exists>pre t post. b # rest = pre @ t @ post \<and> php_at t post) \<longleftrightarrow>
      (\<exists>t post. b # rest = t @ post \<and> php_at t post) \<or>
      (\<exists>pre t post. rest = pre @ t @ post \<and> php_at t post)" (is "?L \<longleftrightarrow> ?H \<or> ?T")
  proof
    assume ?L
    then obtain pre t post where s: "b # rest = pre @ t @ post" and p: "php_at t post" by blast
    show "?H \<or> ?T"
    proof (cases pre)
      case Nil
      with s p show ?thesis by auto
    next
      case (Cons x xs)
      with s have "rest = xs @ t @ post" by simp
      with p show ?thesis by blast
    qed
  next
    assume "?H \<or> ?T"
    then show ?L
    proof
      assume ?H
      then obtain t post where "b # rest = [] @ t @ post" "php_at t post" by auto
      then show ?L by blast
    next
      assume ?T
      then obtain pre t post where "b # rest = (b # pre) @ t @ post" "php_at t post" by auto
      then show ?L by blast
    qed
  qed
  have "(\<exists>t post. b # rest = t @ post \<and> php_at t post) \<longleftrightarrow>
      b = CHR ''.'' \<and> \<not> length rest < 3 \<and>
      byte (rest ! 0) OR 0x20 = byte (CHR ''p'') \<and>
      byte (rest ! 1) OR 0x20 = byte (CHR ''h'') \<and>
      byte (rest ! 2) OR 0x20 = byte (CHR ''p'') \<and>
      (length rest = 3 \<or> rest ! 3 = CHR ''/'')" (is "?A \<longleftrightarrow> ?B")
  proof
    assume ?A
    then show ?B
      by (auto simp: php_at_def lower_str_php byte_or_p byte_or_h) (metis hd_conv_nth)
  next
    assume B: ?B
    then obtain p h q post where "rest = p # h # q # post"
      by (cases rest; cases "tl rest"; cases "tl (tl rest)") auto
    with B show ?A
      by (intro exI [of _ "[b, p, h, q]"] exI [of _ post])
         (cases post; auto simp: php_at_def lower_str_php byte_or_p byte_or_h)
  qed
  note head = this
  have short: "length rest < 3 \<Longrightarrow> \<not> php_dot_scan rest" unfolding Cons.IH
    by (auto simp: php_at_def lower_str_php)
  have main: "php_dot_scan (b # rest) \<longleftrightarrow>
      (\<exists>t post. b # rest = t @ post \<and> php_at t post) \<or> php_dot_scan rest"
    unfolding head using short by (cases "length rest < 3") (simp_all, blast)
  show ?case unfolding step main Cons.IH ..
qed

lemma has_php_component_iff:
  "has_php_component s \<longleftrightarrow> (\<exists>seg \<in> set (split_on CHR ''/'' s). ends_with (lower_str seg) ''.php'')"
proof -
  have scan: "has_php_component s = php_dot_scan s"
    by (auto simp: has_php_component_def php_dot_scan_iff php_at_def lower_str_php)
  show ?thesis unfolding scan php_dot_scan_iff
  proof
    assume "\<exists>pre t post. s = pre @ t @ post \<and> php_at t post"
    then obtain pre t post where s: "s = pre @ t @ post" and p: "php_at t post" by blast
    obtain a m where m: "pre = a @ m" "a = [] \<or> last a = CHR ''/''" "CHR ''/'' \<notin> set m"
      using last_segment [of pre "CHR ''/''"] by blast
    have "CHR ''/'' \<notin> set t" using p by (auto simp: php_at_def lower_str_php)
    with m have "CHR ''/'' \<notin> set (m @ t)" by simp
    moreover have "s = a @ (m @ t) @ post" using s m by simp
    ultimately have "m @ t \<in> set (split_on CHR ''/'' s)"
      unfolding in_split_on_iff using m(2) p php_at_def by blast
    moreover have "ends_with (lower_str (m @ t)) ''.php''"
      using p by (simp add: php_at_def)
    ultimately show "\<exists>seg \<in> set (split_on CHR ''/'' s). ends_with (lower_str seg) ''.php''" by blast
  next
    assume "\<exists>seg \<in> set (split_on CHR ''/'' s). ends_with (lower_str seg) ''.php''"
    then obtain seg where "seg \<in> set (split_on CHR ''/'' s)" and e: "ends_with (lower_str seg) ''.php''"
      by blast
    then obtain a b where seg: "s = a @ seg @ b" "b = [] \<or> hd b = CHR ''/''"
      unfolding in_split_on_iff by blast
    from e obtain r where r: "lower_str seg = r @ ''.php''" by (auto simp: ends_with_iff)
    then obtain m t where mt: "seg = m @ t" "lower_str t = ''.php''"
      unfolding lower_str_def by (auto simp: map_eq_append_conv)
    then have "s = (a @ m) @ t @ b" "php_at t b" using seg by (simp_all add: php_at_def)
    then show "\<exists>pre t post. s = pre @ t @ post \<and> php_at t post" by blast
  qed
qed


section \<open>Joining and stripping the document root\<close>

lemma trim_right_segs_id: "ss \<noteq> [] \<Longrightarrow> \<not> skip_seg (last ss) \<Longrightarrow> trim_right_segs ss = ss"
  by (induction ss rule: rev_induct) (auto simp: trim_right_segs_def)

lemma consume_body:
  "\<exists>k. consume (body_components xs) (xs @ ys) = Some (k @ ys) \<and> list_all skip_seg k"
proof (induction xs)
  case (Cons x xs)
  show ?case
  proof (cases "skip_seg x")
    case True
    then have b: "body_components (x # xs) = body_components xs" by (simp add: body_components_def)
    show ?thesis
    proof (cases "body_components xs")
      case Nil
      then have "list_all skip_seg xs"
        by (auto simp: body_components_def list_all_iff filter_empty_conv)
      with b Nil True show ?thesis by (intro exI [of _ "x # xs"]) simp
    next
      case (Cons c cs)
      with b True Cons.IH show ?thesis by simp
    qed
  qed (use Cons.IH in \<open>simp add: body_components_def\<close>)
qed (simp add: body_components_def)

lemma dropWhile_skip_prefix: "list_all P k \<Longrightarrow> dropWhile P (k @ ys) = dropWhile P ys"
  by (induction k) auto

lemma path_front_append:
  assumes "base \<noteq> []"
  shows "path_front (base @ CHR ''/'' # s) =
      (fst (path_front base), snd (path_front base) @ split_on CHR ''/'' s)"
proof -
  have "split_on CHR ''/'' (base @ CHR ''/'' # s) =
      split_on CHR ''/'' base @ split_on CHR ''/'' s" by (simp add: split_on_append)
  moreover have "starts_with (base @ CHR ''/'' # s) ''/'' = starts_with base ''/''"
    using assms by (cases base) (auto simp: starts_with_def)
  ultimately show ?thesis
    by (simp add: path_front_def hd_append tl_append split: list.splits)
qed

lemma path_front_snoc_sep:
  assumes "base \<noteq> []"
  shows "path_front (base @ ''/'') = (fst (path_front base), snd (path_front base) @ [[]])"
  using path_front_append [OF assms, of "[]"] by simp

definition clean_rel :: "string \<Rightarrow> bool" where
  "clean_rel s = (s \<noteq> [] \<and> (\<forall>g \<in> set (split_on CHR ''/'' s). kept g))"

lemma clean_rel_ends:
  assumes "clean_rel s"
  shows "\<not> skip_seg (hd (split_on CHR ''/'' s))" "\<not> skip_seg (last (split_on CHR ''/'' s))"
    "\<not> starts_with s ''/''"
proof -
  have k: "kept (hd (split_on CHR ''/'' s))" "kept (last (split_on CHR ''/'' s))"
    using assms by (simp_all add: clean_rel_def)
  then show "\<not> skip_seg (hd (split_on CHR ''/'' s))" "\<not> skip_seg (last (split_on CHR ''/'' s))"
    by (simp_all add: skip_seg_def kept_def)
  show "\<not> starts_with s ''/''"
    using k(1) by (cases s) (auto simp: starts_with_def kept_def)
qed

lemma front_no_body:
  assumes "base \<noteq> []" "path_front base = (None, raw)"
  shows "body_components raw \<noteq> []"
proof -
  have raw: "raw = split_on CHR ''/'' base" "\<not> starts_with base ''/''" "hd raw \<noteq> ''.''"
    using assms by (auto simp: path_front_def split: if_splits)
  then have "hd raw \<noteq> []"
    using assms(1) by (cases base) (auto simp: starts_with_def split: list.splits)
  with raw have "hd raw \<in> set raw" "\<not> skip_seg (hd raw)" by (simp_all add: skip_seg_def)
  then show ?thesis by (auto simp: body_components_def filter_empty_conv)
qed

lemma trim_clean:
  assumes "clean_rel s" "list_all skip_seg k"
  shows "join_with CHR ''/'' (trim_right_segs (dropWhile skip_seg (k @ split_on CHR ''/'' s))) = s"
proof -
  have "dropWhile skip_seg (k @ split_on CHR ''/'' s) = split_on CHR ''/'' s"
    using assms(2) clean_rel_ends(1) [OF assms(1)]
    by (cases "split_on CHR ''/'' s") (auto simp: dropWhile_skip_prefix)
  then show ?thesis
    using clean_rel_ends(2) [OF assms(1)] by (simp add: trim_right_segs_id)
qed

lemma strip_prefix_at_sep:
  assumes s: "clean_rel s" and r: "r \<noteq> []" and base: "base = r \<or> base = r @ ''/''"
  shows "path_strip_prefix (r @ CHR ''/'' # s) base = Some s"
proof -
  obtain f raw where fr: "path_front r = (f, raw)" by fastforce
  obtain rb where fb: "path_front base = (f, rb)" and rb: "body_components rb = body_components raw"
    using base fr path_front_snoc_sep [OF r] by (auto simp: body_components_def skip_seg_def)
  have "\<not> (f = None \<and> body_components raw = [])"
    using front_no_body [OF r] fr by auto
  moreover obtain k where "consume (body_components raw) (raw @ split_on CHR ''/'' s)
      = Some (k @ split_on CHR ''/'' s)" "list_all skip_seg k"
    using consume_body by blast
  ultimately show ?thesis
    using path_front_append [OF r, of s] fr fb rb trim_clean [OF s]
    by (auto simp: path_strip_prefix_def)
qed

text \<open>Stripping the document root off a joined path gives the joined part back.\<close>

lemma path_strip_prefix_join:
  assumes s: "clean_rel s"
  shows "path_strip_prefix (path_join root s) root = Some s"
proof -
  have front: "path_front s = (None, split_on CHR ''/'' s)"
    using clean_rel_ends [OF s] by (simp add: path_front_def skip_seg_def)
  consider "root = []" | "root = ''/''" | r where "r \<noteq> []" "root = r @ ''/''"
    | "root \<noteq> []" "last root \<noteq> CHR ''/''"
    by (cases root rule: rev_cases) auto
  then show ?thesis
  proof cases
    case 1
    then show ?thesis
      using clean_rel_ends [OF s] front
      by (simp add: path_join_def path_strip_prefix_def path_front_def body_components_def
          skip_seg_def starts_with_def trim_right_segs_id [unfolded skip_seg_def])
  next
    case 2
    then show ?thesis
      using clean_rel_ends [OF s] trim_clean [OF s, of "[]"]
      by (simp add: path_join_def path_strip_prefix_def path_front_def body_components_def
          skip_seg_def starts_with_def)
  next
    case 3
    then show ?thesis
      using clean_rel_ends(3) [OF s] strip_prefix_at_sep [OF s 3(1), of root]
      by (simp add: path_join_def)
  next
    case 4
    then show ?thesis
      using clean_rel_ends(3) [OF s] strip_prefix_at_sep [OF s 4(1), of root]
      by (simp add: path_join_def)
  qed
qed

lemma sanitize_clean_rel: "sanitize_path p \<noteq> [] \<Longrightarrow> clean_rel (sanitize_path p)"
  by (simp add: clean_rel_def sanitize_path_kept)



section \<open>Properties\<close>

text \<open>
  C8.  The sanitizer with its borrow shortcut computes the reference: the segments
  that are neither empty nor dots, joined again.  The result is a fixed point and
  never absolute, so joining it to the document root cannot leave the root.
\<close>

theorem sanitize_path_reference:
  "sanitize_path p = join_with CHR ''/'' (filter kept (split_on CHR ''/'' p)) \<and>
   sanitize_path (sanitize_path p) = sanitize_path p \<and>
   \<not> starts_with (sanitize_path p) ''/''"
  by (simp add: sanitize_path_idem sanitize_path_relative) (rule sanitize_path_spec)

text \<open>
  The byte scan for a PHP component finds exactly the paths that have a
  segment ending in \<open>.php\<close>, in any letter case.
\<close>

lemma has_php_component_segments:
  "has_php_component s = list_ex (\<lambda>seg. ends_with (lower_str seg) ''.php'') (split_on CHR ''/'' s)"
  by (simp add: has_php_component_iff list_ex_iff)

end
