(* ===== verification/Php_Deny.thy ===== *)
theory Php_Deny
  imports Uri_Path
begin

text \<open>
  The execution deny list \<^verbatim>\<open>PHP_DENY_PATHS\<close> of \<^verbatim>\<open>src/config/php_deny.rs\<close>, with the
  routing-mode choice and the deny fallback it shares with \<^verbatim>\<open>.oxphpdeny\<close>, and the
  glob-list compiler of \<^verbatim>\<open>src/config/mod.rs\<close>.  Environment variables are arguments
  (\<open>None\<close> when unset); \<open>canonicalize\<close> is the operating system's path resolution
  (\<open>None\<close> on failure); \<open>glob_list\<close> is what the code asks of a \<^verbatim>\<open>globset::GlobSet\<close>.
\<close>

section \<open>Definitions\<close>

datatype RoutingModeKind = Traditional | Framework | Spa | Worker

datatype DenyFallback = Status (fb_code: nat) | Script (fb_path: string) (fb_uri: string)

datatype DenySource = PhpDenyPaths | DenyFileRule

record DeniedMeta =
  dm_path :: string
  dm_pattern :: string
  dm_fallback_script_uri :: string
  dm_source :: DenySource

datatype config_error =
    BadGlob
  | FallbackEmpty | FallbackStatusRange nat | FallbackNotAPath
  | FallbackMissing | RootMissing | FallbackEscapes | FallbackSelfDenied string
  | SymlinkBlacklisted string | SymlinkMissing string

record 'g glob_list =
  gl_build :: "string list \<Rightarrow> 'g option"
  gl_is_match :: "'g \<Rightarrow> string \<Rightarrow> bool"
  gl_matches :: "'g \<Rightarrow> string \<Rightarrow> nat list"

text \<open>Documented behaviour: \<^verbatim>\<open>matches\<close> lists the indices of the globs that match.\<close>

definition gl_laws :: "'g glob_list \<Rightarrow> bool" where
  "gl_laws gl \<longleftrightarrow>
     (\<forall>ps g s. gl_build gl ps = Some g \<longrightarrow>
        gl_is_match gl g s = (gl_matches gl g s \<noteq> []) \<and>
        (\<forall>i \<in> set (gl_matches gl g s). i < length ps))"

record 'g php_deny =
  pd_matcher :: 'g
  pd_patterns :: "string list"
  pd_fallback :: DenyFallback

definition RoutingModeKind_resolve :: "string option \<Rightarrow> bool \<Rightarrow> RoutingModeKind" where
  "RoutingModeKind_resolve entry_file worker_mode_enabled =
     (if worker_mode_enabled then Worker
      else
        (let ext = (case entry_file of
                      None \<Rightarrow> None
                    | Some p \<Rightarrow>
                        (case path_file_name p of
                           None \<Rightarrow> None
                         | Some name \<Rightarrow>
                             if \<not> utf8_valid name then None
                             else (case path_extension p of
                                     None \<Rightarrow> None
                                   | Some e \<Rightarrow> if utf8_valid e then Some e else None))) in
         case ext of
           None \<Rightarrow> Traditional
         | Some e \<Rightarrow> if eq_ignore_case e ''php'' then Framework else Spa))"

definition compile_glob_csv :: "'g glob_list \<Rightarrow> string \<Rightarrow> config_error + ('g \<times> string list) option" where
  "compile_glob_csv gl raw =
     (let patterns = map (\<lambda>p. case strip_prefix p ''/'' of Some r \<Rightarrow> r | None \<Rightarrow> p)
                       (filter (\<lambda>p. p \<noteq> []) (map str_trim (split_on CHR '','' raw))) in
      if patterns = [] then Inr None
      else (case gl_build gl patterns of
              None \<Rightarrow> Inl BadGlob
            | Some globs \<Rightarrow> Inr (Some (globs, patterns))))"

definition parse_fallback :: "(string \<Rightarrow> string option) \<Rightarrow> string \<Rightarrow> string \<Rightarrow> config_error + DenyFallback" where
  "parse_fallback canonicalize raw0 document_root =
     (let raw = str_trim raw0 in
      if raw = [] then Inl FallbackEmpty
      else (case parse_uint 65535 raw of
              Some code \<Rightarrow>
                if \<not> (400 \<le> code \<and> code \<le> 599) then Inl (FallbackStatusRange code)
                else Inr (Status code)
            | None \<Rightarrow>
                if \<not> starts_with raw ''/'' then Inl FallbackNotAPath
                else
                  (let rel = dropWhile (\<lambda>c. c = CHR ''/'') raw;
                       fs_path = path_join document_root rel in
                   case canonicalize fs_path of
                     None \<Rightarrow> Inl FallbackMissing
                   | Some canonical \<Rightarrow>
                       (case canonicalize document_root of
                          None \<Rightarrow> Inl RootMissing
                        | Some canonical_root \<Rightarrow>
                            if \<not> path_starts_with canonical canonical_root then Inl FallbackEscapes
                            else
                              (let fallback_rel = (case path_strip_prefix canonical canonical_root of
                                                     Some r \<Rightarrow> r | None \<Rightarrow> canonical) in
                               Inr (Script canonical
                                      (CHR ''/'' # dropWhile (\<lambda>c. c = CHR ''/'') fallback_rel)))))))"

definition deny_fallback_from_env :: "(string \<Rightarrow> string option) \<Rightarrow> string option \<Rightarrow> string
    \<Rightarrow> config_error + DenyFallback" where
  "deny_fallback_from_env canonicalize env document_root =
     parse_fallback canonicalize (case env of Some v \<Rightarrow> v | None \<Rightarrow> ''404'') document_root"

definition reject_self_denied :: "'g glob_list \<Rightarrow> DenyFallback \<Rightarrow> 'g \<Rightarrow> string list \<Rightarrow> config_error + unit" where
  "reject_self_denied gl fallback matcher patterns =
     (case fallback of
        Status _ \<Rightarrow> Inr ()
      | Script _ uri \<Rightarrow>
          (let rel = dropWhile (\<lambda>c. c = CHR ''/'') uri in
           case gl_matches gl matcher rel of
             [] \<Rightarrow> Inr ()
           | i # _ \<Rightarrow> Inl (FallbackSelfDenied (patterns ! i))))"

definition PhpDeny_from_env :: "'g glob_list \<Rightarrow> (string \<Rightarrow> string option) \<Rightarrow> string option
    \<Rightarrow> string option \<Rightarrow> string \<Rightarrow> RoutingModeKind \<Rightarrow> config_error + 'g php_deny option" where
  "PhpDeny_from_env gl canonicalize env_paths env_fallback document_root mode =
     (let raw = str_trim (case env_paths of Some v \<Rightarrow> v | None \<Rightarrow> []) in
      if raw = [] then Inr None
      else if mode = Framework \<or> mode = Worker then Inr None
      else (case compile_glob_csv gl raw of
              Inl e \<Rightarrow> Inl e
            | Inr None \<Rightarrow> Inr None
            | Inr (Some (matcher, patterns)) \<Rightarrow>
                (case deny_fallback_from_env canonicalize env_fallback document_root of
                   Inl e \<Rightarrow> Inl e
                 | Inr fallback \<Rightarrow>
                     (case reject_self_denied gl fallback matcher patterns of
                        Inl e \<Rightarrow> Inl e
                      | Inr _ \<Rightarrow> Inr (Some \<lparr>pd_matcher = matcher, pd_patterns = patterns,
                                              pd_fallback = fallback\<rparr>)))))"

text \<open>\<^verbatim>\<open>PhpDeny::matches\<close>: the first matching pattern.\<close>

definition PhpDeny_matches :: "'g glob_list \<Rightarrow> 'g php_deny \<Rightarrow> string \<Rightarrow> string option" where
  "PhpDeny_matches gl deny sanitized =
     (if \<not> gl_is_match gl (pd_matcher deny) sanitized then None
      else (case gl_matches gl (pd_matcher deny) sanitized of
              [] \<Rightarrow> None
            | i # _ \<Rightarrow> Some (pd_patterns deny ! i)))"

section \<open>Properties\<close>

text \<open>A deny list as the environment builds it.\<close>

definition php_deny_wf :: "'g glob_list \<Rightarrow> 'g php_deny \<Rightarrow> bool" where
  "php_deny_wf gl d \<longleftrightarrow>
     gl_build gl (pd_patterns d) = Some (pd_matcher d) \<and> pd_patterns d \<noteq> [] \<and>
     (case pd_fallback d of
        Status code \<Rightarrow> 400 \<le> code \<and> code \<le> 599
      | Script path uri \<Rightarrow>
          starts_with uri ''/'' \<and> PhpDeny_matches gl d (dropWhile (\<lambda>c. c = CHR ''/'') uri) = None)"

lemma parse_fallback_Status:
  "parse_fallback canonicalize raw root = Inr (Status code) \<Longrightarrow> 400 \<le> code \<and> code \<le> 599"
  by (auto simp: parse_fallback_def Let_def split: if_splits option.splits)

lemma parse_fallback_Script:
  "parse_fallback canonicalize raw root = Inr (Script p u) \<Longrightarrow>
     starts_with u ''/'' \<and> (\<exists>croot. canonicalize root = Some croot \<and> path_starts_with p croot)"
  by (auto simp: parse_fallback_def Let_def starts_with_def split: if_splits option.splits)

lemma compile_glob_csv_Some:
  "compile_glob_csv gl raw = Inr (Some (g, ps)) \<Longrightarrow> gl_build gl ps = Some g \<and> ps \<noteq> []"
  by (auto simp: compile_glob_csv_def Let_def split: if_splits option.splits)

lemma PhpDeny_from_env_wf:
  assumes "PhpDeny_from_env gl canonicalize env_paths env_fallback root mode = Inr (Some d)"
  shows "php_deny_wf gl d"
proof -
  obtain raw matcher patterns fallback where
    c: "compile_glob_csv gl raw = Inr (Some (matcher, patterns))" and
    f: "deny_fallback_from_env canonicalize env_fallback root = Inr fallback" and
    r: "reject_self_denied gl fallback matcher patterns = Inr ()" and
    d: "d = \<lparr>pd_matcher = matcher, pd_patterns = patterns, pd_fallback = fallback\<rparr>"
    using assms
    by (auto simp: PhpDeny_from_env_def Let_def split: if_splits sum.splits option.splits)
  show ?thesis
    using compile_glob_csv_Some [OF c] f r d
      parse_fallback_Status [of canonicalize] parse_fallback_Script [of canonicalize]
    by (auto simp: php_deny_wf_def deny_fallback_from_env_def reject_self_denied_def
        PhpDeny_matches_def Let_def split: DenyFallback.splits list.splits)
qed

lemma PhpDeny_from_env_mode:
  "PhpDeny_from_env gl canonicalize env_paths env_fallback root mode = Inr (Some d) \<Longrightarrow>
     mode = Traditional \<or> mode = Spa"
  by (cases mode) (auto simp: PhpDeny_from_env_def Let_def split: if_splits)

lemma PhpDeny_matches_iff:
  "gl_laws gl \<Longrightarrow> php_deny_wf gl d \<Longrightarrow>
     (PhpDeny_matches gl d s \<noteq> None) = gl_is_match gl (pd_matcher d) s"
  by (auto simp: PhpDeny_matches_def gl_laws_def php_deny_wf_def split: list.splits)


text \<open>
  The deny list cannot deny its own fallback, and a status fallback is a client
  or server error: what the environment parses to is well formed.
\<close>

lemma php_deny_fallback_sound:
  assumes "PhpDeny_from_env gl canonicalize env_paths env_fallback root mode = Inr (Some d)"
  shows "(mode = Traditional \<or> mode = Spa) \<and>
     (case pd_fallback d of
        Status code \<Rightarrow> 400 \<le> code \<and> code \<le> 599
      | Script path uri \<Rightarrow> PhpDeny_matches gl d (dropWhile (\<lambda>c. c = CHR ''/'') uri) = None)"
  using PhpDeny_from_env_wf [OF assms] PhpDeny_from_env_mode [OF assms]
  by (auto simp: php_deny_wf_def split: DenyFallback.splits)

definition lit_glob_list :: "string list glob_list" where
  "lit_glob_list = \<lparr>gl_build = (\<lambda>ps. Some ps), gl_is_match = (\<lambda>g s. s \<in> set g),
     gl_matches = (\<lambda>g s. filter (\<lambda>i. g ! i = s) [0..<length g])\<rparr>"

lemma php_deny_fallback_sound_witness:
  "(Traditional = Traditional \<or> Traditional = Spa) \<and>
     (case pd_fallback \<lparr>pd_matcher = [''up/x.php''], pd_patterns = [''up/x.php''],
                        pd_fallback = Script ''/srv/denied.php'' ''/denied.php''\<rparr> of
        Status code \<Rightarrow> 400 \<le> code \<and> code \<le> 599
      | Script path uri \<Rightarrow>
          PhpDeny_matches lit_glob_list \<lparr>pd_matcher = [''up/x.php''], pd_patterns = [''up/x.php''],
              pd_fallback = Script ''/srv/denied.php'' ''/denied.php''\<rparr>
            (dropWhile (\<lambda>c. c = CHR ''/'') uri) = None)"
  by (rule php_deny_fallback_sound [of _ "\<lambda>p. Some p" "Some ''/up/x.php''" "Some ''/denied.php''" "''/srv''"])
     code_simp

end
