(* ===== verification/Path_Policy.thy ===== *)
theory Path_Policy
  imports Php_Deny
begin

text \<open>
  Where files may be served from: the symlink allow list of
  \<^verbatim>\<open>src/config/symlink_allow.rs\<close> and the location checks of
  \<^verbatim>\<open>src/path_guard.rs\<close>.  What the operating system answers (path resolution, the
  opened descriptor's paths, inode numbers) is an argument of the definitions.
\<close>

section \<open>Definitions\<close>

definition BLACKLIST_EXACT :: "string list" where
  "BLACKLIST_EXACT =
     [''/'', ''/etc'', ''/proc'', ''/sys'', ''/dev'', ''/var'', ''/home'', ''/tmp'', ''/root'', ''/usr'', ''/srv'']"

definition BLACKLIST_PREFIXES :: "string list" where
  "BLACKLIST_PREFIXES = [''/etc'', ''/proc'', ''/sys'', ''/dev'', ''/tmp'', ''/root'', ''/usr'']"

definition reject_blacklist :: "string \<Rightarrow> string \<Rightarrow> config_error + unit" where
  "reject_blacklist path raw_entry =
     (if list_ex (\<lambda>exact. path = exact) BLACKLIST_EXACT then Inl (SymlinkBlacklisted raw_entry)
      else if list_ex (\<lambda>prefix. starts_with path (prefix @ ''/'')) BLACKLIST_PREFIXES
        then Inl (SymlinkBlacklisted raw_entry)
      else Inr ())"

text \<open>One entry of \<^verbatim>\<open>SYMLINK_ALLOW_PATHS\<close>, and the loop over the comma-separated parts.\<close>

definition allow_entry :: "(string \<Rightarrow> string option) \<Rightarrow> string \<Rightarrow> string \<Rightarrow> config_error + string" where
  "allow_entry canonicalize canonical_root raw_entry =
     (case (if starts_with raw_entry ''/''
            then map_sum id (\<lambda>_. raw_entry) (reject_blacklist raw_entry raw_entry)
            else Inr (path_join canonical_root raw_entry)) of
        Inl e \<Rightarrow> Inl e
      | Inr lookup_path \<Rightarrow>
          (case canonicalize lookup_path of
             None \<Rightarrow> Inl (SymlinkMissing raw_entry)
           | Some canonical \<Rightarrow>
               (case reject_blacklist canonical raw_entry of
                  Inl e \<Rightarrow> Inl e
                | Inr _ \<Rightarrow> Inr canonical)))"

text \<open>Equality of paths is equality of their components.\<close>

definition path_eq :: "string \<Rightarrow> string \<Rightarrow> bool" where
  "path_eq p q = (path_components p = path_components q)"

fun allow_entries :: "(string \<Rightarrow> string option) \<Rightarrow> string \<Rightarrow> string list \<Rightarrow> string list
    \<Rightarrow> config_error + string list" where
  "allow_entries canonicalize canonical_root entries [] = Inr entries"
| "allow_entries canonicalize canonical_root entries (part # parts) =
     (let raw_entry = str_trim part in
      if raw_entry = [] then allow_entries canonicalize canonical_root entries parts
      else (case allow_entry canonicalize canonical_root raw_entry of
              Inl e \<Rightarrow> Inl e
            | Inr canonical \<Rightarrow>
                allow_entries canonicalize canonical_root
                  (if list_ex (path_eq canonical) entries then entries else entries @ [canonical]) parts))"

definition SymlinkAllowList_from_env :: "(string \<Rightarrow> string option) \<Rightarrow> string option \<Rightarrow> string
    \<Rightarrow> config_error + string list" where
  "SymlinkAllowList_from_env canonicalize env canonical_root =
     (let trimmed = str_trim (case env of Some v \<Rightarrow> v | None \<Rightarrow> []) in
      if trimmed = [] then Inr []
      else allow_entries canonicalize canonical_root [] (split_on CHR '','' trimmed))"

definition SymlinkAllowList_allows :: "string list \<Rightarrow> string \<Rightarrow> bool" where
  "SymlinkAllowList_allows entries canonical_path =
     list_ex (\<lambda>e. path_eq canonical_path e \<or> path_starts_with canonical_path e) entries"

record path_policy =
  pp_canonical_root :: string
  pp_symlink_allow :: "string list"

definition path_allowed :: "string \<Rightarrow> string \<Rightarrow> string list \<Rightarrow> bool" where
  "path_allowed path canonical_root allow_list =
     (path_starts_with path canonical_root \<or> SymlinkAllowList_allows allow_list path)"

definition PathPolicy_allows :: "path_policy \<Rightarrow> string \<Rightarrow> bool" where
  "PathPolicy_allows policy canonical_path =
     path_allowed canonical_path (pp_canonical_root policy) (pp_symlink_allow policy)"

text \<open>
  An open file: the paths the kernel reports for its descriptor (\<open>None\<close> when it
  cannot), device and inode, whether it is a regular file (\<open>None\<close> when the
  metadata cannot be read), and whether clearing \<^verbatim>\<open>O_NONBLOCK\<close> succeeds.
\<close>

record open_file =
  of_descriptor_paths :: "string list option"
  of_dev_ino :: "(nat \<times> nat) option"
  of_is_file :: "bool option"
  of_setfl_ok :: bool

datatype ScriptOpenError = Escapes | Io

definition resolved_path_naming_open_file :: "(string \<Rightarrow> string option) \<Rightarrow> (string \<Rightarrow> (nat \<times> nat) option)
    \<Rightarrow> string \<Rightarrow> open_file \<Rightarrow> path_policy \<Rightarrow> string option" where
  "resolved_path_naming_open_file canonicalize stat path file policy =
     (case canonicalize path of
        None \<Rightarrow> None
      | Some real \<Rightarrow>
          if \<not> PathPolicy_allows policy real then None
          else (case of_dev_ino file of
                  None \<Rightarrow> None
                | Some opened \<Rightarrow>
                    (case stat real of
                       None \<Rightarrow> None
                     | Some named \<Rightarrow> if named = opened then Some real else None)))"

definition open_checked :: "(string \<Rightarrow> open_file option) \<Rightarrow> (string \<Rightarrow> string option)
    \<Rightarrow> (string \<Rightarrow> (nat \<times> nat) option) \<Rightarrow> string \<Rightarrow> path_policy \<Rightarrow> ScriptOpenError + open_file \<times> string" where
  "open_checked open_nonblocking canonicalize stat path policy =
     (case open_nonblocking path of
        None \<Rightarrow> Inl Io
      | Some file \<Rightarrow>
          (case (case of_descriptor_paths file of
                   Some paths \<Rightarrow> List.find (PathPolicy_allows policy) paths
                 | None \<Rightarrow> resolved_path_naming_open_file canonicalize stat path file policy) of
             None \<Rightarrow> Inl Escapes
           | Some opened_path \<Rightarrow>
               (case of_is_file file of
                  None \<Rightarrow> Inl Io
                | Some regular \<Rightarrow>
                    if \<not> regular then Inl Io
                    else if \<not> of_setfl_ok file then Inl Io
                    else Inr (file, opened_path))))"

text \<open>
  The retry loop of \<^verbatim>\<open>open_nonblocking_for\<close>, times in milliseconds.  \<open>attempt t\<close> is
  what an open at time \<open>t\<close> gives, \<open>late t\<close> by how much the sleep entered at \<open>t\<close>
  overshoots.  The fuel counts attempts; \<open>None\<close> means it ran out.
\<close>

datatype 'f open_result = Opened 'f | WouldBlock | OpenError

fun open_loop :: "nat \<Rightarrow> (nat \<Rightarrow> 'f open_result) \<Rightarrow> (nat \<Rightarrow> nat) \<Rightarrow> nat \<Rightarrow> nat \<Rightarrow> nat
    \<Rightarrow> 'f open_result option" where
  "open_loop 0 attempt late deadline pause now = None"
| "open_loop (Suc fuel) attempt late deadline pause now =
     (if attempt now = WouldBlock \<and> now < deadline
      then open_loop fuel attempt late deadline (min (pause * 2) 100) (now + pause + late now)
      else Some (attempt now))"

definition open_nonblocking_for :: "nat \<Rightarrow> (nat \<Rightarrow> 'f open_result) \<Rightarrow> (nat \<Rightarrow> nat) \<Rightarrow> nat \<Rightarrow> nat
    \<Rightarrow> 'f open_result option" where
  "open_nonblocking_for fuel attempt late lease_wait now =
     open_loop fuel attempt late (now + lease_wait) 5 now"

section \<open>What the allow list can hold\<close>

text \<open>The form in which \<^verbatim>\<open>realpath\<close> reports a path: absolute, no empty or dot segments.\<close>

definition clean_abs :: "string \<Rightarrow> bool" where
  "clean_abs p \<longleftrightarrow> (\<exists>segs. p = CHR ''/'' # join_with CHR ''/'' segs \<and>
     (\<forall>s \<in> set segs. kept s \<and> CHR ''/'' \<notin> set s))"

lemma kept_not_skip: "kept s \<Longrightarrow> \<not> skip_seg s \<and> seg_component s = Normal s"
  by (simp add: kept_def skip_seg_def seg_component_def)

lemma clean_abs_components:
  assumes "\<forall>s \<in> set segs. kept s \<and> CHR ''/'' \<notin> set s"
  shows "path_components (CHR ''/'' # join_with CHR ''/'' segs) = RootDir # map Normal segs"
proof (cases "segs = []")
  case True
  then show ?thesis
    by (simp add: path_components_def path_front_def starts_with_def body_components_def skip_seg_def)
next
  case False
  then have "split_on CHR ''/'' (join_with CHR ''/'' segs) = segs"
    using assms by (simp add: split_join)
  moreover have "filter (\<lambda>s. \<not> skip_seg s) segs = segs" "map seg_component segs = map Normal segs"
    using assms kept_not_skip by (auto simp: filter_id_conv)
  ultimately show ?thesis
    by (simp add: path_components_def path_front_def starts_with_def body_components_def)
qed

lemma reject_blacklist_Inr:
  "reject_blacklist p raw = Inr u \<longleftrightarrow>
     p \<notin> set BLACKLIST_EXACT \<and> (\<forall>b \<in> set BLACKLIST_PREFIXES. \<not> starts_with p (b @ ''/''))"
  by (auto simp: reject_blacklist_def list_ex_iff)

lemma allow_entry_Inr:
  "allow_entry canonicalize root raw = Inr c \<Longrightarrow>
     (\<exists>l. canonicalize l = Some c) \<and> (\<exists>u. reject_blacklist c raw = Inr u)"
  by (auto simp: allow_entry_def split: sum.splits option.splits if_splits)

definition vetted :: "(string \<Rightarrow> string option) \<Rightarrow> string list \<Rightarrow> bool" where
  "vetted canonicalize entries \<longleftrightarrow>
     (\<forall>e \<in> set entries. (\<exists>l. canonicalize l = Some e) \<and> e \<notin> set BLACKLIST_EXACT \<and>
        (\<forall>b \<in> set BLACKLIST_PREFIXES. \<not> starts_with e (b @ ''/'')))"

lemma allow_entries_vetted:
  "allow_entries canonicalize root entries parts = Inr out \<Longrightarrow> vetted canonicalize entries \<Longrightarrow>
     vetted canonicalize out"
proof (induction canonicalize root entries parts rule: allow_entries.induct)
  case (2 canonicalize root entries part parts)
  show ?case
  proof (cases "str_trim part = []")
    case False
    with "2.prems" obtain c where c: "allow_entry canonicalize root (str_trim part) = Inr c"
      by (auto simp: Let_def split: sum.splits)
    let ?entries = "if list_ex (path_eq c) entries then entries else entries @ [c]"
    have "vetted canonicalize ?entries"
      using allow_entry_Inr [OF c] "2.prems"(2) unfolding vetted_def reject_blacklist_Inr
      by (simp split: if_split)
    moreover have "allow_entries canonicalize root ?entries parts = Inr out"
      using "2.prems"(1) c False by (simp add: Let_def)
    ultimately show ?thesis using "2.IH"(2) [OF refl False c] by blast
  qed (use 2 in \<open>simp add: Let_def\<close>)
qed simp

lemma from_env_vetted:
  "SymlinkAllowList_from_env canonicalize env root = Inr entries \<Longrightarrow> vetted canonicalize entries"
  by (auto simp: SymlinkAllowList_from_env_def Let_def vetted_def
      dest: allow_entries_vetted split: if_splits)

lemma blacklist_shape:
  "b \<in> set BLACKLIST_PREFIXES \<Longrightarrow>
     \<exists>n. b = CHR ''/'' # n \<and> kept n \<and> CHR ''/'' \<notin> set n \<and> b \<in> set BLACKLIST_EXACT"
  by (auto simp: BLACKLIST_PREFIXES_def BLACKLIST_EXACT_def kept_def)

lemma vetted_not_under:
  assumes clean: "\<forall>l c. canonicalize l = Some c \<longrightarrow> clean_abs c"
    and v: "vetted canonicalize entries" and e: "e \<in> set entries"
    and b: "b \<in> set BLACKLIST_PREFIXES"
    and p: "path_starts_with p b" "path_starts_with p e"
  shows False
proof -
  obtain n where n: "b = CHR ''/'' # n" "kept n" "CHR ''/'' \<notin> set n" and be: "b \<in> set BLACKLIST_EXACT"
    using blacklist_shape [OF b] by blast
  have "clean_abs e" using clean v e by (auto simp: vetted_def)
  then obtain segs where segs: "e = CHR ''/'' # join_with CHR ''/'' segs"
    "\<forall>s \<in> set segs. kept s \<and> CHR ''/'' \<notin> set s"
    unfolding clean_abs_def by blast
  have pe: "\<exists>t. path_components p = RootDir # map Normal segs @ t"
    using p(2) clean_abs_components [OF segs(2)] segs(1)
    by (auto simp: path_starts_with_def starts_with_iff)
  have pb: "\<exists>t. path_components p = RootDir # Normal n # t"
    using p(1) clean_abs_components [of "[n]"] n
    by (auto simp: path_starts_with_def starts_with_iff)
  show False
  proof (cases segs)
    case Nil
    with segs have "e \<in> set BLACKLIST_EXACT" by (simp add: BLACKLIST_EXACT_def)
    with v e show False by (auto simp: vetted_def)
  next
    case (Cons s more)
    with pe pb have s: "s = n" by auto
    show False
    proof (cases more)
      case Nil
      with Cons s segs n have "e = b" by simp
      with be v e show False by (auto simp: vetted_def)
    next
      case (Cons m ms)
      with \<open>segs = s # more\<close> s segs n have "starts_with e (b @ ''/'')"
        by (auto simp: starts_with_iff)
      with b v e show False by (auto simp: vetted_def)
    qed
  qed
qed

section \<open>What an opened script is\<close>

lemma resolved_path_Some:
  "resolved_path_naming_open_file canonicalize stat path file policy = Some p \<Longrightarrow>
     canonicalize path = Some p \<and> PathPolicy_allows policy p \<and> stat p \<noteq> None \<and> stat p = of_dev_ino file"
  by (auto simp: resolved_path_naming_open_file_def split: option.splits if_splits)

lemma find_Some_mem: "List.find P xs = Some x \<Longrightarrow> x \<in> set xs \<and> P x"
  by (induction xs) (auto split: if_splits)

lemma open_checked_Inr:
  assumes "open_checked op canonicalize stat path policy = Inr (file, p)"
  shows "op path = Some file" "PathPolicy_allows policy p" "of_is_file file = Some True"
    "case of_descriptor_paths file of
       Some paths \<Rightarrow> p \<in> set paths
     | None \<Rightarrow> canonicalize path = Some p \<and> stat p \<noteq> None \<and> stat p = of_dev_ino file"
proof -
  obtain f where f: "op path = Some f"
    using assms by (cases "op path") (simp_all add: open_checked_def)
  let ?loc = "case of_descriptor_paths f of
                   Some paths \<Rightarrow> List.find (PathPolicy_allows policy) paths
                 | None \<Rightarrow> resolved_path_naming_open_file canonicalize stat path f policy"
  obtain q where q: "?loc = Some q"
    using assms f by (cases "?loc") (simp_all add: open_checked_def)
  obtain regular where r: "of_is_file f = Some regular"
    using assms f q by (cases "of_is_file f") (simp_all add: open_checked_def)
  have eqs: "f = file" "q = p" "regular = True"
    using assms by (simp_all add: open_checked_def f q r split: if_split_asm)
  from f q r have opened: "op path = Some file" "of_is_file file = Some True"
    and loc: "(case of_descriptor_paths file of
                   Some paths \<Rightarrow> List.find (PathPolicy_allows policy) paths
                 | None \<Rightarrow> resolved_path_naming_open_file canonicalize stat path file policy) = Some p"
    unfolding eqs by simp_all
  then show "op path = Some file" "of_is_file file = Some True" by simp_all
  have "PathPolicy_allows policy p \<and> (case of_descriptor_paths file of
       Some paths \<Rightarrow> p \<in> set paths
     | None \<Rightarrow> canonicalize path = Some p \<and> stat p \<noteq> None \<and> stat p = of_dev_ino file)"
  proof (cases "of_descriptor_paths file")
    case None
    with loc have "resolved_path_naming_open_file canonicalize stat path file policy = Some p" by simp
    from resolved_path_Some [OF this] show ?thesis unfolding None option.simps by blast
  next
    case (Some paths)
    with loc have "List.find (PathPolicy_allows policy) paths = Some p" by simp
    from find_Some_mem [OF this] Some show ?thesis by simp
  qed
  then show "PathPolicy_allows policy p"
    "case of_descriptor_paths file of
       Some paths \<Rightarrow> p \<in> set paths
     | None \<Rightarrow> canonicalize path = Some p \<and> stat p \<noteq> None \<and> stat p = of_dev_ino file"
    by simp_all
qed

lemma open_loop_terminates:
  "0 < pause \<Longrightarrow> deadline - now < fuel \<Longrightarrow> \<exists>r. open_loop fuel attempt late deadline pause now = Some r"
proof (induction fuel arbitrary: pause now)
  case (Suc fuel)
  show ?case
  proof (cases "attempt now = WouldBlock \<and> now < deadline")
    case True
    with Suc.prems have "0 < min (pause * 2) 100" "deadline - (now + pause + late now) < fuel"
      by (simp, linarith)
    from Suc.IH [OF this] True show ?thesis by simp
  qed (use Suc.prems in auto)
qed simp

lemma open_loop_result:
  "open_loop fuel attempt late deadline pause now = Some r \<Longrightarrow>
     \<exists>t. now \<le> t \<and> attempt t = r \<and> (r = WouldBlock \<longrightarrow> deadline \<le> t)"
proof (induction fuel arbitrary: pause now)
  case (Suc fuel)
  show ?case
  proof (cases "attempt now = WouldBlock \<and> now < deadline")
    case True
    with Suc.prems have "open_loop fuel attempt late deadline (min (pause * 2) 100)
        (now + pause + late now) = Some r" by simp
    from Suc.IH [OF this] obtain t where "now + pause + late now \<le> t" "attempt t = r"
      "r = WouldBlock \<longrightarrow> deadline \<le> t" by blast
    then show ?thesis by (intro exI [of _ t]) simp
  next
    case False
    with Suc.prems show ?thesis by (intro exI [of _ now]) auto
  qed
qed simp


section \<open>Properties\<close>

text \<open>
  C10.  System directories stay out: whatever \<^verbatim>\<open>SYMLINK_ALLOW_PATHS\<close> says, an accepted
  allow list admits no path under a blacklisted prefix such as \<^verbatim>\<open>/etc\<close> or \<^verbatim>\<open>/usr\<close>, given
  that path resolution reports absolute paths without dot segments.
\<close>

theorem allow_list_excludes_system_dirs:
  assumes "\<forall>l c. canonicalize l = Some c \<longrightarrow> clean_abs c"
    and "SymlinkAllowList_from_env canonicalize env root = Inr entries"
    and "b \<in> set BLACKLIST_PREFIXES" "path_starts_with p b"
  shows "\<not> SymlinkAllowList_allows entries p"
proof
  assume "SymlinkAllowList_allows entries p"
  then obtain e where "e \<in> set entries" "path_starts_with p e"
    by (auto simp: SymlinkAllowList_allows_def list_ex_iff path_eq_def path_starts_with_def starts_with_def)
  with vetted_not_under [OF assms(1) from_env_vetted [OF assms(2)] _ assms(3,4)] show False by blast
qed

theorem allow_list_excludes_system_dirs_witness:
  "\<not> SymlinkAllowList_allows [''/data/shared''] ''/etc/passwd''"
proof (rule allow_list_excludes_system_dirs
    [where canonicalize = "\<lambda>p. if p = ''/data/shared'' then Some p else None"
       and env = "Some ''/data/shared''" and root = "''/srv''" and b = "''/etc''"])
  have "clean_abs ''/data/shared''"
    unfolding clean_abs_def by (rule exI [of _ "[''data'', ''shared'']"]) (simp add: kept_def)
  then show "\<forall>l c. (if l = ''/data/shared'' then Some l else None) = Some c \<longrightarrow> clean_abs c" by simp
qed code_simp+

text \<open>
  C11.  A script handed to PHP is a regular file whose location the policy allows,
  judged on the descriptor that was opened whenever the kernel names it; the weaker
  second resolution is used only when it does not, and then the inode must agree.
\<close>

theorem opened_script_verified:
  assumes "open_checked op canonicalize stat path policy = Inr (file, p)"
  shows "op path = Some file \<and> of_is_file file = Some True \<and> PathPolicy_allows policy p \<and>
     (case of_descriptor_paths file of
        Some paths \<Rightarrow> p \<in> set paths
      | None \<Rightarrow> canonicalize path = Some p \<and> stat p \<noteq> None \<and> stat p = of_dev_ino file)"
  using open_checked_Inr [OF assms] by blast

definition ex_opened :: open_file where
  "ex_opened = \<lparr>of_descriptor_paths = Some [''/srv/a.php''], of_dev_ino = None, of_is_file = Some True,
                of_setfl_ok = True\<rparr>"

theorem opened_script_verified_witness:
  "PathPolicy_allows \<lparr>pp_canonical_root = ''/srv'', pp_symlink_allow = []\<rparr> ''/srv/a.php'' \<and>
   of_is_file ex_opened = Some True"
proof -
  have "open_checked (\<lambda>_. Some ex_opened) (\<lambda>_. None) (\<lambda>_. None) ''/srv/link.php''
      \<lparr>pp_canonical_root = ''/srv'', pp_symlink_allow = []\<rparr> = Inr (ex_opened, ''/srv/a.php'')" by code_simp
  from opened_script_verified [OF this] show ?thesis by blast
qed

text \<open>
  The retry loop around a leased file ends: with fuel for one attempt per
  millisecond of the lease wait plus one it returns, and a refusal is returned only once
  the wait is over.
\<close>

lemma lease_retry_terminates:
  "\<exists>r. open_nonblocking_for (lease_wait + 1) attempt late lease_wait now = Some r \<and>
     (\<exists>t. now \<le> t \<and> attempt t = r \<and> (r = WouldBlock \<longrightarrow> now + lease_wait \<le> t))"
proof -
  obtain r where "open_nonblocking_for (lease_wait + 1) attempt late lease_wait now = Some r"
    using open_loop_terminates [of 5 "now + lease_wait" now "lease_wait + 1"]
    by (auto simp: open_nonblocking_for_def)
  moreover from this have "\<exists>t. now \<le> t \<and> attempt t = r \<and> (r = WouldBlock \<longrightarrow> now + lease_wait \<le> t)"
    unfolding open_nonblocking_for_def by (rule open_loop_result)
  ultimately show ?thesis by blast
qed

lemma lease_retry_terminates_witness:
  "\<exists>r. open_nonblocking_for (100 + 1) (\<lambda>t. if t < 30 then WouldBlock else Opened t) (\<lambda>_. 0) 100 0 = Some r \<and>
     (\<exists>t. 0 \<le> t \<and> (if t < 30 then WouldBlock else Opened t) = r \<and> (r = WouldBlock \<longrightarrow> 0 + 100 \<le> t))"
  by (rule lease_retry_terminates)

end
