(* ===== verification/File_Probe.thy ===== *)
theory File_Probe
  imports Path_Policy
begin

text \<open>
  The routing half of \<^verbatim>\<open>FileCache\<close> (\<^verbatim>\<open>src/server/response/static_file.rs\<close>): the
  metadata and canonical-path caches in front of the file system.  Both are
  \<^verbatim>\<open>LruCache\<close>s of the \<^verbatim>\<open>lru\<close> crate, given by their interface record.  The disk is
  an argument: what \<^verbatim>\<open>metadata\<close> and \<^verbatim>\<open>canonicalize\<close> answer for a path.  Calls that
  touch a cache are computations of the state monad, as in the source they are
  \<^verbatim>\<open>await\<close>ed.
\<close>

section \<open>Definitions\<close>

datatype FileType = File | Dir

record disk =
  dk_metadata :: "string \<Rightarrow> FileType option"
  dk_canonicalize :: "string \<Rightarrow> string option"

record ('mc, 'cc) file_cache =
  fc_meta :: 'mc
  fc_canonical :: 'cc

record ('mc, 'cc) cache_ops =
  co_meta :: "('mc, string, FileType option) lru"
  co_canonical :: "('cc, string, string option) lru"

text \<open>\<^verbatim>\<open>FileCache::check\<close>: the file type, and whether it came from the cache.\<close>

definition FileCache_check :: "('mc, 'cc) cache_ops \<Rightarrow> disk \<Rightarrow> string
    \<Rightarrow> (('mc, 'cc) file_cache, FileType option \<times> bool) state" where
  "FileCache_check ops dk path =
     do {
       fc \<leftarrow> State_Monad.get;
       case lru_peek (co_meta ops) (fc_meta fc) path of
         Some file_type \<Rightarrow> State_Monad.return (file_type, True)
       | None \<Rightarrow>
           do {
             State_Monad.set (fc\<lparr>fc_meta := lru_put (co_meta ops) (fc_meta fc) path (dk_metadata dk path)\<rparr>);
             State_Monad.return (dk_metadata dk path, False)
           }
     }"

definition FileCache_is_file :: "('mc, 'cc) cache_ops \<Rightarrow> disk \<Rightarrow> string
    \<Rightarrow> (('mc, 'cc) file_cache, bool) state" where
  "FileCache_is_file ops dk path =
     do { r \<leftarrow> FileCache_check ops dk path; State_Monad.return (fst r = Some File) }"

definition FileCache_is_dir :: "('mc, 'cc) cache_ops \<Rightarrow> disk \<Rightarrow> string
    \<Rightarrow> (('mc, 'cc) file_cache, bool) state" where
  "FileCache_is_dir ops dk path =
     do { r \<leftarrow> FileCache_check ops dk path; State_Monad.return (fst r = Some Dir) }"

definition FileCache_get_canonical :: "('mc, 'cc) cache_ops \<Rightarrow> ('mc, 'cc) file_cache \<Rightarrow> string
    \<Rightarrow> string option option" where
  "FileCache_get_canonical ops fc key = lru_peek (co_canonical ops) (fc_canonical fc) key"

definition FileCache_insert_canonical :: "('mc, 'cc) cache_ops \<Rightarrow> ('mc, 'cc) file_cache \<Rightarrow> string
    \<Rightarrow> string option \<Rightarrow> ('mc, 'cc) file_cache" where
  "FileCache_insert_canonical ops fc key canonical =
     fc\<lparr>fc_canonical := lru_put (co_canonical ops) (fc_canonical fc) key canonical\<rparr>"

text \<open>
  The resolution step of \<^verbatim>\<open>RouteConfig::validate_path\<close>: the cached canonical path, or
  a fresh one that is then cached.
\<close>

definition FileCache_canonical :: "('mc, 'cc) cache_ops \<Rightarrow> disk \<Rightarrow> string
    \<Rightarrow> (('mc, 'cc) file_cache, string option) state" where
  "FileCache_canonical ops dk path =
     do {
       fc \<leftarrow> State_Monad.get;
       case FileCache_get_canonical ops fc path of
         Some cached \<Rightarrow> State_Monad.return cached
       | None \<Rightarrow>
           do {
             State_Monad.set (FileCache_insert_canonical ops fc path (dk_canonicalize dk path));
             State_Monad.return (dk_canonicalize dk path)
           }
     }"

text \<open>The probes a router makes, over any state; and the probe with no cache at all.\<close>

record 's probe =
  pr_is_file :: "string \<Rightarrow> ('s, bool) state"
  pr_is_dir :: "string \<Rightarrow> ('s, bool) state"
  pr_canonical :: "string \<Rightarrow> ('s, string option) state"

definition cached_probe :: "('mc, 'cc) cache_ops \<Rightarrow> disk \<Rightarrow> (('mc, 'cc) file_cache) probe" where
  "cached_probe ops dk =
     \<lparr>pr_is_file = FileCache_is_file ops dk, pr_is_dir = FileCache_is_dir ops dk,
      pr_canonical = FileCache_canonical ops dk\<rparr>"

definition disk_probe :: "disk \<Rightarrow> unit probe" where
  "disk_probe dk =
     \<lparr>pr_is_file = (\<lambda>p. State_Monad.return (dk_metadata dk p = Some File)),
      pr_is_dir = (\<lambda>p. State_Monad.return (dk_metadata dk p = Some Dir)),
      pr_canonical = (\<lambda>p. State_Monad.return (dk_canonicalize dk p))\<rparr>"

section \<open>The contract of a probe\<close>

text \<open>
  A probe answers what the disk answers and keeps its own invariant \<open>ok\<close>.  A client
  written over the contract gives the same results through any probe.
\<close>

locale file_probe =
  fixes pr :: "'s probe" and ok :: "'s \<Rightarrow> bool" and dk :: disk
  assumes is_file: "yields ok (pr_is_file pr p) (dk_metadata dk p = Some File)"
    and is_dir: "yields ok (pr_is_dir pr p) (dk_metadata dk p = Some Dir)"
    and canonical: "yields ok (pr_canonical pr p) (dk_canonicalize dk p)"

text \<open>The caches hold only what the disk answers.\<close>

definition cache_ok :: "('mc, 'cc) cache_ops \<Rightarrow> disk \<Rightarrow> ('mc, 'cc) file_cache \<Rightarrow> bool" where
  "cache_ok ops dk fc \<longleftrightarrow>
     lru_laws (co_meta ops) \<and> lru_laws (co_canonical ops) \<and>
     (\<forall>p t. lru_peek (co_meta ops) (fc_meta fc) p = Some t \<longrightarrow> t = dk_metadata dk p) \<and>
     (\<forall>p c. lru_peek (co_canonical ops) (fc_canonical fc) p = Some c \<longrightarrow> c = dk_canonicalize dk p)"

lemma FileCache_check_run:
  "run_state (FileCache_check ops dk path) fc =
     (case lru_peek (co_meta ops) (fc_meta fc) path of
        Some t \<Rightarrow> ((t, True), fc)
      | None \<Rightarrow> ((dk_metadata dk path, False),
                 fc\<lparr>fc_meta := lru_put (co_meta ops) (fc_meta fc) path (dk_metadata dk path)\<rparr>))"
  by (simp add: FileCache_check_def State_Monad.bind_def State_Monad.get_def State_Monad.set_def
      State_Monad.return_def split: option.split)

lemma FileCache_canonical_run:
  "run_state (FileCache_canonical ops dk path) fc =
     (case lru_peek (co_canonical ops) (fc_canonical fc) path of
        Some c \<Rightarrow> (c, fc)
      | None \<Rightarrow> (dk_canonicalize dk path,
          fc\<lparr>fc_canonical := lru_put (co_canonical ops) (fc_canonical fc) path (dk_canonicalize dk path)\<rparr>))"
  by (simp add: FileCache_canonical_def FileCache_get_canonical_def FileCache_insert_canonical_def
      State_Monad.bind_def State_Monad.get_def State_Monad.set_def
      State_Monad.return_def split: option.split)

lemma cache_ok_put_meta:
  "cache_ok ops dk fc \<Longrightarrow>
     cache_ok ops dk (fc\<lparr>fc_meta := lru_put (co_meta ops) (fc_meta fc) path (dk_metadata dk path)\<rparr>)"
  by (auto simp: cache_ok_def dest: lru_laws_D)

lemma cache_ok_put_canonical:
  "cache_ok ops dk fc \<Longrightarrow>
     cache_ok ops dk (fc\<lparr>fc_canonical := lru_put (co_canonical ops) (fc_canonical fc) path
                                            (dk_canonicalize dk path)\<rparr>)"
  by (auto simp: cache_ok_def dest: lru_laws_D)

lemma FileCache_check_ok:
  assumes "cache_ok ops dk fc"
  shows "fst (fst (run_state (FileCache_check ops dk path) fc)) = dk_metadata dk path"
    and "cache_ok ops dk (snd (run_state (FileCache_check ops dk path) fc))"
  using assms cache_ok_put_meta [OF assms]
  by (auto simp: FileCache_check_run cache_ok_def split: option.split)

interpretation fcp: file_probe "cached_probe ops dk" "cache_ok ops dk" dk
  for ops :: "('mc, 'cc) cache_ops" and dk :: disk
proof
  fix p
  show "yields (cache_ok ops dk) (pr_is_file (cached_probe ops dk) p) (dk_metadata dk p = Some File)"
    by (rule yieldsI) (simp_all add: cached_probe_def FileCache_is_file_def case_prod_unfold FileCache_check_ok)
  show "yields (cache_ok ops dk) (pr_is_dir (cached_probe ops dk) p) (dk_metadata dk p = Some Dir)"
    by (rule yieldsI) (simp_all add: cached_probe_def FileCache_is_dir_def case_prod_unfold FileCache_check_ok)
  show "yields (cache_ok ops dk) (pr_canonical (cached_probe ops dk) p) (dk_canonicalize dk p)"
    by (rule yieldsI)
       (auto simp: cached_probe_def FileCache_canonical_run cache_ok_put_canonical
          split: option.split, auto simp: cache_ok_def)
qed

interpretation dkp: file_probe "disk_probe dk" "\<lambda>_. True" dk for dk :: disk
  by unfold_locales (simp_all add: disk_probe_def yields_return)

end
