(* ===== verification/Ignore_Rules.thy ===== *)
theory Ignore_Rules
  imports Uri_Path
begin

text \<open>
  The gitignore-style rule lists of \<^verbatim>\<open>src/config/ignore_rules.rs\<close>: reading a rule
  file line by line, translating a pattern to a \<^verbatim>\<open>globset\<close> glob, folding the
  letters a case-insensitive file system reads as ASCII, and the lookup that
  finds the rule excluding a path.

  The \<^verbatim>\<open>globset\<close> crate is not part of the repository.  It appears as the record
  \<open>globset\<close> of the three things the code asks of it: compile a glob (given
  whether case is ignored), test a compiled glob against a candidate, and test
  a glob built with default options.  A string is its UTF-8 bytes, so the
  characters of \<open>ascii_form\<close> appear as byte sequences.
\<close>

section \<open>Definitions\<close>

definition MAX_RULES :: nat where "MAX_RULES = 256"
definition MAX_PATTERN_LEN :: nat where "MAX_PATTERN_LEN = 128"

text \<open>\<^verbatim>\<open>gs_compile ignore_case glob\<close> is \<^verbatim>\<open>None\<close> when the crate refuses the glob.\<close>

record 'm globset =
  gs_compile :: "bool \<Rightarrow> string \<Rightarrow> 'm option"
  gs_is_match :: "'m \<Rightarrow> string \<Rightarrow> bool"
  gs_default_match :: "string \<Rightarrow> string \<Rightarrow> bool"

record ('a, 'm) rule =
  rl_line :: nat
  rl_original :: string
  rl_glob :: string
  rl_action :: 'a
  rl_negated :: bool
  rl_dir_only :: bool
  rl_matcher :: 'm
  rl_folded :: "'m option"
  rl_name_only :: bool

text \<open>Why a line is refused; each constructor is one error return of the source.\<close>

datatype rule_error =
    NulByte | TooManyRules | PatternTooLong | InvalidGlob
  | NegatedEntry | EntryWithoutPattern
  | LeadingWhitespace | TrailingTab | DoubleSlash | EscapedSlash | NamesNoPath
  | ClassBackslash | PosixClass | ClassNamesSeparator | ClassNegatedLetter
  | DashAfterRange | RangeBackwards | ClassNonAscii

record target =
  tg_path :: string
  tg_name :: string

definition Target_new :: "string \<Rightarrow> target" where
  "Target_new path =
     \<lparr>tg_path = path,
      tg_name = (case rsplit_once CHR ''/'' path of None \<Rightarrow> path | Some (_, name) \<Rightarrow> name)\<rparr>"

definition rule_matches :: "'m globset \<Rightarrow> ('a, 'm) rule \<Rightarrow> target \<Rightarrow> target option \<Rightarrow> bool" where
  "rule_matches gs rule path folded =
     (let meets = (\<lambda>set t. gs_is_match gs set (if rl_name_only rule then tg_name t else tg_path t)) in
      if meets (rl_matcher rule) path then True
      else if rl_negated rule \<or> (rl_folded rule = None \<and> folded = None) then False
      else meets (case rl_folded rule of Some m \<Rightarrow> m | None \<Rightarrow> rl_matcher rule)
                 (case folded of Some t \<Rightarrow> t | None \<Rightarrow> path))"

text \<open>
  \<^verbatim>\<open>ascii_form\<close> on the front of a byte string: the ASCII text of the first
  character, when it is one of the listed letters, and the bytes after it.
\<close>

fun ascii_form :: "string \<Rightarrow> (string \<times> string) option" where
  "ascii_form (a # b # rest) =
     (if a = CHR 0xC5 \<and> b = CHR 0xBF then Some (''s'', rest)
      else if a = CHR 0xC3 \<and> b = CHR 0x9F then Some (''ss'', rest)
      else if a = CHR 0xCD \<and> b = CHR 0xBE then Some ('';'', rest)
      else (case rest of
              [] \<Rightarrow> None
            | c # rest' \<Rightarrow>
                if a = CHR 0xE1 \<and> b = CHR 0xBA \<and> c = CHR 0x9E then Some (''ss'', rest')
                else if a = CHR 0xE1 \<and> b = CHR 0xBF \<and> c = CHR 0xAF then Some (''`'', rest')
                else if a = CHR 0xE2 \<and> b = CHR 0x84 \<and> c = CHR 0xAA then Some (''k'', rest')
                else if a = CHR 0xEF \<and> b = CHR 0xAC then
                  (if c = CHR 0x80 then Some (''ff'', rest')
                   else if c = CHR 0x81 then Some (''fi'', rest')
                   else if c = CHR 0x82 then Some (''fl'', rest')
                   else if c = CHR 0x83 then Some (''ffi'', rest')
                   else if c = CHR 0x84 then Some (''ffl'', rest')
                   else if c = CHR 0x85 \<or> c = CHR 0x86 then Some (''st'', rest')
                   else None)
                else None))"
| "ascii_form _ = None"

lemma ascii_form_shorter: "ascii_form s = Some (t, r) \<Longrightarrow> length r < length s"
  by (cases s rule: ascii_form.cases) (auto split: if_splits list.splits)

fun has_ascii_form :: "string \<Rightarrow> bool" where
  "has_ascii_form [] = False"
| "has_ascii_form (c # s) = (ascii_form (c # s) \<noteq> None \<or> has_ascii_form s)"

function fold_all :: "string \<Rightarrow> string" where
  "fold_all [] = []"
| "fold_all (c # s) =
     (case ascii_form (c # s) of
        Some (ascii, rest) \<Rightarrow> ascii @ fold_all rest
      | None \<Rightarrow> c # fold_all s)"
  by pat_completeness auto
termination
  by (relation "measure length") (auto dest: ascii_form_shorter simp: less_Suc_eq_le)

definition fold_letters :: "string \<Rightarrow> string option" where
  "fold_letters s = (if \<not> has_ascii_form s then None else Some (fold_all s))"

text \<open>\<^verbatim>\<open>is_escaped\<close>: the byte at \<open>at\<close> follows an odd run of backslashes.\<close>

definition is_escaped :: "string \<Rightarrow> nat \<Rightarrow> bool" where
  "is_escaped s at = (length (takeWhile (\<lambda>b. b = CHR 0x5C) (rev (take at s))) mod 2 = 1)"

fun trim_end :: "string \<Rightarrow> nat \<Rightarrow> nat" where
  "trim_end s 0 = 0"
| "trim_end s (Suc space) =
     (if s ! space = CHR '' '' then (if is_escaped s space then Suc space else trim_end s space)
      else Suc space)"

definition trim_trailing_spaces :: "string \<Rightarrow> string" where
  "trim_trailing_spaces s = take (trim_end s (length s)) s"

definition opens_posix_class :: "string \<Rightarrow> bool" where
  "opens_posix_class rest =
     (case strip_prefix rest '':'' of
        None \<Rightarrow> False
      | Some name \<Rightarrow>
          CHR '']'' \<in> set name \<and> ends_with (takeWhile (\<lambda>c. c \<noteq> CHR '']'') name) '':'')"

definition byte_val :: "char \<Rightarrow> nat" where
  "byte_val c = of_char c"

definition names_ascii_letter :: "char \<Rightarrow> char \<Rightarrow> bool" where
  "names_ascii_letter lo hi =
     ((byte_val lo \<le> byte_val CHR ''Z'' \<and> byte_val CHR ''A'' \<le> byte_val hi) \<or>
      (byte_val lo \<le> byte_val CHR ''z'' \<and> byte_val CHR ''a'' \<le> byte_val hi))"

text \<open>The loop state of \<^verbatim>\<open>copy_class\<close>.\<close>

record class_state =
  cs_glob :: string
  cs_first :: bool
  cs_open_range :: bool
  cs_closed_range :: bool
  cs_last :: char
  cs_cased :: bool

text \<open>
  \<^verbatim>\<open>copy_class\<close> appends to \<open>glob\<close>; \<open>start\<close> is its length before the class.  An
  unclosed class is copied to the end of the pattern.
\<close>

fun class_loop :: "'m globset \<Rightarrow> bool \<Rightarrow> bool \<Rightarrow> nat \<Rightarrow> string \<Rightarrow> class_state
    \<Rightarrow> rule_error + string \<times> string" where
  "class_loop gs ignore_case negated start [] st = Inr ([], cs_glob st)"
| "class_loop gs ignore_case negated start (c # chars) st =
     (if c = CHR 0x5C then Inl ClassBackslash
      else if c = CHR ''['' \<and> opens_posix_class chars then Inl PosixClass
      else if c = CHR '']'' \<and> \<not> cs_first st then
        (let at = length (cs_glob st) - (if cs_open_range st then 1 else 0);
             glob1 = (if negated then take at (cs_glob st) @ ''/'' @ drop at (cs_glob st)
                      else cs_glob st);
             glob2 = glob1 @ '']'';
             class = drop start glob2 in
         if gs_default_match gs class ''/'' then Inl ClassNamesSeparator
         else if cs_cased st then Inl ClassNegatedLetter
         else Inr (chars, glob2))
      else if c = CHR ''-'' \<and> \<not> cs_first st then
        (if cs_closed_range st \<and> \<not> starts_with chars '']'' then Inl DashAfterRange
         else if cs_open_range st \<and> byte_val (cs_last st) > byte_val CHR ''-'' then Inl RangeBackwards
         else class_loop gs ignore_case negated start chars
                (st\<lparr>cs_closed_range := cs_open_range st, cs_open_range := \<not> cs_open_range st,
                    cs_glob := cs_glob st @ [c], cs_first := False\<rparr>))
      else
        (if byte_val c \<ge> 128 then Inl ClassNonAscii
         else if cs_open_range st \<and> byte_val (cs_last st) > byte_val c then Inl RangeBackwards
         else class_loop gs ignore_case negated start chars
                (st\<lparr>cs_cased := (if negated \<and> ignore_case
                                 then cs_cased st \<or>
                                      names_ascii_letter (if cs_open_range st then cs_last st else c) c
                                 else cs_cased st),
                    cs_last := c, cs_closed_range := cs_open_range st, cs_open_range := False,
                    cs_glob := cs_glob st @ [c], cs_first := False\<rparr>)))"

definition copy_class :: "'m globset \<Rightarrow> string \<Rightarrow> string \<Rightarrow> bool \<Rightarrow> rule_error + string \<times> string" where
  "copy_class gs chars glob ignore_case =
     (let start = length glob;
          negated = (case chars of [] \<Rightarrow> False | c # _ \<Rightarrow> c = CHR ''!'' \<or> c = CHR ''^'') in
      class_loop gs ignore_case negated start (if negated then tl chars else chars)
        \<lparr>cs_glob = glob @ ''['' @ (if negated then [hd chars] else []),
         cs_first = True, cs_open_range = False, cs_closed_range = False,
         cs_last = CHR 0x00, cs_cased = False\<rparr>)"

lemma class_loop_shorter:
  "class_loop gs ic neg start chars st = Inr (rest, g) \<Longrightarrow> length rest \<le> length chars"
  by (induction gs ic neg start chars st rule: class_loop.induct)
     (auto simp: Let_def split: if_splits intro: le_SucI)

lemma copy_class_shorter:
  "copy_class gs chars glob ic = Inr (rest, g) \<Longrightarrow> length rest \<le> length chars"
  by (cases chars) (auto simp: copy_class_def Let_def dest!: class_loop_shorter split: if_splits)

function translate_loop :: "'m globset \<Rightarrow> bool \<Rightarrow> string \<Rightarrow> string \<Rightarrow> rule_error + string" where
  "translate_loop gs ic [] glob = Inr glob"
| "translate_loop gs ic (c # chars) glob =
     (if c = CHR 0x5C then
        (case chars of
           [] \<Rightarrow> Inr (glob @ [c])
         | d # rest \<Rightarrow> translate_loop gs ic rest (glob @ [c, d]))
      else if c = CHR ''{'' \<or> c = CHR ''}'' then translate_loop gs ic chars (glob @ [CHR 0x5C, c])
      else if c = CHR ''['' then
        (case copy_class gs chars glob ic of
           Inl e \<Rightarrow> Inl e
         | Inr (rest, glob') \<Rightarrow> translate_loop gs ic rest glob')
      else if c = CHR ''*'' \<and> starts_with chars ''**'' then
        translate_loop gs ic (dropWhile (\<lambda>d. d = CHR ''*'') chars) (glob @ ''**'')
      else translate_loop gs ic chars (glob @ [c]))"
  by pat_completeness auto
termination
  by (relation "measure (\<lambda>(gs, ic, chars, glob). length chars)")
     (auto dest!: copy_class_shorter simp: length_dropWhile_le le_imp_less_Suc)

definition translate :: "'m globset \<Rightarrow> string \<Rightarrow> bool \<Rightarrow> rule_error + string \<times> bool" where
  "translate gs pattern ignore_case =
     (if pattern \<noteq> [] \<and> hd pattern \<in> {CHR '' '', CHR 0x09} then Inl LeadingWhitespace
      else if pattern \<noteq> [] \<and> last pattern = CHR 0x09 \<and> \<not> is_escaped pattern (length pattern - 1)
        then Inl TrailingTab
      else if sublist ''//'' pattern then Inl DoubleSlash
      else if list_ex (\<lambda>at. pattern ! at = CHR ''/'' \<and> is_escaped pattern at) [0..<length pattern]
        then Inl EscapedSlash
      else
        (let dir_only = ends_with pattern ''/'';
             body0 = (if dir_only then butlast pattern else pattern);
             anchored = (CHR ''/'' \<in> set body0);
             body = (if anchored then (case strip_prefix body0 ''/'' of Some b \<Rightarrow> b | None \<Rightarrow> body0)
                     else body0) in
         if body = [] then Inl NamesNoPath
         else map_sum id (\<lambda>glob. (glob, dir_only))
                (translate_loop gs ignore_case body (if anchored then [] else ''**/''))))"

text \<open>One line of \<^verbatim>\<open>RuleSet::parse\<close>; \<open>None\<close> is a skipped line.\<close>

definition parse_line :: "'m globset \<Rightarrow> (bool \<Rightarrow> string \<Rightarrow> rule_error + 'a \<times> string) \<Rightarrow> nat
    \<Rightarrow> nat \<Rightarrow> string \<Rightarrow> rule_error + ('a, 'm) rule option" where
  "parse_line gs classify n_rules line raw =
     (let text = trim_trailing_spaces (if ends_with raw [CHR 0x0D] then butlast raw else raw) in
      if CHR 0x00 \<in> set text then Inl NulByte
      else if list_all (\<lambda>c. c = CHR '' '' \<or> c = CHR 0x09) text \<or> starts_with text ''#'' then Inr None
      else
        (let (negated, rest) = (case strip_prefix text ''!'' of
                                  Some r \<Rightarrow> (True, r) | None \<Rightarrow> (False, text)) in
         if n_rules = MAX_RULES then Inl TooManyRules
         else (case classify negated rest of
                 Inl e \<Rightarrow> Inl e
               | Inr (action, pattern) \<Rightarrow>
                   if length pattern > MAX_PATTERN_LEN then Inl PatternTooLong
                   else (case translate gs pattern (\<not> negated) of
                           Inl e \<Rightarrow> Inl e
                         | Inr (glob, dir_only) \<Rightarrow>
                             (let (body, name_only) =
                                (case strip_prefix glob ''**/'' of
                                   Some name \<Rightarrow> if CHR ''/'' \<notin> set name then (name, True) else (glob, False)
                                 | None \<Rightarrow> (glob, False)) in
                              case gs_compile gs (\<not> negated) body of
                                None \<Rightarrow> Inl InvalidGlob
                              | Some matcher \<Rightarrow>
                                  (let mk = (\<lambda>folded. \<lparr>rl_line = line, rl_original = text, rl_glob = glob,
                                       rl_action = action, rl_negated = negated, rl_dir_only = dir_only,
                                       rl_matcher = matcher, rl_folded = folded, rl_name_only = name_only\<rparr>) in
                                   case fold_letters body of
                                     Some fb \<Rightarrow>
                                       if \<not> negated
                                       then (case gs_compile gs (\<not> negated) fb of
                                               None \<Rightarrow> Inl InvalidGlob
                                             | Some m \<Rightarrow> Inr (Some (mk (Some m))))
                                       else Inr (Some (mk None))
                                   | None \<Rightarrow> Inr (Some (mk None))))))))"

fun parse_lines :: "'m globset \<Rightarrow> (bool \<Rightarrow> string \<Rightarrow> rule_error + 'a \<times> string) \<Rightarrow> ('a, 'm) rule list
    \<Rightarrow> nat \<Rightarrow> string list \<Rightarrow> (nat \<times> rule_error) + ('a, 'm) rule list" where
  "parse_lines gs classify rules idx [] = Inr rules"
| "parse_lines gs classify rules idx (raw # lines) =
     (case parse_line gs classify (length rules) (idx + 1) raw of
        Inl e \<Rightarrow> Inl (idx + 1, e)
      | Inr None \<Rightarrow> parse_lines gs classify rules (idx + 1) lines
      | Inr (Some r) \<Rightarrow> parse_lines gs classify (rules @ [r]) (idx + 1) lines)"

definition RuleSet_parse :: "'m globset \<Rightarrow> (bool \<Rightarrow> string \<Rightarrow> rule_error + 'a \<times> string) \<Rightarrow> string
    \<Rightarrow> (nat \<times> rule_error) + ('a, 'm) rule list" where
  "RuleSet_parse gs classify src =
     (let src' = (case strip_prefix src [CHR 0xEF, CHR 0xBB, CHR 0xBF] of Some s \<Rightarrow> s | None \<Rightarrow> src) in
      parse_lines gs classify [] 0 (split_on CHR 0x0A src'))"

definition last_match :: "'m globset \<Rightarrow> ('a, 'm) rule list \<Rightarrow> target \<Rightarrow> target option \<Rightarrow> bool
    \<Rightarrow> ('a, 'm) rule option" where
  "last_match gs rules path folded is_dir =
     List.find (\<lambda>rule. rule_matches gs rule path folded)
       (filter (\<lambda>rule. is_dir \<or> \<not> rl_dir_only rule) (rev rules))"

definition matched_last :: "'m globset \<Rightarrow> ('a, 'm) rule list \<Rightarrow> string \<Rightarrow> bool \<Rightarrow> ('a, 'm) rule option" where
  "matched_last gs rules path is_dir =
     (if path = [] \<or> rules = [] then None
      else (case last_match gs rules (Target_new path) (map_option Target_new (fold_letters path)) is_dir of
              None \<Rightarrow> None
            | Some rule \<Rightarrow> if \<not> rl_negated rule then Some rule else None))"

text \<open>\<^verbatim>\<open>path.match_indices('/')\<close>: the text before each separator, shortest first.\<close>

definition ancestors :: "string \<Rightarrow> string list" where
  "ancestors path = map (\<lambda>i. take i path) (filter (\<lambda>i. path ! i = CHR ''/'') [0..<length path])"

text \<open>
  \<^verbatim>\<open>excluded_ancestors\<close> with its callback: \<open>f rule s\<close> returns \<open>Some b\<close> to break with
  \<open>b\<close>, and the callback's captured state.
\<close>

definition report :: "('r \<Rightarrow> 's \<Rightarrow> 'b option \<times> 's) \<Rightarrow> ('r \<Rightarrow> bool) \<Rightarrow> 'r option \<Rightarrow> 's \<Rightarrow> 'b option \<times> 's" where
  "report f negated m s =
     (case m of None \<Rightarrow> (None, s) | Some rule \<Rightarrow> if \<not> negated rule then f rule s else (None, s))"

fun ancestors_walk :: "'m globset \<Rightarrow> ('a, 'm) rule list \<Rightarrow> (string \<Rightarrow> bool)
    \<Rightarrow> (('a, 'm) rule \<Rightarrow> 's \<Rightarrow> 'b option \<times> 's) \<Rightarrow> 's \<Rightarrow> string list \<Rightarrow> 'b option \<times> 's" where
  "ancestors_walk gs rules as_file f s [] = (None, s)"
| "ancestors_walk gs rules as_file f s (ancestor # rest) =
     (let folded = map_option Target_new (fold_letters ancestor);
          exact = Target_new ancestor in
      case report f rl_negated (last_match gs rules exact folded True) s of
        (Some out, s1) \<Rightarrow> (Some out, s1)
      | (None, s1) \<Rightarrow>
          (case (if as_file ancestor
                 then report f rl_negated (last_match gs rules exact folded False) s1
                 else (None, s1)) of
             (Some out, s2) \<Rightarrow> (Some out, s2)
           | (None, s2) \<Rightarrow> ancestors_walk gs rules as_file f s2 rest))"

definition excluded_ancestors :: "'m globset \<Rightarrow> ('a, 'm) rule list \<Rightarrow> string \<Rightarrow> (string \<Rightarrow> bool)
    \<Rightarrow> (('a, 'm) rule \<Rightarrow> 's \<Rightarrow> 'b option \<times> 's) \<Rightarrow> 's \<Rightarrow> 'b option \<times> 's" where
  "excluded_ancestors gs rules path as_file f s =
     (if rules = [] then (None, s)
      else ancestors_walk gs rules as_file f s (ancestors path))"


section \<open>What a rule set answers\<close>

text \<open>The rule excluding a path judged as a directory or as a file, if any.\<close>

definition judge :: "'m globset \<Rightarrow> ('a, 'm) rule list \<Rightarrow> string \<Rightarrow> bool \<Rightarrow> ('a, 'm) rule option" where
  "judge gs rules path is_dir =
     (case last_match gs rules (Target_new path) (map_option Target_new (fold_letters path)) is_dir of
        None \<Rightarrow> None
      | Some rule \<Rightarrow> if rl_negated rule then None else Some rule)"

text \<open>The readings of a path's ancestors, in the order the walk takes them.\<close>

definition readings :: "string \<Rightarrow> (string \<Rightarrow> bool) \<Rightarrow> (string \<times> bool) list" where
  "readings path as_file =
     concat (map (\<lambda>a. (a, True) # (if as_file a then [(a, False)] else [])) (ancestors path))"

fun break_first :: "('r \<Rightarrow> 's \<Rightarrow> 'b option \<times> 's) \<Rightarrow> 's \<Rightarrow> 'r option list \<Rightarrow> 'b option \<times> 's" where
  "break_first f s [] = (None, s)"
| "break_first f s (None # vs) = break_first f s vs"
| "break_first f s (Some r # vs) =
     (case f r s of (Some b, s') \<Rightarrow> (Some b, s') | (None, s') \<Rightarrow> break_first f s' vs)"

lemma find_rev_Some:
  "List.find P (filter Q (rev xs)) = Some x \<longleftrightarrow>
     (\<exists>pre post. xs = pre @ x # post \<and> P x \<and> Q x \<and> (\<forall>y \<in> set post. \<not> (P y \<and> Q y)))"
proof (induction xs rule: rev_induct)
  case (snoc y xs)
  show ?case
  proof (cases "P y \<and> Q y")
    case True
    then have "List.find P (filter Q (rev (xs @ [y]))) = Some y" by simp
    moreover have "xs @ [y] = pre @ x # post \<and> (\<forall>z \<in> set post. \<not> (P z \<and> Q z)) \<longleftrightarrow>
        post = [] \<and> pre = xs \<and> x = y" for pre post
      using True by (cases post rule: rev_cases) auto
    ultimately show ?thesis using True by (auto simp: conj_ac)
  next
    case False
    then have "List.find P (filter Q (rev (xs @ [y]))) = List.find P (filter Q (rev xs))" by auto
    moreover have "(\<exists>pre post. xs @ [y] = pre @ x # post \<and> P x \<and> Q x \<and>
          (\<forall>z \<in> set post. \<not> (P z \<and> Q z))) \<longleftrightarrow>
        (\<exists>pre post. xs = pre @ x # post \<and> P x \<and> Q x \<and> (\<forall>z \<in> set post. \<not> (P z \<and> Q z)))"
      (is "?L \<longleftrightarrow> ?R")
    proof
      assume ?L
      then obtain pre post where h: "xs @ [y] = pre @ x # post" "P x" "Q x"
        "\<forall>z \<in> set post. \<not> (P z \<and> Q z)" by blast
      then show ?R using False by (cases post rule: rev_cases) auto
    next
      assume ?R
      then obtain pre post where h: "xs = pre @ x # post" "P x" "Q x"
        "\<forall>z \<in> set post. \<not> (P z \<and> Q z)" by blast
      then have "xs @ [y] = pre @ x # (post @ [y])" by simp
      moreover have "\<forall>z \<in> set (post @ [y]). \<not> (P z \<and> Q z)" using h False by auto
      ultimately show ?L using h by blast
    qed
    ultimately show ?thesis using snoc by simp
  qed
qed simp

text \<open>The rule that decides is the last one in the file that applies.\<close>

lemma last_match_Some:
  "last_match gs rules path folded is_dir = Some r \<longleftrightarrow>
     (\<exists>pre post. rules = pre @ r # post \<and> rule_matches gs r path folded \<and> (is_dir \<or> \<not> rl_dir_only r) \<and>
        (\<forall>r' \<in> set post. \<not> (rule_matches gs r' path folded \<and> (is_dir \<or> \<not> rl_dir_only r'))))"
  unfolding last_match_def by (rule find_rev_Some)

lemma judge_Some:
  "judge gs rules path is_dir = Some r \<Longrightarrow> r \<in> set rules \<and> \<not> rl_negated r"
  unfolding judge_def by (auto simp: last_match_Some split: option.splits if_splits)

lemma judge_no_rules [simp]: "judge gs [] path is_dir = None"
  by (simp add: judge_def last_match_def)

lemma matched_last_judge:
  "matched_last gs rules path is_dir = (if path = [] then None else judge gs rules path is_dir)"
  by (auto simp: matched_last_def judge_def last_match_def split: option.splits)

lemma report_judge:
  "report f rl_negated (last_match gs rules (Target_new a) (map_option Target_new (fold_letters a)) d) s =
     break_first f s [judge gs rules a d]"
  by (auto simp: report_def judge_def split: option.splits prod.splits)

lemma break_first_append:
  "break_first f s (us @ vs) =
     (case break_first f s us of (Some b, s') \<Rightarrow> (Some b, s') | (None, s') \<Rightarrow> break_first f s' vs)"
  by (induction f s us rule: break_first.induct) (auto split: prod.splits option.splits)

lemma break_first_Cons:
  "break_first f s (v # vs) =
     (case break_first f s [v] of (Some b, s') \<Rightarrow> (Some b, s') | (None, s') \<Rightarrow> break_first f s' vs)"
  using break_first_append [of f s "[v]" vs] by simp

lemma ancestors_walk_readings:
  "ancestors_walk gs rules as_file f s as =
     break_first f s (map (\<lambda>(a, d). judge gs rules a d)
       (concat (map (\<lambda>a. (a, True) # (if as_file a then [(a, False)] else [])) as)))"
proof (induction as arbitrary: s)
  case (Cons a as)
  let ?rest = "map (\<lambda>(a, d). judge gs rules a d)
       (concat (map (\<lambda>a. (a, True) # (if as_file a then [(a, False)] else [])) as))"
  have "break_first f s (judge gs rules a True # (if as_file a then [judge gs rules a False] else []) @ ?rest)
      = ancestors_walk gs rules as_file f s (a # as)"
    by (subst break_first_Cons, subst break_first_append)
       (simp add: report_judge Let_def Cons.IH split: prod.split option.split)
  then show ?case by (cases "as_file a") simp_all
qed simp

lemma excluded_ancestors_readings:
  "excluded_ancestors gs rules path as_file f s =
     break_first f s (map (\<lambda>(a, d). judge gs rules a d) (readings path as_file))"
proof (cases "rules = []")
  case True
  have "break_first f s (map (\<lambda>_. None) xs) = (None, s)" for xs :: "(string \<times> bool) list"
    by (induction xs) auto
  with True show ?thesis by (simp add: excluded_ancestors_def case_prod_unfold)
qed (simp add: excluded_ancestors_def ancestors_walk_readings readings_def)

text \<open>Ancestors are exactly the proper prefixes that end just before a separator.\<close>

lemma set_ancestors: "a \<in> set (ancestors path) \<longleftrightarrow> (\<exists>rest. path = a @ CHR ''/'' # rest)"
proof
  assume "a \<in> set (ancestors path)"
  then obtain i where "i < length path" "path ! i = CHR ''/''" "a = take i path"
    by (auto simp: ancestors_def)
  then have "path = a @ CHR ''/'' # drop (Suc i) path" using id_take_nth_drop [of i path] by simp
  then show "\<exists>rest. path = a @ CHR ''/'' # rest" ..
next
  assume "\<exists>rest. path = a @ CHR ''/'' # rest"
  then obtain rest where "path = a @ CHR ''/'' # rest" ..
  then have "length a \<in> set (filter (\<lambda>i. path ! i = CHR ''/'') [0..<length path])"
    "a = take (length a) path" by auto
  then show "a \<in> set (ancestors path)" unfolding ancestors_def by (metis image_eqI set_map)
qed

section \<open>Folding and parsing\<close>

lemma rule_matches_folding_widens:
  "rule_matches gs r p None \<Longrightarrow> rl_folded r = None \<Longrightarrow> rule_matches gs r p folded"
  by (auto simp: rule_matches_def Let_def split: if_splits)

lemma rule_matches_negated_exact:
  "rl_negated r \<Longrightarrow>
     rule_matches gs r p folded =
       gs_is_match gs (rl_matcher r) (if rl_name_only r then tg_name p else tg_path p)"
  by (simp add: rule_matches_def Let_def)

lemma parse_line_rule:
  assumes "parse_line gs classify n line raw = Inr (Some r)"
  shows "n \<noteq> MAX_RULES" and "rl_line r = line" and "rl_negated r \<Longrightarrow> rl_folded r = None"
    and "\<exists>rest pattern. classify (rl_negated r) rest = Inr (rl_action r, pattern) \<and>
           length pattern \<le> MAX_PATTERN_LEN"
  using assms
  by (auto simp: parse_line_def Let_def not_less split: if_splits sum.splits option.splits prod.splits)
     blast+

definition rules_ok :: "(bool \<Rightarrow> string \<Rightarrow> rule_error + 'a \<times> string) \<Rightarrow> nat \<Rightarrow> ('a, 'm) rule list \<Rightarrow> bool" where
  "rules_ok classify idx rules \<longleftrightarrow>
     length rules \<le> MAX_RULES \<and> sorted_wrt (<) (map rl_line rules) \<and>
     (\<forall>r \<in> set rules. rl_line r \<le> idx \<and> (rl_negated r \<longrightarrow> rl_folded r = None) \<and>
        (\<exists>rest pattern. classify (rl_negated r) rest = Inr (rl_action r, pattern) \<and>
           length pattern \<le> MAX_PATTERN_LEN))"

lemma parse_lines_ok:
  "parse_lines gs classify rules idx lines = Inr rules' \<Longrightarrow> rules_ok classify idx rules \<Longrightarrow>
     rules_ok classify (idx + length lines) rules'"
proof (induction gs classify rules idx lines rule: parse_lines.induct)
  case (2 gs classify rules idx raw lines)
  have step: "rules_ok classify (idx + 1) rules"
    using "2.prems"(2) by (fastforce simp: rules_ok_def)
  show ?case
  proof (cases "parse_line gs classify (length rules) (idx + 1) raw")
    case (Inr res)
    show ?thesis
    proof (cases res)
      case None
      with Inr 2 step show ?thesis by simp
    next
      case (Some r)
      with Inr have pl: "parse_line gs classify (length rules) (idx + 1) raw = Inr (Some r)" by simp
      have "rules_ok classify (idx + 1) (rules @ [r])"
        using step "2.prems"(2) parse_line_rule [OF pl]
        by (fastforce simp: rules_ok_def sorted_wrt_append)
      with pl 2 show ?thesis by simp
    qed
  qed (use 2 in simp)
qed simp

lemma RuleSet_parse_ok:
  "RuleSet_parse gs classify src = Inr rules \<Longrightarrow> \<exists>n. rules_ok classify n rules"
  unfolding RuleSet_parse_def Let_def
  by (drule parse_lines_ok) (auto simp: rules_ok_def)

end
