(* ===== verification/Deny_File.thy ===== *)
theory Deny_File
  imports Ignore_Rules Php_Deny
begin

text \<open>
  The rule file \<^verbatim>\<open>.oxphpdeny\<close> of \<^verbatim>\<open>src/config/deny_file.rs\<close>: loading and parsing it,
  the decision about a request path, and the cost guard in front of it.  The
  decision relies on a rule set only through the contract of the locale
  \<open>ancestor_judging\<close>, which the rule sets of \<open>Ignore_Rules\<close> are shown to meet.
\<close>

section \<open>Definitions\<close>

definition MAX_DEPTH :: nat where "MAX_DEPTH = 64"
definition MAX_MATCH_COST :: nat where "MAX_MATCH_COST = MAX_DEPTH * 2048"
definition MAX_FILE_SIZE :: nat where "MAX_FILE_SIZE = 1048576"

datatype DenyAction = Deny | Entry

record 'm deny_file =
  df_rules :: "(DenyAction, 'm) rule list"
  df_path :: string
  df_fallback :: string

datatype io_error = NotFound_io | NotADirectory_io | Other_io

datatype deny_file_error =
    RuleError nat rule_error
  | EntryRuleNeedsScript nat string
  | DanglingSymlink
  | Unreadable
  | NotUtf8

definition classify :: "bool \<Rightarrow> string \<Rightarrow> rule_error + DenyAction \<times> string" where
  "classify negated rest =
     (case strip_prefix rest ''>'' of
        None \<Rightarrow> Inr (Deny, rest)
      | Some pattern \<Rightarrow>
          if negated then Inl NegatedEntry
          else
            (let p = dropWhile (\<lambda>c. c = CHR '' '' \<or> c = CHR 0x09) pattern in
             if p = [] then Inl EntryWithoutPattern else Inr (Entry, p)))"

definition fallback_label :: "string option \<Rightarrow> string" where
  "fallback_label raw =
     (case map_option str_trim raw of
        None \<Rightarrow> ''404''
      | Some v \<Rightarrow> (case parse_uint 65535 v of Some code \<Rightarrow> show_nat code | None \<Rightarrow> ''script''))"

definition DenyFile_parse :: "'m globset \<Rightarrow> string \<Rightarrow> string \<Rightarrow> RoutingModeKind \<Rightarrow> string option
    \<Rightarrow> deny_file_error + 'm deny_file" where
  "DenyFile_parse gs src path mode fallback =
     (case RuleSet_parse gs classify src of
        Inl (line, e) \<Rightarrow> Inl (RuleError line e)
      | Inr rules \<Rightarrow>
          (case (if mode = Traditional \<or> mode = Spa
                 then List.find (\<lambda>r. rl_action r = Entry) rules else None) of
             Some rule \<Rightarrow> Inl (EntryRuleNeedsScript (rl_line rule) (rl_original rule))
           | None \<Rightarrow> Inr \<lparr>df_rules = rules, df_path = path, df_fallback = fallback_label fallback\<rparr>))"

text \<open>\<^verbatim>\<open>read_regular\<close> on an open file: whether it is regular, and its bytes.\<close>

definition read_regular :: "bool \<times> string \<Rightarrow> io_error + string" where
  "read_regular file =
     (case file of (is_file, content) \<Rightarrow>
        if \<not> is_file then Inl Other_io
        else
          (let bytes = take (MAX_FILE_SIZE + 1) content in
           if length bytes > MAX_FILE_SIZE then Inl Other_io else Inr bytes))"

text \<open>
  \<^verbatim>\<open>DenyFile::load\<close>.  \<open>opened\<close> is what opening the file gave, \<open>link_exists\<close> whether
  \<^verbatim>\<open>symlink_metadata\<close> finds a directory entry of that name.
\<close>

definition DenyFile_load :: "'m globset \<Rightarrow> (string \<Rightarrow> io_error + bool \<times> string) \<Rightarrow> (string \<Rightarrow> bool)
    \<Rightarrow> string option \<Rightarrow> string \<Rightarrow> RoutingModeKind \<Rightarrow> deny_file_error + 'm deny_file option" where
  "DenyFile_load gs opened link_exists env_fallback document_root mode =
     (let path = path_join document_root ''.oxphpdeny'' in
      case (case opened path of Inl e \<Rightarrow> Inl e | Inr f \<Rightarrow> read_regular f) of
        Inl e \<Rightarrow>
          if e = NotFound_io \<or> e = NotADirectory_io
          then (if link_exists path then Inl DanglingSymlink else Inr None)
          else Inl Unreadable
      | Inr bytes \<Rightarrow>
          if \<not> utf8_valid bytes then Inl NotUtf8
          else map_sum id Some (DenyFile_parse gs bytes path mode env_fallback))"

definition names_a_script :: "string \<Rightarrow> bool" where
  "names_a_script path = (4 \<le> length path \<and> eq_ignore_case (drop (length path - 4) path) ''.php'')"

text \<open>
  The callback of \<^verbatim>\<open>DenyFile::check\<close>: a deny rule breaks the walk, the first entry
  rule is remembered.
\<close>

definition deny_callback :: "('r \<Rightarrow> DenyAction) \<Rightarrow> 'r \<Rightarrow> 'r option \<Rightarrow> 'r option \<times> 'r option" where
  "deny_callback action rule entry =
     (if action rule = Deny then (Some rule, entry)
      else (None, case entry of Some e \<Rightarrow> Some e | None \<Rightarrow> Some rule))"

text \<open>
  The decision of \<^verbatim>\<open>DenyFile::check\<close>, over the two rule-set methods it calls:
  \<open>walk\<close> is \<^verbatim>\<open>excluded_ancestors\<close> and \<open>last_of\<close> is \<^verbatim>\<open>matched_last\<close>.
\<close>

definition check_with :: "('r \<Rightarrow> DenyAction)
    \<Rightarrow> (string \<Rightarrow> (string \<Rightarrow> bool) \<Rightarrow> ('r \<Rightarrow> 'r option \<Rightarrow> 'r option \<times> 'r option) \<Rightarrow> 'r option
         \<Rightarrow> 'r option \<times> 'r option)
    \<Rightarrow> (string \<Rightarrow> bool \<Rightarrow> 'r option) \<Rightarrow> string \<Rightarrow> bool \<Rightarrow> bool \<Rightarrow> 'r option" where
  "check_with action walk last_of path is_dir path_info =
     (let script = (\<lambda>ancestor. path_info \<and> names_a_script ancestor) in
      case walk path script (deny_callback action) None of
        (Some denied, entry) \<Rightarrow> Some denied
      | (None, entry) \<Rightarrow>
          (let as_file = last_of path False;
               as_dir = (if is_dir then last_of path True else None);
               deny = (\<lambda>v. case v of None \<Rightarrow> None | Some r \<Rightarrow> if action r = Deny then Some r else None);
               or_else = (\<lambda>a b. case a of Some x \<Rightarrow> Some x | None \<Rightarrow> b) in
           or_else (or_else (or_else (or_else (deny as_dir) (deny as_file)) entry) as_dir) as_file))"

definition DenyFile_check :: "'m globset \<Rightarrow> 'm deny_file \<Rightarrow> string \<Rightarrow> bool \<Rightarrow> bool
    \<Rightarrow> (DenyAction, 'm) rule option" where
  "DenyFile_check gs file path is_dir path_info =
     check_with rl_action (excluded_ancestors gs (df_rules file)) (matched_last gs (df_rules file))
       path is_dir path_info"

definition too_costly :: "string \<Rightarrow> bool" where
  "too_costly path =
     (let slashes = length (filter (\<lambda>b. b = CHR ''/'') path) in
      slashes \<ge> MAX_DEPTH \<or> (slashes + 1) * length path > MAX_MATCH_COST)"

definition excludes_anything :: "'m deny_file \<Rightarrow> bool" where
  "excludes_anything file = list_ex (\<lambda>r. \<not> rl_negated r) (df_rules file)"

definition has_deny_rules :: "'m deny_file \<Rightarrow> bool" where
  "has_deny_rules file = list_ex (\<lambda>r. \<not> rl_negated r \<and> rl_action r = Deny) (df_rules file)"

definition counts :: "'m deny_file \<Rightarrow> nat \<times> nat \<times> nat" where
  "counts file =
     foldl (\<lambda>(deny, entry, allow) rule.
        if rl_negated rule then (deny, entry, allow + 1)
        else (case rl_action rule of
                Deny \<Rightarrow> (deny + 1, entry, allow)
              | Entry \<Rightarrow> (deny, entry + 1, allow))) (0, 0, 0) (df_rules file)"

text \<open>The strictest of several answers: a deny over a hand-over, that over none.\<close>

definition strictest :: "DenyAction option list \<Rightarrow> DenyAction option" where
  "strictest vs = (if Some Deny \<in> set vs then Some Deny
                   else if Some Entry \<in> set vs then Some Entry else None)"

definition first_entry :: "'r option list \<Rightarrow> 'r option" where
  "first_entry vs = (case List.find (\<lambda>v. v \<noteq> None) vs of Some v \<Rightarrow> v | None \<Rightarrow> None)"

lemma first_entry_simps [simp]:
  "first_entry [] = None" "first_entry (None # vs) = first_entry vs"
  "first_entry (Some r # vs) = Some r"
  by (simp_all add: first_entry_def)

lemma not_Deny [simp]:
  "a \<noteq> Deny \<longleftrightarrow> a = Entry" "a \<noteq> Entry \<longleftrightarrow> a = Deny"
  "Deny \<noteq> a \<longleftrightarrow> a = Entry" "Entry \<noteq> a \<longleftrightarrow> a = Deny"
  by (cases a; simp)+

lemma break_first_Deny:
  "break_first (deny_callback action) s vs = (Some r, e) \<Longrightarrow> Some r \<in> set vs \<and> action r = Deny"
proof (induction vs arbitrary: s)
  case (Cons v vs)
  then show ?case
    by (cases v) (auto simp: deny_callback_def split: if_splits option.splits)
qed simp

lemma break_first_no_Deny:
  "break_first (deny_callback action) s vs = (None, e) \<Longrightarrow>
     Some Deny \<notin> set (map (map_option action) vs) \<and>
     e = (case s of Some x \<Rightarrow> Some x | None \<Rightarrow> first_entry vs)"
proof (induction vs arbitrary: s)
  case (Cons v vs)
  show ?case
  proof (cases v)
    case None
    with Cons.IH [of s] Cons.prems show ?thesis by (cases s) simp_all
  next
    case (Some r)
    with Cons.prems have r: "action r = Entry"
      "break_first (deny_callback action) (case s of Some x \<Rightarrow> Some x | None \<Rightarrow> Some r) vs = (None, e)"
      by (auto simp: deny_callback_def [of action r] split: if_splits)
    from Cons.IH [OF r(2)] r(1) Some show ?thesis
      by (cases s) auto
  qed
qed (simp split: option.splits)

lemma first_entry_None: "first_entry vs = None \<longleftrightarrow> (\<forall>v \<in> set vs. v = None)"
proof (induction vs)
  case (Cons v vs)
  then show ?case by (cases v) auto
qed simp

lemma first_entry_Some: "first_entry vs = Some r \<Longrightarrow> Some r \<in> set vs"
proof (induction vs)
  case (Cons v vs)
  then show ?case by (cases v) auto
qed simp

section \<open>The contract between a rule set and the deny file\<close>

text \<open>
  \<open>judged path d\<close> is the rule excluding a path read as a directory (\<open>d\<close>) or a file.
  The walk visits the readings of the ancestors in order, and \<open>last_of\<close> judges
  the path itself.
\<close>

locale ancestor_judging =
  fixes judged :: "string \<Rightarrow> bool \<Rightarrow> 'r option"
    and walk :: "string \<Rightarrow> (string \<Rightarrow> bool) \<Rightarrow> ('r \<Rightarrow> 'r option \<Rightarrow> 'r option \<times> 'r option) \<Rightarrow> 'r option
                  \<Rightarrow> 'r option \<times> 'r option"
    and last_of :: "string \<Rightarrow> bool \<Rightarrow> 'r option"
  assumes walk_readings:
      "walk path as_file f s = break_first f s (map (\<lambda>(a, d). judged a d) (readings path as_file))"
    and last_of_judged: "last_of path d = (if path = [] then None else judged path d)"
begin

text \<open>Every reading of a request, with the rule that excludes it.\<close>

definition verdicts :: "string \<Rightarrow> bool \<Rightarrow> bool \<Rightarrow> 'r option list" where
  "verdicts path is_dir path_info =
     map (\<lambda>(a, d). judged a d) (readings path (\<lambda>a. path_info \<and> names_a_script a)) @
     [last_of path False] @ (if is_dir then [last_of path True] else [])"

lemma check_strictest:
  "map_option action (check_with action walk last_of path is_dir path_info) =
     strictest (map (map_option action) (verdicts path is_dir path_info))"
proof -
  define script where "script = (\<lambda>a. path_info \<and> names_a_script a)"
  define W where "W = map (\<lambda>(a, d). judged a d) (readings path script)"
  define F D where "F = last_of path False" and "D = (if is_dir then last_of path True else None)"
  obtain res entry where w: "walk path script (deny_callback action) None = (res, entry)" by fastforce
  then have b: "break_first (deny_callback action) None W = (res, entry)"
    by (simp only: walk_readings W_def)
  have vs: "set (map (map_option action) (verdicts path is_dir path_info)) =
      map_option action ` set W \<union> {map_option action F} \<union> (if is_dir then {map_option action D} else {})"
    by (simp add: verdicts_def W_def F_def D_def script_def image_image case_prod_unfold)
  have chk: "check_with action walk last_of path is_dir path_info =
      (case res of Some r \<Rightarrow> Some r
       | None \<Rightarrow>
         (let deny = (\<lambda>v. case v of None \<Rightarrow> None | Some r \<Rightarrow> if action r = Deny then Some r else None);
              or_else = (\<lambda>a b. case a of Some x \<Rightarrow> Some x | None \<Rightarrow> b) in
          or_else (or_else (or_else (or_else (deny D) (deny F)) entry) D) F))"
    using w unfolding check_with_def script_def F_def D_def by (cases res) (auto simp: Let_def)
  show ?thesis
  proof (cases res)
    case (Some r)
    with break_first_Deny b have r: "Some r \<in> set W" "action r = Deny" by metis+
    then have "Some Deny \<in> map_option action ` set W" by force
    with Some r show ?thesis by (simp add: chk strictest_def vs del: set_map)
  next
    case None
    from break_first_no_Deny [OF b [unfolded None]]
    have e: "entry = first_entry W" and noD: "Some Deny \<notin> map_option action ` set W" by simp_all
    have hasE: "(Some Entry \<in> map_option action ` set W) = (entry \<noteq> None)"
    proof
      assume "Some Entry \<in> map_option action ` set W"
      then show "entry \<noteq> None" unfolding e first_entry_None by force
    next
      assume "entry \<noteq> None"
      then obtain x where "Some x \<in> set W" using first_entry_Some unfolding e by force
      moreover from this noD have "action x = Entry" by force
      ultimately show "Some Entry \<in> map_option action ` set W" by force
    qed
    have eact: "entry = Some x \<Longrightarrow> action x = Entry" for x
      using noD first_entry_Some [of W x] unfolding e by force
    have D0: "\<not> is_dir \<Longrightarrow> D = None" by (simp add: D_def)
    show ?thesis
      using noD hasE eact D0
      unfolding chk strictest_def vs Let_def None
      by (cases F; cases D; cases entry; cases is_dir) (auto simp del: set_map split: if_splits)
  qed
qed

lemma check_in_verdicts:
  assumes "check_with action walk last_of path is_dir path_info = Some r"
  shows "Some r \<in> set (verdicts path is_dir path_info)"
proof -
  define script where "script = (\<lambda>a. path_info \<and> names_a_script a)"
  define W where "W = map (\<lambda>(a, d). judged a d) (readings path script)"
  obtain res entry where w: "walk path script (deny_callback action) None = (res, entry)" by fastforce
  then have b: "break_first (deny_callback action) None W = (res, entry)"
    by (simp only: walk_readings W_def)
  have vs: "set (verdicts path is_dir path_info) =
      set W \<union> {last_of path False} \<union> (if is_dir then {last_of path True} else {})"
    by (simp add: verdicts_def W_def script_def)
  show ?thesis
  proof (cases res)
    case (Some d)
    with break_first_Deny b have "Some d \<in> set W" by metis
    moreover have "r = d" using assms w Some by (simp add: check_with_def script_def)
    ultimately show ?thesis by (simp add: vs)
  next
    case None
    from break_first_no_Deny [OF b [unfolded None]] have "entry = first_entry W" by simp
    then have "entry = Some e \<Longrightarrow> Some e \<in> set W" for e using first_entry_Some by metis
    with None w assms show ?thesis unfolding vs
      by (auto simp: check_with_def script_def [symmetric] Let_def split: option.splits if_splits)
  qed
qed

end

interpretation rs: ancestor_judging "judge gs rules" "excluded_ancestors gs rules" "matched_last gs rules"
  for gs :: "'m globset" and rules :: "(DenyAction, 'm) rule list"
  by unfold_locales (simp_all add: excluded_ancestors_readings matched_last_judge)

section \<open>The decision, the guard and the loader\<close>

text \<open>All the readings of a request that the rules judge, with their verdicts.\<close>

definition all_verdicts :: "'m globset \<Rightarrow> 'm deny_file \<Rightarrow> string \<Rightarrow> bool \<Rightarrow> bool
    \<Rightarrow> (DenyAction, 'm) rule option list" where
  "all_verdicts gs file path is_dir path_info =
     map (\<lambda>(a, d). judge gs (df_rules file) a d)
       (readings path (\<lambda>a. path_info \<and> names_a_script a) @ [(path, False)] @
        (if is_dir then [(path, True)] else []))"

lemma DenyFile_check_strictest:
  "path \<noteq> [] \<Longrightarrow>
     map_option rl_action (DenyFile_check gs file path is_dir path_info) =
       strictest (map (map_option rl_action) (all_verdicts gs file path is_dir path_info))"
  unfolding DenyFile_check_def rs.check_strictest rs.verdicts_def all_verdicts_def
  by (simp add: matched_last_judge)

lemma DenyFile_check_rule:
  "DenyFile_check gs file path is_dir path_info = Some r \<Longrightarrow> r \<in> set (df_rules file) \<and> \<not> rl_negated r"
  unfolding DenyFile_check_def
  by (drule rs.check_in_verdicts)
     (auto simp: rs.verdicts_def matched_last_judge image_iff split: if_splits dest!: sym [of "Some r"] judge_Some)

lemma check_with_in_verdicts_None:
  "path \<noteq> [] \<Longrightarrow> DenyFile_check gs file path is_dir path_info = None \<Longrightarrow>
     v \<in> set (all_verdicts gs file path is_dir path_info) \<Longrightarrow> v = None"
  using DenyFile_check_strictest [of path gs "file" is_dir path_info]
  by (cases v) (auto simp: strictest_def image_iff split: if_splits dest!: bspec)

lemma check_not_denied:
  assumes "path \<noteq> []"
    and "map_option rl_action (DenyFile_check gs file path is_dir path_info) \<noteq> Some Deny"
    and "(a, d) \<in> set (readings path (\<lambda>a. path_info \<and> names_a_script a)) \<union> {(path, False)}"
  shows "map_option rl_action (judge gs (df_rules file) a d) \<noteq> Some Deny"
proof -
  have "judge gs (df_rules file) a d \<in> set (all_verdicts gs file path is_dir path_info)"
    using assms(3) by (auto simp: all_verdicts_def intro!: image_eqI [of _ _ "(a, d)"])
  with assms(1,2) show ?thesis
    unfolding DenyFile_check_strictest [OF assms(1)] strictest_def
    by (metis image_eqI set_map)
qed

lemma readings_script:
  "names_a_script a \<Longrightarrow> path = a @ CHR ''/'' # rest \<Longrightarrow>
     (a, False) \<in> set (readings path names_a_script)"
  unfolding readings_def using set_ancestors [of a path] by force

lemma counts_sum:
  "counts file = (d, e, a) \<Longrightarrow> d + e + a = length (df_rules file)"
proof -
  have "foldl (\<lambda>(deny, entry, allow) rule.
          if rl_negated rule then (deny, entry, allow + 1)
          else (case rl_action rule of
                  Deny \<Rightarrow> (deny + 1, entry, allow)
                | Entry \<Rightarrow> (deny, entry + 1, allow))) (x, y, z) rules = (d, e, a) \<Longrightarrow>
        d + e + a = x + y + z + length rules" for x y z d e a :: nat and rules :: "(DenyAction, 'm) rule list"
    by (induction rules arbitrary: x y z) (auto split: if_splits DenyAction.splits)
  from this [of 0 0 0] show "counts file = (d, e, a) \<Longrightarrow> d + e + a = length (df_rules file)"
    by (simp add: counts_def)
qed

lemma classify_negated: "classify True rest = Inr (a, p) \<Longrightarrow> a = Deny"
  by (auto simp: classify_def split: option.splits)

lemma DenyFile_parse_rules:
  "DenyFile_parse gs src path mode fallback = Inr file \<Longrightarrow>
     RuleSet_parse gs classify src = Inr (df_rules file) \<and>
     (mode = Traditional \<or> mode = Spa \<longrightarrow> (\<forall>r \<in> set (df_rules file). rl_action r = Deny))"
  by (auto simp: DenyFile_parse_def find_None_iff split: sum.splits prod.splits option.splits if_splits)

lemma too_costly_bound:
  "\<not> too_costly path \<Longrightarrow>
     length (ancestors path) < MAX_DEPTH \<and> (length (ancestors path) + 1) * length path \<le> MAX_MATCH_COST"
proof -
  have "length (filter (\<lambda>b. b = CHR ''/'') (map ((!) path) [0..<length path])) =
      length (filter (\<lambda>i. path ! i = CHR ''/'') [0..<length path])"
    by (simp only: filter_map length_map comp_def)
  then have "length (filter (\<lambda>b. b = CHR ''/'') path) =
      length (filter (\<lambda>i. path ! i = CHR ''/'') [0..<length path])"
    by (simp only: map_nth)
  then show "\<not> too_costly path \<Longrightarrow> ?thesis"
    by (simp add: too_costly_def Let_def ancestors_def)
qed


section \<open>Properties\<close>

text \<open>
  C9.  The decision on a request path is the strictest answer over all its readings:
  each ancestor as a directory (and, when PATH_INFO is split, as the script it
  names), the path as a file, and as a directory when the URI ended in a slash.
\<close>

theorem deny_decision_strictest:
  assumes "path \<noteq> []"
  shows "map_option rl_action (DenyFile_check gs file path is_dir path_info) =
     strictest (map (map_option rl_action) (all_verdicts gs file path is_dir path_info))"
  using assms by (rule DenyFile_check_strictest)

definition lit_globset :: "string globset" where
  "lit_globset = \<lparr>gs_compile = (\<lambda>_ g. Some g), gs_is_match = (\<lambda>m s. m = s), gs_default_match = (\<lambda>_ _. False)\<rparr>"

definition lit_file :: "string deny_file" where
  "lit_file = (case DenyFile_parse lit_globset
      (''# rules'' @ [CHR 0x0A] @ ''/admin'' @ [CHR 0x0A] @ ''> /app'' @ [CHR 0x0A]) ''/srv/.oxphpdeny'' Framework None of
      Inr f \<Rightarrow> f | Inl _ \<Rightarrow> \<lparr>df_rules = [], df_path = [], df_fallback = []\<rparr>)"

theorem deny_decision_strictest_witness:
  "map_option rl_action (DenyFile_check lit_globset lit_file ''app/x'' False False) = Some Entry \<and>
   strictest (map (map_option rl_action) (all_verdicts lit_globset lit_file ''app/x'' False False)) = Some Entry"
proof -
  have "map_option rl_action (DenyFile_check lit_globset lit_file ''app/x'' False False) = Some Entry"
    by code_simp
  with deny_decision_strictest [of "''app/x''" lit_globset lit_file False False] show ?thesis by simp
qed

text \<open>
  A rule file that parses is within its limits: at most 256 rules, in line
  order, every pattern at most 128 bytes, and outside the modes with an entry script
  no rule hands a request to one.
\<close>

lemma deny_file_within_limits:
  assumes "DenyFile_parse gs src path mode fallback = Inr file"
  shows "length (df_rules file) \<le> MAX_RULES \<and> sorted_wrt (<) (map rl_line (df_rules file)) \<and>
     list_all (\<lambda>r. \<exists>rest pattern. classify (rl_negated r) rest = Inr (rl_action r, pattern) \<and>
                      length pattern \<le> MAX_PATTERN_LEN) (df_rules file) \<and>
     (mode \<in> {Traditional, Spa} \<longrightarrow> list_all (\<lambda>r. rl_action r = Deny) (df_rules file))"
proof -
  from DenyFile_parse_rules [OF assms]
  have p: "RuleSet_parse gs classify src = Inr (df_rules file)"
    and m: "mode \<in> {Traditional, Spa} \<longrightarrow> list_all (\<lambda>r. rl_action r = Deny) (df_rules file)"
    by (auto simp: list_all_iff)
  from RuleSet_parse_ok [OF p] obtain n where "rules_ok classify n (df_rules file)" ..
  with m show ?thesis by (simp add: rules_ok_def list_all_iff)
qed

lemma deny_file_within_limits_witness:
  "length (df_rules lit_file) \<le> MAX_RULES \<and> df_rules lit_file \<noteq> []"
proof -
  have "isl (DenyFile_parse lit_globset
      (''# rules'' @ [CHR 0x0A] @ ''/admin'' @ [CHR 0x0A] @ ''> /app'' @ [CHR 0x0A]) ''/srv/.oxphpdeny'' Framework None)
      = False" by code_simp
  then have "DenyFile_parse lit_globset
      (''# rules'' @ [CHR 0x0A] @ ''/admin'' @ [CHR 0x0A] @ ''> /app'' @ [CHR 0x0A]) ''/srv/.oxphpdeny'' Framework None
      = Inr lit_file" unfolding lit_file_def by (auto simp: isl_def split: sum.splits)
  from deny_file_within_limits [OF this] have "length (df_rules lit_file) \<le> MAX_RULES" by blast
  moreover have "df_rules lit_file \<noteq> []" by code_simp
  ultimately show ?thesis by blast
qed

text \<open>
  Loading fails closed: when an entry named \<^verbatim>\<open>.oxphpdeny\<close> exists, even as a
  dangling link, the server does not start as if there were no rules.
\<close>

lemma deny_file_load_fails_closed:
  assumes "DenyFile_load gs opened link_exists env root mode = Inr None"
  shows "\<not> link_exists (path_join root ''.oxphpdeny'') \<and>
     opened (path_join root ''.oxphpdeny'') \<in> {Inl NotFound_io, Inl NotADirectory_io}"
  using assms
  by (auto simp: DenyFile_load_def Let_def read_regular_def map_sum_def
      split: sum.splits if_splits prod.splits)

lemma deny_file_load_fails_closed_witness:
  "\<not> (\<lambda>_ :: string. False) (path_join ''/srv'' ''.oxphpdeny'') \<and>
   (\<lambda>_ :: string. Inl NotFound_io :: io_error + bool \<times> string) (path_join ''/srv'' ''.oxphpdeny'')
     \<in> {Inl NotFound_io, Inl NotADirectory_io}"
  by (rule deny_file_load_fails_closed [of lit_globset _ _ None _ Framework])
     (simp add: DenyFile_load_def Let_def)

text \<open>
  The cost guard bounds the matching work: a path that passes it has fewer
  than 64 ancestors, and ancestors times length stay within the budget.
\<close>

lemma match_cost_bounded:
  assumes "\<not> too_costly path"
  shows "length (ancestors path) < MAX_DEPTH \<and>
     (length (ancestors path) + 1) * length path \<le> MAX_MATCH_COST"
  using assms by (rule too_costly_bound)

lemma match_cost_bounded_witness:
  "length (ancestors ''a/b/c'') < MAX_DEPTH \<and> (length (ancestors ''a/b/c'') + 1) * length ''a/b/c'' \<le> MAX_MATCH_COST"
  by (rule match_cost_bounded) code_simp

end
