(* ===== verification/Routing.thy ===== *)
theory Routing
  imports File_Probe Deny_File
begin

text \<open>
  Route resolution: \<^verbatim>\<open>src/server/routing/mod.rs\<close> and the four mode routers
  (\<^verbatim>\<open>traditional.rs\<close>, \<^verbatim>\<open>framework.rs\<close>, \<^verbatim>\<open>spa.rs\<close>, \<^verbatim>\<open>worker.rs\<close>).  A router reaches the disk
  only through a probe, so its definition is stated over any probe; the server runs
  it with the cached probe.  The route cache is an \<^verbatim>\<open>LruCache\<close> given by its interface,
  and \<open>percent_decode\<close> is \<^verbatim>\<open>percent_decode_str(..).decode_utf8()\<close> of the
  \<^verbatim>\<open>percent_encoding\<close> crate (\<open>None\<close> when the bytes are not UTF-8).  Paths are UTF-8,
  where \<^verbatim>\<open>to_string_lossy\<close> is the identity.  A panic of the source is the result
  \<open>None\<close>.
\<close>

section \<open>Definitions\<close>

datatype RouteResult =
    Execute (rr_script: string) (rr_path_info: "string option") (rr_denied: "DeniedMeta option")
  | Serve string
  | NotFound
  | Denied nat DenySource

record TraditionalRouter =
  tr_root_index_php :: string
  tr_root_index_html :: string

record FrameworkRouter =
  fr_index_file_path :: string
  fr_entry_segment :: string

record SpaRouter =
  sp_index_file_path :: string

datatype Mode =
    Mode_Traditional TraditionalRouter
  | Mode_Framework FrameworkRouter
  | Mode_Spa SpaRouter
  | Mode_Worker

record 's resolve_ctx =
  rx_document_root :: string
  rx_probe :: "'s probe"
  rx_worker_route :: "RouteResult option"

subsection \<open>Traditional mode\<close>

definition TraditionalRouter_new :: "string \<Rightarrow> TraditionalRouter" where
  "TraditionalRouter_new document_root =
     \<lparr>tr_root_index_php = path_join document_root ''index.php'',
      tr_root_index_html = path_join document_root ''index.html''\<rparr>"

definition root_fallback :: "TraditionalRouter \<Rightarrow> 's resolve_ctx \<Rightarrow> ('s, RouteResult) state" where
  "root_fallback r ctx =
     do {
       php \<leftarrow> pr_is_file (rx_probe ctx) (tr_root_index_php r);
       if php then State_Monad.return (Execute (tr_root_index_php r) None None)
       else do {
         html \<leftarrow> pr_is_file (rx_probe ctx) (tr_root_index_html r);
         if html then State_Monad.return (Serve (tr_root_index_html r))
         else State_Monad.return NotFound
       }
     }"

definition is_php_marker :: "string \<Rightarrow> nat \<Rightarrow> bool" where
  "is_php_marker bytes i =
     (bytes ! i = CHR ''.'' \<and>
      (bytes ! (i + 1) = CHR ''p'' \<or> bytes ! (i + 1) = CHR ''P'') \<and>
      (bytes ! (i + 2) = CHR ''h'' \<or> bytes ! (i + 2) = CHR ''H'') \<and>
      (bytes ! (i + 3) = CHR ''p'' \<or> bytes ! (i + 3) = CHR ''P''))"

text \<open>The loop of \<^verbatim>\<open>try_split_path_info\<close> from byte \<open>i\<close> on.\<close>

function split_path_info_from :: "'s resolve_ctx \<Rightarrow> string \<Rightarrow> nat \<Rightarrow> ('s, RouteResult option) state" where
  "split_path_info_from ctx sanitized i =
     (if i + 4 \<le> length sanitized then
        (if \<not> is_php_marker sanitized i then split_path_info_from ctx sanitized (i + 1)
         else if i + 4 < length sanitized \<and> sanitized ! (i + 4) \<noteq> CHR ''/''
           then split_path_info_from ctx sanitized (i + 4)
         else
           do {
             hit \<leftarrow> pr_is_file (rx_probe ctx) (path_join (rx_document_root ctx) (take (i + 4) sanitized));
             if hit
             then State_Monad.return
                    (Some (Execute (path_join (rx_document_root ctx) (take (i + 4) sanitized))
                             (if i + 4 < length sanitized then Some (drop (i + 4) sanitized) else None)
                             None))
             else split_path_info_from ctx sanitized (i + 4)
           })
      else State_Monad.return None)"
  by pat_completeness auto
termination
  by (relation "measure (\<lambda>(ctx, s, i). length s - i)") auto

declare split_path_info_from.simps [simp del]

definition try_split_path_info :: "'s resolve_ctx \<Rightarrow> string \<Rightarrow> ('s, RouteResult option) state" where
  "try_split_path_info ctx sanitized = split_path_info_from ctx sanitized 0"

definition trad_resolve_no_extension :: "TraditionalRouter \<Rightarrow> string \<Rightarrow> 's resolve_ctx
    \<Rightarrow> ('s, RouteResult) state" where
  "trad_resolve_no_extension r sanitized ctx =
     (if sanitized = [] then root_fallback r ctx
      else
        (let file_path = path_join (rx_document_root ctx) sanitized in
         do {
           exact \<leftarrow> pr_is_file (rx_probe ctx) file_path;
           if exact then State_Monad.return (Serve file_path)
           else do {
             dir \<leftarrow> pr_is_dir (rx_probe ctx) file_path;
             if dir then
               do {
                 php \<leftarrow> pr_is_file (rx_probe ctx) (path_join file_path ''index.php'');
                 if php then State_Monad.return (Execute (path_join file_path ''index.php'') None None)
                 else do {
                   html \<leftarrow> pr_is_file (rx_probe ctx) (path_join file_path ''index.html'');
                   if html then State_Monad.return (Serve (path_join file_path ''index.html''))
                   else root_fallback r ctx
                 }
               }
             else root_fallback r ctx
           }
         }))"

definition trad_resolve_php :: "TraditionalRouter \<Rightarrow> string \<Rightarrow> 's resolve_ctx \<Rightarrow> ('s, RouteResult) state" where
  "trad_resolve_php r sanitized ctx =
     (let file_path = path_join (rx_document_root ctx) sanitized in
      do {
        exact \<leftarrow> pr_is_file (rx_probe ctx) file_path;
        if exact then State_Monad.return (Execute file_path None None)
        else do {
          split \<leftarrow> try_split_path_info ctx sanitized;
          case split of
            Some result \<Rightarrow> State_Monad.return result
          | None \<Rightarrow> root_fallback r ctx
        }
      })"

subsection \<open>Framework, SPA and worker mode\<close>

definition FrameworkRouter_new :: "string \<Rightarrow> string \<Rightarrow> FrameworkRouter" where
  "FrameworkRouter_new document_root index_file =
     \<lparr>fr_index_file_path = path_join document_root index_file, fr_entry_segment = index_file\<rparr>"

definition rewrite :: "FrameworkRouter \<Rightarrow> string \<Rightarrow> 's resolve_ctx \<Rightarrow> ('s, RouteResult) state" where
  "rewrite r sanitized ctx =
     do {
       found \<leftarrow> pr_is_file (rx_probe ctx) (fr_index_file_path r);
       if \<not> found then State_Monad.return NotFound
       else State_Monad.return
              (Execute (fr_index_file_path r)
                 (case strip_prefix sanitized (fr_entry_segment r) of
                    Some rest \<Rightarrow> if starts_with rest ''/'' then Some rest else None
                  | None \<Rightarrow> None)
                 None)
     }"

definition SpaRouter_new :: "string \<Rightarrow> string \<Rightarrow> SpaRouter" where
  "SpaRouter_new document_root index_file = \<lparr>sp_index_file_path = path_join document_root index_file\<rparr>"

definition spa_resolve_no_extension :: "SpaRouter \<Rightarrow> 's resolve_ctx \<Rightarrow> ('s, RouteResult) state" where
  "spa_resolve_no_extension r ctx =
     do {
       found \<leftarrow> pr_is_file (rx_probe ctx) (sp_index_file_path r);
       State_Monad.return (if found then Serve (sp_index_file_path r) else NotFound)
     }"

definition spa_resolve_php :: "string \<Rightarrow> 's resolve_ctx \<Rightarrow> ('s, RouteResult) state" where
  "spa_resolve_php sanitized ctx =
     do {
       found \<leftarrow> pr_is_file (rx_probe ctx) (path_join (rx_document_root ctx) sanitized);
       State_Monad.return (if found then Execute (path_join (rx_document_root ctx) sanitized) None None
                           else NotFound)
     }"

definition worker_dispatch :: "'s resolve_ctx \<Rightarrow> ('s, RouteResult) state" where
  "worker_dispatch ctx =
     State_Monad.return (case rx_worker_route ctx of Some wr \<Rightarrow> wr | None \<Rightarrow> NotFound)"

subsection \<open>Dispatch by mode\<close>

definition Mode_resolve_no_extension :: "Mode \<Rightarrow> string \<Rightarrow> 's resolve_ctx \<Rightarrow> ('s, RouteResult) state" where
  "Mode_resolve_no_extension mode sanitized ctx =
     (case mode of
        Mode_Traditional r \<Rightarrow> trad_resolve_no_extension r sanitized ctx
      | Mode_Framework r \<Rightarrow> rewrite r sanitized ctx
      | Mode_Spa r \<Rightarrow> spa_resolve_no_extension r ctx
      | Mode_Worker \<Rightarrow> worker_dispatch ctx)"

definition Mode_resolve_php :: "Mode \<Rightarrow> string \<Rightarrow> 's resolve_ctx \<Rightarrow> ('s, RouteResult) state" where
  "Mode_resolve_php mode sanitized ctx =
     (case mode of
        Mode_Traditional r \<Rightarrow> trad_resolve_php r sanitized ctx
      | Mode_Framework r \<Rightarrow> rewrite r sanitized ctx
      | Mode_Spa r \<Rightarrow> spa_resolve_php sanitized ctx
      | Mode_Worker \<Rightarrow> worker_dispatch ctx)"

definition Mode_resolve_static_miss :: "Mode \<Rightarrow> string \<Rightarrow> 's resolve_ctx \<Rightarrow> ('s, RouteResult) state" where
  "Mode_resolve_static_miss mode sanitized ctx =
     (case mode of
        Mode_Traditional r \<Rightarrow> root_fallback r ctx
      | Mode_Framework r \<Rightarrow> rewrite r sanitized ctx
      | Mode_Spa r \<Rightarrow> State_Monad.return NotFound
      | Mode_Worker \<Rightarrow> worker_dispatch ctx)"

subsection \<open>The pipeline\<close>

record ('m, 'g) route_config =
  rg_document_root :: string
  rg_policy :: path_policy
  rg_mode :: Mode
  rg_worker_route :: "RouteResult option"
  rg_php_deny :: "'g php_deny option"
  rg_deny_file :: "'m deny_file option"
  rg_deny_file_fallback :: "DenyFallback option"
  rg_entry_route :: "RouteResult option"

text \<open>The third-party code the pipeline calls.\<close>

record ('m, 'g, 'rc) crates =
  cr_globset :: "'m globset"
  cr_glob_list :: "'g glob_list"
  cr_percent_decode :: "string \<Rightarrow> string option"
  cr_route_lru :: "('rc, string, RouteResult) lru"

definition denied_route :: "DenyFallback \<Rightarrow> DenySource \<Rightarrow> string \<Rightarrow> string \<Rightarrow> RouteResult" where
  "denied_route fallback source uri pattern =
     (case fallback of
        Status code \<Rightarrow> Denied code source
      | Script path script_uri \<Rightarrow>
          Execute path None
            (Some \<lparr>dm_path = uri, dm_pattern = pattern, dm_fallback_script_uri = script_uri,
                   dm_source = source\<rparr>))"

definition deny_check :: "('m, 'g, 'rc) crates \<Rightarrow> ('m, 'g) route_config \<Rightarrow> string \<Rightarrow> string
    \<Rightarrow> RouteResult option" where
  "deny_check cr cfg candidate original_uri =
     (case rg_php_deny cfg of
        None \<Rightarrow> None
      | Some deny \<Rightarrow>
          (case PhpDeny_matches (cr_glob_list cr) deny candidate of
             None \<Rightarrow> None
           | Some pattern \<Rightarrow> Some (denied_route (pd_fallback deny) PhpDenyPaths original_uri pattern)))"

definition validate_path :: "('m, 'g) route_config \<Rightarrow> 's probe \<Rightarrow> string \<Rightarrow> ('s, bool) state" where
  "validate_path cfg pr path =
     do {
       canonical \<leftarrow> pr_canonical pr path;
       State_Monad.return (case canonical of
                             Some c \<Rightarrow> PathPolicy_allows (rg_policy cfg) c
                           | None \<Rightarrow> True)
     }"

text \<open>The dispatch by URI kind, with the pre-dispatch screen for PHP.\<close>

definition dispatch :: "('m, 'g, 'rc) crates \<Rightarrow> ('m, 'g) route_config \<Rightarrow> 's resolve_ctx \<Rightarrow> bool \<Rightarrow> string
    \<Rightarrow> ('s, RouteResult) state" where
  "dispatch cr cfg ctx to_entry sanitized =
     (if to_entry then Mode_resolve_static_miss (rg_mode cfg) sanitized ctx
      else (case classify_uri_with_php sanitized (has_php_component sanitized) of
              NoExtension \<Rightarrow> Mode_resolve_no_extension (rg_mode cfg) sanitized ctx
            | Php \<Rightarrow>
                (case deny_check cr cfg sanitized sanitized of
                   Some denied \<Rightarrow> State_Monad.return denied
                 | None \<Rightarrow> Mode_resolve_php (rg_mode cfg) sanitized ctx)
            | OtherExtension \<Rightarrow>
                do {
                  hit \<leftarrow> pr_is_file (rx_probe ctx) (path_join (rg_document_root cfg) sanitized);
                  if hit then State_Monad.return (Serve (path_join (rg_document_root cfg) sanitized))
                  else Mode_resolve_static_miss (rg_mode cfg) sanitized ctx
                }))"

text \<open>The post-dispatch deny screen on the resolved script.\<close>

definition post_screen :: "('m, 'g, 'rc) crates \<Rightarrow> ('m, 'g) route_config \<Rightarrow> string \<Rightarrow> RouteResult \<Rightarrow> RouteResult" where
  "post_screen cr cfg sanitized result =
     (case result of
        Execute path _ None \<Rightarrow>
          if rg_php_deny cfg \<noteq> None
          then (case path_strip_prefix path (rg_document_root cfg) of
                  Some rel \<Rightarrow>
                    (case deny_check cr cfg rel sanitized of Some denied \<Rightarrow> denied | None \<Rightarrow> result)
                | None \<Rightarrow> result)
          else result
      | _ \<Rightarrow> result)"

definition resolved_path :: "RouteResult \<Rightarrow> string option" where
  "resolved_path result =
     (case result of
        Serve path \<Rightarrow> Some path
      | Execute path _ _ \<Rightarrow> Some path
      | NotFound \<Rightarrow> None
      | Denied _ _ \<Rightarrow> None)"

definition is_worker_path :: "('m, 'g) route_config \<Rightarrow> string \<Rightarrow> bool" where
  "is_worker_path cfg path =
     (case rg_worker_route cfg of
        Some (Execute wfile _ _) \<Rightarrow> path_eq wfile path
      | _ \<Rightarrow> False)"

definition confine :: "('m, 'g) route_config \<Rightarrow> 's probe \<Rightarrow> RouteResult \<Rightarrow> ('s, RouteResult) state" where
  "confine cfg pr result =
     (case resolved_path result of
        None \<Rightarrow> State_Monad.return result
      | Some path \<Rightarrow>
          if is_worker_path cfg path then State_Monad.return result
          else do {
            valid \<leftarrow> validate_path cfg pr path;
            State_Monad.return (if \<not> valid then NotFound else result)
          })"

definition should_cache :: "RouteResult \<Rightarrow> bool" where
  "should_cache result =
     (case result of Denied _ _ \<Rightarrow> False | Execute _ _ (Some _) \<Rightarrow> False | _ \<Rightarrow> True)"

text \<open>
  The \<^verbatim>\<open>.oxphpdeny\<close> step: an early answer with whether it is cached, or whether the
  request goes to the entry script.  \<open>Inl None\<close> is the panic of a deny rule without
  a fallback.
\<close>

definition deny_verdict :: "('m, 'g, 'rc) crates \<Rightarrow> ('m, 'g) route_config \<Rightarrow> string
    \<Rightarrow> (RouteResult \<times> bool) option + bool" where
  "deny_verdict cr cfg decoded =
     (let sanitized = sanitize_path decoded in
      case rg_deny_file cfg of
        None \<Rightarrow> Inr False
      | Some deny_file \<Rightarrow>
          if too_costly sanitized then Inl (Some (NotFound, False))
          else (case DenyFile_check (cr_globset cr) deny_file sanitized (ends_with decoded ''/'')
                       (case rg_mode cfg of Mode_Traditional _ \<Rightarrow> True | _ \<Rightarrow> False) of
                  None \<Rightarrow> Inr False
                | Some rule \<Rightarrow>
                    if rl_action rule = Entry then Inr True
                    else (case rg_deny_file_fallback cfg of
                            None \<Rightarrow> Inl None
                          | Some fallback \<Rightarrow>
                              Inl (Some (denied_route fallback DenyFileRule sanitized (rl_original rule),
                                         False)))))"

text \<open>
  \<^verbatim>\<open>resolve_request\<close> from the decoded URI on: the route, and whether it goes to the
  route cache.
\<close>

definition route_decoded :: "('m, 'g, 'rc) crates \<Rightarrow> ('m, 'g) route_config \<Rightarrow> 's probe \<Rightarrow> string
    \<Rightarrow> ('s, (RouteResult \<times> bool) option) state" where
  "route_decoded cr cfg pr decoded =
     (let sanitized = sanitize_path decoded in
      case deny_verdict cr cfg decoded of
        Inl early \<Rightarrow> State_Monad.return early
      | Inr to_entry \<Rightarrow>
          if has_php_component sanitized \<and> starts_with sanitized ''.well-known/''
          then State_Monad.return (Some (NotFound, True))
          else
            do {
              result \<leftarrow> dispatch cr cfg
                \<lparr>rx_document_root = rg_document_root cfg, rx_probe = pr,
                 rx_worker_route = rg_worker_route cfg\<rparr> to_entry sanitized;
              result \<leftarrow> confine cfg pr (post_screen cr cfg sanitized result);
              State_Monad.return (Some (result, should_cache result))
            })"

record ('rc, 'mc, 'cc) server_state =
  ss_routes :: 'rc
  ss_files :: "('mc, 'cc) file_cache"

definition cache_put :: "('m, 'g, 'rc) crates \<Rightarrow> string \<Rightarrow> RouteResult
    \<Rightarrow> (('rc, 'mc, 'cc) server_state, unit) state" where
  "cache_put cr uri_path result =
     State_Monad.update (\<lambda>s. s\<lparr>ss_routes := lru_put (cr_route_lru cr) (ss_routes s) uri_path result\<rparr>)"

text \<open>Run a computation over the file caches inside the server state.\<close>

definition on_files :: "(('mc, 'cc) file_cache, 'a) state \<Rightarrow> (('rc, 'mc, 'cc) server_state, 'a) state" where
  "on_files m =
     do {
       s \<leftarrow> State_Monad.get;
       State_Monad.set (s\<lparr>ss_files := snd (run_state m (ss_files s))\<rparr>);
       State_Monad.return (fst (run_state m (ss_files s)))
     }"

text \<open>The dot-path screen: an early answer, or the decoded URI when it was needed.\<close>

definition dot_screen :: "('m, 'g, 'rc) crates \<Rightarrow> string \<Rightarrow> RouteResult + string option" where
  "dot_screen cr uri_path =
     (if has_dot_segment_markers uri_path then
        (case cr_percent_decode cr uri_path of
           None \<Rightarrow> Inl NotFound
         | Some decoded \<Rightarrow>
             if contains_blocked_dot_segment decoded then Inl NotFound else Inr (Some decoded))
      else Inr None)"

definition resolve_request :: "('m, 'g, 'rc) crates \<Rightarrow> ('mc, 'cc) cache_ops \<Rightarrow> disk \<Rightarrow> ('m, 'g) route_config
    \<Rightarrow> string \<Rightarrow> (('rc, 'mc, 'cc) server_state, RouteResult option) state" where
  "resolve_request cr ops dk cfg uri_path =
     (case rg_entry_route cfg of
        Some route \<Rightarrow> State_Monad.return (Some route)
      | None \<Rightarrow>
          (case dot_screen cr uri_path of
             Inl early \<Rightarrow> State_Monad.return (Some early)
           | Inr pre_decoded \<Rightarrow>
               do {
                 s \<leftarrow> State_Monad.get;
                 case lru_peek (cr_route_lru cr) (ss_routes s) uri_path of
                   Some cached \<Rightarrow> State_Monad.return (Some cached)
                 | None \<Rightarrow>
                     (case (case pre_decoded of Some d \<Rightarrow> Some d | None \<Rightarrow> cr_percent_decode cr uri_path) of
                        None \<Rightarrow> State_Monad.return (Some NotFound)
                      | Some decoded \<Rightarrow>
                          do {
                            routed \<leftarrow> on_files (route_decoded cr cfg (cached_probe ops dk) decoded);
                            case routed of
                              None \<Rightarrow> State_Monad.return None
                            | Some (result, cacheable) \<Rightarrow>
                                do {
                                  (if cacheable then cache_put cr uri_path result
                                   else State_Monad.return ());
                                  State_Monad.return (Some result)
                                }
                          })
               }))"

subsection \<open>Building the configuration\<close>

record 'm server_config =
  sc_document_root :: string
  sc_entry_only :: bool
  sc_deny_file :: "'m deny_file option"

record route_env =
  ev_php_deny_paths :: "string option"
  ev_php_deny_fallback :: "string option"
  ev_symlink_allow_paths :: "string option"

text \<open>The panics of \<^verbatim>\<open>RouteConfig::new\<close>.\<close>

datatype route_fatal =
    RootNotCanonical
  | NoEntryName
  | NoEntryFile
  | InvalidPhpDeny config_error
  | InvalidDenyFallback config_error
  | WorkerScriptFallback
  | InvalidSymlinkAllow config_error

definition entry_name :: "string option \<Rightarrow> string option" where
  "entry_name entry_file =
     (case entry_file of
        None \<Rightarrow> None
      | Some p \<Rightarrow> (case path_file_name p of
                    None \<Rightarrow> None
                  | Some n \<Rightarrow> if utf8_valid n then Some n else None))"

definition build_mode :: "RoutingModeKind \<Rightarrow> string \<Rightarrow> string option \<Rightarrow> route_fatal + Mode" where
  "build_mode kind document_root entry_file =
     (case kind of
        Worker \<Rightarrow> Inr Mode_Worker
      | Traditional \<Rightarrow> Inr (Mode_Traditional (TraditionalRouter_new document_root))
      | Framework \<Rightarrow>
          (case entry_name entry_file of
             None \<Rightarrow> Inl NoEntryName
           | Some n \<Rightarrow> Inr (Mode_Framework (FrameworkRouter_new document_root n)))
      | Spa \<Rightarrow>
          (case entry_name entry_file of
             None \<Rightarrow> Inl NoEntryName
           | Some n \<Rightarrow> Inr (Mode_Spa (SpaRouter_new document_root n))))"

definition RouteConfig_entry_only :: "string \<Rightarrow> string \<Rightarrow> Mode \<Rightarrow> string option
    \<Rightarrow> route_fatal + ('m, 'g) route_config" where
  "RouteConfig_entry_only document_root canonical_root mode entry_file =
     (case entry_file of
        None \<Rightarrow> Inl NoEntryFile
      | Some entry \<Rightarrow>
          (let route = (if (case path_extension entry of Some e \<Rightarrow> eq_ignore_case e ''php'' | None \<Rightarrow> False)
                        then Execute entry None None else Serve entry) in
           Inr \<lparr>rg_document_root = document_root,
                rg_policy = \<lparr>pp_canonical_root = canonical_root, pp_symlink_allow = []\<rparr>,
                rg_mode = mode, rg_worker_route = None, rg_php_deny = None, rg_deny_file = None,
                rg_deny_file_fallback = None, rg_entry_route = Some route\<rparr>))"

text \<open>\<^verbatim>\<open>PHP_DENY_FALLBACK\<close> for the deny rules: shared with the deny list, else parsed here.\<close>

definition deny_file_fallback :: "(string \<Rightarrow> string option) \<Rightarrow> route_env \<Rightarrow> string \<Rightarrow> 'g php_deny option
    \<Rightarrow> 'm deny_file option \<Rightarrow> config_error + DenyFallback option" where
  "deny_file_fallback canonicalize env canonical_root php_deny deny_file =
     (case deny_file of
        Some df \<Rightarrow>
          if has_deny_rules df
          then (case php_deny of
                  Some deny \<Rightarrow> Inr (Some (pd_fallback deny))
                | None \<Rightarrow> map_sum id Some
                            (deny_fallback_from_env canonicalize (ev_php_deny_fallback env) canonical_root))
          else Inr None
      | None \<Rightarrow> Inr None)"

definition RouteConfig_new :: "'g glob_list \<Rightarrow> (string \<Rightarrow> string option) \<Rightarrow> route_env \<Rightarrow> 'm server_config
    \<Rightarrow> string option \<Rightarrow> bool \<Rightarrow> route_fatal + ('m, 'g) route_config" where
  "RouteConfig_new gl canonicalize env config entry_file worker_mode_enabled =
     (case canonicalize (sc_document_root config) of
        None \<Rightarrow> Inl RootNotCanonical
      | Some canonical_root \<Rightarrow>
          (let kind = RoutingModeKind_resolve entry_file worker_mode_enabled in
           case build_mode kind (sc_document_root config) entry_file of
             Inl e \<Rightarrow> Inl e
           | Inr mode \<Rightarrow>
               if sc_entry_only config
               then RouteConfig_entry_only (sc_document_root config) canonical_root mode entry_file
               else
                 (case PhpDeny_from_env gl canonicalize (ev_php_deny_paths env) (ev_php_deny_fallback env)
                         canonical_root kind of
                    Inl e \<Rightarrow> Inl (InvalidPhpDeny e)
                  | Inr php_deny \<Rightarrow>
                      (let deny_file = (case sc_deny_file config of
                                          Some df \<Rightarrow> if excludes_anything df then Some df else None
                                        | None \<Rightarrow> None) in
                       case deny_file_fallback canonicalize env canonical_root php_deny deny_file of
                         Inl e \<Rightarrow> Inl (InvalidDenyFallback e)
                       | Inr fallback \<Rightarrow>
                           if kind = Worker \<and> (case fallback of Some (Script _ _) \<Rightarrow> True | _ \<Rightarrow> False)
                           then Inl WorkerScriptFallback
                           else
                             (case SymlinkAllowList_from_env canonicalize (ev_symlink_allow_paths env)
                                     canonical_root of
                                Inl e \<Rightarrow> Inl (InvalidSymlinkAllow e)
                              | Inr symlink_allow \<Rightarrow>
                                  Inr \<lparr>rg_document_root = sc_document_root config,
                                       rg_policy = \<lparr>pp_canonical_root = canonical_root,
                                                    pp_symlink_allow = symlink_allow\<rparr>,
                                       rg_mode = mode, rg_worker_route = None,
                                       rg_php_deny = php_deny, rg_deny_file = deny_file,
                                       rg_deny_file_fallback = fallback,
                                       rg_entry_route = None\<rparr>)))))"

definition set_worker_route :: "string \<Rightarrow> ('m, 'g) route_config \<Rightarrow> ('m, 'g) route_config" where
  "set_worker_route path cfg = cfg\<lparr>rg_worker_route := Some (Execute path None None)\<rparr>"

end
