(* ===== verification/Routing_Props.thy ===== *)
theory Routing_Props
  imports Routing
begin

text \<open>
  What route resolution guarantees: the caches do not show in the answer, the
  answer stays inside the path policy, denied requests are denied without a look
  at the disk and never cached, and no request reaches a panic.
\<close>

section \<open>Every probe gives the route the disk gives\<close>

definition sim :: "('s \<Rightarrow> bool) \<Rightarrow> ('s, 'a) state \<Rightarrow> (unit, 'a) state \<Rightarrow> bool" where
  "sim ok m m' \<longleftrightarrow> yields ok m (fst (run_state m' ()))"

lemma sim_return: "sim ok (State_Monad.return a) (State_Monad.return a)"
  by (simp add: sim_def yields_return)

lemma sim_bind:
  assumes "sim ok m m'" "\<And>x. sim ok (f x) (f' x)"
  shows "sim ok (State_Monad.bind m f) (State_Monad.bind m' f')"
proof -
  obtain a where a: "run_state m' () = (a, ())" by (metis (full_types) old.unit.exhaust surj_pair)
  then have "yields ok (State_Monad.bind m f) (fst (run_state (f' a) ()))"
    using assms unfolding sim_def by (auto intro: yields_bind)
  with a show ?thesis by (simp add: sim_def)
qed

lemma sim_if: "(b \<Longrightarrow> sim ok m m') \<Longrightarrow> (\<not> b \<Longrightarrow> sim ok n n') \<Longrightarrow>
    sim ok (if b then m else n) (if b then m' else n')"
  by simp

lemma sim_case_option:
  "(v = None \<Longrightarrow> sim ok m m') \<Longrightarrow> (\<And>x. v = Some x \<Longrightarrow> sim ok (f x) (f' x)) \<Longrightarrow>
   sim ok (case v of None \<Rightarrow> m | Some x \<Rightarrow> f x) (case v of None \<Rightarrow> m' | Some x \<Rightarrow> f' x)"
  by (cases v) simp_all

lemma sim_case_kind:
  "sim ok m1 m1' \<Longrightarrow> sim ok m2 m2' \<Longrightarrow> sim ok m3 m3' \<Longrightarrow>
   sim ok (case k of NoExtension \<Rightarrow> m1 | Php \<Rightarrow> m2 | OtherExtension \<Rightarrow> m3)
     (case k of NoExtension \<Rightarrow> m1' | Php \<Rightarrow> m2' | OtherExtension \<Rightarrow> m3')"
  by (cases k) simp_all

lemma sim_case_sum:
  "(\<And>x. v = Inl x \<Longrightarrow> sim ok (f x) (f' x)) \<Longrightarrow> (\<And>x. v = Inr x \<Longrightarrow> sim ok (g x) (g' x)) \<Longrightarrow>
   sim ok (case v of Inl x \<Rightarrow> f x | Inr x \<Rightarrow> g x) (case v of Inl x \<Rightarrow> f' x | Inr x \<Rightarrow> g' x)"
  by (cases v) simp_all

lemmas sim_intros = sim_return sim_bind sim_if sim_case_option sim_case_kind sim_case_sum

context file_probe begin

lemma sim_is_file: "sim ok (pr_is_file pr p) (pr_is_file (disk_probe dk) p)"
  using is_file by (simp add: sim_def disk_probe_def)

lemma sim_is_dir: "sim ok (pr_is_dir pr p) (pr_is_dir (disk_probe dk) p)"
  using is_dir by (simp add: sim_def disk_probe_def)

lemma sim_canonical: "sim ok (pr_canonical pr p) (pr_canonical (disk_probe dk) p)"
  using canonical by (simp add: sim_def disk_probe_def)

lemmas sims = sim_intros sim_is_file sim_is_dir sim_canonical

lemma sim_root_fallback:
  "sim ok (root_fallback r \<lparr>rx_document_root = root, rx_probe = pr, rx_worker_route = w\<rparr>)
     (root_fallback r \<lparr>rx_document_root = root, rx_probe = disk_probe dk, rx_worker_route = w\<rparr>)"
  unfolding root_fallback_def resolve_ctx.simps by (intro sims)

lemma sim_split_path_info:
  "sim ok (split_path_info_from \<lparr>rx_document_root = root, rx_probe = pr, rx_worker_route = w\<rparr> s i)
     (split_path_info_from \<lparr>rx_document_root = root, rx_probe = disk_probe dk, rx_worker_route = w\<rparr> s i)"
proof (induction "length s - i" arbitrary: i rule: less_induct)
  case less
  show ?case
    by (subst (1 2) split_path_info_from.simps, unfold resolve_ctx.simps, intro sims less) auto
qed

lemma sim_trad_no_extension:
  "sim ok (trad_resolve_no_extension r s \<lparr>rx_document_root = root, rx_probe = pr, rx_worker_route = w\<rparr>)
     (trad_resolve_no_extension r s \<lparr>rx_document_root = root, rx_probe = disk_probe dk, rx_worker_route = w\<rparr>)"
  unfolding trad_resolve_no_extension_def Let_def resolve_ctx.simps by (intro sims sim_root_fallback)

lemma sim_trad_php:
  "sim ok (trad_resolve_php r s \<lparr>rx_document_root = root, rx_probe = pr, rx_worker_route = w\<rparr>)
     (trad_resolve_php r s \<lparr>rx_document_root = root, rx_probe = disk_probe dk, rx_worker_route = w\<rparr>)"
  unfolding trad_resolve_php_def try_split_path_info_def Let_def resolve_ctx.simps
  by (intro sims sim_root_fallback sim_split_path_info)

lemma sim_rewrite:
  "sim ok (rewrite r s \<lparr>rx_document_root = root, rx_probe = pr, rx_worker_route = w\<rparr>)
     (rewrite r s \<lparr>rx_document_root = root, rx_probe = disk_probe dk, rx_worker_route = w\<rparr>)"
  unfolding rewrite_def resolve_ctx.simps by (intro sims)

lemma sim_spa:
  "sim ok (spa_resolve_no_extension r' \<lparr>rx_document_root = root, rx_probe = pr, rx_worker_route = w\<rparr>)
     (spa_resolve_no_extension r' \<lparr>rx_document_root = root, rx_probe = disk_probe dk, rx_worker_route = w\<rparr>)"
  "sim ok (spa_resolve_php s \<lparr>rx_document_root = root, rx_probe = pr, rx_worker_route = w\<rparr>)
     (spa_resolve_php s \<lparr>rx_document_root = root, rx_probe = disk_probe dk, rx_worker_route = w\<rparr>)"
  "sim ok (worker_dispatch \<lparr>rx_document_root = root, rx_probe = pr, rx_worker_route = w\<rparr>)
     (worker_dispatch \<lparr>rx_document_root = root, rx_probe = disk_probe dk, rx_worker_route = w\<rparr>)"
  unfolding spa_resolve_no_extension_def spa_resolve_php_def worker_dispatch_def resolve_ctx.simps
  by (intro sims)+

lemmas sim_routers = sim_root_fallback sim_trad_no_extension sim_trad_php sim_rewrite sim_spa

lemma sim_modes:
  "sim ok (Mode_resolve_no_extension m s \<lparr>rx_document_root = root, rx_probe = pr, rx_worker_route = w\<rparr>)
     (Mode_resolve_no_extension m s \<lparr>rx_document_root = root, rx_probe = disk_probe dk, rx_worker_route = w\<rparr>)"
  "sim ok (Mode_resolve_php m s \<lparr>rx_document_root = root, rx_probe = pr, rx_worker_route = w\<rparr>)
     (Mode_resolve_php m s \<lparr>rx_document_root = root, rx_probe = disk_probe dk, rx_worker_route = w\<rparr>)"
  "sim ok (Mode_resolve_static_miss m s \<lparr>rx_document_root = root, rx_probe = pr, rx_worker_route = w\<rparr>)
     (Mode_resolve_static_miss m s \<lparr>rx_document_root = root, rx_probe = disk_probe dk, rx_worker_route = w\<rparr>)"
  by (cases m; simp add: Mode_resolve_no_extension_def Mode_resolve_php_def Mode_resolve_static_miss_def
      sim_routers sim_return)+

lemma sim_dispatch:
  "sim ok (dispatch cr cfg \<lparr>rx_document_root = root, rx_probe = pr, rx_worker_route = w\<rparr> e s)
     (dispatch cr cfg \<lparr>rx_document_root = root, rx_probe = disk_probe dk, rx_worker_route = w\<rparr> e s)"
  unfolding dispatch_def resolve_ctx.simps by (intro sims sim_modes)

lemma sim_confine: "sim ok (confine cfg pr r) (confine cfg (disk_probe dk) r)"
  unfolding confine_def validate_path_def by (intro sims)

lemma sim_route_decoded: "sim ok (route_decoded cr cfg pr d) (route_decoded cr cfg (disk_probe dk) d)"
  unfolding route_decoded_def Let_def
  by (intro sims sim_dispatch sim_confine)

end


section \<open>The uncached reference\<close>

definition route_disk :: "('m, 'g, 'rc) crates \<Rightarrow> disk \<Rightarrow> ('m, 'g) route_config \<Rightarrow> string
    \<Rightarrow> (RouteResult \<times> bool) option" where
  "route_disk cr dk cfg decoded = fst (run_state (route_decoded cr cfg (disk_probe dk) decoded) ())"

definition resolve_disk :: "('m, 'g, 'rc) crates \<Rightarrow> disk \<Rightarrow> ('m, 'g) route_config \<Rightarrow> string
    \<Rightarrow> RouteResult option" where
  "resolve_disk cr dk cfg uri_path =
     (case rg_entry_route cfg of
        Some route \<Rightarrow> Some route
      | None \<Rightarrow>
          (case dot_screen cr uri_path of
             Inl early \<Rightarrow> Some early
           | Inr pre_decoded \<Rightarrow>
               (case (case pre_decoded of Some d \<Rightarrow> Some d | None \<Rightarrow> cr_percent_decode cr uri_path) of
                  None \<Rightarrow> Some NotFound
                | Some decoded \<Rightarrow> map_option fst (route_disk cr dk cfg decoded))))"

text \<open>The invariant of the server state: every cache agrees with the disk.\<close>

definition server_ok :: "('m, 'g, 'rc) crates \<Rightarrow> ('mc, 'cc) cache_ops \<Rightarrow> disk \<Rightarrow> ('m, 'g) route_config
    \<Rightarrow> ('rc, 'mc, 'cc) server_state \<Rightarrow> bool" where
  "server_ok cr ops dk cfg s \<longleftrightarrow>
     cache_ok ops dk (ss_files s) \<and> lru_laws (cr_route_lru cr) \<and>
     (\<forall>uri r. lru_peek (cr_route_lru cr) (ss_routes s) uri = Some r \<longrightarrow>
        resolve_disk cr dk cfg uri = Some r \<and> should_cache r)"

lemma run_on_files [simp]:
  "run_state (on_files m) s =
     (fst (run_state m (ss_files s)), s\<lparr>ss_files := snd (run_state m (ss_files s))\<rparr>)"
  by (simp add: on_files_def State_Monad.get_def State_Monad.set_def)

lemma run_cache_put [simp]:
  "run_state (cache_put cr uri r) s =
     ((), s\<lparr>ss_routes := lru_put (cr_route_lru cr) (ss_routes s) uri r\<rparr>)"
  by (simp add: cache_put_def State_Monad.update_def State_Monad.get_def State_Monad.set_def)

lemma run_get [simp]: "run_state State_Monad.get s = (s, s)"
  by (simp add: State_Monad.get_def)

lemma route_decoded_cached:
  assumes "cache_ok ops dk fc"
  shows "fst (run_state (route_decoded cr cfg (cached_probe ops dk) d) fc) = route_disk cr dk cfg d"
    and "cache_ok ops dk (snd (run_state (route_decoded cr cfg (cached_probe ops dk) d) fc))"
  using fcp.sim_route_decoded [of ops dk cr cfg d] assms
  unfolding sim_def route_disk_def by (auto dest: yields_run)

text \<open>The route of a request that the deny file lets pass, read off the disk.\<close>

definition dispatched :: "('m, 'g, 'rc) crates \<Rightarrow> disk \<Rightarrow> ('m, 'g) route_config \<Rightarrow> bool \<Rightarrow> string \<Rightarrow> RouteResult" where
  "dispatched cr dk cfg to_entry sanitized =
     fst (run_state (dispatch cr cfg
       \<lparr>rx_document_root = rg_document_root cfg, rx_probe = disk_probe dk,
        rx_worker_route = rg_worker_route cfg\<rparr> to_entry sanitized) ())"

definition confined :: "disk \<Rightarrow> ('m, 'g) route_config \<Rightarrow> RouteResult \<Rightarrow> RouteResult" where
  "confined dk cfg r =
     (case resolved_path r of
        None \<Rightarrow> r
      | Some p \<Rightarrow>
          if is_worker_path cfg p \<or>
             (case dk_canonicalize dk p of Some c \<Rightarrow> PathPolicy_allows (rg_policy cfg) c | None \<Rightarrow> True)
          then r else NotFound)"

lemma run_confine [simp]: "run_state (confine cfg (disk_probe dk) r) () = (confined dk cfg r, ())"
  by (auto simp: confine_def confined_def validate_path_def disk_probe_def split: option.splits)

lemma route_disk_unfold:
  "route_disk cr dk cfg d =
     (case deny_verdict cr cfg d of
        Inl early \<Rightarrow> early
      | Inr e \<Rightarrow>
          if has_php_component (sanitize_path d) \<and> starts_with (sanitize_path d) ''.well-known/''
          then Some (NotFound, True)
          else (let r = confined dk cfg (post_screen cr cfg (sanitize_path d)
                          (dispatched cr dk cfg e (sanitize_path d))) in Some (r, should_cache r)))"
  by (auto simp: route_disk_def route_decoded_def dispatched_def Let_def case_prod_unfold
      split: sum.split)

lemma deny_verdict_not_cached: "deny_verdict cr cfg d = Inl (Some (r, c)) \<Longrightarrow> \<not> c"
  by (auto simp: deny_verdict_def Let_def split: option.splits if_splits)

text \<open>What the pipeline marks as cacheable passed the cache filter.\<close>

lemma route_disk_cacheable:
  "route_disk cr dk cfg d = Some (r, c) \<Longrightarrow> c \<Longrightarrow> should_cache r"
  by (auto simp: route_disk_unfold Let_def split: sum.splits if_splits dest: deny_verdict_not_cached)
     (simp add: should_cache_def)

lemma resolve_request_ok:
  assumes ok: "server_ok cr ops dk cfg s"
  shows "fst (run_state (resolve_request cr ops dk cfg uri) s) = resolve_disk cr dk cfg uri"
    and "server_ok cr ops dk cfg (snd (run_state (resolve_request cr ops dk cfg uri) s))"
proof -
  let ?run = "run_state (resolve_request cr ops dk cfg uri) s"
  have "fst ?run = resolve_disk cr dk cfg uri \<and> server_ok cr ops dk cfg (snd ?run)"
  proof (cases "rg_entry_route cfg")
    case (Some r)
    with ok show ?thesis by (simp add: resolve_request_def resolve_disk_def)
  next
    case None
    note entry = this
    show ?thesis
    proof (cases "dot_screen cr uri")
      case (Inl e)
      with ok entry show ?thesis by (simp add: resolve_request_def resolve_disk_def)
    next
      case (Inr pre)
      note screen = this
      show ?thesis
      proof (cases "lru_peek (cr_route_lru cr) (ss_routes s) uri")
        case (Some r)
        with ok entry screen show ?thesis
          by (auto simp: resolve_request_def server_ok_def)
      next
        case None
        note miss = this
        let ?dec = "case pre of Some d \<Rightarrow> Some d | None \<Rightarrow> cr_percent_decode cr uri"
        show ?thesis
        proof (cases ?dec)
          case None
          with ok entry screen miss show ?thesis
            by (simp add: resolve_request_def resolve_disk_def)
        next
          case (Some d)
          have files: "cache_ok ops dk (ss_files s)" using ok by (simp add: server_ok_def)
          note routed = route_decoded_cached [OF files, of cr cfg d]
          let ?fc = "snd (run_state (route_decoded cr cfg (cached_probe ops dk) d) (ss_files s))"
          have disk: "resolve_disk cr dk cfg uri = map_option fst (route_disk cr dk cfg d)"
            using entry screen Some by (simp add: resolve_disk_def)
          show ?thesis
          proof (cases "route_disk cr dk cfg d")
            case None
            with ok entry screen miss Some routed disk show ?thesis
              by (simp add: resolve_request_def server_ok_def)
          next
            case (Some rc)
            obtain r c where rc: "rc = (r, c)" by fastforce
            have upd: "server_ok cr ops dk cfg (s\<lparr>ss_files := ?fc\<rparr>)"
              using ok routed by (simp add: server_ok_def)
            have put: "c \<Longrightarrow> server_ok cr ops dk cfg
                (s\<lparr>ss_files := ?fc, ss_routes := lru_put (cr_route_lru cr) (ss_routes s) uri r\<rparr>)"
              using upd disk Some rc route_disk_cacheable [of cr dk cfg d r c]
              by (auto simp: server_ok_def dest!: lru_laws_D)
            show ?thesis
              using entry screen miss \<open>?dec = Some d\<close> Some rc routed disk upd put
              by (simp add: resolve_request_def)
          qed
        qed
      qed
    qed
  qed
  then show "fst ?run = resolve_disk cr dk cfg uri" "server_ok cr ops dk cfg (snd ?run)" by simp_all
qed



section \<open>Shapes of the dispatched route\<close>

lemma dot_screen_decoded:
  "dot_screen cr uri = Inr pre \<Longrightarrow>
     (case pre of Some d \<Rightarrow> Some d | None \<Rightarrow> cr_percent_decode cr uri) = cr_percent_decode cr uri"
  by (auto simp: dot_screen_def split: if_splits option.splits)

lemma resolve_disk_simp:
  "rg_entry_route cfg = None \<Longrightarrow>
   resolve_disk cr dk cfg uri =
     (case dot_screen cr uri of
        Inl early \<Rightarrow> Some early
      | Inr _ \<Rightarrow> (case cr_percent_decode cr uri of
                   None \<Rightarrow> Some NotFound
                 | Some d \<Rightarrow> map_option fst (route_disk cr dk cfg d)))"
  by (auto simp: resolve_disk_def dot_screen_decoded split: sum.split)

lemma dot_screen_Inl: "dot_screen cr uri = Inl r \<Longrightarrow> r = NotFound"
  by (auto simp: dot_screen_def split: if_splits option.splits)

lemma four_bytes:
  "i + 4 \<le> length s \<Longrightarrow> drop i (take (i + 4) s) = [s ! i, s ! (i + 1), s ! (i + 2), s ! (i + 3)]"
  by (rule nth_equalityI) (auto simp: less_Suc_eq numeral_eq_Suc)

lemma lower_php_bytes:
  "lower_byte CHR ''.'' = CHR ''.''" "lower_byte CHR ''p'' = CHR ''p''" "lower_byte CHR ''P'' = CHR ''p''"
  "lower_byte CHR ''h'' = CHR ''h''" "lower_byte CHR ''H'' = CHR ''h''"
  by (simp_all add: lower_byte_def is_upper_byte_def char_of_def bit_0)

lemma marker_names_script:
  "i + 4 \<le> length s \<Longrightarrow> is_php_marker s i \<Longrightarrow> names_a_script (take (i + 4) s)"
  by (auto simp: names_a_script_def four_bytes is_php_marker_def eq_ignore_case_def lower_str_def
      lower_php_bytes)

lemma run_probe [simp]:
  "run_state (pr_is_file (disk_probe dk) p) () = (dk_metadata dk p = Some File, ())"
  "run_state (pr_is_dir (disk_probe dk) p) () = (dk_metadata dk p = Some Dir, ())"
  by (simp_all add: disk_probe_def)

abbreviation disk_ctx :: "string \<Rightarrow> disk \<Rightarrow> RouteResult option \<Rightarrow> unit resolve_ctx" where
  "disk_ctx root dk w \<equiv> \<lparr>rx_document_root = root, rx_probe = disk_probe dk, rx_worker_route = w\<rparr>"

text \<open>A split names a script that is there, and cuts the path right after it.\<close>

definition split_result :: "disk \<Rightarrow> string \<Rightarrow> string \<Rightarrow> RouteResult \<Rightarrow> bool" where
  "split_result dk root s r \<longleftrightarrow>
     (\<exists>script info. s = script @ info \<and> (info = [] \<or> starts_with info ''/'') \<and> names_a_script script \<and>
        dk_metadata dk (path_join root script) = Some File \<and>
        r = Execute (path_join root script) (if info = [] then None else Some info) None)"

lemma split_run:
  "fst (run_state (split_path_info_from (disk_ctx root dk w) s i) ()) =
     (if i + 4 \<le> length s then
        (if \<not> is_php_marker s i
         then fst (run_state (split_path_info_from (disk_ctx root dk w) s (i + 1)) ())
         else if i + 4 < length s \<and> s ! (i + 4) \<noteq> CHR ''/''
           then fst (run_state (split_path_info_from (disk_ctx root dk w) s (i + 4)) ())
         else if dk_metadata dk (path_join root (take (i + 4) s)) = Some File
           then Some (Execute (path_join root (take (i + 4) s))
                        (if i + 4 < length s then Some (drop (i + 4) s) else None) None)
         else fst (run_state (split_path_info_from (disk_ctx root dk w) s (i + 4)) ()))
      else None)"
  by (subst split_path_info_from.simps) simp

lemma split_path_info_disk:
  "fst (run_state (split_path_info_from (disk_ctx root dk w) s i) ()) = Some r \<Longrightarrow>
     split_result dk root s r"
proof (induction "length s - i" arbitrary: i rule: less_induct)
  case less
  let ?p = "path_join root (take (i + 4) s)"
  have i: "i + 4 \<le> length s"
    using less.prems [unfolded split_run [of root dk w s i]] by (simp split: if_splits)
  have next1: "length s - (i + 1) < length s - i" "length s - (i + 4) < length s - i" using i by auto
  consider "\<not> is_php_marker s i" | "is_php_marker s i" "i + 4 < length s" "s ! (i + 4) \<noteq> CHR ''/''"
    | "is_php_marker s i" "i + 4 = length s \<or> s ! (i + 4) = CHR ''/''" "dk_metadata dk ?p \<noteq> Some File"
    | "is_php_marker s i" "i + 4 = length s \<or> s ! (i + 4) = CHR ''/''" "dk_metadata dk ?p = Some File"
    using i by linarith
  then show ?case
  proof cases
    case 4
    then have r: "r = Execute ?p (if i + 4 < length s then Some (drop (i + 4) s) else None) None"
      using less.prems [unfolded split_run [of root dk w s i]] i by auto
    have info: "drop (i + 4) s = [] \<or> starts_with (drop (i + 4) s) ''/''"
    proof (cases "i + 4 < length s")
      case True
      then have "drop (i + 4) s = s ! (i + 4) # drop (Suc (i + 4)) s" 
        by (rule Cons_nth_drop_Suc [symmetric])
      with True 4(2) show ?thesis by (simp add: starts_with_def)
    qed simp
    have cut: "s = take (i + 4) s @ drop (i + 4) s" by simp
    have r': "r = Execute ?p (if drop (i + 4) s = [] then None else Some (drop (i + 4) s)) None"
      using r i by simp
    show ?thesis unfolding split_result_def
      using cut info marker_names_script [OF i 4(1)] 4(3) r' by blast
  next
    case 1
    with less.prems [unfolded split_run [of root dk w s i]] i
    have "fst (run_state (split_path_info_from (disk_ctx root dk w) s (i + 1)) ()) = Some r" by simp
    then show ?thesis using less.hyps next1(1) by blast
  next
    case 2
    with less.prems [unfolded split_run [of root dk w s i]] i
    have "fst (run_state (split_path_info_from (disk_ctx root dk w) s (i + 4)) ()) = Some r" by simp
    then show ?thesis using less.hyps next1(2) by blast
  next
    case 3
    with less.prems [unfolded split_run [of root dk w s i]] i
    have "fst (run_state (split_path_info_from (disk_ctx root dk w) s (i + 4)) ()) = Some r"
      by (auto split: if_splits)
    then show ?thesis using less.hyps next1(2) by blast
  qed
qed

lemma root_fallback_disk:
  "fst (run_state (root_fallback r (disk_ctx root dk w)) ()) \<in>
     {Execute (tr_root_index_php r) None None, Serve (tr_root_index_html r), NotFound}"
  by (simp add: root_fallback_def)

lemma root_fallback_no_info:
  "fst (run_state (root_fallback r (disk_ctx root dk w)) ()) \<noteq> Execute p (Some info) m"
  using root_fallback_disk [of r root dk w] by auto

lemma denied_route_no_info: "denied_route fb src u pat \<noteq> Execute p (Some info) m"
  by (simp add: denied_route_def split: DenyFallback.split)

lemma trad_no_extension_no_info:
  "fst (run_state (trad_resolve_no_extension r s (disk_ctx root dk w)) ()) \<noteq> Execute p (Some info) m"
  using root_fallback_no_info [of r root dk w p info m]
  by (simp add: trad_resolve_no_extension_def Let_def split: if_split)

lemma trad_php_info:
  assumes "fst (run_state (trad_resolve_php r s (disk_ctx root dk w)) ()) = Execute p (Some info) m"
  shows "split_result dk root s (Execute p (Some info) m)"
proof (cases "fst (run_state (split_path_info_from (disk_ctx root dk w) s 0) ())")
  case None
  with assms root_fallback_no_info [of r root dk w p info m] show ?thesis
    by (simp add: trad_resolve_php_def try_split_path_info_def Let_def case_prod_unfold split: if_splits)
next
  case (Some x)
  with assms have "x = Execute p (Some info) m"
    by (simp add: trad_resolve_php_def try_split_path_info_def Let_def case_prod_unfold split: if_splits)
  with split_path_info_disk [OF Some] show ?thesis by simp
qed

lemma deny_check_no_info: "deny_check cr cfg a b \<noteq> Some (Execute p (Some info) m)"
  by (auto simp: deny_check_def denied_route_no_info split: option.splits)

lemma dispatched_traditional_info:
  assumes mode: "rg_mode cfg = Mode_Traditional r"
    and d: "dispatched cr dk cfg e s = Execute p (Some info) m"
  shows "split_result dk (rg_document_root cfg) s (Execute p (Some info) m)"
proof (cases "\<not> e \<and> classify_uri_with_php s (has_php_component s) = Php \<and> deny_check cr cfg s s = None")
  case True
  with d mode have "fst (run_state (trad_resolve_php r s
      (disk_ctx (rg_document_root cfg) dk (rg_worker_route cfg))) ()) = Execute p (Some info) m"
    by (simp add: dispatched_def dispatch_def Mode_resolve_php_def)
  then show ?thesis by (rule trad_php_info)
next
  case False
  with d mode have False
    using root_fallback_no_info [of r "rg_document_root cfg" dk "rg_worker_route cfg" p info m]
      trad_no_extension_no_info [of r s "rg_document_root cfg" dk "rg_worker_route cfg" p info m]
      deny_check_no_info [of cr cfg s s p info m]
    by (cases "classify_uri_with_php s (has_php_component s)")
       (auto simp: dispatched_def dispatch_def Mode_resolve_static_miss_def Mode_resolve_no_extension_def
          split: if_splits option.splits)
  then show ?thesis ..
qed



section \<open>The server over a sequence of requests\<close>

text \<open>The states a server reaches from empty caches by resolving requests.\<close>

inductive served :: "('m, 'g, 'rc) crates \<Rightarrow> ('mc, 'cc) cache_ops \<Rightarrow> disk \<Rightarrow> ('m, 'g) route_config
    \<Rightarrow> ('rc, 'mc, 'cc) server_state \<Rightarrow> bool" for cr ops dk cfg where
  start: "(\<And>u. lru_peek (cr_route_lru cr) (ss_routes s) u = None) \<Longrightarrow>
     (\<And>p. lru_peek (co_meta ops) (fc_meta (ss_files s)) p = None) \<Longrightarrow>
     (\<And>p. lru_peek (co_canonical ops) (fc_canonical (ss_files s)) p = None) \<Longrightarrow>
     served cr ops dk cfg s"
| request: "served cr ops dk cfg s \<Longrightarrow>
     served cr ops dk cfg (snd (run_state (resolve_request cr ops dk cfg uri) s))"

definition all_lru_laws :: "('m, 'g, 'rc) crates \<Rightarrow> ('mc, 'cc) cache_ops \<Rightarrow> bool" where
  "all_lru_laws cr ops \<longleftrightarrow>
     lru_laws (cr_route_lru cr) \<and> lru_laws (co_meta ops) \<and> lru_laws (co_canonical ops)"

lemma served_ok:
  assumes "all_lru_laws cr ops" "served cr ops dk cfg s"
  shows "server_ok cr ops dk cfg s"
  using assms(2,1)
proof (induction rule: served.induct)
  case (start s)
  then show ?case by (simp add: server_ok_def cache_ok_def all_lru_laws_def)
next
  case (request s uri)
  then show ?case by (simp add: resolve_request_ok(2))
qed

lemmas served_resolve = resolve_request_ok(1) [OF served_ok]

lemma resolve_disk_route:
  assumes "rg_entry_route cfg = None" "resolve_disk cr dk cfg uri = Some r" "r \<noteq> NotFound"
  obtains d c where "cr_percent_decode cr uri = Some d" "route_disk cr dk cfg d = Some (r, c)"
    "dot_screen cr uri \<noteq> Inl NotFound"
proof -
  have "\<exists>d c. cr_percent_decode cr uri = Some d \<and> route_disk cr dk cfg d = Some (r, c) \<and>
      dot_screen cr uri \<noteq> Inl NotFound"
    using assms by (auto simp: resolve_disk_simp dest: dot_screen_Inl split: sum.splits option.splits)
  with that show thesis by blast
qed

lemma route_disk_result:
  assumes "route_disk cr dk cfg d = Some (r, c)" "r \<noteq> NotFound"
  shows "(\<exists>rule df fb. rg_deny_file cfg = Some df \<and> rg_deny_file_fallback cfg = Some fb \<and>
            DenyFile_check (cr_globset cr) df (sanitize_path d) (ends_with d ''/'')
              (case rg_mode cfg of Mode_Traditional _ \<Rightarrow> True | _ \<Rightarrow> False) = Some rule \<and>
            rl_action rule = Deny \<and> r = denied_route fb DenyFileRule (sanitize_path d) (rl_original rule)) \<or>
         (\<exists>e. deny_verdict cr cfg d = Inr e \<and>
            r = confined dk cfg (post_screen cr cfg (sanitize_path d) (dispatched cr dk cfg e (sanitize_path d))))"
  using assms
  by (auto simp: route_disk_unfold Let_def deny_verdict_def split: sum.splits if_splits option.splits)

lemma confined_cases: "confined dk cfg r = r \<or> confined dk cfg r = NotFound"
  by (auto simp: confined_def split: option.split)

lemma confined_path:
  assumes "confined dk cfg r = r'" "resolved_path r' = Some p"
  shows "is_worker_path cfg p \<or>
     (case dk_canonicalize dk p of Some c \<Rightarrow> PathPolicy_allows (rg_policy cfg) c | None \<Rightarrow> True)"
  using assms by (auto simp: confined_def resolved_path_def split: option.splits if_splits RouteResult.splits)

lemma post_screen_Execute:
  assumes "post_screen cr cfg s r = Execute p i None"
  shows "r = Execute p i None"
    and "rg_php_deny cfg = Some deny \<Longrightarrow> path_strip_prefix p (rg_document_root cfg) = Some rel \<Longrightarrow>
           PhpDeny_matches (cr_glob_list cr) deny rel = None"
  using assms
  by (auto simp: post_screen_def deny_check_def denied_route_def
      split: RouteResult.splits option.splits if_splits DenyFallback.splits)



section \<open>A concrete server\<close>

definition map_lru :: "('k \<Rightarrow> 'v option, 'k, 'v) lru" where
  "map_lru = \<lparr>lru_peek = (\<lambda>c k. c k), lru_put = (\<lambda>c k v. c(k \<mapsto> v))\<rparr>"

lemma map_lru_laws: "lru_laws map_lru"
  by (simp add: lru_laws_def map_lru_def)

definition ex_globset :: "string globset" where
  "ex_globset = \<lparr>gs_compile = (\<lambda>_ g. Some g), gs_is_match = (\<lambda>m s. m = s), gs_default_match = (\<lambda>_ _. False)\<rparr>"

definition ex_glob_list :: "string list glob_list" where
  "ex_glob_list = \<lparr>gl_build = (\<lambda>ps. Some ps), gl_is_match = (\<lambda>g s. s \<in> set g),
     gl_matches = (\<lambda>g s. filter (\<lambda>i. g ! i = s) [0..<length g])\<rparr>"

definition ex_crates :: "(string, string list, string \<Rightarrow> RouteResult option) crates" where
  "ex_crates = \<lparr>cr_globset = ex_globset, cr_glob_list = ex_glob_list,
     cr_percent_decode = (\<lambda>u. if CHR ''%'' \<in> set u then None else Some u),
     cr_route_lru = map_lru\<rparr>"

definition ex_ops :: "(string \<Rightarrow> FileType option option, string \<Rightarrow> string option option) cache_ops" where
  "ex_ops = \<lparr>co_meta = map_lru, co_canonical = map_lru\<rparr>"

definition ex_disk :: disk where
  "ex_disk = \<lparr>dk_metadata = (\<lambda>p. if p \<in> set [''/srv/index.php'', ''/srv/a.css'', ''/srv/b/run.php''] then Some File
                              else if p = ''/srv/b'' then Some Dir else None),
     dk_canonicalize = (\<lambda>p. if p \<in> set [''/srv/index.php'', ''/srv/a.css'', ''/srv/b/run.php''] then Some p else None)\<rparr>"

definition ex_rule :: "string \<Rightarrow> (DenyAction, string) rule" where
  "ex_rule m = \<lparr>rl_line = 1, rl_original = m, rl_glob = m, rl_action = Deny, rl_negated = False,
     rl_dir_only = False, rl_matcher = m, rl_folded = None, rl_name_only = False\<rparr>"

definition ex_cfg :: "(string, string list) route_config" where
  "ex_cfg = \<lparr>rg_document_root = ''/srv'',
     rg_policy = \<lparr>pp_canonical_root = ''/srv'', pp_symlink_allow = []\<rparr>,
     rg_mode = Mode_Traditional (TraditionalRouter_new ''/srv''),
     rg_worker_route = None,
     rg_php_deny = Some \<lparr>pd_matcher = [''up/x.php''], pd_patterns = [''up/x.php''], pd_fallback = Status 403\<rparr>,
     rg_deny_file = Some \<lparr>df_rules = [ex_rule ''secret''], df_path = ''/srv/.oxphpdeny'', df_fallback = ''404''\<rparr>,
     rg_deny_file_fallback = Some (Status 404),
     rg_entry_route = None\<rparr>"

definition ex_start :: "(string \<Rightarrow> RouteResult option, string \<Rightarrow> FileType option option,
    string \<Rightarrow> string option option) server_state" where
  "ex_start = \<lparr>ss_routes = (\<lambda>_. None), ss_files = \<lparr>fc_meta = (\<lambda>_. None), fc_canonical = (\<lambda>_. None)\<rparr>\<rparr>"

lemma ex_laws: "all_lru_laws ex_crates ex_ops"
  by (simp add: all_lru_laws_def ex_crates_def ex_ops_def map_lru_laws)

lemma ex_served: "served ex_crates ex_ops ex_disk ex_cfg ex_start"
  by (rule served.start) (simp_all add: ex_crates_def ex_ops_def ex_start_def map_lru_def)


section \<open>Properties of route resolution\<close>








lemma not_cached:
  assumes "server_ok cr ops dk cfg s" "resolve_disk cr dk cfg uri = Some r" "\<not> should_cache r"
  shows "lru_peek (cr_route_lru cr) (ss_routes s) uri = None"
  using assms by (cases "lru_peek (cr_route_lru cr) (ss_routes s) uri") (auto simp: server_ok_def)

lemma denied_route_not_cacheable: "\<not> should_cache (denied_route fb src u pat)"
  by (simp add: denied_route_def should_cache_def split: DenyFallback.split)

text \<open>
  C4.  No existence oracle: a request denied by \<^verbatim>\<open>.oxphpdeny\<close> gets the fallback
  answer on any disk, and the server state is left as it was: no cache was written
  and no file was probed.
\<close>

theorem denied_by_file:
  assumes "all_lru_laws cr ops" "served cr ops dk cfg s" "rg_entry_route cfg = None"
    and screen: "dot_screen cr uri = Inr pre" and dec: "cr_percent_decode cr uri = Some d"
    and df: "rg_deny_file cfg = Some df" "\<not> too_costly (sanitize_path d)"
    and rule: "DenyFile_check (cr_globset cr) df (sanitize_path d) (ends_with d ''/'')
                 (case rg_mode cfg of Mode_Traditional _ \<Rightarrow> True | _ \<Rightarrow> False) = Some rule"
      "rl_action rule = Deny"
    and fb: "rg_deny_file_fallback cfg = Some fb"
  shows "run_state (resolve_request cr ops dk cfg uri) s =
     (Some (denied_route fb DenyFileRule (sanitize_path d) (rl_original rule)), s)"
proof -
  let ?r = "denied_route fb DenyFileRule (sanitize_path d) (rl_original rule)"
  have v: "deny_verdict cr cfg d = Inl (Some (?r, False))"
    using df rule fb by (simp add: deny_verdict_def Let_def)
  then have "resolve_disk cr dk cfg uri = Some ?r"
    using assms(3) screen dec by (simp add: resolve_disk_simp route_disk_unfold)
  then have "lru_peek (cr_route_lru cr) (ss_routes s) uri = None"
    using not_cached served_ok [OF assms(1,2)] denied_route_not_cacheable by metis
  moreover have "run_state (route_decoded cr cfg (cached_probe ops dk) d) fc = (Some (?r, False), fc)" for fc
    using v by (simp add: route_decoded_def Let_def)
  ultimately show ?thesis
    using assms(3) screen dot_screen_decoded [OF screen] dec by (simp add: resolve_request_def)
qed

theorem denied_by_file_witness:
  "run_state (resolve_request ex_crates ex_ops ex_disk ex_cfg ''/secret/b'') ex_start =
     (Some (Denied 404 DenyFileRule), ex_start)"
proof -
  have "denied_route (Status 404) DenyFileRule (sanitize_path ''/secret/b'') (rl_original (ex_rule ''secret''))
      = Denied 404 DenyFileRule" by code_simp
  moreover have "run_state (resolve_request ex_crates ex_ops ex_disk ex_cfg ''/secret/b'') ex_start =
     (Some (denied_route (Status 404) DenyFileRule (sanitize_path ''/secret/b'')
        (rl_original (ex_rule ''secret''))), ex_start)"
  proof (rule denied_by_file [OF ex_laws ex_served])
    show "rg_deny_file ex_cfg =
        Some \<lparr>df_rules = [ex_rule ''secret''], df_path = ''/srv/.oxphpdeny'', df_fallback = ''404''\<rparr>"
      by (simp add: ex_cfg_def)
    show "dot_screen ex_crates ''/secret/b'' = Inr None" by code_simp
    show "DenyFile_check (cr_globset ex_crates)
        \<lparr>df_rules = [ex_rule ''secret''], df_path = ''/srv/.oxphpdeny'', df_fallback = ''404''\<rparr>
        (sanitize_path ''/secret/b'') (ends_with ''/secret/b'' ''/'')
        (case rg_mode ex_cfg of Mode_Traditional _ \<Rightarrow> True | _ \<Rightarrow> False) = Some (ex_rule ''secret'')"
      by code_simp
  qed code_simp+
  ultimately show ?thesis by simp
qed

text \<open>
  The same for \<^verbatim>\<open>PHP_DENY_PATHS\<close> with a status fallback: a URI with a \<open>.php\<close>
  component that matches a pattern is refused before any look at the disk.
\<close>

lemma php_denied_before_disk:
  assumes "all_lru_laws cr ops" "served cr ops dk cfg s" "rg_entry_route cfg = None"
    and screen: "dot_screen cr uri = Inr pre" and dec: "cr_percent_decode cr uri = Some d"
    and pass: "deny_verdict cr cfg d = Inr False"
    and php: "has_php_component (sanitize_path d)" "\<not> starts_with (sanitize_path d) ''.well-known/''"
    and deny: "rg_php_deny cfg = Some deny" "PhpDeny_matches (cr_glob_list cr) deny (sanitize_path d) = Some pat"
      "pd_fallback deny = Status code"
  shows "run_state (resolve_request cr ops dk cfg uri) s = (Some (Denied code PhpDenyPaths), s)"
proof -
  have dc: "deny_check cr cfg (sanitize_path d) (sanitize_path d) = Some (Denied code PhpDenyPaths)"
    using deny by (simp add: deny_check_def denied_route_def)
  have run: "run_state (route_decoded cr cfg pr d) x = (Some (Denied code PhpDenyPaths, False), x)"
    for pr :: "'s probe" and x
    using pass php dc
    by (simp add: route_decoded_def Let_def dispatch_def classify_uri_with_php_def post_screen_def
        confine_def resolved_path_def should_cache_def)
  have "resolve_disk cr dk cfg uri = Some (Denied code PhpDenyPaths)"
    using assms(3) screen dec run [of "disk_probe dk" "()"]
    by (simp add: resolve_disk_simp route_disk_def)
  moreover have "\<not> should_cache (Denied code PhpDenyPaths)" by (simp add: should_cache_def)
  ultimately have "lru_peek (cr_route_lru cr) (ss_routes s) uri = None"
    using not_cached served_ok [OF assms(1,2)] by metis
  then show ?thesis
    using assms(3) screen dot_screen_decoded [OF screen] dec run [of "cached_probe ops dk"]
    by (simp add: resolve_request_def)
qed

lemma php_denied_before_disk_witness:
  "run_state (resolve_request ex_crates ex_ops ex_disk ex_cfg ''/up/x.php'') ex_start =
     (Some (Denied 403 PhpDenyPaths), ex_start)"
proof (rule php_denied_before_disk [OF ex_laws ex_served])
  show "dot_screen ex_crates ''/up/x.php'' = Inr None" by code_simp
  show "rg_php_deny ex_cfg =
      Some \<lparr>pd_matcher = [''up/x.php''], pd_patterns = [''up/x.php''], pd_fallback = Status 403\<rparr>"
    by (simp add: ex_cfg_def)
  show "PhpDeny_matches (cr_glob_list ex_crates)
      \<lparr>pd_matcher = [''up/x.php''], pd_patterns = [''up/x.php''], pd_fallback = Status 403\<rparr>
      (sanitize_path ''/up/x.php'') = Some ''up/x.php''" by code_simp
qed code_simp+

text \<open>
  C5.  No script under a denied pattern runs, however the router reached it: when
  a script is executed in its own right, its path relative to the document root
  matches no \<^verbatim>\<open>PHP_DENY_PATHS\<close> pattern, directory indexes, root fallback and
  PATH_INFO splits included.
\<close>

theorem executed_script_not_denied:
  assumes "all_lru_laws cr ops" "served cr ops dk cfg s" "rg_entry_route cfg = None"
    and "fst (run_state (resolve_request cr ops dk cfg uri) s) = Some (Execute p info None)"
    and "rg_php_deny cfg = Some deny" "path_strip_prefix p (rg_document_root cfg) = Some rel"
  shows "PhpDeny_matches (cr_glob_list cr) deny rel = None"
proof -
  have "resolve_disk cr dk cfg uri = Some (Execute p info None)"
    using served_resolve [OF assms(1,2)] assms(4) by simp
  then obtain d c where rd: "route_disk cr dk cfg d = Some (Execute p info None, c)"
    using resolve_disk_route assms(3) by blast
  have "\<And>fb src u pat. Execute p info None \<noteq> denied_route fb src u pat"
    by (simp add: denied_route_def split: DenyFallback.split)
  with route_disk_result [OF rd] obtain e where
    "Execute p info None = confined dk cfg (post_screen cr cfg (sanitize_path d)
       (dispatched cr dk cfg e (sanitize_path d)))" by blast
  then have "post_screen cr cfg (sanitize_path d) (dispatched cr dk cfg e (sanitize_path d)) =
      Execute p info None" using confined_cases by (metis RouteResult.distinct(3))
  from post_screen_Execute(2) [OF this assms(5,6)] show ?thesis .
qed

theorem executed_script_not_denied_witness:
  "PhpDeny_matches (cr_glob_list ex_crates)
     \<lparr>pd_matcher = [''up/x.php''], pd_patterns = [''up/x.php''], pd_fallback = Status 403\<rparr> ''b/run.php'' = None"
proof (rule executed_script_not_denied [OF ex_laws ex_served])
  show "fst (run_state (resolve_request ex_crates ex_ops ex_disk ex_cfg ''/b/run.php/x'') ex_start) =
      Some (Execute ''/srv/b/run.php'' (Some ''/x'') None)" by code_simp
  show "rg_php_deny ex_cfg =
      Some \<lparr>pd_matcher = [''up/x.php''], pd_patterns = [''up/x.php''], pd_fallback = Status 403\<rparr>"
    by (simp add: ex_cfg_def)
  show "path_strip_prefix ''/srv/b/run.php'' (rg_document_root ex_cfg) = Some ''b/run.php''" by code_simp
qed code_simp


text \<open>
  PATH_INFO in direct file mapping: when a script runs with extra path info,
  the sanitized URI is the script's path followed by the info, the info opens a
  new segment, the script is a file on disk, and the deny rules, judging the script
  as the file it is, do not deny it.
\<close>

lemma path_info_script_judged:
  assumes "all_lru_laws cr ops" "served cr ops dk cfg s" "rg_entry_route cfg = None"
    and mode: "rg_mode cfg = Mode_Traditional r"
    and res: "fst (run_state (resolve_request cr ops dk cfg uri) s) = Some (Execute p (Some info) None)"
    and df: "rg_deny_file cfg = Some df" and dec: "cr_percent_decode cr uri = Some d"
  shows "\<exists>script. sanitize_path d = script @ info \<and> starts_with info ''/'' \<and>
     p = path_join (rg_document_root cfg) script \<and> dk_metadata dk p = Some File \<and>
     map_option rl_action (judge (cr_globset cr) (df_rules df) script False) \<noteq> Some Deny"
proof -
  have "resolve_disk cr dk cfg uri = Some (Execute p (Some info) None)"
    using served_resolve [OF assms(1,2)] res by simp
  then obtain c where rd: "route_disk cr dk cfg d = Some (Execute p (Some info) None, c)"
    using resolve_disk_route assms(3) dec by (metis RouteResult.distinct(3) option.inject)
  have nd: "\<And>fb src u pat. Execute p (Some info) None \<noteq> denied_route fb src u pat"
    by (simp add: denied_route_def split: DenyFallback.split)
  with route_disk_result [OF rd] obtain e where v: "deny_verdict cr cfg d = Inr e" and
    "Execute p (Some info) None = confined dk cfg (post_screen cr cfg (sanitize_path d)
       (dispatched cr dk cfg e (sanitize_path d)))" by blast
  then have "post_screen cr cfg (sanitize_path d) (dispatched cr dk cfg e (sanitize_path d)) =
      Execute p (Some info) None" using confined_cases by (metis RouteResult.distinct(3))
  then have "dispatched cr dk cfg e (sanitize_path d) = Execute p (Some info) None"
    by (rule post_screen_Execute(1))
  from dispatched_traditional_info [OF mode this]
  obtain script where sp: "sanitize_path d = script @ info" "names_a_script script" "info \<noteq> []"
      "starts_with info ''/''" "p = path_join (rg_document_root cfg) script" "dk_metadata dk p = Some File"
    by (auto simp: split_result_def split: if_splits)
  from sp(4) obtain rest where "info = CHR ''/'' # rest" by (auto simp: starts_with_iff)
  with sp have rd: "(script, False) \<in> set (readings (sanitize_path d) names_a_script)"
    using readings_script by metis
  have "map_option rl_action (DenyFile_check (cr_globset cr) df (sanitize_path d) (ends_with d ''/'') True)
      \<noteq> Some Deny"
    using v df mode
    by (auto simp: deny_verdict_def Let_def split: if_splits option.splits)
  then have "map_option rl_action (judge (cr_globset cr) (df_rules df) script False) \<noteq> Some Deny"
    using check_not_denied [of "sanitize_path d" "cr_globset cr" df "ends_with d ''/''" True script False]
      sp(1,3) rd by simp
  with sp show ?thesis by blast
qed

lemma path_info_script_judged_witness:
  "\<exists>script. sanitize_path ''/b/run.php/x'' = script @ ''/x'' \<and> starts_with ''/x'' ''/'' \<and>
     ''/srv/b/run.php'' = path_join (rg_document_root ex_cfg) script \<and>
     dk_metadata ex_disk ''/srv/b/run.php'' = Some File \<and>
     map_option rl_action (judge (cr_globset ex_crates) [ex_rule ''secret''] script False) \<noteq> Some Deny"
proof -
  let ?df = "\<lparr>df_rules = [ex_rule ''secret''], df_path = ''/srv/.oxphpdeny'', df_fallback = ''404''\<rparr>"
  have "\<exists>script. sanitize_path ''/b/run.php/x'' = script @ ''/x'' \<and> starts_with ''/x'' ''/'' \<and>
     ''/srv/b/run.php'' = path_join (rg_document_root ex_cfg) script \<and>
     dk_metadata ex_disk ''/srv/b/run.php'' = Some File \<and>
     map_option rl_action (judge (cr_globset ex_crates) (df_rules ?df) script False) \<noteq> Some Deny"
  proof (rule path_info_script_judged [OF ex_laws ex_served])
    show "rg_mode ex_cfg = Mode_Traditional (TraditionalRouter_new ''/srv'')" by (simp add: ex_cfg_def)
    show "rg_deny_file ex_cfg = Some ?df" by (simp add: ex_cfg_def)
    show "cr_percent_decode ex_crates ''/b/run.php/x'' = Some ''/b/run.php/x''" by code_simp
  qed code_simp+
  then show ?thesis by simp
qed

lemma deny_file_fallback_present:
  assumes "deny_file_fallback canonicalize env root php df = Inr fb" "df = Some f" "has_deny_rules f"
  shows "fb \<noteq> None"
  using assms by (auto simp: deny_file_fallback_def map_sum_def split: option.splits sum.splits)

lemma RouteConfig_new_fallback:
  assumes new: "RouteConfig_new gl canonicalize env config entry_file worker = Inr cfg"
    and "rg_deny_file cfg = Some df" "has_deny_rules df"
  shows "rg_deny_file_fallback cfg \<noteq> None"
  using assms
  by (auto simp: RouteConfig_new_def RouteConfig_entry_only_def Let_def
      split: option.splits sum.splits if_splits dest: deny_file_fallback_present)



definition ex_new :: "route_fatal + (string, string list) route_config" where
  "ex_new = RouteConfig_new ex_glob_list (\<lambda>p. Some p)
     \<lparr>ev_php_deny_paths = Some ''/up/*'', ev_php_deny_fallback = None, ev_symlink_allow_paths = None\<rparr>
     \<lparr>sc_document_root = ''/srv'', sc_entry_only = False,
      sc_deny_file = Some \<lparr>df_rules = [ex_rule ''secret''], df_path = ''/srv/.oxphpdeny'', df_fallback = ''404''\<rparr>\<rparr>
     None False"


text \<open>
  C7.  Denials never enter the route cache: whatever requests a server has handled,
  no cached route is a denial or the run of a fallback script, so denied URIs cannot
  push legitimate routes out.
\<close>

theorem denials_never_cached:
  assumes "all_lru_laws cr ops" "served cr ops dk cfg s"
    and "lru_peek (cr_route_lru cr) (ss_routes s) uri = Some r"
  shows "r \<noteq> Denied code src \<and> r \<noteq> Execute p info (Some meta)"
proof -
  have "should_cache r" using served_ok [OF assms(1,2)] assms(3) by (auto simp: server_ok_def)
  then show ?thesis by (auto simp: should_cache_def)
qed

theorem denials_never_cached_witness:
  "Serve ''/srv/a.css'' \<noteq> Denied 404 DenyFileRule \<and>
   Serve ''/srv/a.css'' \<noteq> Execute ''/srv/x.php'' None
     (Some \<lparr>dm_path = ''x'', dm_pattern = ''x'', dm_fallback_script_uri = ''/x.php'', dm_source = DenyFileRule\<rparr>)"
proof (rule denials_never_cached [OF ex_laws served.request [OF ex_served]])
  show "lru_peek (cr_route_lru ex_crates)
      (ss_routes (snd (run_state (resolve_request ex_crates ex_ops ex_disk ex_cfg ''/a.css'') ex_start)))
      ''/a.css'' = Some (Serve ''/srv/a.css'')" by code_simp
qed

end
