(* ===== verification/Ox_Words.thy ===== *)
theory Ox_Words
  imports Ox_Prelude
begin

text \<open>
  Machine integers and sums over indexed tables, for the components that count.

  A \<^verbatim>\<open>u64\<close> or \<^verbatim>\<open>usize\<close> of the source is a 64-bit word: addition and multiplication
  wrap, as the release build does, and \<^verbatim>\<open>saturating_add\<close> and \<^verbatim>\<open>saturating_sub\<close> are
  written out.  A table of requests, threads or slots is a list; changing one
  entry moves a sum over the table by the difference of that entry, which is
  what the accounting invariants of the components rest on.
\<close>

type_synonym u64 = "64 word"
type_synonym u32 = "32 word"

section \<open>Saturating arithmetic\<close>

definition sat_add :: "'w::len word \<Rightarrow> 'w word \<Rightarrow> 'w word" where
  "sat_add a b = (if unat a + unat b < 2 ^ LENGTH('w) then a + b else - 1)"

definition sat_sub :: "'w::len word \<Rightarrow> 'w word \<Rightarrow> 'w word" where
  "sat_sub a b = (if b \<le> a then a - b else 0)"

text \<open>A natural number read as an unsigned word, the largest word standing for what does not fit
  (\<^verbatim>\<open>try_from(..).unwrap_or(MAX)\<close>).\<close>

definition sat_of_nat :: "nat \<Rightarrow> 'w::len word" where
  "sat_of_nat n = (if n < 2 ^ LENGTH('w) then of_nat n else - 1)"

lemma unat_minus_one_word: "unat (- 1 :: 'w::len word) = 2 ^ LENGTH('w) - 1"
  by (simp add: unsigned_minus_1_eq_mask mask_eq_exp_minus_1)

lemma unat_of_nat_lt: "n < 2 ^ LENGTH('w) \<Longrightarrow> unat (of_nat n :: 'w::len word) = n"
  by (simp add: unat_of_nat take_bit_nat_eq_self)

lemma unat_sat_of_nat: "unat (sat_of_nat n :: 'w::len word) = min n (2 ^ LENGTH('w) - 1)"
  by (auto simp: sat_of_nat_def unat_of_nat_lt unat_minus_one_word)

lemma unat_add_lt: "unat a + unat b < 2 ^ LENGTH('w) \<Longrightarrow> unat (a + b :: 'w::len word) = unat a + unat b"
  by (simp add: unat_word_ariths)

lemma unat_sat_add: "unat (sat_add a b :: 'w::len word) = min (unat a + unat b) (2 ^ LENGTH('w) - 1)"
  by (auto simp: sat_add_def unat_add_lt unat_minus_one_word)

lemma unat_sub_le: "(b :: 'w::len word) \<le> a \<Longrightarrow> unat (a - b) = unat a - unat b"
  by (rule unat_sub)

lemma unat_sat_sub: "unat (sat_sub a b :: 'w::len word) = unat a - unat b"
  by (auto simp: sat_sub_def unat_sub_le word_le_nat_alt)

lemma unat_max: "unat (max a b :: 'w::len word) = max (unat a) (unat b)"
  by (auto simp: max_def word_le_nat_alt)

lemma unat_min: "unat (min a b :: 'w::len word) = min (unat a) (unat b)"
  by (auto simp: min_def word_le_nat_alt)

lemmas unat_ops = unat_sat_of_nat unat_sat_add unat_sat_sub unat_max unat_min unat_div

section \<open>Sums and counts over a table\<close>

lemma sum_list_update_nat:
  "i < length xs \<Longrightarrow> sum_list (map f (xs[i := x])) + f (xs ! i) = sum_list (map f xs) + (f x :: nat)"
proof (induction xs arbitrary: i)
  case (Cons y ys)
  then show ?case by (cases i) (auto simp: add.commute add.left_commute)
qed simp

text \<open>The form the accounting proofs use: what leaves entry \<open>i\<close> is taken off the sum, what enters is
  added.\<close>

lemma sum_list_update:
  "i < length xs \<Longrightarrow> sum_list (map f (xs[i := x])) = sum_list (map f xs) - f (xs ! i) + (f x :: nat)"
  using sum_list_update_nat[of i xs f x] member_le_sum_list[of "f (xs ! i)" "map f xs"] by simp

lemma sum_list_entry: "i < length xs \<Longrightarrow> f (xs ! i) \<le> sum_list (map f xs :: nat list)"
  using member_le_sum_list[of "f (xs ! i)" "map f xs"] by simp

lemma sum_list_two:
  assumes "i < length xs" "j < length xs" "i \<noteq> j"
  shows "f (xs ! i) + f (xs ! j) \<le> sum_list (map f xs :: nat list)"
proof -
  have "(\<Sum>k\<in>{i, j}. f (xs ! k)) \<le> (\<Sum>k = 0..<length xs. f (xs ! k))"
    using assms by (intro sum_mono2) auto
  then show ?thesis using assms by (simp add: sum_list_sum_nth)
qed

lemma sum_list_const: "sum_list (map (\<lambda>_. c) xs) = length xs * (c :: nat)"
  by (induction xs) auto

end
