(* ===== verification/Admission.thy ===== *)
theory Admission
  imports Ox_Words
begin

text \<open>
  Admission control for the worker queue, \<^verbatim>\<open>src/executor/admission.rs\<close>: the reasons
  a request is shed, the wait budget the server adjusts to what the pool gets
  out of the waiting, and the gate itself with its permits and its byte budget.

  The semaphore is Tokio's.  It is the record \<open>semaphore\<close> of the operations
  the gate calls, and \<open>sem_laws\<close> is what its documentation promises.  A
  duration is a natural number of nanoseconds; the budget is held in
  microseconds at its width.
\<close>

section \<open>Reasons\<close>

datatype ShedReason = QueueFull | WaitTimeout | WaitingFull | WaitingBytes | ShuttingDown | PoolUnavailable

definition ShedReason_ALL :: "ShedReason list" where
  "ShedReason_ALL = [QueueFull, WaitTimeout, WaitingFull, WaitingBytes, ShuttingDown, PoolUnavailable]"

fun ShedReason_as_str :: "ShedReason \<Rightarrow> string" where
  "ShedReason_as_str QueueFull = ''queue_full''"
| "ShedReason_as_str WaitTimeout = ''wait_timeout''"
| "ShedReason_as_str WaitingFull = ''waiting_full''"
| "ShedReason_as_str WaitingBytes = ''waiting_bytes''"
| "ShedReason_as_str ShuttingDown = ''shutting_down''"
| "ShedReason_as_str PoolUnavailable = ''pool_unavailable''"

fun position :: "('a \<Rightarrow> bool) \<Rightarrow> 'a list \<Rightarrow> nat option" where
  "position P [] = None"
| "position P (x # xs) = (if P x then Some 0 else map_option Suc (position P xs))"

text \<open>\<^verbatim>\<open>None\<close> is the panic of \<^verbatim>\<open>expect\<close>.\<close>

definition ShedReason_index :: "ShedReason \<Rightarrow> nat option" where
  "ShedReason_index r = position (\<lambda>x. x = r) ShedReason_ALL"

section \<open>The wait budget\<close>

record load_sample =
  ls_started :: u64
  ls_abandoned :: u64
  ls_queue_depth :: nat

record wait_budget =
  wb_configured :: nat
  wb_floor :: nat
  wb_effective_us :: u64
  wb_window_started :: u64
  wb_window_abandoned :: u64

definition MIN_STARTS_PER_DECISION :: u64 where "MIN_STARTS_PER_DECISION = 8"

definition millis :: "nat \<Rightarrow> nat" where "millis n = n * 1000000"

definition micros :: "nat \<Rightarrow> u64" where "micros d = sat_of_nat (d div 1000)"

definition WaitBudget_new :: "nat \<Rightarrow> wait_budget" where
  "WaitBudget_new configured =
     \<lparr>wb_configured = configured,
      wb_floor = min (max (configured div 64) (millis 10)) configured,
      wb_effective_us = micros configured,
      wb_window_started = 0,
      wb_window_abandoned = 0\<rparr>"

definition configured_us :: "wait_budget \<Rightarrow> u64" where
  "configured_us b = micros (wb_configured b)"

definition in_force :: "wait_budget \<Rightarrow> nat \<times> bool" where
  "in_force b = (let us = wb_effective_us b in (unat us * 1000, us = configured_us b))"

definition observe :: "load_sample \<Rightarrow> wait_budget \<Rightarrow> wait_budget" where
  "observe sample b =
    (let started = wb_window_started b + ls_started sample;
         abandoned = wb_window_abandoned b + ls_abandoned sample in
     if ls_queue_depth sample > 0 \<and> started < MIN_STARTS_PER_DECISION
     then b\<lparr>wb_window_started := started, wb_window_abandoned := abandoned\<rparr>
     else
       let b' = b\<lparr>wb_window_started := 0, wb_window_abandoned := 0\<rparr>;
           current = wb_effective_us b;
           ceiling = configured_us b in
       if ls_queue_depth sample > 0 \<and> abandoned * 4 \<ge> started
       then b'\<lparr>wb_effective_us := max (current div 2) (micros (wb_floor b))\<rparr>
       else if ls_queue_depth sample = 0 \<and> (abandoned = 0 \<or> abandoned * 4 < started)
       then b'\<lparr>wb_effective_us := min (sat_add current (ceiling div 8)) ceiling\<rparr>
       else b')"

section \<open>The gate\<close>

datatype TryAcquireError = Closed | NoPermits

record 'q semaphore =
  sem_new :: "nat \<Rightarrow> 'q"
  sem_try_acquire :: "'q \<Rightarrow> TryAcquireError + 'q"
  sem_release :: "'q \<Rightarrow> 'q"
  sem_close :: "'q \<Rightarrow> 'q"
  sem_available :: "'q \<Rightarrow> nat"
  sem_is_closed :: "'q \<Rightarrow> bool"

text \<open>A new semaphore is open with its permits; an acquisition takes one permit of an open semaphore
  that has one, and otherwise says why not; dropping a permit puts it back; closing is for good and
  moves no permit.\<close>

definition sem_laws :: "'q semaphore \<Rightarrow> bool" where
  "sem_laws S \<longleftrightarrow>
     (\<forall>n. sem_available S (sem_new S n) = n \<and> \<not> sem_is_closed S (sem_new S n)) \<and>
     (\<forall>q. sem_is_closed S q \<longrightarrow> sem_try_acquire S q = Inl Closed) \<and>
     (\<forall>q. \<not> sem_is_closed S q \<longrightarrow> sem_available S q = 0 \<longrightarrow> sem_try_acquire S q = Inl NoPermits) \<and>
     (\<forall>q. \<not> sem_is_closed S q \<longrightarrow> 0 < sem_available S q \<longrightarrow>
        (\<exists>q'. sem_try_acquire S q = Inr q' \<and> Suc (sem_available S q') = sem_available S q \<and> \<not> sem_is_closed S q')) \<and>
     (\<forall>q. sem_available S (sem_release S q) = Suc (sem_available S q) \<and> sem_is_closed S (sem_release S q) = sem_is_closed S q) \<and>
     (\<forall>q. sem_available S (sem_close S q) = sem_available S q \<and> sem_is_closed S (sem_close S q))"

record 'q admission =
  ad_slots :: 'q
  ad_parking :: 'q
  ad_bytes_cap :: u64
  ad_bytes_held :: u64
  ad_budget :: "wait_budget option"
  ad_capacity :: nat

definition Admission_new :: "'q semaphore \<Rightarrow> nat \<Rightarrow> nat \<Rightarrow> nat \<Rightarrow> u64 \<Rightarrow> 'q admission" where
  "Admission_new S capacity wait_timeout_ms max_waiting max_waiting_bytes =
     \<lparr>ad_slots = sem_new S capacity,
      ad_parking = sem_new S max_waiting,
      ad_bytes_cap = max_waiting_bytes,
      ad_bytes_held = 0,
      ad_budget = (if wait_timeout_ms > 0 then Some (WaitBudget_new (millis wait_timeout_ms)) else None),
      ad_capacity = capacity\<rparr>"

definition slots_available :: "'q semaphore \<Rightarrow> 'q admission \<Rightarrow> nat" where
  "slots_available S ad = sem_available S (ad_slots ad)"

definition Admission_budget :: "'q admission \<Rightarrow> (nat \<times> bool) option" where
  "Admission_budget ad = map_option in_force (ad_budget ad)"

definition try_admit :: "'q semaphore \<Rightarrow> 'q admission \<Rightarrow> ShedReason + 'q admission" where
  "try_admit S ad =
    (case sem_try_acquire S (ad_slots ad) of
       Inr q \<Rightarrow> Inr (ad\<lparr>ad_slots := q\<rparr>)
     | Inl Closed \<Rightarrow> Inl ShuttingDown
     | Inl NoPermits \<Rightarrow> Inl QueueFull)"

definition try_park :: "'q semaphore \<Rightarrow> 'q admission \<Rightarrow> ShedReason + 'q admission" where
  "try_park S ad =
    (case sem_try_acquire S (ad_parking ad) of
       Inr q \<Rightarrow> Inr (ad\<lparr>ad_parking := q\<rparr>)
     | Inl Closed \<Rightarrow> Inl ShuttingDown
     | Inl NoPermits \<Rightarrow> Inl WaitingFull)"

text \<open>One turn of the compare-and-swap loop: the sum this caller last read, the sum in memory, and
  whether the weak exchange fails although the two agree.\<close>

datatype turn = Refuse | Charge u64 | Retry u64

definition park_turn :: "u64 \<Rightarrow> u64 \<Rightarrow> u64 \<Rightarrow> u64 \<Rightarrow> bool \<Rightarrow> turn" where
  "park_turn cap bytes held actual spurious =
    (if sat_add held bytes > cap then Refuse
     else if actual = held \<and> \<not> spurious then Charge (held + bytes)
     else Retry actual)"

text \<open>The call with nobody else at the counter: the charge is the bytes to give back on \<^verbatim>\<open>Drop\<close>, none
  for an empty body.\<close>

definition try_park_bytes :: "'q admission \<Rightarrow> u64 \<Rightarrow> ShedReason + 'q admission" where
  "try_park_bytes ad bytes =
    (if bytes = 0 then Inr ad
     else case park_turn (ad_bytes_cap ad) bytes (ad_bytes_held ad) (ad_bytes_held ad) False of
            Charge held \<Rightarrow> Inr (ad\<lparr>ad_bytes_held := held\<rparr>)
          | _ \<Rightarrow> Inl WaitingBytes)"

definition drop_charge :: "u64 \<Rightarrow> 'q admission \<Rightarrow> 'q admission" where
  "drop_charge bytes ad = (if bytes = 0 then ad else ad\<lparr>ad_bytes_held := ad_bytes_held ad - bytes\<rparr>)"

definition drop_slot :: "'q semaphore \<Rightarrow> 'q admission \<Rightarrow> 'q admission" where
  "drop_slot S ad = ad\<lparr>ad_slots := sem_release S (ad_slots ad)\<rparr>"

definition drop_parking :: "'q semaphore \<Rightarrow> 'q admission \<Rightarrow> 'q admission" where
  "drop_parking S ad = ad\<lparr>ad_parking := sem_release S (ad_parking ad)\<rparr>"

definition Admission_close :: "'q semaphore \<Rightarrow> 'q admission \<Rightarrow> 'q admission" where
  "Admission_close S ad = ad\<lparr>ad_slots := sem_close S (ad_slots ad), ad_parking := sem_close S (ad_parking ad)\<rparr>"

text \<open>One poll of \<^verbatim>\<open>admit\<close>: \<^verbatim>\<open>None\<close> while the wait goes on.  The acquisition is polled before the clock, and
  the parking permit goes back however the wait ends.\<close>

datatype Admitted = Slot | Shed ShedReason

definition admit :: "'q semaphore \<Rightarrow> nat \<Rightarrow> nat \<Rightarrow> 'q admission \<Rightarrow> (Admitted \<times> 'q admission) option" where
  "admit S now deadline ad =
    (case try_admit S ad of
       Inr ad' \<Rightarrow> Some (Slot, drop_parking S ad')
     | Inl ShuttingDown \<Rightarrow> Some (Shed ShuttingDown, drop_parking S ad)
     | Inl _ \<Rightarrow> if deadline \<le> now then Some (Shed WaitTimeout, drop_parking S ad) else None)"

section \<open>The byte budget under concurrent callers\<close>

text \<open>What one caller of \<^verbatim>\<open>try_park_bytes\<close> is doing: nothing, inside the loop with the sum it last read,
  or holding its charge until it drops it.\<close>

datatype parker = Idle | Looping u64 u64 | Holding u64

text \<open>The callers take turns in any order at the one counter; every load, exchange and drop is one
  step, and an exchange may fail for no reason.\<close>

inductive park_step :: "u64 \<Rightarrow> parker list \<times> u64 \<Rightarrow> parker list \<times> u64 \<Rightarrow> bool" for cap where
  park_load: "i < length ps \<Longrightarrow> ps ! i = Idle \<Longrightarrow> bytes \<noteq> 0 \<Longrightarrow>
     park_step cap (ps, held) (ps[i := Looping bytes held], held)"
| park_charge: "i < length ps \<Longrightarrow> ps ! i = Looping bytes seen \<Longrightarrow>
     park_turn cap bytes seen held spurious = Charge held' \<Longrightarrow>
     park_step cap (ps, held) (ps[i := Holding bytes], held')"
| park_retry: "i < length ps \<Longrightarrow> ps ! i = Looping bytes seen \<Longrightarrow>
     park_turn cap bytes seen held spurious = Retry seen' \<Longrightarrow>
     park_step cap (ps, held) (ps[i := Looping bytes seen'], held)"
| park_refuse: "i < length ps \<Longrightarrow> ps ! i = Looping bytes seen \<Longrightarrow>
     park_turn cap bytes seen held spurious = Refuse \<Longrightarrow>
     park_step cap (ps, held) (ps[i := Idle], held)"
| park_drop: "i < length ps \<Longrightarrow> ps ! i = Holding bytes \<Longrightarrow>
     park_step cap (ps, held) (ps[i := Idle], held - bytes)"

fun charge_of :: "parker \<Rightarrow> nat" where
  "charge_of (Holding b) = unat b"
| "charge_of _ = 0"

definition charges :: "parker list \<Rightarrow> nat" where
  "charges ps = sum_list (map charge_of ps)"

section \<open>Lemmas on the wait budget\<close>

definition floor_us :: "nat \<Rightarrow> nat" where
  "floor_us c = unat (micros (wb_floor (WaitBudget_new c)))"

definition ceiling_us :: "nat \<Rightarrow> nat" where
  "ceiling_us c = unat (micros c)"

definition wb_ok :: "nat \<Rightarrow> wait_budget \<Rightarrow> bool" where
  "wb_ok c b \<longleftrightarrow> wb_configured b = c \<and> wb_floor b = wb_floor (WaitBudget_new c) \<and>
     floor_us c \<le> unat (wb_effective_us b) \<and> unat (wb_effective_us b) \<le> ceiling_us c"

lemma unat_micros: "unat (micros d) = min (d div 1000) (2 ^ 64 - 1)"
  by (simp add: micros_def unat_sat_of_nat)

lemma micros_mono: "a \<le> b \<Longrightarrow> unat (micros a) \<le> unat (micros b)"
  by (auto simp: unat_micros div_le_mono min.coboundedI1 min_le_iff_disj)

lemma floor_le_ceiling: "floor_us c \<le> ceiling_us c"
  unfolding floor_us_def ceiling_us_def by (rule micros_mono) (simp add: WaitBudget_new_def)

lemma wb_ok_new: "wb_ok c (WaitBudget_new c)"
  using floor_le_ceiling[of c] by (simp add: wb_ok_def WaitBudget_new_def ceiling_us_def)

lemma micros_bound: "unat (micros d) \<le> 18446744073709551615"
  by (simp add: unat_micros)

lemma wb_ok_observe: "wb_ok c b \<Longrightarrow> wb_ok c (observe sample b)"
  using floor_le_ceiling[of c] micros_bound[of "wb_floor (WaitBudget_new c)"]
  by (auto simp: observe_def wb_ok_def Let_def unat_ops configured_us_def ceiling_us_def floor_us_def
      simp del: One_nat_def)

lemma wb_ok_observes: "wb_ok c b \<Longrightarrow> wb_ok c (fold observe samples b)"
  by (induction samples arbitrary: b) (simp_all add: wb_ok_observe)

text \<open>With a timeout of at least a millisecond the floor is never zero, and it closes the rounding of
  the eighths the budget climbs back in.\<close>

lemma floor_us_millis:
  "floor_us (millis ms) = min (min (max (ms * 1000 div 64) 10000) (ms * 1000)) (2 ^ 64 - 1)"
proof -
  have "millis ms div 64 div 1000 = ms * 1000 div 64"
    by (simp add: millis_def div_mult2_eq[symmetric])
  then show ?thesis
    by (auto simp: floor_us_def WaitBudget_new_def unat_micros millis_def min_def max_def)
qed

lemma ceiling_us_millis: "ceiling_us (millis ms) = min (ms * 1000) (2 ^ 64 - 1)"
  by (simp add: ceiling_us_def unat_micros millis_def)

lemma floor_closes_rounding: "0 < ms \<Longrightarrow> ceiling_us (millis ms) \<le> floor_us (millis ms) + 8 * (ceiling_us (millis ms) div 8)"
  by (simp add: floor_us_millis ceiling_us_millis)

lemma floor_us_pos: "0 < ms \<Longrightarrow> 0 < floor_us (millis ms)"
  by (simp add: floor_us_millis)

text \<open>A tick that finds nothing queued and no abandoned work.\<close>

definition idle_sample :: "load_sample \<Rightarrow> bool" where
  "idle_sample sample \<longleftrightarrow> ls_queue_depth sample = 0 \<and> ls_abandoned sample = 0"

definition window_empty :: "wait_budget \<Rightarrow> bool" where
  "window_empty b \<longleftrightarrow> wb_window_started b = 0 \<and> wb_window_abandoned b = 0"

lemma idle_closes_window: "idle_sample sample \<Longrightarrow> window_empty (observe sample b)"
  by (simp add: idle_sample_def window_empty_def observe_def Let_def)

lemma idle_effective:
  assumes "idle_sample sample" "window_empty b" "wb_ok c b"
  shows "unat (wb_effective_us (observe sample b)) = min (unat (wb_effective_us b) + ceiling_us c div 8) (ceiling_us c)"
  using assms micros_bound[of c]
  by (simp add: idle_sample_def window_empty_def observe_def Let_def wb_ok_def unat_ops configured_us_def ceiling_us_def)

lemma idle_climb:
  assumes "\<forall>s \<in> set samples. idle_sample s" "window_empty b" "wb_ok c b"
  shows "min (floor_us c + length samples * (ceiling_us c div 8)) (ceiling_us c) \<le> unat (wb_effective_us (fold observe samples b))"
  using assms
proof (induction samples rule: rev_induct)
  case Nil
  then show ?case by (simp add: wb_ok_def)
next
  case (snoc s samples)
  let ?b = "fold observe samples b"
  have w: "window_empty ?b"
    using snoc.prems by (cases samples rule: rev_cases) (simp_all add: idle_closes_window)
  have "unat (wb_effective_us (observe s ?b)) = min (unat (wb_effective_us ?b) + ceiling_us c div 8) (ceiling_us c)"
    using snoc.prems w by (intro idle_effective) (simp_all add: wb_ok_observes)
  then show ?case using snoc by simp
qed

lemma configured_observe [simp]: "wb_configured (observe sample b) = wb_configured b"
  by (simp add: observe_def Let_def)

lemma configured_observes [simp]: "wb_configured (fold observe samples b) = wb_configured b"
  by (induction samples arbitrary: b) simp_all

text \<open>A pool that starts nothing behind a queue leaves the window open.\<close>

definition wedged_sample :: "load_sample \<Rightarrow> bool" where
  "wedged_sample sample \<longleftrightarrow> 0 < ls_queue_depth sample \<and> ls_started sample = 0"

lemma wedged_keeps:
  assumes "\<forall>s \<in> set samples. wedged_sample s" "wb_window_started b < MIN_STARTS_PER_DECISION"
  shows "wb_effective_us (fold observe samples b) = wb_effective_us b \<and>
    wb_window_started (fold observe samples b) = wb_window_started b"
  using assms by (induction samples arbitrary: b) (simp_all add: wedged_sample_def observe_def Let_def)

text \<open>A tick in which the pool started at least the evidence asked for and a quarter of it or more
  went to clients who had left.\<close>

definition wasted_sample :: "load_sample \<Rightarrow> bool" where
  "wasted_sample sample \<longleftrightarrow> 0 < ls_queue_depth sample \<and> MIN_STARTS_PER_DECISION \<le> ls_started sample \<and>
     ls_started sample \<le> ls_abandoned sample * 4"

lemma wasted_halves:
  assumes "\<forall>s \<in> set samples. wasted_sample s" "window_empty b" "wb_ok c b"
  shows "unat (wb_effective_us (fold observe samples b)) = max (unat (wb_effective_us b) div 2 ^ length samples) (floor_us c) \<and>
    window_empty (fold observe samples b)"
  using assms
proof (induction samples rule: rev_induct)
  case Nil
  then show ?case by (simp add: wb_ok_def max_def)
next
  case (snoc s samples)
  let ?b = "fold observe samples b"
  have ih: "unat (wb_effective_us ?b) = max (unat (wb_effective_us b) div 2 ^ length samples) (floor_us c)" "window_empty ?b"
    using snoc by simp_all
  have ok: "wb_ok c ?b" using snoc.prems(3) by (rule wb_ok_observes)
  have "unat (wb_effective_us (observe s ?b)) = max (unat (wb_effective_us ?b) div 2) (floor_us c) \<and> window_empty (observe s ?b)"
    using snoc.prems(1) ih(2) ok
    by (auto simp: wasted_sample_def window_empty_def observe_def Let_def unat_ops wb_ok_def floor_us_def not_less)
  moreover have "max (max (n div 2 ^ k) f div 2) f = max (n div 2 ^ Suc k) (f :: nat)" for n k f
    by (auto simp: max_def div_mult2_eq power_Suc2 simp del: power_Suc)
  ultimately show ?case using ih by simp
qed

section \<open>Lemmas on the byte budget\<close>

definition park_ok :: "u64 \<Rightarrow> parker list \<times> u64 \<Rightarrow> bool" where
  "park_ok cap s \<longleftrightarrow> unat (snd s) = charges (fst s) \<and> charges (fst s) \<le> unat cap"

lemma charges_update:
  "i < length ps \<Longrightarrow> charges (ps[i := p]) = charges ps - charge_of (ps ! i) + charge_of p"
  by (simp add: charges_def sum_list_update)

lemma charge_le: "i < length ps \<Longrightarrow> ps ! i = Holding b \<Longrightarrow> unat b \<le> charges ps"
  using sum_list_entry[of i ps charge_of] by (simp add: charges_def)

text \<open>The exchange goes through only on the sum the check was made against, so the check bounds the
  sum it stores; only a cap that is the largest word would let the addition wrap.\<close>

lemma park_turn_Charge:
  assumes "park_turn cap bytes seen held spurious = Charge held'" "cap \<noteq> - 1"
  shows "seen = held" "unat held' = unat held + unat bytes" "unat held' \<le> unat cap"
proof -
  show seen: "seen = held"
    using assms(1) by (auto simp: park_turn_def split: if_splits)
  have h': "held' = held + bytes" and le: "unat (sat_add held bytes) \<le> unat cap"
    using assms(1) seen by (auto simp: park_turn_def not_less word_le_nat_alt split: if_splits)
  have "unat cap \<noteq> 2 ^ 64 - 1"
    using assms(2) unat_minus_one_word[where 'w = 64] word_unat_eq_iff by fastforce
  moreover have "unat cap < 2 ^ 64"
    using unsigned_less[of cap] by simp
  ultimately have "unat held + unat bytes < 2 ^ 64"
    using le by (simp add: unat_sat_add)
  then show "unat held' = unat held + unat bytes" "unat held' \<le> unat cap"
    using h' le by (simp_all add: unat_add_lt unat_sat_add)
qed

lemma park_ok_step:
  assumes "park_step cap s t" "park_ok cap s" "cap \<noteq> - 1"
  shows "park_ok cap t"
  using assms
proof (induction rule: park_step.induct)
  case (park_charge i ps bytes seen held spurious held')
  then show ?case using park_turn_Charge[OF park_charge.hyps(3) park_charge.prems(2)]
    by (simp add: park_ok_def charges_update)
next
  case (park_drop i ps bytes held)
  then have "unat bytes \<le> unat held" using charge_le[of i ps bytes] by (simp add: park_ok_def)
  then show ?case using park_drop
    by (auto simp: park_ok_def charges_update unat_sub_le word_le_nat_alt)
qed (simp_all add: park_ok_def charges_update)

lemma park_ok_start: "park_ok cap (replicate n Idle, 0)"
  by (simp add: park_ok_def charges_def map_replicate_const sum_list_replicate)

lemma park_ok_steps: "(park_step cap)\<^sup>*\<^sup>* s t \<Longrightarrow> park_ok cap s \<Longrightarrow> cap \<noteq> - 1 \<Longrightarrow> park_ok cap t"
  by (induction rule: rtranclp_induct) (simp_all add: park_ok_step)

section \<open>Lemmas on the gate\<close>

lemma sem_laws_new: "sem_laws S \<Longrightarrow> sem_available S (sem_new S n) = n \<and> \<not> sem_is_closed S (sem_new S n)"
  by (simp add: sem_laws_def)

lemma sem_laws_release:
  "sem_laws S \<Longrightarrow> sem_available S (sem_release S q) = Suc (sem_available S q) \<and> sem_is_closed S (sem_release S q) = sem_is_closed S q"
  by (simp add: sem_laws_def)

lemma sem_laws_close:
  "sem_laws S \<Longrightarrow> sem_available S (sem_close S q) = sem_available S q \<and> sem_is_closed S (sem_close S q)"
  by (simp add: sem_laws_def)

lemma sem_laws_closed: "sem_laws S \<Longrightarrow> sem_is_closed S q \<Longrightarrow> sem_try_acquire S q = Inl Closed"
  by (simp add: sem_laws_def)

lemma sem_laws_acquired:
  assumes "sem_laws S" "sem_try_acquire S q = Inr q'"
  shows "Suc (sem_available S q') = sem_available S q" "\<not> sem_is_closed S q"
proof -
  show open_q: "\<not> sem_is_closed S q" using assms by (auto simp: sem_laws_def)
  then have "0 < sem_available S q" using assms by (cases "sem_available S q") (auto simp: sem_laws_def)
  then show "Suc (sem_available S q') = sem_available S q" using assms open_q by (fastforce simp: sem_laws_def)
qed

lemma try_admit_Inr:
  assumes "sem_laws S" "try_admit S ad = Inr ad'"
  shows "Suc (sem_available S (ad_slots ad')) = sem_available S (ad_slots ad)"
    "\<not> sem_is_closed S (ad_slots ad)"
  using assms sem_laws_acquired[OF assms(1)]
  by (auto simp: try_admit_def split: sum.splits TryAcquireError.splits)

lemma try_park_Inr:
  assumes "sem_laws S" "try_park S ad = Inr ad'"
  shows "Suc (sem_available S (ad_parking ad')) = sem_available S (ad_parking ad)"
  using assms sem_laws_acquired[OF assms(1)]
  by (auto simp: try_park_def split: sum.splits TryAcquireError.splits)

lemma try_park_bytes_Inr:
  assumes "try_park_bytes ad bytes = Inr ad'" "ad_bytes_cap ad \<noteq> - 1" "unat (ad_bytes_held ad) \<le> unat (ad_bytes_cap ad)"
  shows "unat (ad_bytes_held ad') = unat (ad_bytes_held ad) + unat bytes \<and> unat (ad_bytes_held ad') \<le> unat (ad_bytes_cap ad)"
  using assms park_turn_Charge[where cap = "ad_bytes_cap ad"]
  by (auto simp: try_park_bytes_def split: if_splits turn.splits)

lemma try_admit_keeps:
  "try_admit S ad = Inr ad' \<Longrightarrow> ad_parking ad' = ad_parking ad \<and> ad_bytes_held ad' = ad_bytes_held ad \<and>
     ad_bytes_cap ad' = ad_bytes_cap ad \<and> ad_budget ad' = ad_budget ad"
  by (auto simp: try_admit_def split: sum.splits TryAcquireError.splits)

lemma try_park_keeps:
  "try_park S ad = Inr ad' \<Longrightarrow> ad_slots ad' = ad_slots ad \<and> ad_bytes_held ad' = ad_bytes_held ad \<and>
     ad_bytes_cap ad' = ad_bytes_cap ad \<and> ad_budget ad' = ad_budget ad"
  by (auto simp: try_park_def split: sum.splits TryAcquireError.splits)

lemma try_park_bytes_keeps:
  "try_park_bytes ad bytes = Inr ad' \<Longrightarrow> ad_slots ad' = ad_slots ad \<and> ad_parking ad' = ad_parking ad \<and>
     ad_bytes_cap ad' = ad_bytes_cap ad \<and> ad_budget ad' = ad_budget ad"
  by (auto simp: try_park_bytes_def split: if_splits turn.splits)

lemma try_admit_closed: "sem_laws S \<Longrightarrow> sem_is_closed S (ad_slots ad) \<Longrightarrow> try_admit S ad = Inl ShuttingDown"
  by (simp add: try_admit_def sem_laws_closed)

section \<open>Properties\<close>

text \<open>
  Whatever the controller observes, the wait budget in force stays between its floor and the
  configured ceiling, and it is never zero: a configured wait never turns into fail-fast.
\<close>

lemma wait_budget_bounded:
  assumes "0 < ms" "b = fold observe samples (WaitBudget_new (millis ms))"
  shows "micros (wb_floor b) \<le> wb_effective_us b \<and> wb_effective_us b \<le> configured_us b \<and>
    0 < fst (in_force b) \<and> wb_configured b = millis ms"
proof -
  have "wb_ok (millis ms) b" unfolding assms(2) by (rule wb_ok_observes[OF wb_ok_new])
  then show ?thesis using floor_us_pos[OF assms(1)]
    by (auto simp: wb_ok_def floor_us_def ceiling_us_def configured_us_def in_force_def Let_def word_le_nat_alt)
qed

definition overload :: load_sample where
  "overload = \<lparr>ls_started = 8, ls_abandoned = 2, ls_queue_depth = 3\<rparr>"

definition quiet :: load_sample where
  "quiet = \<lparr>ls_started = 5, ls_abandoned = 0, ls_queue_depth = 0\<rparr>"

lemma wait_budget_bounded_witness:
  "wb_effective_us (fold observe [overload, quiet] (WaitBudget_new (millis 1000))) \<le> 1000000 \<and>
   0 < fst (in_force (fold observe [overload, quiet] (WaitBudget_new (millis 1000))))"
proof -
  have "micros (millis 1000) = 1000000" by (simp add: micros_def millis_def sat_of_nat_def)
  then show ?thesis using wait_budget_bounded[of 1000 _ "[overload, quiet]", OF _ refl] by (auto simp: configured_us_def)
qed

text \<open>
  Six decisions in a row against a wasteful wait bring a fresh budget down to its floor, and from
  any state nine idle ticks bring it back to the configured ceiling: the first may only discard the
  open window, and eight climb an eighth of the ceiling each.
\<close>

lemma wait_budget_episode:
  assumes "0 < ms" "length down = 6" "\<forall>s \<in> set down. wasted_sample s"
    and "length up = 9" "\<forall>s \<in> set up. idle_sample s"
  shows "wb_effective_us (fold observe down (WaitBudget_new (millis ms))) = micros (wb_floor (WaitBudget_new (millis ms))) \<and>
    wb_effective_us (fold observe (down @ between @ up) (WaitBudget_new (millis ms))) = micros (millis ms)"
proof
  let ?c = "millis ms" and ?n = "WaitBudget_new (millis ms)"
  have "unat (wb_effective_us (fold observe down ?n)) = max (ceiling_us ?c div 2 ^ 6) (floor_us ?c)"
    using wasted_halves[OF assms(3) _ wb_ok_new, of ?c] assms(2)
    by (simp add: window_empty_def WaitBudget_new_def ceiling_us_def)
  also have "\<dots> = floor_us ?c"
    by (auto simp: floor_us_millis ceiling_us_millis max_def min_def)
  finally show "wb_effective_us (fold observe down ?n) = micros (wb_floor ?n)"
    by (simp add: floor_us_def word_unat_eq_iff)
next
  let ?c = "millis ms" and ?n = "WaitBudget_new (millis ms)"
  obtain s rest where up: "up = s # rest" "length rest = 8" using assms(4) by (cases up) auto
  define b where "b = observe s (fold observe (down @ between) ?n)"
  have ok: "wb_ok ?c b" unfolding b_def by (intro wb_ok_observe wb_ok_observes wb_ok_new)
  have "window_empty b" unfolding b_def using assms(5) up by (intro idle_closes_window) simp
  then have "min (floor_us ?c + 8 * (ceiling_us ?c div 8)) (ceiling_us ?c) \<le> unat (wb_effective_us (fold observe rest b))"
    using idle_climb[OF _ _ ok, of rest] assms(5) up by simp
  moreover have "unat (wb_effective_us (fold observe rest b)) \<le> ceiling_us ?c"
    using wb_ok_observes[OF ok, of rest] by (simp add: wb_ok_def)
  ultimately have "unat (wb_effective_us (fold observe rest b)) = ceiling_us ?c"
    using floor_closes_rounding[OF assms(1)] by simp
  then show "wb_effective_us (fold observe (down @ between @ up) ?n) = micros ?c"
    using up by (simp add: b_def ceiling_us_def word_unat_eq_iff)
qed

lemma wait_budget_episode_witness:
  "wb_effective_us (fold observe (replicate 6 overload) (WaitBudget_new (millis 1000))) = 15625 \<and>
   wb_effective_us (fold observe (replicate 6 overload @ [overload] @ replicate 9 quiet) (WaitBudget_new (millis 1000))) = 1000000"
proof -
  have "wasted_sample overload" "idle_sample quiet"
    by (simp_all add: wasted_sample_def idle_sample_def overload_def quiet_def MIN_STARTS_PER_DECISION_def)
  moreover have "micros (wb_floor (WaitBudget_new (millis 1000))) = 15625" "micros (millis 1000) = 1000000"
    by (simp_all add: WaitBudget_new_def micros_def millis_def sat_of_nat_def)
  ultimately show ?thesis
    using wait_budget_episode[of 1000 "replicate 6 overload" "replicate 9 quiet" "[overload]"] by simp
qed

text \<open>
  A wedged pool, one with a queue behind it that starts nothing, never shortens the wait: however
  many ticks pass and whatever is abandoned meanwhile, the budget in force stays where it was.
\<close>

lemma wedged_pool_keeps_budget:
  assumes "\<forall>s \<in> set samples. wedged_sample s" "wb_window_started b < MIN_STARTS_PER_DECISION"
  shows "in_force (fold observe samples b) = in_force b"
  using wedged_keeps[OF assms] by (simp add: in_force_def configured_us_def Let_def)

lemma wedged_pool_keeps_budget_witness:
  "in_force (fold observe (replicate 3 \<lparr>ls_started = 0, ls_abandoned = 9, ls_queue_depth = 4\<rparr>) (WaitBudget_new (millis 50))) = (50000000, True)"
proof -
  have "in_force (WaitBudget_new (millis 50)) = (50000000, True)"
    by (simp add: in_force_def configured_us_def WaitBudget_new_def micros_def millis_def sat_of_nat_def)
  then show ?thesis
    using wedged_pool_keeps_budget[of "replicate 3 \<lparr>ls_started = 0, ls_abandoned = 9, ls_queue_depth = 4\<rparr>" "WaitBudget_new (millis 50)"]
    by (simp add: wedged_sample_def WaitBudget_new_def MIN_STARTS_PER_DECISION_def)
qed

text \<open>
  C17. However the callers' loads, exchanges, spurious failures and drops interleave, the byte counter
  is at every moment the sum of the charges held, and that sum is within the cap.
\<close>

theorem waiting_bytes_bounded:
  assumes "(park_step cap)\<^sup>*\<^sup>* (replicate n Idle, 0) (ps, held)" "cap \<noteq> - 1"
  shows "unat held = charges ps \<and> charges ps \<le> unat cap"
  using park_ok_steps[OF assms(1) park_ok_start assms(2)] by (simp add: park_ok_def)

text \<open>Two callers race for ten bytes: the second reads a stale sum, fails the exchange, and is refused
  on the sum it then reads.\<close>

theorem waiting_bytes_bounded_witness:
  "unat (6 :: u64) = charges [Holding 6, Idle] \<and> charges [Holding 6, Idle] \<le> unat (10 :: u64)"
proof (rule waiting_bytes_bounded)
  let ?R = "park_step 10"
  have two: "replicate 2 Idle = [Idle, Idle]" by code_simp
  have a: "?R (replicate 2 Idle, 0) ([Looping 6 0, Idle], 0)"
    using park_load[of 0 "[Idle, Idle]" 6 10 0] by (simp add: two)
  have b: "?R ([Looping 6 0, Idle], 0) ([Looping 6 0, Looping 5 0], 0)"
    using park_load[of 1 "[Looping 6 0, Idle]" 5 10 0] by simp
  have c: "?R ([Looping 6 0, Looping 5 0], 0) ([Holding 6, Looping 5 0], 6)"
    using park_charge[of 0 "[Looping 6 0, Looping 5 0]" 6 0 10 0 False 6] by (simp add: park_turn_def sat_add_def)
  have d: "?R ([Holding 6, Looping 5 0], 6) ([Holding 6, Looping 5 6], 6)"
    using park_retry[of 1 "[Holding 6, Looping 5 0]" 5 0 10 6 False 6] by (simp add: park_turn_def sat_add_def)
  have e: "?R ([Holding 6, Looping 5 6], 6) ([Holding 6, Idle], 6)"
    using park_refuse[of 1 "[Holding 6, Looping 5 6]" 5 6 10 6 False] by (simp add: park_turn_def sat_add_def)
  show "?R\<^sup>*\<^sup>* (replicate 2 Idle, 0) ([Holding 6, Idle], 6)"
    using a b c d e by (meson converse_rtranclp_into_rtranclp rtranclp.rtrancl_refl)
qed simp

end
