(* ===== verification/Executor.thy ===== *)
theory Executor
  imports Admission
begin

text \<open>
  The path of a request from arrival to answer: the executor's dispatch
  (\<^verbatim>\<open>src/executor/sapi/mod.rs\<close>), the request's cancellation cell
  (\<^verbatim>\<open>src/bridge/cancel.rs\<close>), the worker's pickup (\<^verbatim>\<open>src/php/sapi.rs\<close> and
  \<^verbatim>\<open>src/executor/sapi/traditional.rs\<close>) and the side waiting for the answer
  (\<^verbatim>\<open>src/server/connection.rs\<close>).

  The dispatch tasks, the worker threads, the clock, the controller and the
  clients take steps in any order; a step is one atomic access to what they
  share.  The world holds the admission gate, the channel, every request that
  has arrived (indexed by arrival), the workers and the counters.  Tokio's
  semaphore and the crossbeam channel are parameters; PHP is the arbitrary
  response a running worker answers with.
\<close>

section \<open>Responses\<close>

datatype CancelReason = NotCancelled | ClientAbort | RequestTimeout | Shutdown | Stuck | UserCancel

record script_response =
  sr_status :: nat
  sr_headers :: "(string \<times> string) list"
  sr_body :: string
  sr_cancel_reason :: CancelReason
  sr_refused :: bool
  sr_shed_reason :: "ShedReason option"

definition ScriptResponse_default :: script_response where
  "ScriptResponse_default =
     \<lparr>sr_status = 200, sr_headers = [], sr_body = '''', sr_cancel_reason = NotCancelled,
      sr_refused = False, sr_shed_reason = None\<rparr>"

definition client_closed :: script_response where
  "client_closed = ScriptResponse_default\<lparr>sr_status := 499, sr_cancel_reason := ClientAbort\<rparr>"

definition client_closed_unpicked :: script_response where
  "client_closed_unpicked = client_closed\<lparr>sr_refused := True\<rparr>"

definition overloaded_response :: "ShedReason \<Rightarrow> script_response" where
  "overloaded_response reason = ScriptResponse_default\<lparr>
     sr_status := 529,
     sr_headers := [(''content-type'', ''text/plain; charset=utf-8''), (''retry-after'', ''3'')],
     sr_body := ''Site is overloaded'', sr_refused := True, sr_shed_reason := Some reason\<rparr>"

definition shutting_down_response :: script_response where
  "shutting_down_response = ScriptResponse_default\<lparr>
     sr_status := 503,
     sr_headers := [(''content-type'', ''text/plain; charset=utf-8''), (''retry-after'', ''5'')],
     sr_body := ''Server is shutting down'', sr_refused := True, sr_shed_reason := Some ShuttingDown\<rparr>"

definition pool_unavailable_response :: script_response where
  "pool_unavailable_response = ScriptResponse_default\<lparr>
     sr_status := 500,
     sr_headers := [(''content-type'', ''text/plain; charset=utf-8'')],
     sr_body := ''PHP worker pool unavailable'', sr_refused := True, sr_shed_reason := Some PoolUnavailable\<rparr>"

definition shed_response :: "ShedReason \<Rightarrow> script_response" where
  "shed_response reason =
    (case reason of
       ShuttingDown \<Rightarrow> shutting_down_response
     | PoolUnavailable \<Rightarrow> pool_unavailable_response
     | _ \<Rightarrow> overloaded_response reason)"

section \<open>The cancellation cell\<close>

record cancellation_state =
  cs_reason :: CancelReason
  cs_done :: bool
  cs_claimed :: bool
  cs_taken_at :: "nat option"

definition CancellationState_new :: cancellation_state where
  "CancellationState_new = \<lparr>cs_reason = NotCancelled, cs_done = False, cs_claimed = False, cs_taken_at = None\<rparr>"

definition mark_done :: "cancellation_state \<Rightarrow> cancellation_state" where
  "mark_done c = c\<lparr>cs_done := True\<rparr>"

text \<open>The first writer wins.\<close>

definition set_reason :: "CancelReason \<Rightarrow> cancellation_state \<Rightarrow> bool \<times> cancellation_state" where
  "set_reason r c = (if cs_reason c = NotCancelled then (True, c\<lparr>cs_reason := r\<rparr>) else (False, c))"

definition claim_from_queue :: "cancellation_state \<Rightarrow> bool \<times> cancellation_state" where
  "claim_from_queue c = (if cs_claimed c then (False, c) else (True, c\<lparr>cs_claimed := True\<rparr>))"

definition mark_taken :: "nat \<Rightarrow> cancellation_state \<Rightarrow> cancellation_state" where
  "mark_taken now c = (case cs_taken_at c of None \<Rightarrow> c\<lparr>cs_taken_at := Some now\<rparr> | Some _ \<Rightarrow> c)"

text \<open>The abort guard's \<^verbatim>\<open>Drop\<close>.\<close>

definition guard_drop :: "cancellation_state \<Rightarrow> cancellation_state" where
  "guard_drop c = (if cs_done c then c else snd (set_reason ClientAbort c))"

section \<open>The world\<close>

datatype SendError = Full | Disconnected

record worker_request =
  wr_script :: nat
  wr_deadline :: "nat option"

record 'c channel =
  ch_bounded :: "nat \<Rightarrow> 'c"
  ch_try_send :: "'c \<Rightarrow> worker_request \<Rightarrow> SendError + 'c"
  ch_recv :: "'c \<Rightarrow> (worker_request \<times> 'c) option"
  ch_items :: "'c \<Rightarrow> worker_request list"
  ch_cap :: "'c \<Rightarrow> nat"

text \<open>A bounded first-in first-out channel: a send is refused as full only when the channel holds its
  capacity, and a receive takes the oldest message.\<close>

definition ch_laws :: "'c channel \<Rightarrow> bool" where
  "ch_laws C \<longleftrightarrow>
     (\<forall>n. ch_items C (ch_bounded C n) = [] \<and> ch_cap C (ch_bounded C n) = n) \<and>
     (\<forall>c m c'. ch_try_send C c m = Inr c' \<longrightarrow> ch_items C c' = ch_items C c @ [m] \<and> ch_cap C c' = ch_cap C c) \<and>
     (\<forall>c m. ch_try_send C c m = Inl Full \<longrightarrow> ch_cap C c \<le> length (ch_items C c)) \<and>
     (\<forall>c m c'. ch_recv C c = Some (m, c') \<longrightarrow> ch_items C c = m # ch_items C c' \<and> ch_cap C c' = ch_cap C c)"

text \<open>Where the dispatch side of a request is: waiting at the gate (not polled yet, or polled with the
  pool's starts as it read them), holding its slot permit, waiting for an answer with or without the
  deadline's timer, or finished.\<close>

datatype phase =
    Parked | Admitting u64 | Granted | InQueue | AwaitAnswer
  | Settled script_response | WorkerError | Departed

record request =
  rq_body :: u64
  rq_deadline :: "nat option"
  rq_at_ceiling :: bool
  rq_starts :: u64
  rq_cancel :: cancellation_state
  rq_phase :: phase
  rq_answer :: "script_response option"
  rq_sender :: bool

datatype stage = Fresh | Claimed | Marked

datatype worker = Waiting | Picked worker_request stage | Running nat

record ('q, 'c) world =
  w_now :: nat
  w_ad :: "'q admission"
  w_chan :: 'c
  w_reqs :: "request list"
  w_workers :: "worker list"
  w_refused :: "ShedReason \<Rightarrow> nat"
  w_wasted :: nat
  w_starts :: u64
  w_abandoned :: u64
  w_last_started :: u64
  w_last_abandoned :: u64

definition set_req :: "nat \<Rightarrow> request \<Rightarrow> ('q, 'c) world \<Rightarrow> ('q, 'c) world" where
  "set_req i r w = w\<lparr>w_reqs := (w_reqs w)[i := r]\<rparr>"

definition push_req :: "request \<Rightarrow> ('q, 'c) world \<Rightarrow> ('q, 'c) world" where
  "push_req r w = w\<lparr>w_reqs := w_reqs w @ [r]\<rparr>"

definition set_worker :: "nat \<Rightarrow> worker \<Rightarrow> ('q, 'c) world \<Rightarrow> ('q, 'c) world" where
  "set_worker k x w = w\<lparr>w_workers := (w_workers w)[k := x]\<rparr>"

definition on_ad :: "('q admission \<Rightarrow> 'q admission) \<Rightarrow> ('q, 'c) world \<Rightarrow> ('q, 'c) world" where
  "on_ad f w = w\<lparr>w_ad := f (w_ad w)\<rparr>"

definition request_admission_refused :: "ShedReason \<Rightarrow> ('q, 'c) world \<Rightarrow> ('q, 'c) world" where
  "request_admission_refused reason w = w\<lparr>w_refused := (w_refused w)(reason := Suc (w_refused w reason))\<rparr>"

definition note_wait_wasted :: "('q, 'c) world \<Rightarrow> ('q, 'c) world" where
  "note_wait_wasted w = w\<lparr>w_wasted := Suc (w_wasted w)\<rparr>"

text \<open>\<^verbatim>\<open>SapiExecutor::new\<close>: the gate has a permit for each place in the channel.\<close>

definition SapiExecutor_new ::
  "'q semaphore \<Rightarrow> 'c channel \<Rightarrow> nat \<Rightarrow> nat \<Rightarrow> nat \<Rightarrow> u64 \<Rightarrow> nat \<Rightarrow> ('q, 'c) world" where
  "SapiExecutor_new S C queue_capacity wait_timeout_ms max_waiting max_waiting_bytes n_workers =
     \<lparr>w_now = 0,
      w_ad = Admission_new S queue_capacity wait_timeout_ms max_waiting max_waiting_bytes,
      w_chan = ch_bounded C queue_capacity,
      w_reqs = [], w_workers = replicate n_workers Waiting,
      w_refused = (\<lambda>_. 0), w_wasted = 0, w_starts = 0, w_abandoned = 0,
      w_last_started = 0, w_last_abandoned = 0\<rparr>"

section \<open>Dispatch\<close>

text \<open>\<^verbatim>\<open>None\<close> when the request is in the channel.  A message the channel does not take is dropped with
  its permit.\<close>

definition send_admitted ::
  "'q semaphore \<Rightarrow> 'c channel \<Rightarrow> nat \<Rightarrow> nat option \<Rightarrow> ('q, 'c) world \<Rightarrow> script_response option \<times> ('q, 'c) world" where
  "send_admitted S C i deadline w =
    (case ch_try_send C (w_chan w) \<lparr>wr_script = i, wr_deadline = deadline\<rparr> of
       Inr ch \<Rightarrow> (None, w\<lparr>w_chan := ch\<rparr>)
     | Inl Full \<Rightarrow> (Some (shed_response QueueFull), request_admission_refused QueueFull (on_ad (drop_slot S) w))
     | Inl Disconnected \<Rightarrow>
         (Some (shed_response PoolUnavailable), request_admission_refused PoolUnavailable (on_ad (drop_slot S) w)))"

definition await_phase :: "nat option \<Rightarrow> phase" where
  "await_phase deadline = (case deadline of None \<Rightarrow> AwaitAnswer | Some _ \<Rightarrow> InQueue)"

definition execute :: "'q semaphore \<Rightarrow> 'c channel \<Rightarrow> u64 \<Rightarrow> ('q, 'c) world \<Rightarrow> ('q, 'c) world" where
  "execute S C body w =
    (let (deadline, at_ceiling) =
           (case Admission_budget (w_ad w) of
              Some (budget, c) \<Rightarrow> (Some (w_now w + budget), c)
            | None \<Rightarrow> (None, False));
         req = (\<lambda>p. \<lparr>rq_body = body, rq_deadline = deadline, rq_at_ceiling = at_ceiling, rq_starts = w_starts w,
                   rq_cancel = CancellationState_new, rq_phase = p, rq_answer = None, rq_sender = True\<rparr>);
         reject = (\<lambda>reason w'. push_req (req (Settled (shed_response reason))) (request_admission_refused reason w'))
     in case try_admit S (w_ad w) of
          Inr ad \<Rightarrow>
            (case send_admitted S C (length (w_reqs w)) deadline (w\<lparr>w_ad := ad\<rparr>) of
               (None, w') \<Rightarrow> push_req (req (await_phase deadline)) w'
             | (Some resp, w') \<Rightarrow> push_req (req (Settled resp)) w')
        | Inl refused \<Rightarrow>
            if deadline = None \<or> refused = ShuttingDown then reject refused w
            else (case try_park S (w_ad w) of
                    Inl reason \<Rightarrow> reject reason w
                  | Inr ad \<Rightarrow>
                      (case try_park_bytes ad body of
                         Inl reason \<Rightarrow> reject reason (w\<lparr>w_ad := drop_parking S ad\<rparr>)
                       | Inr ad' \<Rightarrow> push_req (req Parked) (w\<lparr>w_ad := ad'\<rparr>))))"

text \<open>One poll of the future \<^verbatim>\<open>Admitting\<close> carries, up to where a slot is granted.  The byte charge lives as
  long as the future.\<close>

definition admitting_poll :: "'q semaphore \<Rightarrow> nat \<Rightarrow> u64 \<Rightarrow> nat \<Rightarrow> ('q, 'c) world \<Rightarrow> ('q, 'c) world" where
  "admitting_poll S i starts_on_arrival deadline w =
    (let r = w_reqs w ! i in
     case admit S (w_now w) deadline (w_ad w) of
       None \<Rightarrow> set_req i (r\<lparr>rq_phase := Admitting starts_on_arrival\<rparr>) w
     | Some (Slot, ad) \<Rightarrow> set_req i (r\<lparr>rq_phase := Granted\<rparr>) (w\<lparr>w_ad := ad\<rparr>)
     | Some (Shed reason, ad) \<Rightarrow>
         (let w' = w\<lparr>w_ad := drop_charge (rq_body r) ad\<rparr> in
          if reason = WaitTimeout \<and> cs_reason (rq_cancel r) = ClientAbort
          then set_req i (r\<lparr>rq_phase := Settled client_closed\<rparr>) w'
          else set_req i (r\<lparr>rq_phase := Settled (shed_response reason)\<rparr>)
                 ((if reason = WaitTimeout \<and> rq_at_ceiling r \<and> w_starts w = starts_on_arrival
                   then note_wait_wasted else id) (request_admission_refused reason w'))))"

text \<open>The rest of that future, once it holds a permit.\<close>

definition admitting_send :: "'q semaphore \<Rightarrow> 'c channel \<Rightarrow> nat \<Rightarrow> ('q, 'c) world \<Rightarrow> ('q, 'c) world" where
  "admitting_send S C i w =
    (let r = w_reqs w ! i in
     if cs_reason (rq_cancel r) \<noteq> NotCancelled
     then set_req i (r\<lparr>rq_phase := Settled client_closed\<rparr>) (on_ad (drop_charge (rq_body r)) (on_ad (drop_slot S) w))
     else (case send_admitted S C i (rq_deadline r) w of
             (None, w') \<Rightarrow> set_req i (r\<lparr>rq_phase := InQueue\<rparr>) (on_ad (drop_charge (rq_body r)) w')
           | (Some resp, w') \<Rightarrow> set_req i (r\<lparr>rq_phase := Settled resp\<rparr>) (on_ad (drop_charge (rq_body r)) w')))"

text \<open>\<^verbatim>\<open>await_queued\<close> once its timer fires.\<close>

definition await_deadline :: "nat \<Rightarrow> ('q, 'c) world \<Rightarrow> ('q, 'c) world" where
  "await_deadline i w =
    (let r = w_reqs w ! i;
         (won, c) = claim_from_queue (rq_cancel r) in
     if \<not> won then set_req i (r\<lparr>rq_phase := AwaitAnswer\<rparr>) w
     else if cs_reason c = ClientAbort
     then set_req i (r\<lparr>rq_cancel := c, rq_phase := Settled client_closed\<rparr>) w
     else set_req i (r\<lparr>rq_cancel := c, rq_phase := Settled (overloaded_response WaitTimeout)\<rparr>)
            ((if rq_at_ceiling r \<and> w_starts w = rq_starts r then note_wait_wasted else id)
               (request_admission_refused WaitTimeout w)))"

text \<open>The answer, or the sender dropped without one, reaches the dispatch side.\<close>

definition await_answer :: "nat \<Rightarrow> ('q, 'c) world \<Rightarrow> ('q, 'c) world" where
  "await_answer i w =
    (let r = w_reqs w ! i in
     case rq_answer r of
       Some resp \<Rightarrow> set_req i (r\<lparr>rq_phase := Settled resp\<rparr>) w
     | None \<Rightarrow> set_req i (r\<lparr>rq_phase := WorkerError\<rparr>) w)"

text \<open>The connection drops the request's future: what the future held goes back, and the guard records
  the client's departure.\<close>

definition drop_future :: "'q semaphore \<Rightarrow> nat \<Rightarrow> ('q, 'c) world \<Rightarrow> ('q, 'c) world" where
  "drop_future S i w =
    (let r = w_reqs w ! i;
         w' = (case rq_phase r of
                 Parked \<Rightarrow> on_ad (drop_charge (rq_body r)) (on_ad (drop_parking S) w)
               | Admitting _ \<Rightarrow> on_ad (drop_charge (rq_body r)) (on_ad (drop_parking S) w)
               | Granted \<Rightarrow> on_ad (drop_charge (rq_body r)) (on_ad (drop_slot S) w)
               | _ \<Rightarrow> w)
     in set_req i (r\<lparr>rq_cancel := guard_drop (rq_cancel r), rq_phase := Departed\<rparr>) w')"

definition close_admission :: "'q semaphore \<Rightarrow> ('q, 'c) world \<Rightarrow> ('q, 'c) world" where
  "close_admission S w = on_ad (Admission_close S) w"

text \<open>One tick of \<^verbatim>\<open>run_wait_budget_controller\<close>.\<close>

definition controller_tick :: "'c channel \<Rightarrow> ('q, 'c) world \<Rightarrow> ('q, 'c) world" where
  "controller_tick C w =
    (let sample = \<lparr>ls_started = w_starts w - w_last_started w,
                   ls_abandoned = w_abandoned w - w_last_abandoned w,
                   ls_queue_depth = length (ch_items C (w_chan w))\<rparr>
     in w\<lparr>w_last_started := w_starts w, w_last_abandoned := w_abandoned w,
          w_ad := (w_ad w)\<lparr>ad_budget := map_option (observe sample) (ad_budget (w_ad w))\<rparr>\<rparr>)"

section \<open>Pickup\<close>

datatype Pickup = Run | Expired | Cancelled bool | Abandoned

text \<open>\<^verbatim>\<open>take_from_queue\<close> in the three accesses it makes to what the two sides share: the claim, the stamp, and
  the deadline with the cancel cell.\<close>

definition take_claim :: "nat option \<Rightarrow> cancellation_state \<Rightarrow> bool \<times> cancellation_state" where
  "take_claim deadline c = (case deadline of None \<Rightarrow> (True, c) | Some _ \<Rightarrow> claim_from_queue c)"

definition take_decide :: "nat \<Rightarrow> nat option \<Rightarrow> cancellation_state \<Rightarrow> Pickup" where
  "take_decide now deadline c =
    (if (case deadline of Some at \<Rightarrow> at < now | None \<Rightarrow> False)
     then (if cs_reason c = ClientAbort then Cancelled True else Expired)
     else if cs_reason c \<noteq> NotCancelled then Cancelled False
     else Run)"

definition take_from_queue :: "nat \<Rightarrow> nat option \<Rightarrow> cancellation_state \<Rightarrow> Pickup \<times> cancellation_state" where
  "take_from_queue now deadline c =
    (let (won, c') = take_claim deadline c in
     if \<not> won then (Abandoned, c')
     else let c'' = mark_taken now c' in (take_decide now deadline c'', c''))"

definition pool_start :: "('q, 'c) world \<Rightarrow> ('q, 'c) world" where
  "pool_start w = w\<lparr>w_starts := w_starts w + 1\<rparr>"

definition note_if_abandoned :: "request \<Rightarrow> ('q, 'c) world \<Rightarrow> ('q, 'c) world" where
  "note_if_abandoned r w = (if cs_reason (rq_cancel r) = ClientAbort then w\<lparr>w_abandoned := w_abandoned w + 1\<rparr> else w)"

definition send_response :: "nat \<Rightarrow> script_response \<Rightarrow> ('q, 'c) world \<Rightarrow> ('q, 'c) world" where
  "send_response i resp w = set_req i ((w_reqs w ! i)\<lparr>rq_answer := Some resp, rq_sender := False\<rparr>) w"

definition refuse_expired :: "nat \<Rightarrow> ('q, 'c) world \<Rightarrow> ('q, 'c) world" where
  "refuse_expired i w = send_response i (overloaded_response WaitTimeout) (request_admission_refused WaitTimeout w)"

definition answer_departed_client :: "nat \<Rightarrow> bool \<Rightarrow> ('q, 'c) world \<Rightarrow> ('q, 'c) world" where
  "answer_departed_client i expired w =
     send_response i (if expired then client_closed_unpicked else client_closed) (note_if_abandoned (w_reqs w ! i) w)"

text \<open>What the worker's loop does with the verdict.  The permit goes back with the message in every case,
  before the script runs when it does.\<close>

definition settle_pickup :: "'q semaphore \<Rightarrow> nat \<Rightarrow> nat \<Rightarrow> Pickup \<Rightarrow> ('q, 'c) world \<Rightarrow> ('q, 'c) world" where
  "settle_pickup S k i verdict w =
    (case verdict of
       Run \<Rightarrow> set_worker k (Running i) (on_ad (drop_slot S) (pool_start w))
     | Expired \<Rightarrow> set_worker k Waiting (on_ad (drop_slot S) (refuse_expired i w))
     | Cancelled expired \<Rightarrow> set_worker k Waiting (on_ad (drop_slot S) (answer_departed_client i expired w))
     | Abandoned \<Rightarrow> set_worker k Waiting (on_ad (drop_slot S)
         (set_req i ((w_reqs w ! i)\<lparr>rq_sender := False\<rparr>) w)))"

definition worker_claim :: "'q semaphore \<Rightarrow> nat \<Rightarrow> worker_request \<Rightarrow> ('q, 'c) world \<Rightarrow> ('q, 'c) world" where
  "worker_claim S k wr w =
    (let i = wr_script wr; r = w_reqs w ! i;
         (won, c) = take_claim (wr_deadline wr) (rq_cancel r) in
     if won then set_worker k (Picked wr Claimed) (set_req i (r\<lparr>rq_cancel := c\<rparr>) w)
     else settle_pickup S k i Abandoned w)"

definition worker_mark :: "nat \<Rightarrow> worker_request \<Rightarrow> ('q, 'c) world \<Rightarrow> ('q, 'c) world" where
  "worker_mark k wr w =
    (let i = wr_script wr; r = w_reqs w ! i in
     set_worker k (Picked wr Marked) (set_req i (r\<lparr>rq_cancel := mark_taken (w_now w) (rq_cancel r)\<rparr>) w))"

definition worker_decide :: "'q semaphore \<Rightarrow> nat \<Rightarrow> worker_request \<Rightarrow> ('q, 'c) world \<Rightarrow> ('q, 'c) world" where
  "worker_decide S k wr w =
    (let i = wr_script wr in
     settle_pickup S k i (take_decide (w_now w) (wr_deadline wr) (rq_cancel (w_reqs w ! i))) w)"

text \<open>\<^verbatim>\<open>execute_request\<close> around the script: the departure seen before anything is opened, an answer sent
  while the script goes on, and the end of the run with or without an answer of its own.\<close>

definition run_departed :: "nat \<Rightarrow> nat \<Rightarrow> ('q, 'c) world \<Rightarrow> ('q, 'c) world" where
  "run_departed k i w = set_worker k Waiting (send_response i client_closed (note_if_abandoned (w_reqs w ! i) w))"

definition run_finish :: "nat \<Rightarrow> nat \<Rightarrow> script_response \<Rightarrow> ('q, 'c) world \<Rightarrow> ('q, 'c) world" where
  "run_finish k i resp w = set_worker k Waiting (send_response i resp (note_if_abandoned (w_reqs w ! i) w))"

definition run_end :: "nat \<Rightarrow> nat \<Rightarrow> ('q, 'c) world \<Rightarrow> ('q, 'c) world" where
  "run_end k i w = set_worker k Waiting (set_req i ((w_reqs w ! i)\<lparr>rq_sender := False\<rparr>) w)"

section \<open>Steps\<close>

fun pending :: "phase \<Rightarrow> bool" where
  "pending (Settled _) = False"
| "pending WorkerError = False"
| "pending Departed = False"
| "pending _ = True"

definition set_cancel :: "nat \<Rightarrow> cancellation_state \<Rightarrow> ('q, 'c) world \<Rightarrow> ('q, 'c) world" where
  "set_cancel i c w = set_req i ((w_reqs w ! i)\<lparr>rq_cancel := c\<rparr>) w"

inductive wstep :: "'q semaphore \<Rightarrow> 'c channel \<Rightarrow> ('q, 'c) world \<Rightarrow> ('q, 'c) world \<Rightarrow> bool" for S C where
  clock: "w_now w \<le> t \<Longrightarrow> wstep S C w (w\<lparr>w_now := t\<rparr>)"
| arrive: "wstep S C w (execute S C body w)"
| poll_first: "i < length (w_reqs w) \<Longrightarrow> rq_phase (w_reqs w ! i) = Parked \<Longrightarrow> rq_deadline (w_reqs w ! i) = Some at \<Longrightarrow>
    wstep S C w (admitting_poll S i (w_starts w) at w)"
| poll_again: "i < length (w_reqs w) \<Longrightarrow> rq_phase (w_reqs w ! i) = Admitting n \<Longrightarrow> rq_deadline (w_reqs w ! i) = Some at \<Longrightarrow>
    wstep S C w (admitting_poll S i n at w)"
| enqueue: "i < length (w_reqs w) \<Longrightarrow> rq_phase (w_reqs w ! i) = Granted \<Longrightarrow> wstep S C w (admitting_send S C i w)"
| timer: "i < length (w_reqs w) \<Longrightarrow> rq_phase (w_reqs w ! i) = InQueue \<Longrightarrow> rq_deadline (w_reqs w ! i) = Some at \<Longrightarrow>
    at \<le> w_now w \<Longrightarrow> rq_answer (w_reqs w ! i) = None \<Longrightarrow> rq_sender (w_reqs w ! i) \<Longrightarrow>
    wstep S C w (await_deadline i w)"
| answer: "i < length (w_reqs w) \<Longrightarrow> rq_phase (w_reqs w ! i) \<in> {InQueue, AwaitAnswer} \<Longrightarrow> \<not> rq_sender (w_reqs w ! i) \<Longrightarrow>
    wstep S C w (await_answer i w)"
| depart: "i < length (w_reqs w) \<Longrightarrow> pending (rq_phase (w_reqs w ! i)) \<Longrightarrow> wstep S C w (drop_future S i w)"
| connection_end: "i < length (w_reqs w) \<Longrightarrow> pending (rq_phase (w_reqs w ! i)) \<Longrightarrow>
    wstep S C w (set_cancel i (guard_drop (rq_cancel (w_reqs w ! i))) w)"
| disarm: "i < length (w_reqs w) \<Longrightarrow> \<not> pending (rq_phase (w_reqs w ! i)) \<Longrightarrow>
    wstep S C w (set_cancel i (mark_done (rq_cancel (w_reqs w ! i))) w)"
| shutdown: "wstep S C w (close_admission S w)"
| controller: "wstep S C w (controller_tick C w)"
| recv: "k < length (w_workers w) \<Longrightarrow> w_workers w ! k = Waiting \<Longrightarrow> ch_recv C (w_chan w) = Some (m, ch) \<Longrightarrow>
    wstep S C w (set_worker k (Picked m Fresh) (w\<lparr>w_chan := ch\<rparr>))"
| claim: "k < length (w_workers w) \<Longrightarrow> w_workers w ! k = Picked m Fresh \<Longrightarrow> wstep S C w (worker_claim S k m w)"
| mark: "k < length (w_workers w) \<Longrightarrow> w_workers w ! k = Picked m Claimed \<Longrightarrow> wstep S C w (worker_mark k m w)"
| decide: "k < length (w_workers w) \<Longrightarrow> w_workers w ! k = Picked m Marked \<Longrightarrow> wstep S C w (worker_decide S k m w)"
| interrupt: "k < length (w_workers w) \<Longrightarrow> w_workers w ! k = Running i \<Longrightarrow>
    wstep S C w (set_cancel i (snd (set_reason reason (rq_cancel (w_reqs w ! i)))) w)"
| run_departed: "k < length (w_workers w) \<Longrightarrow> w_workers w ! k = Running i \<Longrightarrow> rq_sender (w_reqs w ! i) \<Longrightarrow>
    cs_reason (rq_cancel (w_reqs w ! i)) \<noteq> NotCancelled \<Longrightarrow> wstep S C w (run_departed k i w)"
| run_early: "k < length (w_workers w) \<Longrightarrow> w_workers w ! k = Running i \<Longrightarrow> rq_sender (w_reqs w ! i) \<Longrightarrow>
    sr_shed_reason resp = None \<Longrightarrow> wstep S C w (send_response i resp w)"
| run_finish: "k < length (w_workers w) \<Longrightarrow> w_workers w ! k = Running i \<Longrightarrow> rq_sender (w_reqs w ! i) \<Longrightarrow>
    sr_shed_reason resp = None \<Longrightarrow> wstep S C w (run_finish k i resp w)"
| run_end: "k < length (w_workers w) \<Longrightarrow> w_workers w ! k = Running i \<Longrightarrow> wstep S C w (run_end k i w)"

text \<open>A world some run of the server reaches.\<close>

inductive reached :: "'q semaphore \<Rightarrow> 'c channel \<Rightarrow> ('q, 'c) world \<Rightarrow> ('q, 'c) world \<Rightarrow> bool" for S C w0 where
  start: "reached S C w0 w0"
| step: "reached S C w0 w \<Longrightarrow> wstep S C w w' \<Longrightarrow> reached S C w0 w'"

end
