(* ===== verification/Executor_Own.thy ===== *)
theory Executor_Own
  imports Executor
begin

text \<open>
  Who holds what while the executor runs: how each operation moves permits,
  waiting places and waiting bytes between their holders, and that a request's
  message is in one place at a time, with the side that may answer it.
\<close>

section \<open>Conservation\<close>

definition slot_of :: "request \<Rightarrow> nat" where
  "slot_of r = (if rq_phase r = Granted then 1 else 0)"

definition place_of :: "request \<Rightarrow> nat" where
  "place_of r = (case rq_phase r of Parked \<Rightarrow> 1 | Admitting _ \<Rightarrow> 1 | _ \<Rightarrow> 0)"

definition bytes_of :: "request \<Rightarrow> nat" where
  "bytes_of r = (case rq_phase r of Parked \<Rightarrow> unat (rq_body r) | Admitting _ \<Rightarrow> unat (rq_body r) | Granted \<Rightarrow> unat (rq_body r) | _ \<Rightarrow> 0)"

definition permit_of :: "worker \<Rightarrow> nat" where
  "permit_of x = (case x of Picked _ _ \<Rightarrow> 1 | _ \<Rightarrow> 0)"

text \<open>Slot permits are free, in the channel, with a request about to be sent, or with a worker deciding;
  waiting places are free or with a parked request; the byte counter is the bodies of the requests
  whose admission is pending.\<close>

definition conserved :: "'q semaphore \<Rightarrow> 'c channel \<Rightarrow> nat \<Rightarrow> nat \<Rightarrow> u64 \<Rightarrow> ('q, 'c) world \<Rightarrow> bool" where
  "conserved S C cap places bcap w \<longleftrightarrow>
     sem_available S (ad_slots (w_ad w)) + length (ch_items C (w_chan w))
       + sum_list (map slot_of (w_reqs w)) + sum_list (map permit_of (w_workers w)) = cap \<and>
     ch_cap C (w_chan w) = cap \<and>
     sem_available S (ad_parking (w_ad w)) + sum_list (map place_of (w_reqs w)) = places \<and>
     unat (ad_bytes_held (w_ad w)) = sum_list (map bytes_of (w_reqs w)) \<and>
     unat (ad_bytes_held (w_ad w)) \<le> unat bcap \<and> ad_bytes_cap (w_ad w) = bcap"

lemmas world_defs = set_req_def push_req_def set_worker_def on_ad_def set_cancel_def
  request_admission_refused_def note_wait_wasted_def pool_start_def note_if_abandoned_def
  drop_slot_def drop_parking_def drop_charge_def

lemmas entry_defs = slot_of_def place_of_def bytes_of_def permit_of_def

lemma wasted_other [simp]:
  "w_reqs ((if b then note_wait_wasted else id) w) = w_reqs w"
  "w_ad ((if b then note_wait_wasted else id) w) = w_ad w"
  "w_chan ((if b then note_wait_wasted else id) w) = w_chan w"
  "w_workers ((if b then note_wait_wasted else id) w) = w_workers w"
  "w_refused ((if b then note_wait_wasted else id) w) = w_refused w"
  "w_now ((if b then note_wait_wasted else id) w) = w_now w"
  by (simp_all add: note_wait_wasted_def)

lemma ch_laws_new: "ch_laws C \<Longrightarrow> ch_items C (ch_bounded C n) = [] \<and> ch_cap C (ch_bounded C n) = n"
  by (simp add: ch_laws_def)

lemma ch_laws_send:
  "ch_laws C \<Longrightarrow> ch_try_send C c m = Inr c' \<Longrightarrow> ch_items C c' = ch_items C c @ [m] \<and> ch_cap C c' = ch_cap C c"
  by (simp add: ch_laws_def)

lemma ch_laws_full: "ch_laws C \<Longrightarrow> ch_try_send C c m = Inl Full \<Longrightarrow> ch_cap C c \<le> length (ch_items C c)"
  unfolding ch_laws_def by blast

lemma ch_laws_recv:
  "ch_laws C \<Longrightarrow> ch_recv C c = Some (m, c') \<Longrightarrow> ch_items C c = m # ch_items C c' \<and> ch_cap C c' = ch_cap C c"
  by (simp add: ch_laws_def)

lemma conserved_new:
  "sem_laws S \<Longrightarrow> ch_laws C \<Longrightarrow> conserved S C cap places bcap (SapiExecutor_new S C cap ms places bcap n)"
  by (simp add: conserved_def SapiExecutor_new_def Admission_new_def sem_laws_new ch_laws_new permit_of_def
      map_replicate_const sum_list_replicate)

text \<open>The rule every step goes by: what leaves one holder arrives at another.\<close>

lemma conserved_transfer:
  assumes "conserved S C cap places bcap w" "i < length (w_reqs w)" "w_reqs w' = (w_reqs w)[i := r]"
    and "sem_available S (ad_slots (w_ad w')) + length (ch_items C (w_chan w')) + slot_of r + sum_list (map permit_of (w_workers w'))
       = sem_available S (ad_slots (w_ad w)) + length (ch_items C (w_chan w)) + slot_of (w_reqs w ! i) + sum_list (map permit_of (w_workers w))"
    and "ch_cap C (w_chan w') = ch_cap C (w_chan w)"
    and "sem_available S (ad_parking (w_ad w')) + place_of r = sem_available S (ad_parking (w_ad w)) + place_of (w_reqs w ! i)"
    and "unat (ad_bytes_held (w_ad w')) + bytes_of (w_reqs w ! i) = unat (ad_bytes_held (w_ad w)) + bytes_of r"
    and "unat (ad_bytes_held (w_ad w')) \<le> unat bcap" "ad_bytes_cap (w_ad w') = ad_bytes_cap (w_ad w)"
  shows "conserved S C cap places bcap w'"
  using assms sum_list_update_nat[OF assms(2), of slot_of r] sum_list_update_nat[OF assms(2), of place_of r]
    sum_list_update_nat[OF assms(2), of bytes_of r]
  by (simp add: conserved_def)

text \<open>The same for a worker's own step.\<close>

lemma permits_update:
  "k < length ws \<Longrightarrow> sum_list (map permit_of (ws[k := x])) + permit_of (ws ! k) = sum_list (map permit_of ws) + permit_of x"
  by (rule sum_list_update_nat)

lemma bytes_le_held:
  "conserved S C cap places bcap w \<Longrightarrow> i < length (w_reqs w) \<Longrightarrow> bytes_of (w_reqs w ! i) \<le> unat (ad_bytes_held (w_ad w))"
  by (simp add: conserved_def sum_list_entry)

lemma unat_drop_charge: "unat b \<le> unat (ad_bytes_held ad) \<Longrightarrow> unat (ad_bytes_held (drop_charge b ad)) = unat (ad_bytes_held ad) - unat b"
  by (auto simp: drop_charge_def unat_sub_le word_le_nat_alt)

lemma drop_charge_other [simp]:
  "ad_slots (drop_charge b ad) = ad_slots ad" "ad_parking (drop_charge b ad) = ad_parking ad"
  "ad_bytes_cap (drop_charge b ad) = ad_bytes_cap ad" "ad_budget (drop_charge b ad) = ad_budget ad"
  by (simp_all add: drop_charge_def)

lemma send_admitted_conserves:
  assumes "sem_laws S" "ch_laws C" "send_admitted S C i deadline w = (out, w')"
  shows "sem_available S (ad_slots (w_ad w')) + length (ch_items C (w_chan w')) = Suc (sem_available S (ad_slots (w_ad w)) + length (ch_items C (w_chan w)))"
    "ch_cap C (w_chan w') = ch_cap C (w_chan w)" "w_reqs w' = w_reqs w" "w_workers w' = w_workers w"
    "ad_parking (w_ad w') = ad_parking (w_ad w)" "ad_bytes_held (w_ad w') = ad_bytes_held (w_ad w)"
    "ad_bytes_cap (w_ad w') = ad_bytes_cap (w_ad w)"
  using assms(3) ch_laws_send[OF assms(2)] sem_laws_release[OF assms(1)]
  by (auto simp: send_admitted_def world_defs split: sum.splits SendError.splits)

lemma conserved_step_enqueue:
  assumes "sem_laws S" "ch_laws C" "conserved S C cap places bcap w" "i < length (w_reqs w)" "rq_phase (w_reqs w ! i) = Granted"
  shows "conserved S C cap places bcap (admitting_send S C i w)"
proof -
  have b: "unat (rq_body (w_reqs w ! i)) \<le> unat (ad_bytes_held (w_ad w))"
    using bytes_le_held[OF assms(3,4)] assms(5) by (simp add: bytes_of_def)
  have "\<exists>resp. w_reqs (admitting_send S C i w) = (w_reqs w)[i := (w_reqs w ! i)\<lparr>rq_phase := resp\<rparr>] \<and>
     (resp = InQueue \<or> (\<exists>x. resp = Settled x))"
    using send_admitted_conserves[OF assms(1,2)]
    by (auto simp: admitting_send_def Let_def world_defs split: prod.splits option.splits)
  then obtain p where p: "w_reqs (admitting_send S C i w) = (w_reqs w)[i := (w_reqs w ! i)\<lparr>rq_phase := p\<rparr>]"
    "p = InQueue \<or> (\<exists>x. p = Settled x)" by blast
  show ?thesis
    using assms(3,4) p(1)
    by (rule conserved_transfer)
       (use assms(5) p(2) b sem_laws_release[OF assms(1)] send_admitted_conserves[OF assms(1,2)] assms(3) in
        \<open>auto simp: admitting_send_def Let_def set_req_def on_ad_def drop_slot_def entry_defs unat_drop_charge conserved_def
           split: prod.splits option.splits\<close>)
qed

lemma admit_conserves:
  assumes "sem_laws S" "admit S now at ad = Some (out, ad')"
  shows "sem_available S (ad_slots ad') + (if out = Slot then 1 else 0) = sem_available S (ad_slots ad)"
    "sem_available S (ad_parking ad') = Suc (sem_available S (ad_parking ad))"
    "ad_bytes_held ad' = ad_bytes_held ad" "ad_bytes_cap ad' = ad_bytes_cap ad"
  using assms(2) try_admit_Inr[OF assms(1)] try_admit_keeps[of S] sem_laws_release[OF assms(1)]
  by (auto simp: admit_def drop_parking_def split: sum.splits ShedReason.splits if_splits)

lemma conserved_step_poll:
  assumes "sem_laws S" "conserved S C cap places bcap w" "i < length (w_reqs w)"
    and "rq_phase (w_reqs w ! i) = Parked \<or> rq_phase (w_reqs w ! i) = Admitting n"
  shows "conserved S C cap places bcap (admitting_poll S i starts at w)"
proof -
  let ?w' = "admitting_poll S i starts at w" and ?r = "w_reqs w ! i"
  have b: "unat (rq_body ?r) \<le> unat (ad_bytes_held (w_ad w))"
    using bytes_le_held[OF assms(2,3)] assms(4) by (auto simp: bytes_of_def)
  show ?thesis
  proof (cases "admit S (w_now w) at (w_ad w)")
    case None
    show ?thesis using assms(2,3)
      by (rule conserved_transfer[where r = "?r\<lparr>rq_phase := Admitting starts\<rparr>"])
         (use assms(2,4) None in \<open>auto simp: admitting_poll_def Let_def world_defs entry_defs conserved_def\<close>)
  next
    case (Some pr)
    obtain out ad where pr: "pr = (out, ad)" by (cases pr)
    have adm: "admit S (w_now w) at (w_ad w) = Some (out, ad)" using Some pr by simp
    note keeps = admit_conserves[OF assms(1) adm]
    show ?thesis
    proof (cases out)
      case Slot
      show ?thesis using assms(2,3)
        by (rule conserved_transfer[where r = "?r\<lparr>rq_phase := Granted\<rparr>"])
           (use assms(2,4) adm Slot keeps in \<open>auto simp: admitting_poll_def Let_def world_defs entry_defs conserved_def\<close>)
    next
      case (Shed reason)
      have "\<exists>resp. w_reqs ?w' = (w_reqs w)[i := ?r\<lparr>rq_phase := Settled resp\<rparr>]"
        using adm Shed by (auto simp: admitting_poll_def Let_def world_defs)
      then obtain resp where r: "w_reqs ?w' = (w_reqs w)[i := ?r\<lparr>rq_phase := Settled resp\<rparr>]" by blast
      have rest: "w_ad ?w' = drop_charge (rq_body ?r) ad" "w_chan ?w' = w_chan w" "w_workers ?w' = w_workers w"
        using adm Shed by (auto simp: admitting_poll_def Let_def set_req_def request_admission_refused_def note_wait_wasted_def)
      show ?thesis using assms(2,3) r
        by (rule conserved_transfer)
           (use assms(2,4) Shed keeps b in \<open>auto simp: rest entry_defs conserved_def unat_drop_charge\<close>)
    qed
  qed
qed

lemma conserved_push:
  assumes "sem_available S (ad_slots (w_ad w')) + length (ch_items C (w_chan w')) + slot_of r = sem_available S (ad_slots (w_ad w)) + length (ch_items C (w_chan w))"
    and "ch_cap C (w_chan w') = ch_cap C (w_chan w)" "w_reqs w' = w_reqs w @ [r]" "w_workers w' = w_workers w"
    and "sem_available S (ad_parking (w_ad w')) + place_of r = sem_available S (ad_parking (w_ad w))"
    and "unat (ad_bytes_held (w_ad w')) = unat (ad_bytes_held (w_ad w)) + bytes_of r"
    and "unat (ad_bytes_held (w_ad w')) \<le> unat bcap" "ad_bytes_cap (w_ad w') = ad_bytes_cap (w_ad w)"
    and "conserved S C cap places bcap w"
  shows "conserved S C cap places bcap w'"
  using assms by (simp add: conserved_def)

lemma conserved_step_arrive:
  assumes "sem_laws S" "ch_laws C" "bcap \<noteq> - 1" "conserved S C cap places bcap w"
  shows "conserved S C cap places bcap (execute S C body w)"
proof -
  obtain deadline c where d: "(case Admission_budget (w_ad w) of Some (budget, c) \<Rightarrow> (Some (w_now w + budget), c) | None \<Rightarrow> (None, False)) = (deadline, c)"
    by (metis surj_pair)
  define req where "req p = \<lparr>rq_body = body, rq_deadline = deadline, rq_at_ceiling = c, rq_starts = w_starts w,
    rq_cancel = CancellationState_new, rq_phase = p, rq_answer = None, rq_sender = True\<rparr>" for p
  have rejected: "conserved S C cap places bcap (push_req (req (Settled resp)) (request_admission_refused reason (w\<lparr>w_ad := ad\<rparr>)))"
    if "ad_slots ad = ad_slots (w_ad w)" "sem_available S (ad_parking ad) = sem_available S (ad_parking (w_ad w))"
      "ad_bytes_held ad = ad_bytes_held (w_ad w)" "ad_bytes_cap ad = ad_bytes_cap (w_ad w)" for resp reason ad
    by (rule conserved_push[where r = "req (Settled resp)" and w = w])
       (use assms(4) that in \<open>auto simp: world_defs entry_defs req_def conserved_def\<close>)
  have same: "w\<lparr>w_ad := w_ad w\<rparr> = w" by simp
  note rejected_here = rejected[of "w_ad w", unfolded same, simplified]
  show ?thesis
  proof (cases "try_admit S (w_ad w)")
    case (Inr ad)
    obtain out w' where sent: "send_admitted S C (length (w_reqs w)) deadline (w\<lparr>w_ad := ad\<rparr>) = (out, w')"
      by (metis surj_pair)
    define p where "p = (case out of None \<Rightarrow> await_phase deadline | Some resp \<Rightarrow> Settled resp)"
    have "execute S C body w = push_req (req p) w'"
      using Inr sent by (simp add: execute_def Let_def d req_def p_def split: option.splits)
    moreover have "conserved S C cap places bcap (push_req (req p) w')"
      by (rule conserved_push[where r = "req p" and w = w])
         (use assms(4) try_admit_Inr[OF assms(1) Inr] try_admit_keeps[OF Inr] send_admitted_conserves[OF assms(1,2) sent] in
          \<open>auto simp: push_req_def req_def entry_defs p_def await_phase_def conserved_def split: option.splits\<close>)
    ultimately show ?thesis by simp
  next
    case (Inl refused)
    show ?thesis
    proof (cases "deadline = None \<or> refused = ShuttingDown")
      case True
      then show ?thesis using Inl rejected_here by (auto simp: execute_def Let_def d req_def)
    next
      case False
      show ?thesis
      proof (cases "try_park S (w_ad w)")
        case (Inl reason)
        then show ?thesis using \<open>try_admit S (w_ad w) = Inl refused\<close> False rejected_here
          by (auto simp: execute_def Let_def d req_def)
      next
        case (Inr ad)
        note park = try_park_Inr[OF assms(1) Inr] try_park_keeps[OF Inr]
        show ?thesis
        proof (cases "try_park_bytes ad body")
          case (Inl reason)
          have "execute S C body w = push_req (req (Settled (shed_response reason))) (request_admission_refused reason (w\<lparr>w_ad := drop_parking S ad\<rparr>))"
            using \<open>try_admit S (w_ad w) = Inl refused\<close> False Inr Inl by (auto simp: execute_def Let_def d req_def)
          then show ?thesis
            using rejected[of "drop_parking S ad"] park sem_laws_release[OF assms(1)] by (simp add: drop_parking_def)
        next
          case bytes: (Inr ad')
          have held: "unat (ad_bytes_held ad) \<le> unat (ad_bytes_cap ad)" "ad_bytes_cap ad \<noteq> - 1"
            using assms(3,4) park by (auto simp: conserved_def)
          have "execute S C body w = push_req (req Parked) (w\<lparr>w_ad := ad'\<rparr>)"
            using \<open>try_admit S (w_ad w) = Inl refused\<close> False Inr bytes by (auto simp: execute_def Let_def d req_def)
          moreover have "conserved S C cap places bcap (push_req (req Parked) (w\<lparr>w_ad := ad'\<rparr>))"
            by (rule conserved_push[where r = "req Parked" and w = w])
               (use assms(4) park try_park_bytes_Inr[OF bytes held(2,1)] try_park_bytes_keeps[OF bytes] in
                \<open>auto simp: push_req_def req_def entry_defs conserved_def\<close>)
          ultimately show ?thesis by simp
        qed
      qed
    qed
  qed
qed

text \<open>A request's entry may change freely while its phase holds no permit, place or bytes, or keeps them.\<close>

definition weightless :: "phase \<Rightarrow> bool" where
  "weightless p = (case p of Parked \<Rightarrow> False | Admitting _ \<Rightarrow> False | Granted \<Rightarrow> False | _ \<Rightarrow> True)"

lemma conserved_entry:
  assumes "conserved S C cap places bcap w" "i < length (w_reqs w)" "w_reqs w' = (w_reqs w)[i := r]"
    and "w_ad w' = w_ad w" "w_chan w' = w_chan w" "w_workers w' = w_workers w"
    and "weightless (rq_phase (w_reqs w ! i)) \<and> weightless (rq_phase r) \<or>
         rq_phase r = rq_phase (w_reqs w ! i) \<and> rq_body r = rq_body (w_reqs w ! i)"
  shows "conserved S C cap places bcap w'"
  using assms(1-3)
  by (rule conserved_transfer)
     (use assms in \<open>auto simp: entry_defs conserved_def weightless_def split: phase.splits\<close>)

lemma conserved_step_timer:
  assumes "conserved S C cap places bcap w" "i < length (w_reqs w)" "rq_phase (w_reqs w ! i) = InQueue"
  shows "conserved S C cap places bcap (await_deadline i w)"
proof -
  obtain r where "w_reqs (await_deadline i w) = (w_reqs w)[i := r]" "weightless (rq_phase r)"
    "w_ad (await_deadline i w) = w_ad w" "w_chan (await_deadline i w) = w_chan w" "w_workers (await_deadline i w) = w_workers w"
    by (cases "cs_claimed (rq_cancel (w_reqs w ! i))"; cases "cs_reason (rq_cancel (w_reqs w ! i)) = ClientAbort")
       (auto simp: await_deadline_def claim_from_queue_def Let_def world_defs weightless_def)
  then show ?thesis using conserved_entry[OF assms(1,2)] assms(3) by (simp add: weightless_def)
qed

lemma conserved_step_answer:
  assumes "conserved S C cap places bcap w" "i < length (w_reqs w)" "rq_phase (w_reqs w ! i) \<in> {InQueue, AwaitAnswer}"
  shows "conserved S C cap places bcap (await_answer i w)"
proof -
  obtain r where "w_reqs (await_answer i w) = (w_reqs w)[i := r]" "weightless (rq_phase r)"
    "w_ad (await_answer i w) = w_ad w" "w_chan (await_answer i w) = w_chan w" "w_workers (await_answer i w) = w_workers w"
    by (cases "rq_answer (w_reqs w ! i)") (auto simp: await_answer_def Let_def world_defs weightless_def)
  then show ?thesis using conserved_entry[OF assms(1,2)] assms(3) by (auto simp: weightless_def)
qed

lemma conserved_set_cancel:
  "conserved S C cap places bcap w \<Longrightarrow> i < length (w_reqs w) \<Longrightarrow> conserved S C cap places bcap (set_cancel i c w)"
  by (erule conserved_entry) (auto simp: set_cancel_def set_req_def)

lemma conserved_step_depart:
  assumes "sem_laws S" "conserved S C cap places bcap w" "i < length (w_reqs w)"
  shows "conserved S C cap places bcap (drop_future S i w)"
proof -
  let ?r = "w_reqs w ! i"
  have b: "bytes_of ?r \<le> unat (ad_bytes_held (w_ad w))" using assms(2,3) by (rule bytes_le_held)
  have reqs: "w_reqs (drop_future S i w) = (w_reqs w)[i := ?r\<lparr>rq_cancel := guard_drop (rq_cancel ?r), rq_phase := Departed\<rparr>]"
    by (simp add: drop_future_def Let_def set_req_def on_ad_def split: phase.splits)
  show ?thesis using assms(2,3) reqs
    by (rule conserved_transfer)
       (use assms(2) b sem_laws_release[OF assms(1)] in
        \<open>auto simp: drop_future_def Let_def set_req_def on_ad_def drop_slot_def drop_parking_def entry_defs conserved_def
           unat_drop_charge split: phase.splits\<close>)
qed

section \<open>Ownership\<close>

text \<open>A request whose message nobody has taken: unanswered, settled by its own side only if that side won
  the claim, and past its timer only if it has none.\<close>

definition queued_ok :: "nat option \<Rightarrow> request \<Rightarrow> bool" where
  "queued_ok d r \<longleftrightarrow> rq_deadline r = d \<and> rq_answer r = None \<and> rq_sender r \<and> cs_taken_at (rq_cancel r) = None \<and>
     (case rq_phase r of
        InQueue \<Rightarrow> \<not> cs_claimed (rq_cancel r) | AwaitAnswer \<Rightarrow> d = None | Departed \<Rightarrow> True
      | Settled _ \<Rightarrow> d \<noteq> None \<and> cs_claimed (rq_cancel r)
      | _ \<Rightarrow> False)"

text \<open>A request a worker has won: unanswered and not settled, and its claim is taken if it has a deadline.\<close>

definition owned_ok :: "nat option \<Rightarrow> request \<Rightarrow> bool" where
  "owned_ok d r \<longleftrightarrow> rq_deadline r = d \<and> rq_answer r = None \<and> rq_sender r \<and>
     (d \<noteq> None \<longrightarrow> cs_claimed (rq_cancel r)) \<and> rq_phase r \<in> {InQueue, AwaitAnswer, Departed}"

text \<open>A request a worker runs: taken inside its deadline, and settled with the worker's answer if at all.\<close>

definition running_ok :: "request \<Rightarrow> bool" where
  "running_ok r \<longleftrightarrow> (rq_deadline r \<noteq> None \<longrightarrow> cs_claimed (rq_cancel r)) \<and>
     (\<exists>t. cs_taken_at (rq_cancel r) = Some t \<and> (\<forall>at. rq_deadline r = Some at \<longrightarrow> t \<le> at)) \<and>
     (rq_sender r \<longleftrightarrow> rq_answer r = None) \<and>
     (rq_phase r \<in> {InQueue, AwaitAnswer, Departed} \<or> (\<exists>resp. rq_phase r = Settled resp \<and> rq_answer r = Some resp))"

text \<open>A request still at the gate.\<close>

definition gate_ok :: "request \<Rightarrow> bool" where
  "gate_ok r \<longleftrightarrow> weightless (rq_phase r) \<or>
     rq_deadline r \<noteq> None \<and> rq_answer r = None \<and> rq_sender r \<and> cs_taken_at (rq_cancel r) = None \<and> \<not> cs_claimed (rq_cancel r)"

definition msg_ok :: "request list \<Rightarrow> worker_request \<Rightarrow> bool" where
  "msg_ok rs m \<longleftrightarrow> wr_script m < length rs \<and> queued_ok (wr_deadline m) (rs ! wr_script m)"

definition worker_ok :: "nat \<Rightarrow> request list \<Rightarrow> worker \<Rightarrow> bool" where
  "worker_ok now rs x =
    (case x of
       Waiting \<Rightarrow> True
     | Picked m st \<Rightarrow>
         (case st of
            Fresh \<Rightarrow> msg_ok rs m
          | Claimed \<Rightarrow> wr_script m < length rs \<and> owned_ok (wr_deadline m) (rs ! wr_script m) \<and>
              cs_taken_at (rq_cancel (rs ! wr_script m)) = None
          | Marked \<Rightarrow> wr_script m < length rs \<and> owned_ok (wr_deadline m) (rs ! wr_script m) \<and>
              (\<exists>t. cs_taken_at (rq_cancel (rs ! wr_script m)) = Some t \<and> t \<le> now))
     | Running i \<Rightarrow> i < length rs \<and> running_ok (rs ! i))"

fun held_by :: "nat \<Rightarrow> worker \<Rightarrow> nat" where
  "held_by i Waiting = 0"
| "held_by i (Picked m _) = (if wr_script m = i then 1 else 0)"
| "held_by i (Running j) = (if j = i then 1 else 0)"

definition holders :: "'c channel \<Rightarrow> nat \<Rightarrow> ('q, 'c) world \<Rightarrow> nat" where
  "holders C i w = length (filter (\<lambda>m. wr_script m = i) (ch_items C (w_chan w))) + sum_list (map (held_by i) (w_workers w))"

text \<open>A request whose side waits on the channel of its answer.\<close>

definition awaiting :: "request \<Rightarrow> bool" where
  "awaiting r \<longleftrightarrow> rq_phase r \<in> {InQueue, AwaitAnswer} \<and> rq_sender r"

definition own_ok :: "'c channel \<Rightarrow> ('q, 'c) world \<Rightarrow> bool" where
  "own_ok C w \<longleftrightarrow> (\<forall>m \<in> set (ch_items C (w_chan w)). msg_ok (w_reqs w) m) \<and>
     (\<forall>x \<in> set (w_workers w). worker_ok (w_now w) (w_reqs w) x) \<and>
     (\<forall>r \<in> set (w_reqs w). gate_ok r) \<and> (\<forall>i. holders C i w \<le> 1) \<and>
     (\<forall>i < length (w_reqs w). awaiting (w_reqs w ! i) \<longrightarrow> holders C i w = 1)"

text \<open>A change the dispatch side may make to a request whoever holds its message.\<close>

definition mild :: "request \<Rightarrow> request \<Rightarrow> bool" where
  "mild r r' \<longleftrightarrow> (\<forall>d. queued_ok d r \<longrightarrow> queued_ok d r') \<and> (\<forall>d. owned_ok d r \<longrightarrow> owned_ok d r') \<and>
     (running_ok r \<longrightarrow> running_ok r') \<and> (gate_ok r \<longrightarrow> gate_ok r') \<and> (awaiting r' \<longrightarrow> awaiting r) \<and>
     cs_taken_at (rq_cancel r') = cs_taken_at (rq_cancel r)"

lemma worker_ok_mild:
  "worker_ok now rs x \<Longrightarrow> i < length rs \<Longrightarrow> mild (rs ! i) r \<Longrightarrow> now \<le> now' \<Longrightarrow> worker_ok now' (rs[i := r]) x"
  by (auto simp: worker_ok_def msg_ok_def mild_def nth_list_update split: worker.splits stage.splits)

lemma own_ok_mild:
  assumes "own_ok C w" "i < length (w_reqs w)" "mild (w_reqs w ! i) r"
    and "w_reqs w' = (w_reqs w)[i := r]" "w_chan w' = w_chan w" "w_workers w' = w_workers w" "w_now w \<le> w_now w'"
  shows "own_ok C w'"
proof -
  have "msg_ok (w_reqs w') m" if "msg_ok (w_reqs w) m" for m
    using that assms(2,3) by (auto simp: assms(4) msg_ok_def mild_def nth_list_update)
  moreover have "worker_ok (w_now w') (w_reqs w') x" if "worker_ok (w_now w) (w_reqs w) x" for x
    unfolding assms(4) using that assms(2,3,7) by (rule worker_ok_mild)
  moreover have "gate_ok r'" if "r' \<in> set (w_reqs w')" for r'
    using that assms(1-3) set_update_subset_insert[of "w_reqs w" i r] by (auto simp: assms(4) own_ok_def mild_def)
  moreover have "holders C j w' = 1" if "j < length (w_reqs w')" "awaiting (w_reqs w' ! j)" for j
    using that assms(1-3) by (auto simp: own_ok_def holders_def mild_def assms(4-6) nth_list_update split: if_splits)
  ultimately show ?thesis using assms(1,5,6) by (simp add: own_ok_def holders_def)
qed

text \<open>A worker's step on the request it holds: nobody else holds it.\<close>

lemma own_ok_worker:
  assumes "own_ok C w" "k < length (w_workers w)" "held_by i (w_workers w ! k) = 1"
    and "w_reqs w' = (w_reqs w)[i := r]" "w_chan w' = w_chan w" "w_workers w' = (w_workers w)[k := x]" "w_now w' = w_now w"
    and "worker_ok (w_now w) ((w_reqs w)[i := r]) x" "\<forall>j. held_by j x \<le> held_by j (w_workers w ! k)" "gate_ok r"
    and "held_by i x = 1 \<or> \<not> awaiting r"
  shows "own_ok C w'"
proof -
  have one: "holders C i w \<le> 1" using assms(1) by (simp add: own_ok_def)
  have pos: "1 \<le> sum_list (map (held_by i) (w_workers w))"
    using sum_list_entry[OF assms(2), of "held_by i"] assms(3) by simp
  have chan: "wr_script m \<noteq> i" if "m \<in> set (ch_items C (w_chan w))" for m
  proof
    assume "wr_script m = i"
    then have "0 < length (filter (\<lambda>m. wr_script m = i) (ch_items C (w_chan w)))"
      using that by (auto simp: length_greater_0_conv filter_empty_conv simp del: length_greater_0_conv)
    then show False using one pos unfolding holders_def by linarith
  qed
  have other: "held_by i (w_workers w ! j) = 0" if "j < length (w_workers w)" "j \<noteq> k" for j
    using sum_list_two[OF assms(2) that(1) that(2)[symmetric], of "held_by i"] assms(3) one by (simp add: holders_def)
  have "worker_ok (w_now w) ((w_reqs w)[i := r]) (w_workers w ! j)" if "j < length (w_workers w)" "j \<noteq> k" for j
    using assms(1) other[OF that] that
    by (auto simp: own_ok_def worker_ok_def msg_ok_def split: worker.splits stage.splits if_splits dest!: nth_mem)
  moreover have "holders C j w' \<le> 1" for j
  proof -
    have "holders C j w' \<le> holders C j w"
      using sum_list_update_nat[OF assms(2), of "held_by j" x] spec[OF assms(9), of j]
      by (simp add: holders_def assms(5,6))
    then show ?thesis using assms(1) by (meson le_trans own_ok_def)
  qed
  moreover have "msg_ok (w_reqs w') m" if "m \<in> set (ch_items C (w_chan w))" for m
    using that chan[OF that, symmetric] assms(1) by (simp add: own_ok_def msg_ok_def assms(4))
  moreover have "gate_ok q" if "q \<in> set (w_reqs w')" for q
    using that assms(1,10) set_update_subset_insert[of "w_reqs w" i r] by (auto simp: assms(4) own_ok_def)
  moreover have "holders C j w' = 1" if "j < length (w_reqs w')" "awaiting (w_reqs w' ! j)" for j
  proof (cases "held_by j x = held_by j (w_workers w ! k)")
    case True
    have "awaiting (w_reqs w ! j) \<or> j = i" using that assms(4) by (cases "j = i") auto
    moreover have "holders C i w = 1" using one pos by (simp add: holders_def)
    ultimately have "holders C j w = 1" using assms(1) that(1) by (auto simp: own_ok_def assms(4))
    then show ?thesis using True sum_list_update_nat[OF assms(2), of "held_by j" x]
      by (simp add: holders_def assms(5,6))
  next
    case False
    then have "j = i" using assms(9) assms(3) by (cases "w_workers w ! k"; cases x) (auto split: if_splits)
    then show ?thesis using False assms(3,4,11) that by auto
  qed
  ultimately show ?thesis using assms(2,4-8)
    by (auto simp: own_ok_def in_set_conv_nth nth_list_update)
qed

lemma own_ok_same:
  assumes "own_ok C w" "w_reqs w' = w_reqs w" "w_chan w' = w_chan w" "w_workers w' = w_workers w" "w_now w \<le> w_now w'"
  shows "own_ok C w'"
proof -
  have "worker_ok (w_now w') (w_reqs w) x" if "worker_ok (w_now w) (w_reqs w) x" for x
    using that assms(5) by (auto simp: worker_ok_def split: worker.splits stage.splits)
  then show ?thesis using assms by (simp add: own_ok_def holders_def)
qed

lemma mild_timer:
  assumes "rq_phase r = InQueue" "rq_deadline r = Some at" "rq_answer r = None" "rq_sender r" "claim_from_queue (rq_cancel r) = (won, c)"
  shows "\<not> won \<Longrightarrow> mild r (r\<lparr>rq_phase := AwaitAnswer\<rparr>)"
    "won \<Longrightarrow> mild r (r\<lparr>rq_cancel := c, rq_phase := Settled resp\<rparr>)"
  using assms
  by (auto simp: mild_def queued_ok_def owned_ok_def running_ok_def gate_ok_def weightless_def claim_from_queue_def awaiting_def split: if_splits)

lemma own_ok_step_timer:
  assumes "own_ok C w" "i < length (w_reqs w)" "rq_phase (w_reqs w ! i) = InQueue" "rq_deadline (w_reqs w ! i) = Some at"
    and "rq_answer (w_reqs w ! i) = None" "rq_sender (w_reqs w ! i)"
  shows "own_ok C (await_deadline i w)"
proof -
  obtain won c where c: "claim_from_queue (rq_cancel (w_reqs w ! i)) = (won, c)" by (metis surj_pair)
  note m = mild_timer[OF assms(3-6) c]
  show ?thesis
    by (rule own_ok_mild[OF assms(1,2), where r =
          "if won then (w_reqs w ! i)\<lparr>rq_cancel := c, rq_phase := Settled (if cs_reason c = ClientAbort then client_closed else overloaded_response WaitTimeout)\<rparr>
           else (w_reqs w ! i)\<lparr>rq_phase := AwaitAnswer\<rparr>"])
       (use c m in \<open>auto simp: await_deadline_def Let_def set_req_def request_admission_refused_def\<close>)
qed

lemma own_ok_step_answer:
  assumes "own_ok C w" "i < length (w_reqs w)" "rq_phase (w_reqs w ! i) \<in> {InQueue, AwaitAnswer}" "\<not> rq_sender (w_reqs w ! i)"
  shows "own_ok C (await_answer i w)"
  by (rule own_ok_mild[OF assms(1,2), where r =
        "(w_reqs w ! i)\<lparr>rq_phase := (case rq_answer (w_reqs w ! i) of Some resp \<Rightarrow> Settled resp | None \<Rightarrow> WorkerError)\<rparr>"])
     (use assms(3,4) in \<open>auto simp: await_answer_def Let_def set_req_def mild_def queued_ok_def owned_ok_def running_ok_def gate_ok_def
        weightless_def awaiting_def split: option.splits\<close>)

lemma mild_cancel:
  assumes "cs_claimed c = cs_claimed (rq_cancel r)" "cs_taken_at c = cs_taken_at (rq_cancel r)"
  shows "mild r (r\<lparr>rq_cancel := c\<rparr>)"
  using assms by (auto simp: mild_def queued_ok_def owned_ok_def running_ok_def gate_ok_def awaiting_def split: phase.splits)

lemma own_ok_set_cancel:
  assumes "own_ok C w" "i < length (w_reqs w)" "cs_claimed c = cs_claimed (rq_cancel (w_reqs w ! i))"
    "cs_taken_at c = cs_taken_at (rq_cancel (w_reqs w ! i))"
  shows "own_ok C (set_cancel i c w)"
  by (rule own_ok_mild[OF assms(1,2) mild_cancel[OF assms(3,4)]]) (simp_all add: set_cancel_def set_req_def)

lemma guard_drop_keeps [simp]:
  "cs_claimed (guard_drop c) = cs_claimed c" "cs_taken_at (guard_drop c) = cs_taken_at c"
  "cs_claimed (mark_done c) = cs_claimed c" "cs_taken_at (mark_done c) = cs_taken_at c"
  "cs_claimed (snd (set_reason r c)) = cs_claimed c" "cs_taken_at (snd (set_reason r c)) = cs_taken_at c"
  by (simp_all add: guard_drop_def mark_done_def set_reason_def)

lemma own_ok_step_depart:
  assumes "own_ok C w" "i < length (w_reqs w)" "pending (rq_phase (w_reqs w ! i))"
  shows "own_ok C (drop_future S i w)"
proof -
  let ?r = "w_reqs w ! i"
  have "mild ?r (?r\<lparr>rq_cancel := guard_drop (rq_cancel ?r), rq_phase := Departed\<rparr>)"
    using assms(3)
    by (auto simp: mild_def queued_ok_def owned_ok_def running_ok_def gate_ok_def weightless_def awaiting_def split: phase.splits)
  then show ?thesis
    by (rule own_ok_mild[OF assms(1,2)])
       (simp_all add: drop_future_def Let_def set_req_def on_ad_def split: phase.splits)
qed

text \<open>A request at the gate is in nobody's hands, so it may change as the gate decides.\<close>

lemma mild_at_gate:
  assumes "\<not> weightless (rq_phase r)" "gate_ok r \<longrightarrow> gate_ok r'" "\<not> awaiting r'" "cs_taken_at (rq_cancel r') = cs_taken_at (rq_cancel r)"
  shows "mild r r'"
  using assms by (auto simp: mild_def queued_ok_def owned_ok_def running_ok_def weightless_def split: phase.splits)

lemma own_ok_step_poll:
  assumes "own_ok C w" "i < length (w_reqs w)" "rq_phase (w_reqs w ! i) = Parked \<or> rq_phase (w_reqs w ! i) = Admitting n"
  shows "own_ok C (admitting_poll S i starts at w)"
proof -
  let ?w' = "admitting_poll S i starts at w" and ?r = "w_reqs w ! i"
  have "\<exists>p. w_reqs ?w' = (w_reqs w)[i := ?r\<lparr>rq_phase := p\<rparr>] \<and> p \<notin> {InQueue, AwaitAnswer}" "w_chan ?w' = w_chan w" "w_workers ?w' = w_workers w" "w_now ?w' = w_now w"
    by (auto simp: admitting_poll_def Let_def set_req_def request_admission_refused_def split: option.splits Admitted.splits)
  then obtain p where p: "w_reqs ?w' = (w_reqs w)[i := ?r\<lparr>rq_phase := p\<rparr>]" "w_chan ?w' = w_chan w"
    "w_workers ?w' = w_workers w" "w_now ?w' = w_now w" "p \<notin> {InQueue, AwaitAnswer}" by blast
  have "mild ?r (?r\<lparr>rq_phase := p\<rparr>)"
    using assms(3) p(5) by (intro mild_at_gate) (auto simp: weightless_def gate_ok_def awaiting_def)
  then show ?thesis using p by (intro own_ok_mild[OF assms(1,2)]) auto
qed

text \<open>Nobody holds the message of a request that has not been sent.\<close>

lemma held_weightless:
  "worker_ok now rs x \<Longrightarrow> held_by i x \<noteq> 0 \<Longrightarrow> i < length rs \<and> weightless (rq_phase (rs ! i))"
  by (cases x) (auto simp: worker_ok_def msg_ok_def queued_ok_def owned_ok_def running_ok_def weightless_def
      split: stage.splits if_splits phase.splits)

lemma not_held:
  assumes "own_ok C w" "i < length (w_reqs w) \<longrightarrow> \<not> weightless (rq_phase (w_reqs w ! i))"
  shows "holders C i w = 0"
proof -
  have "wr_script m \<noteq> i" if "m \<in> set (ch_items C (w_chan w))" for m
    using that assms by (fastforce simp: own_ok_def msg_ok_def queued_ok_def weightless_def split: phase.splits)
  moreover have "held_by i x = 0" if "x \<in> set (w_workers w)" for x
    using that assms held_weightless[of "w_now w" "w_reqs w" x i] by (auto simp: own_ok_def)
  ultimately show ?thesis by (auto simp: holders_def filter_empty_conv)
qed

lemma own_ok_send:
  assumes "own_ok C w" "holders C i w = 0"
    and "\<forall>j < length (w_reqs w). j \<noteq> i \<longrightarrow> w_reqs w' ! j = w_reqs w ! j" "length (w_reqs w) \<le> length (w_reqs w')"
    and "w_workers w' = w_workers w" "w_now w' = w_now w" "\<forall>r \<in> set (w_reqs w'). gate_ok r"
    and "ch_items C (w_chan w') = ch_items C (w_chan w) \<and> (i < length (w_reqs w') \<longrightarrow> \<not> awaiting (w_reqs w' ! i)) \<or>
         ch_items C (w_chan w') = ch_items C (w_chan w) @ [m] \<and> wr_script m = i \<and> msg_ok (w_reqs w') m"
    and "\<forall>j < length (w_reqs w'). j = i \<or> j < length (w_reqs w)"
  shows "own_ok C w'"
proof -
  have none: "wr_script n \<noteq> i" if "n \<in> set (ch_items C (w_chan w))" for n
    using assms(2) that by (auto simp: holders_def filter_empty_conv)
  have free: "held_by i x = 0" if "x \<in> set (w_workers w)" for x
    using assms(2) that by (auto simp: holders_def)
  have msgs: "msg_ok (w_reqs w') n" if "n \<in> set (ch_items C (w_chan w))" for n
    using assms(1,3,4) none[OF that] that by (fastforce simp: own_ok_def msg_ok_def)
  have workers: "worker_ok (w_now w) (w_reqs w') x" if "x \<in> set (w_workers w)" for x
  proof -
    have "worker_ok (w_now w) (w_reqs w) x" using assms(1) that by (simp add: own_ok_def)
    then show ?thesis using free[OF that] assms(3,4)
      by (cases x) (auto simp: worker_ok_def msg_ok_def split: stage.splits if_splits)
  qed
  have "holders C j w' \<le> 1" for j
    using assms(1,2,5,8) by (auto simp: own_ok_def holders_def)
  moreover have "holders C j w' = 1" if "j < length (w_reqs w')" "awaiting (w_reqs w' ! j)" for j
  proof (cases "j = i")
    case True
    then show ?thesis using that assms(2,5,8) by (auto simp: holders_def)
  next
    case False
    then have "holders C j w = 1" using that assms(1,3,9) by (auto simp: own_ok_def)
    then show ?thesis using False assms(5,8) by (auto simp: holders_def)
  qed
  ultimately show ?thesis using msgs workers assms(5-8) by (auto simp: own_ok_def)
qed

text \<open>The answer a request has been given, by whichever side, and the refusal it stands for.\<close>

definition answer_of :: "request \<Rightarrow> script_response option" where
  "answer_of r = (case rq_answer r of Some a \<Rightarrow> Some a | None \<Rightarrow> (case rq_phase r of Settled a \<Rightarrow> Some a | _ \<Rightarrow> None))"

definition shed_count :: "ShedReason \<Rightarrow> request \<Rightarrow> nat" where
  "shed_count s r = (case answer_of r of Some a \<Rightarrow> if sr_shed_reason a = Some s then 1 else 0 | None \<Rightarrow> 0)"

lemma shed_reason_response [simp]:
  "sr_shed_reason (shed_response s) = Some s" "sr_shed_reason (overloaded_response s) = Some s"
  "sr_shed_reason client_closed = None" "sr_shed_reason client_closed_unpicked = None"
  by (cases s; simp add: shed_response_def overloaded_response_def shutting_down_response_def pool_unavailable_response_def)
     (simp_all add: overloaded_response_def client_closed_def client_closed_unpicked_def ScriptResponse_default_def)

lemma send_admitted_form:
  assumes "ch_laws C" "send_admitted S C i d w = (out, w')"
  shows "out = None \<and> ch_items C (w_chan w') = ch_items C (w_chan w) @ [\<lparr>wr_script = i, wr_deadline = d\<rparr>] \<and> w_refused w' = w_refused w \<or>
     (\<exists>s. out = Some (shed_response s) \<and> w_chan w' = w_chan w \<and> w_refused w' = (w_refused w)(s := Suc (w_refused w s)))"
    "w_now w' = w_now w"
  using assms(2) ch_laws_send[OF assms(1)]
  by (auto simp: send_admitted_def world_defs split: sum.splits SendError.splits)

text \<open>What an arrival adds: one request, in the channel, parked, or answered with a counted refusal.\<close>

definition fresh_request :: "request \<Rightarrow> bool" where
  "fresh_request r \<longleftrightarrow> rq_cancel r = CancellationState_new \<and> rq_answer r = None \<and> rq_sender r"

lemma execute_form:
  assumes "sem_laws S" "ch_laws C"
  shows "\<exists>r. w_reqs (execute S C body w) = w_reqs w @ [r] \<and> fresh_request r \<and>
     w_workers (execute S C body w) = w_workers w \<and> w_now (execute S C body w) = w_now w \<and>
     (\<forall>s. w_refused (execute S C body w) s = w_refused w s + shed_count s r) \<and>
     (ch_items C (w_chan (execute S C body w)) = ch_items C (w_chan w) @ [\<lparr>wr_script = length (w_reqs w), wr_deadline = rq_deadline r\<rparr>] \<and>
        rq_phase r = await_phase (rq_deadline r) \<or>
      ch_items C (w_chan (execute S C body w)) = ch_items C (w_chan w) \<and>
        (rq_phase r = Parked \<and> rq_deadline r \<noteq> None \<or> (\<exists>resp. rq_phase r = Settled resp)))"
proof -
  obtain d c where d: "(case Admission_budget (w_ad w) of Some (budget, c) \<Rightarrow> (Some (w_now w + budget), c) | None \<Rightarrow> (None, False)) = (d, c)"
    by (metis surj_pair)
  define req where "req p = \<lparr>rq_body = body, rq_deadline = d, rq_at_ceiling = c, rq_starts = w_starts w,
    rq_cancel = CancellationState_new, rq_phase = p, rq_answer = None, rq_sender = True\<rparr>" for p
  have fr: "fresh_request (req p)" "rq_phase (req p) = p" "rq_deadline (req p) = d" for p
    by (simp_all add: fresh_request_def req_def)
  have sc: "shed_count s (req p) = (case p of Settled a \<Rightarrow> if sr_shed_reason a = Some s then 1 else 0 | _ \<Rightarrow> 0)" for s p
    by (simp add: shed_count_def answer_of_def req_def split: phase.splits)
  show ?thesis
  proof (cases "try_admit S (w_ad w)")
    case (Inr ad)
    obtain out w' where sent: "send_admitted S C (length (w_reqs w)) d (w\<lparr>w_ad := ad\<rparr>) = (out, w')" by (metis surj_pair)
    note keeps = send_admitted_conserves[OF assms sent] send_admitted_form[OF assms(2) sent]
    define p where "p = (case out of None \<Rightarrow> await_phase d | Some resp \<Rightarrow> Settled resp)"
    have "execute S C body w = push_req (req p) w'"
      using Inr sent by (simp add: execute_def Let_def d req_def p_def split: option.splits)
    then show ?thesis using keeps
      by (intro exI[of _ "req p"]) (auto simp: push_req_def fr sc p_def await_phase_def split: option.splits)
  next
    case (Inl refused)
    have "\<exists>p w'. execute S C body w = push_req (req p) w' \<and> w_reqs w' = w_reqs w \<and> w_workers w' = w_workers w \<and> w_now w' = w_now w \<and>
       w_chan w' = w_chan w \<and> (p = Parked \<and> d \<noteq> None \<and> w_refused w' = w_refused w \<or>
         (\<exists>s. p = Settled (shed_response s) \<and> w_refused w' = (w_refused w)(s := Suc (w_refused w s))))"
    proof (cases "d = None \<or> refused = ShuttingDown")
      case True
      then show ?thesis using Inl
        by (intro exI[of _ "Settled (shed_response refused)"] exI[of _ "request_admission_refused refused w"])
           (auto simp: execute_def Let_def d req_def request_admission_refused_def)
    next
      case False
      then have ne: "d \<noteq> None" "refused \<noteq> ShuttingDown" by simp_all
      show ?thesis
      proof (cases "try_park S (w_ad w)")
        case park: (Inl reason)
        then show ?thesis using Inl ne
          by (intro exI[of _ "Settled (shed_response reason)"] exI[of _ "request_admission_refused reason w"])
             (auto simp: execute_def Let_def d req_def request_admission_refused_def)
      next
        case park: (Inr ad)
        show ?thesis
        proof (cases "try_park_bytes ad body")
          case bytes: (Inl reason)
          then show ?thesis using Inl ne park
            by (intro exI[of _ "Settled (shed_response reason)"] exI[of _ "request_admission_refused reason (w\<lparr>w_ad := drop_parking S ad\<rparr>)"])
               (auto simp: execute_def Let_def d req_def request_admission_refused_def)
        next
          case bytes: (Inr ad')
          then show ?thesis using Inl ne park
            by (intro exI[of _ Parked] exI[of _ "w\<lparr>w_ad := ad'\<rparr>"]) (auto simp: execute_def Let_def d req_def)
        qed
      qed
    qed
    then obtain p w' where e: "execute S C body w = push_req (req p) w'" and w': "w_reqs w' = w_reqs w" "w_workers w' = w_workers w"
      "w_now w' = w_now w" "w_chan w' = w_chan w"
      "p = Parked \<and> d \<noteq> None \<and> w_refused w' = w_refused w \<or>
         (\<exists>s. p = Settled (shed_response s) \<and> w_refused w' = (w_refused w)(s := Suc (w_refused w s)))" by blast
    show ?thesis unfolding e
      by (intro exI[of _ "req p"]) (use w' in \<open>auto simp: push_req_def fr sc\<close>)
  qed
qed

lemma own_ok_step_arrive:
  assumes "sem_laws S" "ch_laws C" "own_ok C w"
  shows "own_ok C (execute S C body w)"
proof -
  let ?w' = "execute S C body w"
  obtain r where r: "w_reqs ?w' = w_reqs w @ [r]" "fresh_request r" "w_workers ?w' = w_workers w" "w_now ?w' = w_now w"
    "ch_items C (w_chan ?w') = ch_items C (w_chan w) @ [\<lparr>wr_script = length (w_reqs w), wr_deadline = rq_deadline r\<rparr>] \<and>
        rq_phase r = await_phase (rq_deadline r) \<or>
      ch_items C (w_chan ?w') = ch_items C (w_chan w) \<and>
        (rq_phase r = Parked \<and> rq_deadline r \<noteq> None \<or> (\<exists>resp. rq_phase r = Settled resp))"
    using execute_form[OF assms(1,2), of body w] by blast
  have "gate_ok r" using r(2,5)
    by (auto simp: gate_ok_def fresh_request_def CancellationState_new_def weightless_def await_phase_def split: option.splits)
  moreover have "queued_ok (rq_deadline r) r" if "rq_phase r = await_phase (rq_deadline r)"
    using r(2) that by (auto simp: queued_ok_def fresh_request_def CancellationState_new_def await_phase_def split: option.splits)
  ultimately show ?thesis
    using r not_held[OF assms(3), of "length (w_reqs w)"] assms(3)
    by (intro own_ok_send[OF assms(3), where i = "length (w_reqs w)" and m = "\<lparr>wr_script = length (w_reqs w), wr_deadline = rq_deadline r\<rparr>"])
       (auto simp: nth_append msg_ok_def own_ok_def awaiting_def)
qed

lemma admitting_send_form:
  assumes "sem_laws S" "ch_laws C"
  shows "\<exists>p. w_reqs (admitting_send S C i w) = (w_reqs w)[i := (w_reqs w ! i)\<lparr>rq_phase := p\<rparr>] \<and>
     w_workers (admitting_send S C i w) = w_workers w \<and> w_now (admitting_send S C i w) = w_now w \<and>
     (ch_items C (w_chan (admitting_send S C i w)) = ch_items C (w_chan w) @ [\<lparr>wr_script = i, wr_deadline = rq_deadline (w_reqs w ! i)\<rparr>] \<and>
        p = InQueue \<and> w_refused (admitting_send S C i w) = w_refused w \<or>
      ch_items C (w_chan (admitting_send S C i w)) = ch_items C (w_chan w) \<and>
        (p = Settled client_closed \<and> w_refused (admitting_send S C i w) = w_refused w \<or>
         (\<exists>s. p = Settled (shed_response s) \<and> w_refused (admitting_send S C i w) = (w_refused w)(s := Suc (w_refused w s)))))"
proof (cases "cs_reason (rq_cancel (w_reqs w ! i)) = NotCancelled")
  case False
  then show ?thesis
    by (intro exI[of _ "Settled client_closed"]) (simp add: admitting_send_def Let_def set_req_def on_ad_def)
next
  case True
  obtain out w' where sent: "send_admitted S C i (rq_deadline (w_reqs w ! i)) w = (out, w')" by (metis surj_pair)
  note keeps = send_admitted_conserves[OF assms sent] send_admitted_form[OF assms(2) sent]
  show ?thesis
    using True sent keeps
    by (intro exI[of _ "case out of None \<Rightarrow> InQueue | Some resp \<Rightarrow> Settled resp"])
       (auto simp: admitting_send_def Let_def set_req_def on_ad_def split: option.splits)
qed

lemma own_ok_step_enqueue:
  assumes "sem_laws S" "ch_laws C" "own_ok C w" "i < length (w_reqs w)" "rq_phase (w_reqs w ! i) = Granted"
  shows "own_ok C (admitting_send S C i w)"
proof -
  let ?w' = "admitting_send S C i w" and ?r = "w_reqs w ! i"
  obtain p where p: "w_reqs ?w' = (w_reqs w)[i := ?r\<lparr>rq_phase := p\<rparr>]" "w_workers ?w' = w_workers w" "w_now ?w' = w_now w"
    "ch_items C (w_chan ?w') = ch_items C (w_chan w) @ [\<lparr>wr_script = i, wr_deadline = rq_deadline ?r\<rparr>] \<and> p = InQueue \<or>
     ch_items C (w_chan ?w') = ch_items C (w_chan w) \<and> (\<exists>resp. p = Settled resp)"
    using admitting_send_form[OF assms(1,2), of i w] by blast
  have g: "gate_ok ?r" using assms(3,4) by (simp add: own_ok_def)
  have "gate_ok (?r\<lparr>rq_phase := p\<rparr>)" using p(4) by (auto simp: gate_ok_def weightless_def)
  then have "\<forall>r \<in> set (w_reqs ?w'). gate_ok r"
    using assms(3) set_update_subset_insert[of "w_reqs w" i "?r\<lparr>rq_phase := p\<rparr>"] by (auto simp: p(1) own_ok_def)
  moreover have "queued_ok (rq_deadline ?r) (?r\<lparr>rq_phase := InQueue\<rparr>)"
    using g assms(5) by (auto simp: gate_ok_def queued_ok_def weightless_def)
  ultimately show ?thesis
    using p assms(4) not_held[OF assms(3), of i] assms(5)
    by (intro own_ok_send[OF assms(3), where i = i and m = "\<lparr>wr_script = i, wr_deadline = rq_deadline ?r\<rparr>"])
       (auto simp: msg_ok_def weightless_def awaiting_def)
qed

lemma own_ok_step_recv:
  assumes "ch_laws C" "own_ok C w" "k < length (w_workers w)" "w_workers w ! k = Waiting" "ch_recv C (w_chan w) = Some (m, ch)"
  shows "own_ok C (set_worker k (Picked m Fresh) (w\<lparr>w_chan := ch\<rparr>))"
proof -
  have items: "ch_items C (w_chan w) = m # ch_items C ch" using ch_laws_recv[OF assms(1,5)] by simp
  have "holders C i (set_worker k (Picked m Fresh) (w\<lparr>w_chan := ch\<rparr>)) = holders C i w" for i
    using sum_list_update_nat[OF assms(3), of "held_by i" "Picked m Fresh"] assms(4) items
    by (simp add: holders_def set_worker_def)
  moreover have "worker_ok (w_now w) (w_reqs w) (Picked m Fresh)"
    using assms(2) items by (simp add: own_ok_def worker_ok_def)
  ultimately show ?thesis using assms(2) items set_update_subset_insert[of "w_workers w" k "Picked m Fresh"]
    by (auto simp: own_ok_def set_worker_def)
qed

text \<open>The worker's side.  Each lemma names the entry the worker's request gets and what the worker holds next.\<close>

lemma worker_of:
  "own_ok C w \<Longrightarrow> k < length (w_workers w) \<Longrightarrow> w_workers w ! k = x \<Longrightarrow> worker_ok (w_now w) (w_reqs w) x"
  by (auto simp: own_ok_def)

lemmas entry_ok_defs = worker_ok_def msg_ok_def queued_ok_def owned_ok_def running_ok_def gate_ok_def weightless_def

lemma own_ok_step_claim:
  assumes "own_ok C w" "k < length (w_workers w)" "w_workers w ! k = Picked m Fresh"
  shows "own_ok C (worker_claim S k m w)"
proof -
  let ?i = "wr_script m" and ?r = "w_reqs w ! wr_script m"
  have q: "?i < length (w_reqs w)" "queued_ok (wr_deadline m) ?r"
    using worker_of[OF assms] by (simp_all add: worker_ok_def msg_ok_def)
  obtain won c where c: "take_claim (wr_deadline m) (rq_cancel ?r) = (won, c)" by (metis surj_pair)
  show ?thesis
  proof (cases won)
    case True
    have "owned_ok (wr_deadline m) (?r\<lparr>rq_cancel := c\<rparr>) \<and> cs_taken_at c = None \<and> gate_ok (?r\<lparr>rq_cancel := c\<rparr>)"
      using q(2) c True
      by (auto simp: queued_ok_def owned_ok_def gate_ok_def weightless_def take_claim_def claim_from_queue_def
          split: phase.splits option.splits if_splits)
    then show ?thesis
      using c True q(1) assms(3)
      by (intro own_ok_worker[OF assms(1,2), where i = ?i and r = "?r\<lparr>rq_cancel := c\<rparr>" and x = "Picked m Claimed"])
         (auto simp: worker_claim_def Let_def set_worker_def set_req_def worker_ok_def)
  next
    case False
    have "gate_ok (?r\<lparr>rq_sender := False\<rparr>)"
      using q(2) by (auto simp: queued_ok_def gate_ok_def weightless_def split: phase.splits)
    then show ?thesis
      using c False q(1) assms(3)
      by (intro own_ok_worker[OF assms(1,2), where i = ?i and r = "?r\<lparr>rq_sender := False\<rparr>" and x = Waiting])
         (auto simp: worker_claim_def settle_pickup_def Let_def set_worker_def set_req_def on_ad_def worker_ok_def awaiting_def)
  qed
qed

lemma own_ok_step_mark:
  assumes "own_ok C w" "k < length (w_workers w)" "w_workers w ! k = Picked m Claimed"
  shows "own_ok C (worker_mark k m w)"
proof -
  let ?i = "wr_script m" and ?r = "w_reqs w ! wr_script m"
  let ?r' = "?r\<lparr>rq_cancel := mark_taken (w_now w) (rq_cancel ?r)\<rparr>"
  have q: "?i < length (w_reqs w)" "owned_ok (wr_deadline m) ?r" "cs_taken_at (rq_cancel ?r) = None"
    using worker_of[OF assms] by (simp_all add: worker_ok_def)
  have "owned_ok (wr_deadline m) ?r' \<and> cs_taken_at (rq_cancel ?r') = Some (w_now w) \<and> gate_ok ?r'"
    using q by (auto simp: owned_ok_def gate_ok_def weightless_def mark_taken_def)
  then show ?thesis
    using q(1) assms(3)
    by (intro own_ok_worker[OF assms(1,2), where i = ?i and r = ?r' and x = "Picked m Marked"])
       (auto simp: worker_mark_def Let_def set_worker_def set_req_def worker_ok_def)
qed

lemma note_other [simp]:
  "w_reqs (note_if_abandoned r w) = w_reqs w" "w_ad (note_if_abandoned r w) = w_ad w"
  "w_chan (note_if_abandoned r w) = w_chan w" "w_workers (note_if_abandoned r w) = w_workers w"
  "w_now (note_if_abandoned r w) = w_now w" "w_refused (note_if_abandoned r w) = w_refused w"
  by (simp_all add: note_if_abandoned_def)

text \<open>What a decided pickup does to the request, the worker and the counters.\<close>

definition pickup_answer :: "Pickup \<Rightarrow> script_response" where
  "pickup_answer v = (case v of Expired \<Rightarrow> overloaded_response WaitTimeout
     | Cancelled e \<Rightarrow> if e then client_closed_unpicked else client_closed | _ \<Rightarrow> client_closed)"

lemma worker_decide_form:
  assumes "v = take_decide (w_now w) (wr_deadline m) (rq_cancel (w_reqs w ! wr_script m))"
  shows "w_reqs (worker_decide S k m w) = (if v = Run then w_reqs w
       else (w_reqs w)[wr_script m := (w_reqs w ! wr_script m)\<lparr>rq_answer := Some (pickup_answer v), rq_sender := False\<rparr>])"
    "w_workers (worker_decide S k m w) = (w_workers w)[k := if v = Run then Running (wr_script m) else Waiting]"
    "w_chan (worker_decide S k m w) = w_chan w" "w_now (worker_decide S k m w) = w_now w"
    "w_ad (worker_decide S k m w) = drop_slot S (w_ad w)"
    "w_refused (worker_decide S k m w) = (if v = Expired then (w_refused w)(WaitTimeout := Suc (w_refused w WaitTimeout)) else w_refused w)"
proof -
  have "v = Run \<or> v = Expired \<or> (\<exists>e. v = Cancelled e)" by (auto simp: assms take_decide_def)
  moreover have "worker_decide S k m w = settle_pickup S k (wr_script m) v w" by (simp add: worker_decide_def assms Let_def)
  moreover note defs = settle_pickup_def refuse_expired_def answer_departed_client_def send_response_def pickup_answer_def
    set_worker_def set_req_def on_ad_def pool_start_def request_admission_refused_def
  ultimately show "w_reqs (worker_decide S k m w) = (if v = Run then w_reqs w
       else (w_reqs w)[wr_script m := (w_reqs w ! wr_script m)\<lparr>rq_answer := Some (pickup_answer v), rq_sender := False\<rparr>])"
    "w_workers (worker_decide S k m w) = (w_workers w)[k := if v = Run then Running (wr_script m) else Waiting]"
    "w_chan (worker_decide S k m w) = w_chan w" "w_now (worker_decide S k m w) = w_now w"
    "w_ad (worker_decide S k m w) = drop_slot S (w_ad w)"
    "w_refused (worker_decide S k m w) = (if v = Expired then (w_refused w)(WaitTimeout := Suc (w_refused w WaitTimeout)) else w_refused w)"
    by (auto simp: defs)
qed

lemma own_ok_step_decide:
  assumes "own_ok C w" "k < length (w_workers w)" "w_workers w ! k = Picked m Marked"
  shows "own_ok C (worker_decide S k m w)"
proof -
  let ?i = "wr_script m" and ?r = "w_reqs w ! wr_script m"
  define v where "v = take_decide (w_now w) (wr_deadline m) (rq_cancel ?r)"
  define r' where "r' = (if v = Run then ?r else ?r\<lparr>rq_answer := Some (pickup_answer v), rq_sender := False\<rparr>)"
  obtain t where q: "?i < length (w_reqs w)" "owned_ok (wr_deadline m) ?r" "cs_taken_at (rq_cancel ?r) = Some t" "t \<le> w_now w"
    using worker_of[OF assms] by (auto simp: worker_ok_def)
  have "running_ok ?r" if "v = Run"
    using q that by (auto simp: v_def take_decide_def owned_ok_def running_ok_def split: if_splits option.splits)
  moreover have "gate_ok r'" using q(2) by (auto simp: r'_def owned_ok_def gate_ok_def weightless_def)
  ultimately show ?thesis
    using q(1) assms(3) worker_decide_form[OF v_def]
    by (intro own_ok_worker[OF assms(1,2), where i = ?i and r = r' and x = "if v = Run then Running ?i else Waiting"])
       (auto simp: worker_ok_def r'_def awaiting_def)
qed

lemma own_ok_step_run:
  assumes "own_ok C w" "k < length (w_workers w)" "w_workers w ! k = Running i" "x = Waiting \<or> x = Running i \<and> running_ok r"
    and "w_reqs w' = (w_reqs w)[i := r]" "w_chan w' = w_chan w" "w_workers w' = (w_workers w)[k := x]" "w_now w' = w_now w"
    and "weightless (rq_phase r)" "x = Waiting \<longrightarrow> \<not> rq_sender r"
  shows "own_ok C w'"
  using assms worker_of[OF assms(1-3)]
  by (intro own_ok_worker[OF assms(1,2), where i = i and r = r and x = x]) (auto simp: worker_ok_def gate_ok_def awaiting_def)

lemma running_weightless: "running_ok r \<Longrightarrow> weightless (rq_phase r)"
  by (auto simp: running_ok_def weightless_def)

lemma running_of:
  "own_ok C w \<Longrightarrow> k < length (w_workers w) \<Longrightarrow> w_workers w ! k = Running i \<Longrightarrow> i < length (w_reqs w) \<and> running_ok (w_reqs w ! i)"
  using worker_of[of C w k "Running i"] by (simp add: worker_ok_def)

lemma picked_of:
  "own_ok C w \<Longrightarrow> k < length (w_workers w) \<Longrightarrow> w_workers w ! k = Picked m st \<Longrightarrow> wr_script m < length (w_reqs w)"
  using worker_of[of C w k "Picked m st"] by (auto simp: worker_ok_def msg_ok_def split: stage.splits)

lemma own_ok_wstep:
  assumes "wstep S C w w'" "sem_laws S" "ch_laws C" "own_ok C w"
  shows "own_ok C w'"
  using assms(1)
proof cases
  case (run_departed k i)
  then show ?thesis using assms(4) running_of[OF assms(4) run_departed(2,3)]
    by (intro own_ok_step_run[OF assms(4) run_departed(2,3), where x = Waiting and r = "(w_reqs w ! i)\<lparr>rq_answer := Some client_closed, rq_sender := False\<rparr>"])
       (auto simp: run_departed_def send_response_def set_worker_def set_req_def dest: running_weightless)
next
  case (run_early k i resp)
  have "(w_workers w)[k := Running i] = w_workers w" using run_early(3) by (metis list_update_id)
  then show ?thesis using run_early running_of[OF assms(4) run_early(2,3)]
    by (intro own_ok_step_run[OF assms(4) run_early(2,3), where x = "Running i" and r = "(w_reqs w ! i)\<lparr>rq_answer := Some resp, rq_sender := False\<rparr>"])
       (auto simp: send_response_def set_req_def running_ok_def weightless_def)
next
  case (run_finish k i resp)
  then show ?thesis using assms(4) running_of[OF assms(4) run_finish(2,3)]
    by (intro own_ok_step_run[OF assms(4) run_finish(2,3), where x = Waiting and r = "(w_reqs w ! i)\<lparr>rq_answer := Some resp, rq_sender := False\<rparr>"])
       (auto simp: run_finish_def send_response_def set_worker_def set_req_def dest: running_weightless)
next
  case (run_end k i)
  then show ?thesis using assms(4) running_of[OF assms(4) run_end(2,3)]
    by (intro own_ok_step_run[OF assms(4) run_end(2,3), where x = Waiting and r = "(w_reqs w ! i)\<lparr>rq_sender := False\<rparr>"])
       (auto simp: run_end_def set_worker_def set_req_def dest: running_weightless)
next
  case (clock t)
  then show ?thesis by (intro own_ok_same[OF assms(4)]) simp_all
next
  case shutdown
  then show ?thesis by (intro own_ok_same[OF assms(4)]) (simp_all add: close_admission_def on_ad_def)
next
  case controller
  then show ?thesis by (intro own_ok_same[OF assms(4)]) (simp_all add: controller_tick_def Let_def)
next
  case (arrive body)
  then show ?thesis using own_ok_step_arrive[OF assms(2-4)] by simp
next
  case (poll_first i at)
  then show ?thesis using own_ok_step_poll[OF assms(4)] by blast
next
  case (poll_again i n at)
  then show ?thesis using own_ok_step_poll[OF assms(4)] by blast
next
  case (enqueue i)
  then show ?thesis using own_ok_step_enqueue[OF assms(2-4)] by blast
next
  case (timer i at)
  then show ?thesis using own_ok_step_timer[OF assms(4)] by blast
next
  case (answer i)
  then show ?thesis using own_ok_step_answer[OF assms(4)] by blast
next
  case (depart i)
  then show ?thesis using own_ok_step_depart[OF assms(4)] by blast
next
  case (connection_end i)
  then show ?thesis using own_ok_set_cancel[OF assms(4)] by simp
next
  case (disarm i)
  then show ?thesis using own_ok_set_cancel[OF assms(4)] by simp
next
  case (recv k m ch)
  then show ?thesis using own_ok_step_recv[OF assms(3,4)] by blast
next
  case (claim k m)
  then show ?thesis using own_ok_step_claim[OF assms(4)] by blast
next
  case (mark k m)
  then show ?thesis using own_ok_step_mark[OF assms(4)] by blast
next
  case (decide k m)
  then show ?thesis using own_ok_step_decide[OF assms(4)] by blast
next
  case (interrupt k i reason)
  then show ?thesis using own_ok_set_cancel[OF assms(4)] running_of[OF assms(4)] by simp
qed

end
