(* ===== verification/Executor_Props.thy ===== *)
theory Executor_Props
  imports Executor_Own
begin

text \<open>
  What holds in every world a run of the executor reaches: permits, waiting
  places and waiting bytes are conserved, a request has one owner at a time,
  and the refusal counters count the refusals answered.
\<close>

section \<open>Conservation along every step\<close>

lemma conserved_worker:
  assumes "conserved S C cap places bcap w" "k < length (w_workers w)" "i < length (w_reqs w)"
    and "w_reqs w' = (w_reqs w)[i := r]" "rq_phase r = rq_phase (w_reqs w ! i)" "rq_body r = rq_body (w_reqs w ! i)"
    and "w_workers w' = (w_workers w)[k := x]" "w_chan w' = w_chan w"
    and "sem_available S (ad_slots (w_ad w')) + permit_of x = sem_available S (ad_slots (w_ad w)) + permit_of (w_workers w ! k)"
    and "ad_parking (w_ad w') = ad_parking (w_ad w)" "ad_bytes_held (w_ad w') = ad_bytes_held (w_ad w)"
    and "ad_bytes_cap (w_ad w') = ad_bytes_cap (w_ad w)"
  shows "conserved S C cap places bcap w'"
  using assms(1,3,4)
  by (rule conserved_transfer)
     (use assms permits_update[OF assms(2), of x] in
      \<open>simp_all add: slot_of_def place_of_def bytes_of_def conserved_def split: phase.splits\<close>)

lemma conserved_step_recv:
  assumes "ch_laws C" "conserved S C cap places bcap w" "k < length (w_workers w)" "w_workers w ! k = Waiting"
    and "ch_recv C (w_chan w) = Some (m, ch)"
  shows "conserved S C cap places bcap (set_worker k (Picked m Fresh) (w\<lparr>w_chan := ch\<rparr>))"
  using assms(2) ch_laws_recv[OF assms(1,5)] permits_update[OF assms(3), of "Picked m Fresh"] assms(4)
  by (simp add: conserved_def set_worker_def permit_of_def)

lemma conserved_wstep:
  assumes "wstep S C w w'" "sem_laws S" "ch_laws C" "own_ok C w" "bcap \<noteq> - 1" "conserved S C cap places bcap w"
  shows "conserved S C cap places bcap w'"
  using assms(1)
proof cases
  case (clock t)
  then show ?thesis using assms(6) by (simp add: conserved_def)
next
  case shutdown
  then show ?thesis using assms(6) sem_laws_close[OF assms(2)]
    by (simp add: conserved_def close_admission_def on_ad_def Admission_close_def)
next
  case controller
  then show ?thesis using assms(6) by (simp add: conserved_def controller_tick_def Let_def)
next
  case (claim k m)
  let ?i = "wr_script m"
  show ?thesis unfolding claim(1)
    using assms(6) claim(2) picked_of[OF assms(4) claim(2,3)]
    by (rule conserved_worker[where x = "if fst (take_claim (wr_deadline m) (rq_cancel (w_reqs w ! ?i))) then Picked m Claimed else Waiting"
          and r = "if fst (take_claim (wr_deadline m) (rq_cancel (w_reqs w ! ?i)))
             then (w_reqs w ! ?i)\<lparr>rq_cancel := snd (take_claim (wr_deadline m) (rq_cancel (w_reqs w ! ?i)))\<rparr>
             else (w_reqs w ! ?i)\<lparr>rq_sender := False\<rparr>"])
       (use claim(3) sem_laws_release[OF assms(2)] in
        \<open>auto simp: worker_claim_def settle_pickup_def Let_def set_worker_def set_req_def on_ad_def drop_slot_def permit_of_def split: prod.splits\<close>)
next
  case (mark k m)
  show ?thesis unfolding mark(1)
    using assms(6) mark(2) picked_of[OF assms(4) mark(2,3)]
    by (rule conserved_worker[where x = "Picked m Marked"
          and r = "(w_reqs w ! wr_script m)\<lparr>rq_cancel := mark_taken (w_now w) (rq_cancel (w_reqs w ! wr_script m))\<rparr>"])
       (use mark(3) in \<open>auto simp: worker_mark_def Let_def set_worker_def set_req_def permit_of_def\<close>)
next
  case (decide k m)
  define v where "v = take_decide (w_now w) (wr_deadline m) (rq_cancel (w_reqs w ! wr_script m))"
  show ?thesis unfolding decide(1)
    using assms(6) decide(2) picked_of[OF assms(4) decide(2,3)]
    by (rule conserved_worker[where x = "if v = Run then Running (wr_script m) else Waiting"
          and r = "if v = Run then w_reqs w ! wr_script m else (w_reqs w ! wr_script m)\<lparr>rq_answer := Some (pickup_answer v), rq_sender := False\<rparr>"])
       (use decide(3) worker_decide_form[OF v_def] sem_laws_release[OF assms(2)] in \<open>auto simp: drop_slot_def permit_of_def\<close>)
next
  case (run_departed k i)
  show ?thesis unfolding run_departed(1)
    using assms(6) run_departed(2) running_of[OF assms(4) run_departed(2,3), THEN conjunct1]
    by (rule conserved_worker[where x = Waiting and r = "(w_reqs w ! i)\<lparr>rq_answer := Some client_closed, rq_sender := False\<rparr>"])
       (use run_departed(3) in \<open>auto simp: run_departed_def send_response_def set_worker_def set_req_def permit_of_def\<close>)
next
  case (run_early k i resp)
  show ?thesis unfolding run_early(1) send_response_def
    using assms(6) running_of[OF assms(4) run_early(2,3), THEN conjunct1]
    by (rule conserved_entry[where r = "(w_reqs w ! i)\<lparr>rq_answer := Some resp, rq_sender := False\<rparr>"])
       (simp_all add: set_req_def)
next
  case (run_finish k i resp)
  show ?thesis unfolding run_finish(1)
    using assms(6) run_finish(2) running_of[OF assms(4) run_finish(2,3), THEN conjunct1]
    by (rule conserved_worker[where x = Waiting and r = "(w_reqs w ! i)\<lparr>rq_answer := Some resp, rq_sender := False\<rparr>"])
       (use run_finish(3) in \<open>auto simp: run_finish_def send_response_def set_worker_def set_req_def permit_of_def\<close>)
next
  case (run_end k i)
  show ?thesis unfolding run_end(1)
    using assms(6) run_end(2) running_of[OF assms(4) run_end(2,3), THEN conjunct1]
    by (rule conserved_worker[where x = Waiting and r = "(w_reqs w ! i)\<lparr>rq_sender := False\<rparr>"])
       (use run_end(3) in \<open>auto simp: run_end_def set_worker_def set_req_def permit_of_def\<close>)
next
  case (arrive body)
  then show ?thesis using conserved_step_arrive[OF assms(2,3,5,6)] by simp
next
  case (poll_first i at)
  then show ?thesis using conserved_step_poll[OF assms(2,6)] by blast
next
  case (poll_again i n at)
  then show ?thesis using conserved_step_poll[OF assms(2,6)] by blast
next
  case (enqueue i)
  then show ?thesis using conserved_step_enqueue[OF assms(2,3,6)] by blast
next
  case (timer i at)
  then show ?thesis using conserved_step_timer[OF assms(6)] by blast
next
  case (answer i)
  then show ?thesis using conserved_step_answer[OF assms(6)] by blast
next
  case (depart i)
  then show ?thesis using conserved_step_depart[OF assms(2,6)] by blast
next
  case (connection_end i)
  then show ?thesis using conserved_set_cancel[OF assms(6)] by simp
next
  case (disarm i)
  then show ?thesis using conserved_set_cancel[OF assms(6)] by simp
next
  case (recv k m ch)
  then show ?thesis using conserved_step_recv[OF assms(3,6)] by blast
next
  case (interrupt k i reason)
  then show ?thesis using conserved_set_cancel[OF assms(6)] running_of[OF assms(4)] by simp
qed

section \<open>The refusal counters\<close>

definition counted :: "('q, 'c) world \<Rightarrow> bool" where
  "counted w \<longleftrightarrow> (\<forall>s. w_refused w s = sum_list (map (shed_count s) (w_reqs w)))"

lemma counted_update:
  assumes "counted w" "i < length (w_reqs w)" "w_reqs w' = (w_reqs w)[i := r]"
    and "\<And>s. w_refused w' s + shed_count s (w_reqs w ! i) = w_refused w s + shed_count s r"
  shows "counted w'"
proof -
  have "w_refused w' s = sum_list (map (shed_count s) (w_reqs w'))" for s
    using sum_list_update_nat[OF assms(2), of "shed_count s" r] assms(4)[of s] assms(1) by (simp add: counted_def assms(3))
  then show ?thesis by (simp add: counted_def)
qed

text \<open>A change that leaves the answer alone.\<close>

lemma counted_same:
  assumes "counted w" "i < length (w_reqs w)" "w_reqs w' = (w_reqs w)[i := r]" "w_refused w' = w_refused w"
    and "answer_of r = answer_of (w_reqs w ! i)"
  shows "counted w'"
  by (rule counted_update[OF assms(1-3)]) (simp add: assms(4,5) shed_count_def)

text \<open>A request not answered yet gets an answer, with a refusal counted exactly when the answer carries it.\<close>

lemma counted_answered:
  assumes "counted w" "i < length (w_reqs w)" "w_reqs w' = (w_reqs w)[i := r]"
    and "answer_of (w_reqs w ! i) = None" "answer_of r = Some a"
    and "sr_shed_reason a = None \<and> w_refused w' = w_refused w \<or>
      (\<exists>s. sr_shed_reason a = Some s \<and> w_refused w' = (w_refused w)(s := Suc (w_refused w s)))"
  shows "counted w'"
  by (rule counted_update[OF assms(1-3)]) (use assms(4-6) in \<open>auto simp: shed_count_def\<close>)

lemma answer_of_other [simp]:
  "answer_of (r\<lparr>rq_cancel := c\<rparr>) = answer_of r" "answer_of (r\<lparr>rq_sender := b\<rparr>) = answer_of r"
  by (simp_all add: answer_of_def split: option.splits)

lemma unanswered:
  "rq_answer r = None \<Longrightarrow> \<forall>a. rq_phase r \<noteq> Settled a \<Longrightarrow> answer_of r = None"
  by (simp add: answer_of_def split: phase.splits)

lemma admitting_poll_form:
  "\<exists>p. w_reqs (admitting_poll S i starts at w) = (w_reqs w)[i := (w_reqs w ! i)\<lparr>rq_phase := p\<rparr>] \<and>
     ((p = Granted \<or> p = Admitting starts \<or> p = Settled client_closed) \<and> w_refused (admitting_poll S i starts at w) = w_refused w \<or>
      (\<exists>s. p = Settled (shed_response s) \<and> w_refused (admitting_poll S i starts at w) = (w_refused w)(s := Suc (w_refused w s))))"
  by (auto simp: admitting_poll_def Let_def set_req_def request_admission_refused_def split: option.splits Admitted.splits)

lemma counted_step_poll:
  assumes "own_ok C w" "counted w" "i < length (w_reqs w)" "rq_phase (w_reqs w ! i) = Parked \<or> rq_phase (w_reqs w ! i) = Admitting n"
  shows "counted (admitting_poll S i starts at w)"
proof -
  let ?w' = "admitting_poll S i starts at w" and ?r = "w_reqs w ! i"
  obtain p where p: "w_reqs ?w' = (w_reqs w)[i := ?r\<lparr>rq_phase := p\<rparr>]"
    "(p = Granted \<or> p = Admitting starts \<or> p = Settled client_closed) \<and> w_refused ?w' = w_refused w \<or>
      (\<exists>s. p = Settled (shed_response s) \<and> w_refused ?w' = (w_refused w)(s := Suc (w_refused w s)))"
    using admitting_poll_form[of S i starts at w] by blast
  have a: "rq_answer ?r = None" using assms(1,3,4) by (auto simp: own_ok_def gate_ok_def weightless_def dest!: nth_mem)
  have un: "answer_of ?r = None" using a assms(4) by (intro unanswered) auto
  show ?thesis
  proof (cases "\<exists>x. p = Settled x")
    case True
    then obtain x where x: "p = Settled x" by blast
    show ?thesis
      by (rule counted_answered[OF assms(2,3) p(1) un, where a = x]) (use p(2) a x in \<open>auto simp: answer_of_def\<close>)
  next
    case False
    then show ?thesis
      by (intro counted_same[OF assms(2,3) p(1)]) (use p(2) a un in \<open>auto simp: answer_of_def\<close>)
  qed
qed

lemma counted_step_enqueue:
  assumes "sem_laws S" "ch_laws C" "own_ok C w" "counted w" "i < length (w_reqs w)" "rq_phase (w_reqs w ! i) = Granted"
  shows "counted (admitting_send S C i w)"
proof -
  let ?w' = "admitting_send S C i w" and ?r = "w_reqs w ! i"
  obtain p where p: "w_reqs ?w' = (w_reqs w)[i := ?r\<lparr>rq_phase := p\<rparr>]"
    "(p = InQueue \<or> p = Settled client_closed) \<and> w_refused ?w' = w_refused w \<or>
     (\<exists>s. p = Settled (shed_response s) \<and> w_refused ?w' = (w_refused w)(s := Suc (w_refused w s)))"
    using admitting_send_form[OF assms(1,2), of i w] by blast
  have a: "rq_answer ?r = None" using assms(3,5,6) by (auto simp: own_ok_def gate_ok_def weightless_def dest!: nth_mem)
  have un: "answer_of ?r = None" using a assms(6) by (intro unanswered) auto
  show ?thesis
  proof (cases "p = InQueue")
    case True
    then show ?thesis
      by (intro counted_same[OF assms(4,5) p(1)]) (use p(2) a un in \<open>auto simp: answer_of_def\<close>)
  next
    case False
    then obtain x where x: "p = Settled x" using p(2) by blast
    show ?thesis
      by (rule counted_answered[OF assms(4,5) p(1) un, where a = x]) (use p(2) a x in \<open>auto simp: answer_of_def\<close>)
  qed
qed

lemma counted_step_timer:
  assumes "counted w" "i < length (w_reqs w)" "rq_phase (w_reqs w ! i) = InQueue" "rq_answer (w_reqs w ! i) = None"
  shows "counted (await_deadline i w)"
proof -
  let ?r = "w_reqs w ! i"
  obtain won c where c: "claim_from_queue (rq_cancel ?r) = (won, c)" by (metis surj_pair)
  have un: "answer_of ?r = None" using assms(3,4) by (intro unanswered) auto
  show ?thesis
  proof (cases won)
    case True
    define x where "x = (if cs_reason c = ClientAbort then client_closed else overloaded_response WaitTimeout)"
    have "w_reqs (await_deadline i w) = (w_reqs w)[i := ?r\<lparr>rq_cancel := c, rq_phase := Settled x\<rparr>]"
      "w_refused (await_deadline i w) = (if cs_reason c = ClientAbort then w_refused w else (w_refused w)(WaitTimeout := Suc (w_refused w WaitTimeout)))"
      using c True by (auto simp: await_deadline_def Let_def set_req_def request_admission_refused_def x_def)
    then show ?thesis
      by (intro counted_answered[OF assms(1,2) _ un, where a = x]) (use assms(4) in \<open>auto simp: answer_of_def x_def\<close>)
  next
    case False
    then show ?thesis
      by (intro counted_same[OF assms(1,2), where r = "?r\<lparr>rq_phase := AwaitAnswer\<rparr>"])
         (use c assms(3,4) in \<open>auto simp: await_deadline_def Let_def set_req_def answer_of_def\<close>)
  qed
qed

lemma counted_step_arrive:
  assumes "sem_laws S" "ch_laws C" "counted w"
  shows "counted (execute S C body w)"
  using execute_form[OF assms(1,2), of body w] assms(3) by (auto simp: counted_def)

lemma counted_step_answer:
  assumes "counted w" "i < length (w_reqs w)" "rq_phase (w_reqs w ! i) \<in> {InQueue, AwaitAnswer}"
  shows "counted (await_answer i w)"
  by (rule counted_same[OF assms(1,2), where r =
        "(w_reqs w ! i)\<lparr>rq_phase := (case rq_answer (w_reqs w ! i) of Some resp \<Rightarrow> Settled resp | None \<Rightarrow> WorkerError)\<rparr>"])
     (use assms(3) in \<open>auto simp: await_answer_def Let_def set_req_def answer_of_def split: option.splits\<close>)

lemma counted_step_depart:
  assumes "counted w" "i < length (w_reqs w)" "pending (rq_phase (w_reqs w ! i))"
  shows "counted (drop_future S i w)"
  by (rule counted_same[OF assms(1,2), where r = "(w_reqs w ! i)\<lparr>rq_cancel := guard_drop (rq_cancel (w_reqs w ! i)), rq_phase := Departed\<rparr>"])
     (use assms(3) in \<open>auto simp: drop_future_def Let_def set_req_def on_ad_def answer_of_def split: phase.splits option.splits\<close>)

lemma counted_set_cancel: "counted w \<Longrightarrow> i < length (w_reqs w) \<Longrightarrow> counted (set_cancel i c w)"
  by (erule counted_same[where r = "(w_reqs w ! i)\<lparr>rq_cancel := c\<rparr>"]) (simp_all add: set_cancel_def set_req_def)

lemma counted_step_decide:
  assumes "own_ok C w" "counted w" "k < length (w_workers w)" "w_workers w ! k = Picked m Marked"
  shows "counted (worker_decide S k m w)"
proof -
  let ?i = "wr_script m" and ?r = "w_reqs w ! wr_script m"
  define v where "v = take_decide (w_now w) (wr_deadline m) (rq_cancel ?r)"
  note form = worker_decide_form[OF v_def]
  have q: "?i < length (w_reqs w)" "owned_ok (wr_deadline m) ?r"
    using worker_of[OF assms(1,3,4)] by (auto simp: worker_ok_def)
  have un: "answer_of ?r = None" using q(2) by (intro unanswered) (auto simp: owned_ok_def)
  have v: "v = Run \<or> v = Expired \<or> (\<exists>e. v = Cancelled e)" by (auto simp: v_def take_decide_def)
  show ?thesis
  proof (cases "v = Run")
    case True
    then show ?thesis using form assms(2) by (simp add: counted_def)
  next
    case False
    then show ?thesis
      using v form
      by (intro counted_answered[OF assms(2) q(1) _ un, where a = "pickup_answer v" and r = "?r\<lparr>rq_answer := Some (pickup_answer v), rq_sender := False\<rparr>"])
         (auto simp: answer_of_def pickup_answer_def)
  qed
qed

text \<open>The answer of a worker that ran the script carries no refusal.\<close>

lemma counted_run_answer:
  assumes "own_ok C w" "counted w" "k < length (w_workers w)" "w_workers w ! k = Running i" "rq_sender (w_reqs w ! i)"
    and "w_reqs w' = (w_reqs w)[i := (w_reqs w ! i)\<lparr>rq_answer := Some a, rq_sender := False\<rparr>]" "w_refused w' = w_refused w"
    and "sr_shed_reason a = None"
  shows "counted w'"
proof -
  have i: "i < length (w_reqs w)" "running_ok (w_reqs w ! i)" using running_of[OF assms(1,3,4)] by simp_all
  have "answer_of (w_reqs w ! i) = None"
    using i(2) assms(5) by (intro unanswered) (auto simp: running_ok_def)
  then show ?thesis
    by (rule counted_answered[OF assms(2) i(1) assms(6), where a = a]) (simp_all add: answer_of_def assms(7,8))
qed

lemma counted_wstep:
  assumes "wstep S C w w'" "sem_laws S" "ch_laws C" "own_ok C w" "counted w"
  shows "counted w'"
  using assms(1)
proof cases
  case (arrive body)
  then show ?thesis using counted_step_arrive[OF assms(2,3,5)] by simp
next
  case (poll_first i at)
  then show ?thesis using counted_step_poll[OF assms(4,5)] by blast
next
  case (poll_again i n at)
  then show ?thesis using counted_step_poll[OF assms(4,5)] by blast
next
  case (enqueue i)
  then show ?thesis using counted_step_enqueue[OF assms(2-5)] by blast
next
  case (timer i at)
  then show ?thesis using counted_step_timer[OF assms(5)] by blast
next
  case (answer i)
  then show ?thesis using counted_step_answer[OF assms(5)] by blast
next
  case (depart i)
  then show ?thesis using counted_step_depart[OF assms(5)] by blast
next
  case (connection_end i)
  then show ?thesis using counted_set_cancel[OF assms(5)] by simp
next
  case (disarm i)
  then show ?thesis using counted_set_cancel[OF assms(5)] by simp
next
  case (interrupt k i reason)
  then show ?thesis using counted_set_cancel[OF assms(5)] running_of[OF assms(4)] by simp
next
  case (claim k m)
  have r: "w_reqs w' = (w_reqs w)[wr_script m := if fst (take_claim (wr_deadline m) (rq_cancel (w_reqs w ! wr_script m)))
      then (w_reqs w ! wr_script m)\<lparr>rq_cancel := snd (take_claim (wr_deadline m) (rq_cancel (w_reqs w ! wr_script m)))\<rparr>
      else (w_reqs w ! wr_script m)\<lparr>rq_sender := False\<rparr>] \<and> w_refused w' = w_refused w"
    by (auto simp: claim(1) worker_claim_def settle_pickup_def Let_def set_worker_def set_req_def on_ad_def split: prod.splits)
  show ?thesis
    by (rule counted_same[OF assms(5) picked_of[OF assms(4) claim(2,3)] conjunct1[OF r] conjunct2[OF r]]) simp
next
  case (mark k m)
  have r: "w_reqs w' = (w_reqs w)[wr_script m := (w_reqs w ! wr_script m)\<lparr>rq_cancel := mark_taken (w_now w) (rq_cancel (w_reqs w ! wr_script m))\<rparr>] \<and>
      w_refused w' = w_refused w"
    by (simp add: mark(1) worker_mark_def Let_def set_worker_def set_req_def)
  show ?thesis
    by (rule counted_same[OF assms(5) picked_of[OF assms(4) mark(2,3)] conjunct1[OF r] conjunct2[OF r]]) simp
next
  case (decide k m)
  then show ?thesis using counted_step_decide[OF assms(4,5)] by blast
next
  case (run_departed k i)
  show ?thesis
    by (rule counted_run_answer[OF assms(4,5) run_departed(2-4), where a = client_closed])
       (simp_all add: run_departed(1) run_departed_def send_response_def set_worker_def set_req_def)
next
  case (run_early k i resp)
  show ?thesis
    by (rule counted_run_answer[OF assms(4,5) run_early(2-4), where a = resp])
       (simp_all add: run_early(1,5) send_response_def set_req_def)
next
  case (run_finish k i resp)
  show ?thesis
    by (rule counted_run_answer[OF assms(4,5) run_finish(2-4), where a = resp])
       (simp_all add: run_finish(1,5) run_finish_def send_response_def set_worker_def set_req_def)
next
  case (run_end k i)
  show ?thesis
    by (rule counted_same[OF assms(5) running_of[OF assms(4) run_end(2,3), THEN conjunct1], where r = "(w_reqs w ! i)\<lparr>rq_sender := False\<rparr>"])
       (simp_all add: run_end(1) run_end_def set_worker_def set_req_def)
qed (use assms(5) in \<open>simp_all add: counted_def close_admission_def on_ad_def controller_tick_def Let_def set_worker_def\<close>)

section \<open>Reachable worlds\<close>

definition sound :: "'q semaphore \<Rightarrow> 'c channel \<Rightarrow> nat \<Rightarrow> nat \<Rightarrow> u64 \<Rightarrow> ('q, 'c) world \<Rightarrow> bool" where
  "sound S C cap places bcap w \<longleftrightarrow> own_ok C w \<and> conserved S C cap places bcap w \<and> counted w"

lemma sound_new:
  assumes "sem_laws S" "ch_laws C"
  shows "sound S C cap places bcap (SapiExecutor_new S C cap ms places bcap n)"
  using conserved_new[OF assms] ch_laws_new[OF assms(2)]
  by (auto simp: sound_def own_ok_def counted_def SapiExecutor_new_def holders_def worker_ok_def sum_list_replicate)

lemma sound_reached:
  assumes "reached S C (SapiExecutor_new S C cap ms places bcap n) w" "sem_laws S" "ch_laws C" "bcap \<noteq> - 1"
  shows "sound S C cap places bcap w"
  using assms(1)
proof induction
  case start
  show ?case using sound_new[OF assms(2,3)] .
next
  case (step w w')
  then show ?case
    using own_ok_wstep[OF step(2) assms(2,3)] conserved_wstep[OF step(2) assms(2,3) _ assms(4)] counted_wstep[OF step(2) assms(2,3)]
    by (simp add: sound_def)
qed

lemma full_channel_free_permit:
  assumes "conserved S C cap places bcap w" "ch_laws C" "ch_try_send C (w_chan w) m = Inl Full"
  shows "sem_available S (ad_slots (w_ad w)) = 0" "i < length (w_reqs w) \<Longrightarrow> rq_phase (w_reqs w ! i) \<noteq> Granted"
proof -
  have z: "sem_available S (ad_slots (w_ad w)) = 0" "sum_list (map slot_of (w_reqs w)) = 0"
    using assms(1) ch_laws_full[OF assms(2,3)] unfolding conserved_def by linarith+
  then show "sem_available S (ad_slots (w_ad w)) = 0" by simp
  show "rq_phase (w_reqs w ! i) \<noteq> Granted" if "i < length (w_reqs w)"
    using sum_list_entry[OF that, of slot_of] z(2) by (auto simp: slot_of_def)
qed

section \<open>A concrete server\<close>

text \<open>A counting semaphore and a bounded list queue that obey the laws.\<close>

definition ex_sem :: "(nat \<times> bool) semaphore" where
  "ex_sem = \<lparr>sem_new = (\<lambda>n. (n, False)),
     sem_try_acquire = (\<lambda>(n, closed). if closed then Inl Closed else if n = 0 then Inl NoPermits else Inr (n - 1, False)),
     sem_release = (\<lambda>(n, closed). (Suc n, closed)), sem_close = (\<lambda>(n, closed). (n, True)),
     sem_available = fst, sem_is_closed = snd\<rparr>"

definition ex_chan :: "(nat \<times> worker_request list) channel" where
  "ex_chan = \<lparr>ch_bounded = (\<lambda>n. (n, [])),
     ch_try_send = (\<lambda>(n, ms) m. if length ms < n then Inr (n, ms @ [m]) else Inl Full),
     ch_recv = (\<lambda>(n, ms). case ms of [] \<Rightarrow> None | m # rest \<Rightarrow> Some (m, (n, rest))),
     ch_items = snd, ch_cap = fst\<rparr>"

lemma ex_sem_laws: "sem_laws ex_sem"
  by (auto simp: sem_laws_def ex_sem_def)

lemma ex_chan_laws: "ch_laws ex_chan"
  by (auto simp: ch_laws_def ex_chan_def split: list.splits if_splits)

text \<open>One slot, a wait budget of 100 ms, one worker: the first request takes the slot, the second waits at
  the gate, the third finds no room for its body.\<close>

definition ex_w0 :: "(nat \<times> bool, nat \<times> worker_request list) world" where
  "ex_w0 = SapiExecutor_new ex_sem ex_chan 1 100 4 10 1"

definition ex_w3 :: "(nat \<times> bool, nat \<times> worker_request list) world" where
  "ex_w3 = execute ex_sem ex_chan 9 (execute ex_sem ex_chan 6 (execute ex_sem ex_chan 5 ex_w0))"

lemma ex_w3_reached: "reached ex_sem ex_chan ex_w0 ex_w3"
  unfolding ex_w3_def by (intro reached.step[OF _ arrive] reached.start)

text \<open>The worker takes the first request and runs it; the second is granted the slot it left.\<close>

definition ex_w7 :: "(nat \<times> bool, nat \<times> worker_request list) world" where
  "ex_w7 = (let m = \<lparr>wr_script = 0, wr_deadline = Some 100000000\<rparr> in
     worker_decide ex_sem 0 m (worker_mark 0 m (worker_claim ex_sem 0 m
       (set_worker 0 (Picked m Fresh) (ex_w3\<lparr>w_chan := (1, [])\<rparr>)))))"

definition ex_w8 :: "(nat \<times> bool, nat \<times> worker_request list) world" where
  "ex_w8 = admitting_poll ex_sem 1 (w_starts ex_w7) 100000000 ex_w7"

lemma ex_w7_reached: "reached ex_sem ex_chan ex_w0 ex_w7"
proof -
  let ?m = "\<lparr>wr_script = 0, wr_deadline = Some 100000000\<rparr>"
  let ?a = "set_worker 0 (Picked ?m Fresh) (ex_w3\<lparr>w_chan := (1, [])\<rparr>)"
  have a: "wstep ex_sem ex_chan ex_w3 ?a" by (rule recv) (code_simp+)
  have b: "wstep ex_sem ex_chan ?a (worker_claim ex_sem 0 ?m ?a)" by (rule claim) (code_simp+)
  have c: "wstep ex_sem ex_chan (worker_claim ex_sem 0 ?m ?a) (worker_mark 0 ?m (worker_claim ex_sem 0 ?m ?a))" by (rule mark) (code_simp+)
  have d: "wstep ex_sem ex_chan (worker_mark 0 ?m (worker_claim ex_sem 0 ?m ?a))
      (worker_decide ex_sem 0 ?m (worker_mark 0 ?m (worker_claim ex_sem 0 ?m ?a)))" by (rule decide) (code_simp+)
  show ?thesis unfolding ex_w7_def Let_def
    by (intro reached.step[OF _ d] reached.step[OF _ c] reached.step[OF _ b] reached.step[OF _ a] ex_w3_reached)
qed

lemma ex_w8_reached: "reached ex_sem ex_chan ex_w0 ex_w8"
  unfolding ex_w8_def by (rule reached.step[OF ex_w7_reached poll_first]) (code_simp+)

text \<open>The first request's deadline passes while the worker runs it: its side loses the claim.\<close>

definition ex_w9 :: "(nat \<times> bool, nat \<times> worker_request list) world" where
  "ex_w9 = await_deadline 0 (ex_w7\<lparr>w_now := 100000001\<rparr>)"

lemma ex_w9_reached: "reached ex_sem ex_chan ex_w0 ex_w9"
proof -
  have "wstep ex_sem ex_chan ex_w7 (ex_w7\<lparr>w_now := 100000001\<rparr>)" by (rule clock) code_simp
  then have "reached ex_sem ex_chan ex_w0 (ex_w7\<lparr>w_now := 100000001\<rparr>)" by (rule reached.step[OF ex_w7_reached])
  then show ?thesis unfolding ex_w9_def
    by (rule reached.step[OF _ timer[where at = 100000000]]) (code_simp+)
qed

section \<open>Properties\<close>

text \<open>
  C12. In every world the executor reaches, however its tasks and threads interleave, no permit, place or
  byte is lost or made up: free slot permits, messages in the channel, granted requests and workers
  deciding a pickup add up to the queue capacity; free places and parked requests to the waiting cap;
  and the byte counter is the bodies of the requests at the gate, within its cap.
\<close>

theorem executor_conserves:
  assumes "reached S C (SapiExecutor_new S C cap ms places bcap n) w" "sem_laws S" "ch_laws C" "bcap \<noteq> - 1"
  shows "slots_available S (w_ad w) + length (ch_items C (w_chan w)) + sum_list (map slot_of (w_reqs w)) + sum_list (map permit_of (w_workers w)) = cap \<and>
    sem_available S (ad_parking (w_ad w)) + sum_list (map place_of (w_reqs w)) = places \<and>
    unat (ad_bytes_held (w_ad w)) = sum_list (map bytes_of (w_reqs w)) \<and> sum_list (map bytes_of (w_reqs w)) \<le> unat bcap"
  using sound_reached[OF assms] by (auto simp: sound_def conserved_def slots_available_def)

theorem executor_conserves_witness:
  "slots_available ex_sem (w_ad ex_w3) + length (ch_items ex_chan (w_chan ex_w3)) = 1 \<and>
   sem_available ex_sem (ad_parking (w_ad ex_w3)) = 3 \<and> unat (ad_bytes_held (w_ad ex_w3)) = 6"
proof -
  have sums: "sum_list (map slot_of (w_reqs ex_w3)) = 0" "sum_list (map permit_of (w_workers ex_w3)) = 0"
    "sum_list (map place_of (w_reqs ex_w3)) = 1" "sum_list (map bytes_of (w_reqs ex_w3)) = 6" by code_simp+
  have ne: "(10 :: u64) \<noteq> - 1" by simp
  show ?thesis
    using executor_conserves[OF ex_w3_reached[unfolded ex_w0_def] ex_sem_laws ex_chan_laws ne] sums by simp
qed

text \<open>
  C13. Holding a permit means there is room: a request that was just granted a slot, on the fast path or
  after waiting, never finds the channel full, so the branch that sheds it as \<^verbatim>\<open>QueueFull\<close> is dead.
\<close>

theorem permit_implies_slot:
  assumes "reached S C (SapiExecutor_new S C cap ms places bcap n) w" "sem_laws S" "ch_laws C" "bcap \<noteq> - 1"
    and "(\<exists>ad. try_admit S (w_ad w) = Inr ad) \<or> (\<exists>i < length (w_reqs w). rq_phase (w_reqs w ! i) = Granted)"
  shows "ch_try_send C (w_chan w) m \<noteq> Inl Full"
proof
  assume full: "ch_try_send C (w_chan w) m = Inl Full"
  have c: "conserved S C cap places bcap w" using sound_reached[OF assms(1-4)] by (simp add: sound_def)
  show False
    using assms(5) full_channel_free_permit[OF c assms(3) full] try_admit_Inr(1)[OF assms(2)] by fastforce
qed

theorem permit_implies_slot_witness:
  "rq_phase (w_reqs ex_w8 ! 1) = Granted \<and> ch_try_send ex_chan (w_chan ex_w8) \<lparr>wr_script = 1, wr_deadline = Some 100000000\<rparr> \<noteq> Inl Full"
proof -
  have "rq_phase (w_reqs ex_w8 ! 1) = Granted" "1 < length (w_reqs ex_w8)" by code_simp+
  moreover have "(10 :: u64) \<noteq> - 1" by simp
  ultimately show ?thesis
    using permit_implies_slot[OF ex_w8_reached[unfolded ex_w0_def] ex_sem_laws ex_chan_laws] by blast
qed

text \<open>
  C14. A request a worker runs is that worker's alone: no other worker has it and it is not in the channel,
  its own side has not answered it, and with a deadline it was taken no later than that deadline.
\<close>

theorem running_request_owned:
  assumes "reached S C (SapiExecutor_new S C cap ms places bcap n) w" "sem_laws S" "ch_laws C" "bcap \<noteq> - 1"
    and "k < length (w_workers w)" "w_workers w ! k = Running i"
  shows "(\<forall>m \<in> set (ch_items C (w_chan w)). wr_script m \<noteq> i) \<and>
    (\<forall>j < length (w_workers w). j \<noteq> k \<longrightarrow> held_by i (w_workers w ! j) = 0) \<and>
    (\<forall>resp. rq_phase (w_reqs w ! i) = Settled resp \<longrightarrow> rq_answer (w_reqs w ! i) = Some resp) \<and>
    (\<forall>at. rq_deadline (w_reqs w ! i) = Some at \<longrightarrow> (\<exists>t \<le> at. cs_taken_at (rq_cancel (w_reqs w ! i)) = Some t))"
proof -
  have ok: "own_ok C w" using sound_reached[OF assms(1-4)] by (simp add: sound_def)
  have h: "holders C i w \<le> 1" using ok by (simp add: own_ok_def)
  have one: "held_by i (w_workers w ! k) = 1" using assms(6) by simp
  have "(\<forall>m \<in> set (ch_items C (w_chan w)). wr_script m \<noteq> i)"
  proof -
    have "1 \<le> sum_list (map (held_by i) (w_workers w))" using sum_list_entry[OF assms(5), of "held_by i"] one by simp
    then have "length (filter (\<lambda>m. wr_script m = i) (ch_items C (w_chan w))) = 0" using h unfolding holders_def by linarith
    then show ?thesis by (simp add: filter_empty_conv)
  qed
  moreover have "held_by i (w_workers w ! j) = 0" if "j < length (w_workers w)" "j \<noteq> k" for j
    using sum_list_two[OF assms(5) that(1) that(2)[symmetric], of "held_by i"] one h by (simp add: holders_def)
  ultimately show ?thesis using running_of[OF ok assms(5,6)] by (auto simp: running_ok_def)
qed

theorem running_request_owned_witness:
  "w_workers ex_w9 ! 0 = Running 0 \<and> (\<exists>t \<le> 100000000. cs_taken_at (rq_cancel (w_reqs ex_w9 ! 0)) = Some t)"
proof -
  have "w_workers ex_w9 ! 0 = Running 0" "0 < length (w_workers ex_w9)" "rq_deadline (w_reqs ex_w9 ! 0) = Some 100000000" by code_simp+
  moreover have "(10 :: u64) \<noteq> - 1" by simp
  ultimately show ?thesis
    using running_request_owned[OF ex_w9_reached[unfolded ex_w0_def] ex_sem_laws ex_chan_laws, of 0 0] by blast
qed

text \<open>
  C15. The refusal counters are exact: each counts the requests whose one answer carries its reason, whether
  the gate, the waiting side or a worker refused them; nothing is counted twice and nothing is answered
  as a refusal uncounted.
\<close>

theorem refusals_counted:
  assumes "reached S C (SapiExecutor_new S C cap ms places bcap n) w" "sem_laws S" "ch_laws C" "bcap \<noteq> - 1"
  shows "w_refused w s = length (filter (\<lambda>r. \<exists>a. answer_of r = Some a \<and> sr_shed_reason a = Some s) (w_reqs w))"
proof -
  have "shed_count s r = (if \<exists>a. answer_of r = Some a \<and> sr_shed_reason a = Some s then 1 else 0)" for r
    by (auto simp: shed_count_def split: option.splits)
  then have "sum_list (map (shed_count s) rs) = length (filter (\<lambda>r. \<exists>a. answer_of r = Some a \<and> sr_shed_reason a = Some s) rs)" for rs
    by (induction rs) auto
  then show ?thesis using sound_reached[OF assms] by (simp add: sound_def counted_def)
qed

theorem refusals_counted_witness:
  "w_refused ex_w3 WaitingBytes = 1 \<and>
   length (filter (\<lambda>r. \<exists>a. answer_of r = Some a \<and> sr_shed_reason a = Some WaitingBytes) (w_reqs ex_w3)) = 1"
proof -
  have "w_refused ex_w3 WaitingBytes = 1" by code_simp
  moreover have "(10 :: u64) \<noteq> - 1" by simp
  ultimately show ?thesis
    using refusals_counted[OF ex_w3_reached[unfolded ex_w0_def] ex_sem_laws ex_chan_laws, of WaitingBytes] by simp
qed

text \<open>
  C16. The side that lost the claim does not wait for nothing: as long as its answer's sender is alive, a
  worker past the claim has the request, deciding it or running it.
\<close>

theorem lost_claim_has_worker:
  assumes "reached S C (SapiExecutor_new S C cap ms places bcap n) w" "sem_laws S" "ch_laws C" "bcap \<noteq> - 1"
    and "i < length (w_reqs w)" "rq_phase (w_reqs w ! i) = AwaitAnswer" "rq_deadline (w_reqs w ! i) = Some at" "rq_sender (w_reqs w ! i)"
  shows "\<exists>k < length (w_workers w). w_workers w ! k = Running i \<or>
    (\<exists>m. wr_script m = i \<and> (w_workers w ! k = Picked m Claimed \<or> w_workers w ! k = Picked m Marked))"
proof -
  have ok: "own_ok C w" using sound_reached[OF assms(1-4)] by (simp add: sound_def)
  then have "holders C i w = 1" using assms(5,6,8) by (simp add: own_ok_def awaiting_def)
  moreover have msg: "wr_script m \<noteq> i" if "msg_ok (w_reqs w) m" for m
    using that assms(6,7) by (auto simp: msg_ok_def queued_ok_def)
  then have "filter (\<lambda>m. wr_script m = i) (ch_items C (w_chan w)) = []"
    using ok by (auto simp: own_ok_def filter_empty_conv)
  ultimately have "sum_list (map (held_by i) (w_workers w)) \<noteq> 0" by (simp add: holders_def)
  then obtain x where x: "x \<in> set (w_workers w)" "held_by i x \<noteq> 0" by (auto simp: sum_list_eq_0_iff)
  then obtain k where k: "k < length (w_workers w)" "w_workers w ! k = x" by (auto simp: in_set_conv_nth)
  show ?thesis
  proof (cases x)
    case (Picked m st)
    then have "st \<noteq> Fresh" using msg[of m] worker_of[OF ok k] x(2) by (auto simp: worker_ok_def split: if_splits)
    then show ?thesis using Picked k x(2) by (cases st) (auto split: if_splits)
  qed (use k x(2) in \<open>auto split: if_splits\<close>)
qed

theorem lost_claim_has_worker_witness:
  "rq_phase (w_reqs ex_w9 ! 0) = AwaitAnswer \<and>
   (\<exists>k < length (w_workers ex_w9). w_workers ex_w9 ! k = Running 0 \<or>
     (\<exists>m. wr_script m = 0 \<and> (w_workers ex_w9 ! k = Picked m Claimed \<or> w_workers ex_w9 ! k = Picked m Marked)))"
proof -
  have "0 < length (w_reqs ex_w9)" "rq_phase (w_reqs ex_w9 ! 0) = AwaitAnswer" "rq_deadline (w_reqs ex_w9 ! 0) = Some 100000000"
    "rq_sender (w_reqs ex_w9 ! 0)" by code_simp+
  moreover have "(10 :: u64) \<noteq> - 1" by simp
  ultimately show ?thesis
    using lost_claim_has_worker[OF ex_w9_reached[unfolded ex_w0_def] ex_sem_laws ex_chan_laws, of 0 100000000] by blast
qed

text \<open>
  Once admission is closed every arrival is answered at once with the shutdown response, counted as such,
  and neither parks nor enters the channel; a request at the gate is shed the same way at its next poll.
\<close>

lemma closed_gate_refuses:
  assumes "sem_laws S" "i < length (w_reqs w)" "rq_phase (w_reqs w ! i) = Parked"
  shows "(\<exists>r. w_reqs (execute S C body (close_admission S w)) = w_reqs w @ [r] \<and> rq_phase r = Settled shutting_down_response) \<and>
    w_ad (execute S C body (close_admission S w)) = w_ad (close_admission S w) \<and>
    w_chan (execute S C body (close_admission S w)) = w_chan w \<and>
    w_refused (execute S C body (close_admission S w)) ShuttingDown = Suc (w_refused w ShuttingDown) \<and>
    rq_phase (w_reqs (admitting_poll S i starts at (close_admission S w)) ! i) = Settled shutting_down_response"
proof -
  have closed: "try_admit S (w_ad (close_admission S w)) = Inl ShuttingDown"
    using sem_laws_close[OF assms(1)] by (intro try_admit_closed[OF assms(1)]) (simp add: close_admission_def on_ad_def Admission_close_def)
  have "admit S (w_now (close_admission S w)) at (w_ad (close_admission S w)) = Some (Shed ShuttingDown, drop_parking S (w_ad (close_admission S w)))"
    using closed by (simp add: admit_def)
  then have "rq_phase (w_reqs (admitting_poll S i starts at (close_admission S w)) ! i) = Settled shutting_down_response"
    using assms(2) by (simp add: admitting_poll_def Let_def set_req_def request_admission_refused_def close_admission_def on_ad_def shed_response_def)
  then show ?thesis
    using closed
    by (auto simp: execute_def Let_def push_req_def request_admission_refused_def close_admission_def on_ad_def shed_response_def split: prod.splits)
qed

lemma closed_gate_refuses_witness:
  "rq_phase (w_reqs (admitting_poll ex_sem 1 0 100000000 (close_admission ex_sem ex_w3)) ! 1) = Settled shutting_down_response"
proof -
  have "1 < length (w_reqs ex_w3)" "rq_phase (w_reqs ex_w3 ! 1) = Parked" by code_simp+
  then show ?thesis using closed_gate_refuses[OF ex_sem_laws] by blast
qed

end
