(* ===== verification/Shared_Registry.thy ===== *)
theory Shared_Registry
  imports Ox_Words
begin

text \<open>
  The process-wide store of \<^verbatim>\<open>Shared\*\<close> objects
  (\<^verbatim>\<open>src/plugins/ox_shared/registry.rs\<close> and \<^verbatim>\<open>error.rs\<close>).

  An \<open>entry\<close> lives in a cell of the heap; a strong \<^verbatim>\<open>Arc<Entry>\<close> is one unit of the
  cell's count, a \<^verbatim>\<open>Weak<Entry>\<close> the cell's address.  The registry's index holds
  weak references only, so it never keeps an entry alive: when the last strong
  reference goes, \<^verbatim>\<open>Entry::drop\<close> runs and takes the entry out of the pool index, the
  id index, the count and the byte total, one atomic operation after the other.
  \<^verbatim>\<open>SharedRegistry::insert\<close> reserves a place in the count and in the byte total before
  it publishes the entry, and takes the reservations back when a cap is exceeded.

  The counters are 64-bit words.  Every atomic operation of the source is one
  definition here, and \<open>rstep\<close> lets the operations of any number of threads
  interleave between them.
\<close>

section \<open>Types and errors\<close>

datatype SharedType = Counter | Flag | Once | Atomic | Mutex | Channel | Map | Pool

fun tag_of :: "SharedType \<Rightarrow> nat" where
  "tag_of Counter = 10"
| "tag_of Flag = 11"
| "tag_of Once = 12"
| "tag_of Atomic = 13"
| "tag_of Mutex = 40"
| "tag_of Channel = 31"
| "tag_of Map = 20"
| "tag_of Pool = 50"

definition from_tag :: "nat \<Rightarrow> SharedType option" where
  "from_tag t =
     (if t = 10 then Some Counter
      else if t = 11 then Some Flag
      else if t = 12 then Some Once
      else if t = 13 then Some Atomic
      else if t = 40 then Some Mutex
      else if t = 31 then Some Channel
      else if t = 20 then Some Map
      else if t = 50 then Some Pool
      else None)"

datatype SharedError =
    Generic | StaleHandle | TypeError | CapacityExceeded | Poisoned | Closed | Timeout | Deadlock
  | Cycle | Uninitialized | ValueTooLarge | Cancelled | Panicked

fun error_code :: "SharedError \<Rightarrow> int" where
  "error_code Generic = -1"
| "error_code StaleHandle = -2"
| "error_code TypeError = -3"
| "error_code CapacityExceeded = -4"
| "error_code Poisoned = -5"
| "error_code Closed = -6"
| "error_code Timeout = -7"
| "error_code Deadlock = -8"
| "error_code Cycle = -9"
| "error_code Uninitialized = -10"
| "error_code ValueTooLarge = -11"
| "error_code Cancelled = -12"
| "error_code Panicked = -99"

lemma from_tag_tag_of [simp]: "from_tag (tag_of t) = Some t"
  by (cases t) (simp_all add: from_tag_def)

lemma tag_of_byte [simp]: "tag_of t < 256"
  by (cases t) simp_all

lemma from_tag_SomeD: "from_tag n = Some t \<Longrightarrow> n = tag_of t"
  by (auto simp: from_tag_def split: if_splits)

lemma error_code_inject: "error_code a = error_code b \<longleftrightarrow> a = b"
  by (cases a; cases b) simp_all

lemma error_code_negative: "error_code e < 0"
  by (cases e) simp_all

section \<open>State\<close>

type_synonym SharedId = u64

record entry =
  e_id :: SharedId
  e_tag :: SharedType
  e_mem :: u64
  e_ops :: u64

text \<open>\<^verbatim>\<open>Live n\<close>: \<open>n\<close> strong references.  The other stages are the points of \<^verbatim>\<open>Entry::drop\<close>, each
  named after the operation that comes next.\<close>

datatype stage = Live nat | Unpooling | Unregistering | Uncounting | Unbooking | Freed

record cell =
  c_entry :: entry
  c_stage :: stage

record config =
  max_entries :: u64
  max_bytes :: u64
  metrics_enabled :: bool

record registry =
  entries :: "SharedId \<rightharpoonup> nat"
  pools :: "SharedId \<rightharpoonup> nat"
  next_id :: u64
  total_bytes :: u64
  total_entries :: u64
  heap :: "cell list"

definition ENTRY_FIXED_OVERHEAD :: u64 where
  "ENTRY_FIXED_OVERHEAD = 200"

text \<open>\<^verbatim>\<open>random_id_seed\<close>: four random bytes as a number, at least 1; 1 when the system has none to
  give.\<close>

definition random_id_seed :: "u32 option \<Rightarrow> u64" where
  "random_id_seed r = (case r of None \<Rightarrow> 1 | Some raw \<Rightarrow> max (ucast raw) 1)"

definition init_registry :: "u32 option \<Rightarrow> registry" where
  "init_registry r = \<lparr>entries = Map.empty, pools = Map.empty, next_id = random_id_seed r,
     total_bytes = 0, total_entries = 0, heap = []\<rparr>"

section \<open>Strong and weak references\<close>

definition set_stage :: "nat \<Rightarrow> stage \<Rightarrow> registry \<Rightarrow> registry" where
  "set_stage p s g = g\<lparr>heap := (heap g)[p := (heap g ! p)\<lparr>c_stage := s\<rparr>]\<rparr>"

fun strong :: "stage \<Rightarrow> nat" where
  "strong (Live n) = n"
| "strong _ = 0"

text \<open>\<^verbatim>\<open>Arc::clone\<close>, and \<^verbatim>\<open>Weak::upgrade\<close>, which fails once the count has reached zero.\<close>

definition retain :: "nat \<Rightarrow> registry \<Rightarrow> registry" where
  "retain p g = set_stage p (Live (Suc (strong (c_stage (heap g ! p))))) g"

definition upgrade :: "nat \<Rightarrow> registry \<Rightarrow> (nat \<times> registry) option" where
  "upgrade p g =
     (if p < length (heap g) \<and> 0 < strong (c_stage (heap g ! p)) then Some (p, retain p g) else None)"

text \<open>Dropping one \<^verbatim>\<open>Arc<Entry>\<close>; the last one starts \<^verbatim>\<open>Entry::drop\<close>.\<close>

definition release :: "nat \<Rightarrow> registry \<Rightarrow> registry" where
  "release p g =
     (case c_stage (heap g ! p) of
        Live n \<Rightarrow> set_stage p (if n \<le> 1 then Unpooling else Live (n - 1)) g
      | _ \<Rightarrow> g)"

section \<open>Dropping an entry\<close>

definition drop_pools :: "nat \<Rightarrow> registry \<Rightarrow> registry" where
  "drop_pools p g =
     (let e = c_entry (heap g ! p);
          g' = (if e_tag e = Pool then g\<lparr>pools := (pools g)(e_id e := None)\<rparr> else g) in
      set_stage p Unregistering g')"

definition drop_index :: "nat \<Rightarrow> registry \<Rightarrow> registry" where
  "drop_index p g =
     set_stage p Uncounting (g\<lparr>entries := (entries g)(e_id (c_entry (heap g ! p)) := None)\<rparr>)"

definition drop_count :: "nat \<Rightarrow> registry \<Rightarrow> registry" where
  "drop_count p g = set_stage p Unbooking (g\<lparr>total_entries := total_entries g - 1\<rparr>)"

definition drop_bytes :: "nat \<Rightarrow> registry \<Rightarrow> registry" where
  "drop_bytes p g =
     set_stage p Freed (g\<lparr>total_bytes := total_bytes g - e_mem (c_entry (heap g ! p))\<rparr>)"

definition Entry_drop :: "nat \<Rightarrow> registry \<Rightarrow> registry" where
  "Entry_drop p g = drop_bytes p (drop_count p (drop_index p (drop_pools p g)))"

section \<open>Insert\<close>

definition booked_size :: "u64 \<Rightarrow> u64" where
  "booked_size inner_mem = sat_add inner_mem ENTRY_FIXED_OVERHEAD"

text \<open>Each reservation answers whether it stays within its cap; the caller takes it back if not.\<close>

definition reserve_entry :: "config \<Rightarrow> registry \<Rightarrow> bool \<times> registry" where
  "reserve_entry cf g =
     (let new_count = total_entries g + 1 in
      (\<not> max_entries cf < new_count, g\<lparr>total_entries := new_count\<rparr>))"

definition unreserve_entry :: "registry \<Rightarrow> registry" where
  "unreserve_entry g = g\<lparr>total_entries := total_entries g - 1\<rparr>"

definition reserve_bytes :: "config \<Rightarrow> u64 \<Rightarrow> registry \<Rightarrow> bool \<times> registry" where
  "reserve_bytes cf mem g =
     (let new_bytes = total_bytes g + mem in
      (\<not> max_bytes cf < new_bytes, g\<lparr>total_bytes := new_bytes\<rparr>))"

definition unreserve_bytes :: "u64 \<Rightarrow> registry \<Rightarrow> registry" where
  "unreserve_bytes mem g = g\<lparr>total_bytes := total_bytes g - mem\<rparr>"

definition publish :: "SharedType \<Rightarrow> u64 \<Rightarrow> registry \<Rightarrow> nat \<times> registry" where
  "publish tag mem g =
     (let i = next_id g;
          p = length (heap g);
          e = \<lparr>e_id = i, e_tag = tag, e_mem = mem, e_ops = 0\<rparr> in
      (p, g\<lparr>next_id := i + 1,
            heap := heap g @ [\<lparr>c_entry = e, c_stage = Live 1\<rparr>],
            entries := (entries g)(i \<mapsto> p),
            pools := (if tag = Pool then (pools g)(i \<mapsto> p) else pools g)\<rparr>))"

definition insert_entry :: "config \<Rightarrow> SharedType \<Rightarrow> u64 \<Rightarrow> registry \<Rightarrow> (SharedError + nat) \<times> registry" where
  "insert_entry cf tag inner_mem g =
     (let mem = booked_size inner_mem in
      case reserve_entry cf g of
        (False, g1) \<Rightarrow> (Inl CapacityExceeded, unreserve_entry g1)
      | (True, g1) \<Rightarrow>
          (case reserve_bytes cf mem g1 of
             (False, g2) \<Rightarrow> (Inl CapacityExceeded, unreserve_entry (unreserve_bytes mem g2))
           | (True, g2) \<Rightarrow> (case publish tag mem g2 of (p, g3) \<Rightarrow> (Inr p, g3))))"

section \<open>Lookup and accounting\<close>

definition lookup :: "SharedId \<Rightarrow> registry \<Rightarrow> (SharedError + nat) \<times> registry" where
  "lookup i g =
     (case entries g i of
        None \<Rightarrow> (Inl StaleHandle, g)
      | Some p \<Rightarrow> (case upgrade p g of None \<Rightarrow> (Inl StaleHandle, g) | Some (q, g') \<Rightarrow> (Inr q, g')))"

definition record_op :: "config \<Rightarrow> nat \<Rightarrow> registry \<Rightarrow> registry" where
  "record_op cf p g =
     (if metrics_enabled cf
      then g\<lparr>heap := (heap g)[p := (heap g ! p)\<lparr>c_entry := (c_entry (heap g ! p))
                                    \<lparr>e_ops := e_ops (c_entry (heap g ! p)) + 1\<rparr>\<rparr>]\<rparr>
      else g)"

definition set_mem :: "nat \<Rightarrow> u64 \<Rightarrow> registry \<Rightarrow> registry" where
  "set_mem p m g =
     g\<lparr>heap := (heap g)[p := (heap g ! p)\<lparr>c_entry := (c_entry (heap g ! p))\<lparr>e_mem := m\<rparr>\<rparr>]\<rparr>"

definition mem_of :: "nat \<Rightarrow> registry \<Rightarrow> u64" where
  "mem_of p g = e_mem (c_entry (heap g ! p))"

definition grow_total :: "u64 \<Rightarrow> registry \<Rightarrow> registry" where
  "grow_total d g = g\<lparr>total_bytes := total_bytes g + d\<rparr>"

definition shrink_total :: "u64 \<Rightarrow> registry \<Rightarrow> registry" where
  "shrink_total d g = g\<lparr>total_bytes := sat_sub (total_bytes g) d\<rparr>"

text \<open>\<^verbatim>\<open>Entry::adjust_mem_bytes\<close>: the entry's own figure first, then the registry's total.\<close>

definition Entry_adjust_mem_bytes :: "nat \<Rightarrow> int \<Rightarrow> registry \<Rightarrow> registry" where
  "Entry_adjust_mem_bytes p delta g =
     (if delta = 0 then g
      else if 0 < delta then
        (let d = word_of_int delta in grow_total d (set_mem p (mem_of p g + d) g))
      else
        (let d = word_of_int (- delta) in shrink_total d (set_mem p (sat_sub (mem_of p g) d) g)))"

definition adjust_mem_bytes :: "SharedId \<Rightarrow> int \<Rightarrow> registry \<Rightarrow> registry" where
  "adjust_mem_bytes i delta g =
     (if delta = 0 then g
      else case entries g i of
             None \<Rightarrow> g
           | Some p \<Rightarrow> (case upgrade p g of
                          None \<Rightarrow> g
                        | Some (q, g') \<Rightarrow> release q (Entry_adjust_mem_bytes q delta g')))"

text \<open>The live entries among the indexed ones, in the order of the given keys (the map's own order
  is not fixed); each is handed out as a strong reference.\<close>

fun upgrade_all :: "nat list \<Rightarrow> registry \<Rightarrow> nat list \<times> registry" where
  "upgrade_all [] g = ([], g)"
| "upgrade_all (p # ps) g =
     (case upgrade p g of
        None \<Rightarrow> upgrade_all ps g
      | Some (q, g1) \<Rightarrow> (case upgrade_all ps g1 of (qs, g2) \<Rightarrow> (q # qs, g2)))"

definition iter_entries :: "SharedId list \<Rightarrow> registry \<Rightarrow> nat list \<times> registry" where
  "iter_entries keys g = upgrade_all (List.map_filter (entries g) keys) g"

section \<open>Any number of threads\<close>

text \<open>Where a thread stands in \<^verbatim>\<open>insert\<close> or in an adjustment of an entry it holds, between two
  atomic operations.\<close>

datatype pc =
    Idle
  | Counted SharedType u64
  | Overcount
  | Booked SharedType u64
  | Overbook u64
  | Holding nat
  | Growing nat u64
  | Shrinking nat u64

record rworld =
  reg :: registry
  pcs :: "pc list"

fun cell_count :: "cell \<Rightarrow> nat" where
  "cell_count c = (case c_stage c of Unbooking \<Rightarrow> 0 | Freed \<Rightarrow> 0 | _ \<Rightarrow> 1)"

fun cell_bytes :: "cell \<Rightarrow> nat" where
  "cell_bytes c = (if c_stage c = Freed then 0 else unat (e_mem (c_entry c)))"

fun pc_granted :: "pc \<Rightarrow> nat" where
  "pc_granted (Counted _ _) = 1"
| "pc_granted (Booked _ _) = 1"
| "pc_granted (Overbook _) = 1"
| "pc_granted _ = 0"

fun pc_over :: "pc \<Rightarrow> nat" where
  "pc_over Overcount = 1"
| "pc_over _ = 0"

fun pc_bytes :: "pc \<Rightarrow> nat" where
  "pc_bytes (Booked _ m) = unat m"
| "pc_bytes (Overbook m) = unat m"
| "pc_bytes (Shrinking _ d) = unat d"
| "pc_bytes _ = 0"

fun pc_grow :: "nat \<Rightarrow> pc \<Rightarrow> nat" where
  "pc_grow p (Growing q d) = (if q = p then unat d else 0)"
| "pc_grow p _ = 0"

fun pc_holds :: "nat \<Rightarrow> pc \<Rightarrow> nat" where
  "pc_holds p (Holding q) = (if q = p then 1 else 0)"
| "pc_holds p (Growing q _) = (if q = p then 1 else 0)"
| "pc_holds p (Shrinking q _) = (if q = p then 1 else 0)"
| "pc_holds p _ = 0"

definition granted :: "rworld \<Rightarrow> nat" where
  "granted w = sum_list (map cell_count (heap (reg w))) + sum_list (map pc_granted (pcs w))"

definition byte_load :: "rworld \<Rightarrow> nat" where
  "byte_load w = sum_list (map cell_bytes (heap (reg w))) + sum_list (map pc_bytes (pcs w))"

definition growing :: "nat \<Rightarrow> rworld \<Rightarrow> nat" where
  "growing p w = sum_list (map (pc_grow p) (pcs w))"

definition holders :: "nat \<Rightarrow> rworld \<Rightarrow> nat" where
  "holders p w = sum_list (map (pc_holds p) (pcs w))"

definition set_pc :: "nat \<Rightarrow> pc \<Rightarrow> registry \<Rightarrow> rworld \<Rightarrow> rworld" where
  "set_pc t x g w = w\<lparr>reg := g, pcs := (pcs w)[t := x]\<rparr>"

definition stage_at :: "nat \<Rightarrow> rworld \<Rightarrow> stage \<Rightarrow> bool" where
  "stage_at p w s \<longleftrightarrow> p < length (heap (reg w)) \<and> c_stage (heap (reg w) ! p) = s"

definition pc_at :: "nat \<Rightarrow> rworld \<Rightarrow> pc \<Rightarrow> bool" where
  "pc_at t w x \<longleftrightarrow> t < length (pcs w) \<and> pcs w ! t = x"

text \<open>
  One atomic operation of one thread.  The bytes accounted for are bytes of one
  address space, so they fit in a word (\<open>byte_load\<close> in the rules that add to them), and so do
  the ids handed out.  A container takes off an entry at most what it has booked for
  it and the total has received, and a thread that adjusts an entry holds a strong
  reference to it, which the owners of the other references cannot release.
\<close>

inductive rstep :: "config \<Rightarrow> rworld \<Rightarrow> rworld \<Rightarrow> bool" for cf where
  count_ok: "pc_at t w Idle \<Longrightarrow> reserve_entry cf (reg w) = (True, g) \<Longrightarrow>
     rstep cf w (set_pc t (Counted tag m) g w)"
| count_over: "pc_at t w Idle \<Longrightarrow> reserve_entry cf (reg w) = (False, g) \<Longrightarrow>
     rstep cf w (set_pc t Overcount g w)"
| uncount: "pc_at t w Overcount \<Longrightarrow> rstep cf w (set_pc t Idle (unreserve_entry (reg w)) w)"
| book_ok: "pc_at t w (Counted tag m) \<Longrightarrow> byte_load w + unat (booked_size m) < 2 ^ 64 \<Longrightarrow>
     reserve_bytes cf (booked_size m) (reg w) = (True, g) \<Longrightarrow>
     rstep cf w (set_pc t (Booked tag (booked_size m)) g w)"
| book_over: "pc_at t w (Counted tag m) \<Longrightarrow> byte_load w + unat (booked_size m) < 2 ^ 64 \<Longrightarrow>
     reserve_bytes cf (booked_size m) (reg w) = (False, g) \<Longrightarrow>
     rstep cf w (set_pc t (Overbook (booked_size m)) g w)"
| unbook: "pc_at t w (Overbook m) \<Longrightarrow> rstep cf w (set_pc t Overcount (unreserve_bytes m (reg w)) w)"
| publishing: "pc_at t w (Booked tag m) \<Longrightarrow> unat (next_id (reg w)) + 1 < 2 ^ 64 \<Longrightarrow>
     publish tag m (reg w) = (p, g) \<Longrightarrow> rstep cf w (set_pc t Idle g w)"
| upgrading: "upgrade p (reg w) = Some (q, g) \<Longrightarrow> rstep cf w (w\<lparr>reg := g\<rparr>)"
| releasing: "stage_at p w (Live n) \<Longrightarrow> holders p w < n \<Longrightarrow>
     rstep cf w (w\<lparr>reg := release p (reg w)\<rparr>)"
| unpool: "stage_at p w Unpooling \<Longrightarrow> rstep cf w (w\<lparr>reg := drop_pools p (reg w)\<rparr>)"
| unindex: "stage_at p w Unregistering \<Longrightarrow> rstep cf w (w\<lparr>reg := drop_index p (reg w)\<rparr>)"
| discount: "stage_at p w Uncounting \<Longrightarrow> rstep cf w (w\<lparr>reg := drop_count p (reg w)\<rparr>)"
| unbooking: "stage_at p w Unbooking \<Longrightarrow> rstep cf w (w\<lparr>reg := drop_bytes p (reg w)\<rparr>)"
| hold: "pc_at t w Idle \<Longrightarrow> upgrade p (reg w) = Some (q, g) \<Longrightarrow> rstep cf w (set_pc t (Holding q) g w)"
| unhold: "pc_at t w (Holding p) \<Longrightarrow> rstep cf w (set_pc t Idle (release p (reg w)) w)"
| grow: "pc_at t w (Holding p) \<Longrightarrow> byte_load w + unat d < 2 ^ 64 \<Longrightarrow>
     rstep cf w (set_pc t (Growing p d) (set_mem p (mem_of p (reg w) + d) (reg w)) w)"
| grown: "pc_at t w (Growing p d) \<Longrightarrow> rstep cf w (set_pc t (Holding p) (grow_total d (reg w)) w)"
| shrink: "pc_at t w (Holding p) \<Longrightarrow> unat d + growing p w \<le> unat (mem_of p (reg w)) \<Longrightarrow>
     rstep cf w (set_pc t (Shrinking p d) (set_mem p (sat_sub (mem_of p (reg w)) d) (reg w)) w)"
| shrunk: "pc_at t w (Shrinking p d) \<Longrightarrow> rstep cf w (set_pc t (Holding p) (shrink_total d (reg w)) w)"
| recording: "stage_at p w (Live n) \<Longrightarrow> rstep cf w (w\<lparr>reg := record_op cf p (reg w)\<rparr>)"

definition rstart :: "u32 option \<Rightarrow> nat \<Rightarrow> rworld" where
  "rstart r threads = \<lparr>reg = init_registry r, pcs = replicate threads Idle\<rparr>"

inductive rreached :: "config \<Rightarrow> u32 option \<Rightarrow> nat \<Rightarrow> rworld \<Rightarrow> bool" for cf r threads where
  start: "rreached cf r threads (rstart r threads)"
| step: "rreached cf r threads w \<Longrightarrow> rstep cf w w' \<Longrightarrow> rreached cf r threads w'"

section \<open>What a table update changes\<close>

lemma set_pc_sel [simp]:
  "reg (set_pc t x g w) = g" "pcs (set_pc t x g w) = (pcs w)[t := x]"
  by (simp_all add: set_pc_def)

lemma set_stage_sel [simp]:
  "heap (set_stage p s g) = (heap g)[p := (heap g ! p)\<lparr>c_stage := s\<rparr>]"
  "entries (set_stage p s g) = entries g"
  "pools (set_stage p s g) = pools g"
  "next_id (set_stage p s g) = next_id g"
  "total_bytes (set_stage p s g) = total_bytes g"
  "total_entries (set_stage p s g) = total_entries g"
  by (simp_all add: set_stage_def)

lemmas reg_ops = reserve_entry_def unreserve_entry_def reserve_bytes_def unreserve_bytes_def
  publish_def release_def drop_pools_def drop_index_def drop_count_def drop_bytes_def
  grow_total_def shrink_total_def set_mem_def retain_def record_op_def Let_def

lemma upgradeE:
  assumes "upgrade p g = Some (q, g')"
  obtains n where "q = p" "p < length (heap g)" "c_stage (heap g ! p) = Live n" "0 < n" "g' = retain p g"
  using assms by (cases "c_stage (heap g ! p)") (auto simp: upgrade_def split: if_splits)

text \<open>What a thread's move and a cell's move take off a sum and add to it.\<close>

lemma pcs_moved:
  assumes "pc_at t w x"
  shows "sum_list (map f ((pcs w)[t := y])) + f x = sum_list (map f (pcs w)) + (f y :: nat)"
  using assms sum_list_update_nat[of t "pcs w" f y] by (auto simp: pc_at_def)

lemma cell_moved:
  assumes "p < length (heap g)"
  shows "sum_list (map f ((heap g)[p := c])) + f (heap g ! p) = sum_list (map f (heap g)) + (f c :: nat)"
  using assms by (rule sum_list_update_nat)

lemma cell_same:
  assumes "p < length (heap g)" "f c = f (heap g ! p)"
  shows "sum_list (map f ((heap g)[p := c])) = (sum_list (map f (heap g)) :: nat)"
  using cell_moved[OF assms(1), of f c] assms(2) by simp

section \<open>Strong references held by threads\<close>

definition hcell :: "nat \<Rightarrow> rworld \<Rightarrow> bool" where
  "hcell q w \<longleftrightarrow>
     (if q < length (heap (reg w))
      then holders q w \<le> strong (c_stage (heap (reg w) ! q)) \<and> c_stage (heap (reg w) ! q) \<noteq> Live 0 \<and>
           growing q w \<le> unat (mem_of q (reg w))
      else holders q w = 0)"

lemma growing_held: "holders p w = 0 \<Longrightarrow> growing p w = 0"
proof -
  have "(\<forall>x\<in>set xs. pc_holds p x = 0) \<Longrightarrow> (\<forall>x\<in>set xs. pc_grow p x = 0)" for xs
    by (metis pc_grow.simps(1,2,3,4,5,6,7,8) pc_holds.simps(2) pc.exhaust zero_neq_one)
  then show "holders p w = 0 \<Longrightarrow> growing p w = 0"
    by (simp add: growing_def holders_def sum_list_eq_0_iff)
qed

lemma pc_at_held: "pc_at t w x \<Longrightarrow> pc_holds p x \<le> holders p w"
  using sum_list_entry[of t "pcs w" "pc_holds p"] by (auto simp: pc_at_def holders_def)

lemma holders_set:
  "pc_at t w x \<Longrightarrow> holders q (set_pc t y g w) + pc_holds q x = holders q w + pc_holds q y"
  unfolding holders_def set_pc_sel by (rule pcs_moved)

lemma growing_set:
  "pc_at t w x \<Longrightarrow> growing q (set_pc t y g w) + pc_grow q x = growing q w + pc_grow q y"
  unfolding growing_def set_pc_sel by (rule pcs_moved)

lemma reg_only [simp]: "holders q (w\<lparr>reg := g\<rparr>) = holders q w" "growing q (w\<lparr>reg := g\<rparr>) = growing q w"
  by (simp_all add: holders_def growing_def)

text \<open>A move that keeps the cells, and one that changes the stage of a cell nobody's thread
  holds.\<close>

lemma hcell_keep:
  assumes "hcell q w" "heap (reg w') = heap (reg w)" "holders q w' = holders q w" "growing q w' \<le> growing q w"
  shows "hcell q w'"
  using assms by (auto simp: hcell_def mem_of_def)

lemma held_live:
  assumes "\<forall>q. hcell q w" "0 < holders p w"
  obtains n where "p < length (heap (reg w))" "c_stage (heap (reg w) ! p) = Live n" "holders p w \<le> n"
proof -
  have h: "hcell p w" using assms(1) by blast
  then have p: "p < length (heap (reg w))" using assms(2) by (auto simp: hcell_def split: if_splits)
  with h assms(2) show thesis
    by (cases "c_stage (heap (reg w) ! p)") (auto simp: hcell_def intro: that)
qed

lemma hcell_stage:
  assumes q: "hcell q w" and p: "p < length (heap (reg w))"
    and heap: "heap (reg w') = (heap (reg w))[p := (heap (reg w) ! p)\<lparr>c_stage := s\<rparr>]"
    and pcs: "growing q w' = growing q w" "q \<noteq> p \<Longrightarrow> holders q w' = holders q w"
    and s: "s \<noteq> Live 0" "q = p \<Longrightarrow> holders p w' \<le> strong s"
  shows "hcell q w'"
  using assms by (cases "q = p") (auto simp: hcell_def mem_of_def)

lemma hcell_mem:
  assumes q: "hcell q w" and p: "p < length (heap (reg w))"
    and heap: "heap (reg w') = (heap (reg w))[p := (heap (reg w) ! p)\<lparr>c_entry := e\<rparr>]"
    and holders: "holders q w' = holders q w"
    and gr: "q \<noteq> p \<Longrightarrow> growing q w' = growing q w" "q = p \<Longrightarrow> growing p w' \<le> unat (e_mem e)"
  shows "hcell q w'"
  using assms by (cases "q = p") (auto simp: hcell_def mem_of_def)

lemma cell_bytes_le: "p < length (heap (reg w)) \<Longrightarrow> c_stage (heap (reg w) ! p) \<noteq> Freed \<Longrightarrow>
    unat (mem_of p (reg w)) \<le> byte_load w"
  using sum_list_entry[of p "heap (reg w)" cell_bytes] by (simp add: byte_load_def mem_of_def)

lemma unat_mem_add:
  assumes "p < length (heap (reg w))" "c_stage (heap (reg w) ! p) \<noteq> Freed" "byte_load w + unat d < 2 ^ 64"
  shows "unat (mem_of p (reg w) + d) = unat (mem_of p (reg w)) + unat d"
  using cell_bytes_le[OF assms(1,2)] assms(3) by (intro unat_add_lt) simp

lemma hcellD:
  assumes "\<forall>q. hcell q w" "p < length (heap (reg w))"
  shows "holders p w \<le> strong (c_stage (heap (reg w) ! p))" "growing p w \<le> unat (mem_of p (reg w))"
  using assms(1)[THEN spec, of p] assms(2) by (auto simp: hcell_def)

lemma hcell_move:
  assumes "pc_at t w x" "\<forall>q. hcell q w" "heap g = heap (reg w)" "pc_holds q x = pc_holds q y" "pc_grow q y \<le> pc_grow q x"
  shows "hcell q (set_pc t y g w)"
  using hcell_keep[of q w "set_pc t y g w"] holders_set[OF assms(1), of q y g] growing_set[OF assms(1), of q y g] assms
  by simp

lemma hcell_drop:
  assumes "stage_at p w s" "strong s = 0" "\<forall>q. hcell q w" "heap g = (heap (reg w))[p := (heap (reg w) ! p)\<lparr>c_stage := s'\<rparr>]"
    "s' \<noteq> Live 0"
  shows "hcell q (w\<lparr>reg := g\<rparr>)"
  using hcell_stage[of q w p "w\<lparr>reg := g\<rparr>" s'] hcellD(1)[OF assms(3), of p] assms by (simp add: stage_at_def)

lemma hcell_step:
  assumes "rstep cf w w'" "\<forall>q. hcell q w"
  shows "hcell q w'"
  using assms(1)
proof cases
  case (releasing p n)
  then have p: "p < length (heap (reg w))" "c_stage (heap (reg w) ! p) = Live n" by (simp_all add: stage_at_def)
  show ?thesis unfolding releasing
    by (rule hcell_stage[of q w p _ "if n \<le> 1 then Unpooling else Live (n - 1)"])
      (use assms(2) releasing(3) p in \<open>auto simp: release_def\<close>)
next
  case (upgrading p r g)
  then obtain n where n: "p < length (heap (reg w))" "c_stage (heap (reg w) ! p) = Live n" "g = retain p (reg w)"
    by (auto elim!: upgradeE)
  show ?thesis unfolding upgrading
    by (rule hcell_stage[of q w p _ "Live (Suc n)"])
      (use n assms(2) hcellD(1)[OF assms(2), of p] in \<open>simp_all add: retain_def\<close>)
next
  case (hold t p r g)
  then obtain n where n: "r = p" "p < length (heap (reg w))" "c_stage (heap (reg w) ! p) = Live n"
    "g = retain p (reg w)"
    by (auto elim!: upgradeE)
  show ?thesis unfolding hold
    by (rule hcell_stage[of q w p _ "Live (Suc n)"])
      (use n assms(2) hcellD(1)[OF assms(2), of p] holders_set[OF hold(2), of q "Holding p" g]
        holders_set[OF hold(2), of p "Holding p" g] growing_set[OF hold(2), of q "Holding p" g]
       in \<open>simp_all add: retain_def\<close>)
next
  case (unhold t p)
  have held: "0 < holders p w" using pc_at_held[OF unhold(2), of p] by simp
  with assms(2) obtain n where n: "p < length (heap (reg w))" "c_stage (heap (reg w) ! p) = Live n"
    "holders p w \<le> n" by (rule held_live)
  show ?thesis unfolding unhold
    by (rule hcell_stage[of q w p _ "if n \<le> 1 then Unpooling else Live (n - 1)"])
      (use n assms(2) held holders_set[OF unhold(2), of q Idle "release p (reg w)"]
        holders_set[OF unhold(2), of p Idle "release p (reg w)"]
        growing_set[OF unhold(2), of q Idle "release p (reg w)"] in \<open>auto simp: release_def\<close>)
next
  case (unpool p)
  then show ?thesis using assms(2)
    by (simp add: hcell_drop[of p w Unpooling _ Unregistering] drop_pools_def Let_def)
next
  case (unindex p)
  then show ?thesis using assms(2) by (simp add: hcell_drop[of p w Unregistering _ Uncounting] drop_index_def)
next
  case (discount p)
  then show ?thesis using assms(2) by (simp add: hcell_drop[of p w Uncounting _ Unbooking] drop_count_def)
next
  case (unbooking p)
  then show ?thesis using assms(2) by (simp add: hcell_drop[of p w Unbooking _ Freed] drop_bytes_def)
next
  case (grow t p d)
  have "0 < holders p w" using pc_at_held[OF grow(2), of p] by simp
  with assms(2) obtain n where n: "p < length (heap (reg w))" "c_stage (heap (reg w) ! p) = Live n"
    by (rule held_live)
  then have m: "unat (mem_of p (reg w) + d) = unat (mem_of p (reg w)) + unat d"
    using grow by (intro unat_mem_add) auto
  show ?thesis unfolding grow
    by (rule hcell_mem[of q w p])
      (use n m assms(2) hcellD(2)[OF assms(2), of p] holders_set[OF grow(2), of q "Growing p d"]
        growing_set[OF grow(2), of q "Growing p d"] growing_set[OF grow(2), of p "Growing p d"]
       in \<open>auto simp: set_mem_def\<close>)
next
  case (shrink t p d)
  have "0 < holders p w" using pc_at_held[OF shrink(2), of p] by simp
  with assms(2) obtain n where n: "p < length (heap (reg w))" "c_stage (heap (reg w) ! p) = Live n"
    by (rule held_live)
  show ?thesis unfolding shrink
    by (rule hcell_mem[of q w p])
      (use n assms(2) shrink(3) holders_set[OF shrink(2), of q "Shrinking p d"]
        growing_set[OF shrink(2), of q "Shrinking p d"] growing_set[OF shrink(2), of p "Shrinking p d"]
       in \<open>auto simp: set_mem_def unat_sat_sub mem_of_def\<close>)
next
  case (recording p n)
  then have p: "p < length (heap (reg w))" by (simp add: stage_at_def)
  show ?thesis
  proof (cases "metrics_enabled cf")
    case True
    show ?thesis unfolding recording
      by (rule hcell_mem[of q w p _ "(c_entry (heap (reg w) ! p))\<lparr>e_ops := e_ops (c_entry (heap (reg w) ! p)) + 1\<rparr>"])
        (use True p assms(2) hcellD(2)[OF assms(2), of p] in \<open>auto simp: record_op_def mem_of_def\<close>)
  next
    case False
    then show ?thesis using assms(2) recording by (simp add: record_op_def)
  qed
next
  case (publishing t tag m p g)
  have "hcell q w" using assms(2) by simp
  then show ?thesis
    using holders_set[OF publishing(2), of q Idle g] growing_set[OF publishing(2), of q Idle g] publishing
      growing_held[of q "set_pc t Idle g w"]
    by (auto simp: publish_def Let_def hcell_def nth_append mem_of_def split: if_splits)
next
  case (grown t p d)
  then show ?thesis using hcell_move[OF grown(2) assms(2)] by (simp add: reg_ops)
next
  case (shrunk t p d)
  then show ?thesis using hcell_move[OF shrunk(2) assms(2)] by (simp add: reg_ops)
next
  case (count_ok t g tag m)
  then show ?thesis using hcell_move[OF count_ok(2) assms(2), of g] by (auto simp: reg_ops)
next
  case (count_over t g)
  then show ?thesis using hcell_move[OF count_over(2) assms(2), of g] by (auto simp: reg_ops)
next
  case (uncount t)
  then show ?thesis using hcell_move[OF uncount(2) assms(2)] by (simp add: reg_ops)
next
  case (book_ok t tag m g)
  then show ?thesis using hcell_move[OF book_ok(2) assms(2), of g] by (auto simp: reg_ops)
next
  case (book_over t tag m g)
  then show ?thesis using hcell_move[OF book_over(2) assms(2), of g] by (auto simp: reg_ops)
next
  case (unbook t m)
  then show ?thesis using hcell_move[OF unbook(2) assms(2)] by (simp add: reg_ops)
qed

section \<open>The byte total\<close>

fun pc_growth :: "pc \<Rightarrow> nat" where
  "pc_growth (Growing _ d) = unat d"
| "pc_growth _ = 0"

definition growth :: "rworld \<Rightarrow> nat" where
  "growth w = sum_list (map pc_growth (pcs w))"

definition binv :: "rworld \<Rightarrow> bool" where
  "binv w \<longleftrightarrow> unat (total_bytes (reg w)) + growth w = byte_load w \<and> byte_load w < 2 ^ 64"

lemma growth_by_cell:
  "\<forall>x\<in>set xs. \<forall>q d. x = Growing q d \<longrightarrow> q < n \<Longrightarrow>
     sum_list (map pc_growth xs) = (\<Sum>p<n. sum_list (map (pc_grow p) xs))"
proof (induction xs)
  case (Cons x xs)
  have "pc_growth x = (\<Sum>p<n. pc_grow p x)" using Cons.prems by (cases x) auto
  with Cons show ?case by (simp add: sum.distrib)
qed simp

lemma growth_le_cells:
  assumes "\<forall>q. hcell q w"
  shows "growth w \<le> sum_list (map cell_bytes (heap (reg w)))"
proof -
  let ?n = "length (heap (reg w))"
  have "q < ?n" if "Growing q d \<in> set (pcs w)" for q d
  proof -
    from that obtain t where "t < length (pcs w)" "pcs w ! t = Growing q d"
      unfolding in_set_conv_nth by blast
    then have "pc_at t w (Growing q d)" by (simp add: pc_at_def)
    from pc_at_held[OF this, of q] spec[OF assms, of q] show ?thesis by (simp add: hcell_def split: if_splits)
  qed
  then have "growth w = (\<Sum>p<?n. growing p w)"
    unfolding growth_def growing_def by (intro growth_by_cell) blast
  also have "\<dots> \<le> (\<Sum>p<?n. cell_bytes (heap (reg w) ! p))"
  proof (rule sum_mono)
    fix p assume "p \<in> {..<?n}"
    with hcellD[OF assms, of p] growing_held[of p w] show "growing p w \<le> cell_bytes (heap (reg w) ! p)"
      by (auto simp: mem_of_def)
  qed
  also have "\<dots> = sum_list (map cell_bytes (heap (reg w)))"
    by (simp add: sum_list_sum_nth atLeast0LessThan)
  finally show ?thesis .
qed

lemma unbooked_room:
  assumes "\<forall>q. hcell q w" "p < length (heap (reg w))" "c_stage (heap (reg w) ! p) = Unbooking"
  shows "unat (e_mem (c_entry (heap (reg w) ! p))) + growth w \<le> byte_load w"
proof -
  let ?c = "(heap (reg w) ! p)\<lparr>c_stage := Freed\<rparr>"
  let ?w = "w\<lparr>reg := set_stage p Freed (reg w)\<rparr>"
  have "hcell q ?w" for q by (rule hcell_drop[OF _ _ assms(1), where p = p and s = Unbooking and s' = Freed]) (use assms in \<open>simp_all add: stage_at_def\<close>)
  then have "growth ?w \<le> sum_list (map cell_bytes (heap (reg ?w)))" by (intro growth_le_cells) blast
  moreover have "growth ?w = growth w" by (simp add: growth_def)
  ultimately show ?thesis
    using cell_moved[OF assms(2), of cell_bytes ?c] assms(3) by (simp add: byte_load_def)
qed

lemma binv_same:
  assumes "binv w" "p < length (heap (reg w))" "heap (reg w') = (heap (reg w))[p := c]"
    "cell_bytes c = cell_bytes (heap (reg w) ! p)" "total_bytes (reg w') = total_bytes (reg w)"
    "sum_list (map pc_bytes (pcs w')) = sum_list (map pc_bytes (pcs w))" "growth w' = growth w"
  shows "binv w'"
  using assms cell_same[of p "reg w" cell_bytes c] by (simp add: binv_def byte_load_def del: cell_bytes.simps)

lemma binv_entry:
  assumes "binv w" "p < length (heap (reg w))" "heap g = (heap (reg w))[p := c]"
    "cell_bytes c = cell_bytes (heap (reg w) ! p)" "total_bytes g = total_bytes (reg w)"
  shows "binv (w\<lparr>reg := g\<rparr>)"
  by (rule binv_same[OF assms(1,2), where c = c]) (use assms in \<open>simp_all add: growth_def\<close>)

lemma binv_stage:
  assumes "binv w" "p < length (heap (reg w))" "c_stage (heap (reg w) ! p) \<noteq> Freed" "s \<noteq> Freed"
    "heap g = (heap (reg w))[p := (heap (reg w) ! p)\<lparr>c_stage := s\<rparr>]" "total_bytes g = total_bytes (reg w)"
  shows "binv (w\<lparr>reg := g\<rparr>)"
  by (rule binv_same[OF assms(1,2), where c = "(heap (reg w) ! p)\<lparr>c_stage := s\<rparr>"]) (use assms in \<open>simp_all add: growth_def\<close>)

lemma binv_stage_pc:
  assumes "binv w" "p < length (heap (reg w))" "c_stage (heap (reg w) ! p) \<noteq> Freed" "s \<noteq> Freed"
    "heap g = (heap (reg w))[p := (heap (reg w) ! p)\<lparr>c_stage := s\<rparr>]" "total_bytes g = total_bytes (reg w)"
    "pc_at t w x" "pc_bytes x = pc_bytes y" "pc_growth x = pc_growth y"
  shows "binv (set_pc t y g w)"
  by (rule binv_same[OF assms(1,2), where c = "(heap (reg w) ! p)\<lparr>c_stage := s\<rparr>"])
    (use assms pcs_moved[OF assms(7), of pc_bytes y] pcs_moved[OF assms(7), of pc_growth y] in
      \<open>simp_all add: growth_def\<close>)

lemma binv_step:
  assumes st: "rstep cf w w'" and h: "\<forall>q. hcell q w" and b: "binv w"
  shows "binv w'"
  using st
proof cases
  case (book_ok t tag m g)
  have "unat (total_bytes (reg w) + booked_size m) = unat (total_bytes (reg w)) + unat (booked_size m)"
    using b book_ok by (intro unat_add_lt) (auto simp: binv_def)
  then show ?thesis
    using b book_ok pcs_moved[OF book_ok(2), of pc_bytes "Booked tag (booked_size m)"]
      pcs_moved[OF book_ok(2), of pc_growth "Booked tag (booked_size m)"]
    by (auto simp: binv_def byte_load_def growth_def reserve_bytes_def Let_def)
next
  case (book_over t tag m g)
  have "unat (total_bytes (reg w) + booked_size m) = unat (total_bytes (reg w)) + unat (booked_size m)"
    using b book_over by (intro unat_add_lt) (auto simp: binv_def)
  then show ?thesis
    using b book_over pcs_moved[OF book_over(2), of pc_bytes "Overbook (booked_size m)"]
      pcs_moved[OF book_over(2), of pc_growth "Overbook (booked_size m)"]
    by (auto simp: binv_def byte_load_def growth_def reserve_bytes_def Let_def)
next
  case (unbook t m)
  have "unat m \<le> sum_list (map pc_bytes (pcs w))"
    using sum_list_entry[of t "pcs w" pc_bytes] unbook by (auto simp: pc_at_def)
  then have "m \<le> total_bytes (reg w)"
    using b growth_le_cells[OF h] by (simp add: binv_def byte_load_def word_le_nat_alt)
  then have "unat (total_bytes (reg w) - m) = unat (total_bytes (reg w)) - unat m" "unat m \<le> unat (total_bytes (reg w))"
    by (simp_all add: unat_sub_le word_le_nat_alt)
  then show ?thesis
    using b unbook pcs_moved[OF unbook(2), of pc_bytes Overcount] pcs_moved[OF unbook(2), of pc_growth Overcount]
    by (auto simp: binv_def byte_load_def growth_def unreserve_bytes_def)
next
  case (publishing t tag m p g)
  then show ?thesis
    using b pcs_moved[OF publishing(2), of pc_bytes Idle] pcs_moved[OF publishing(2), of pc_growth Idle]
    by (auto simp: binv_def byte_load_def growth_def publish_def Let_def)
next
  case (unbooking p)
  have p: "p < length (heap (reg w))" "c_stage (heap (reg w) ! p) = Unbooking"
    using unbooking by (simp_all add: stage_at_def)
  let ?m = "e_mem (c_entry (heap (reg w) ! p))"
  have room: "unat ?m + growth w \<le> byte_load w" using unbooked_room[OF h p(1)] p(2) by simp
  then have le: "?m \<le> total_bytes (reg w)" using b by (simp add: binv_def word_le_nat_alt)
  then have "unat (total_bytes (reg w) - ?m) = unat (total_bytes (reg w)) - unat ?m" by (rule unat_sub_le)
  with le show ?thesis
    using b unbooking p cell_moved[OF p(1), of cell_bytes "(heap (reg w) ! p)\<lparr>c_stage := Freed\<rparr>"]
    by (simp add: binv_def byte_load_def growth_def drop_bytes_def word_le_nat_alt)
next
  case (grown t p d)
  have "unat d \<le> growth w" using sum_list_entry[of t "pcs w" pc_growth] grown by (auto simp: pc_at_def growth_def)
  then have "unat (total_bytes (reg w) + d) = unat (total_bytes (reg w)) + unat d"
    using b by (intro unat_add_lt) (auto simp: binv_def)
  then show ?thesis
    using b grown pcs_moved[OF grown(2), of pc_bytes "Holding p"] pcs_moved[OF grown(2), of pc_growth "Holding p"]
    by (auto simp: binv_def byte_load_def growth_def grow_total_def)
next
  case (shrunk t p d)
  have "unat d \<le> sum_list (map pc_bytes (pcs w))"
    using sum_list_entry[of t "pcs w" pc_bytes] shrunk by (auto simp: pc_at_def)
  then have "unat d \<le> unat (total_bytes (reg w))"
    using b growth_le_cells[OF h] by (simp add: binv_def byte_load_def)
  then show ?thesis
    using b shrunk pcs_moved[OF shrunk(2), of pc_bytes "Holding p"] pcs_moved[OF shrunk(2), of pc_growth "Holding p"]
    by (auto simp: binv_def byte_load_def growth_def shrink_total_def unat_sat_sub)
next
  case (count_ok t g tag m)
  then show ?thesis
    using b pcs_moved[OF count_ok(2), of pc_bytes "Counted tag m"] pcs_moved[OF count_ok(2), of pc_growth "Counted tag m"]
    by (auto simp: binv_def byte_load_def growth_def reserve_entry_def Let_def)
next
  case (count_over t g)
  then show ?thesis
    using b pcs_moved[OF count_over(2), of pc_bytes Overcount] pcs_moved[OF count_over(2), of pc_growth Overcount]
    by (auto simp: binv_def byte_load_def growth_def reserve_entry_def Let_def)
next
  case (uncount t)
  then show ?thesis
    using b pcs_moved[OF uncount(2), of pc_bytes Idle] pcs_moved[OF uncount(2), of pc_growth Idle]
    by (auto simp: binv_def byte_load_def growth_def unreserve_entry_def)
next
  case (upgrading p r g)
  then show ?thesis using b by (auto elim!: upgradeE simp: retain_def intro!: binv_stage[of w p "Live (Suc _)"])
next
  case (releasing p n)
  then show ?thesis
    using b by (auto simp: stage_at_def release_def intro!: binv_stage[of w p "if n \<le> 1 then Unpooling else Live (n - 1)"])
next
  case (unpool p)
  then show ?thesis using b by (auto simp: stage_at_def drop_pools_def Let_def intro!: binv_stage[of w p Unregistering])
next
  case (unindex p)
  then show ?thesis using b by (auto simp: stage_at_def drop_index_def intro!: binv_stage[of w p Uncounting])
next
  case (discount p)
  then show ?thesis using b by (auto simp: stage_at_def drop_count_def intro!: binv_stage[of w p Unbooking])
next
  case (hold t p r g)
  then obtain n where "p < length (heap (reg w))" "c_stage (heap (reg w) ! p) = Live n" "g = retain p (reg w)" "r = p"
    by (auto elim!: upgradeE)
  with b hold show ?thesis by (auto simp: retain_def intro!: binv_stage_pc[of w p "Live (Suc n)"])
next
  case (unhold t p)
  have "0 < holders p w" using pc_at_held[OF unhold(2), of p] by simp
  with h obtain n where "p < length (heap (reg w))" "c_stage (heap (reg w) ! p) = Live n" by (rule held_live)
  with b unhold show ?thesis
    by (auto simp: release_def intro!: binv_stage_pc[of w p "if n \<le> 1 then Unpooling else Live (n - 1)"])
next
  case (grow t p d)
  have "0 < holders p w" using pc_at_held[OF grow(2), of p] by simp
  with h obtain n where n: "p < length (heap (reg w))" "c_stage (heap (reg w) ! p) = Live n" by (rule held_live)
  then have "unat (mem_of p (reg w) + d) = unat (mem_of p (reg w)) + unat d"
    using grow by (intro unat_mem_add) auto
  then show ?thesis
    using b n grow cell_moved[OF n(1), of cell_bytes "(heap (reg w) ! p)\<lparr>c_entry := (c_entry (heap (reg w) ! p))\<lparr>e_mem := mem_of p (reg w) + d\<rparr>\<rparr>"]
      pcs_moved[OF grow(2), of pc_bytes "Growing p d"] pcs_moved[OF grow(2), of pc_growth "Growing p d"]
    by (simp add: binv_def byte_load_def growth_def set_mem_def mem_of_def)
next
  case (shrink t p d)
  have "0 < holders p w" using pc_at_held[OF shrink(2), of p] by simp
  with h obtain n where n: "p < length (heap (reg w))" "c_stage (heap (reg w) ! p) = Live n" by (rule held_live)
  have "unat (sat_sub (mem_of p (reg w)) d) + unat d = unat (mem_of p (reg w))"
    using shrink(3) by (simp add: unat_sat_sub)
  with n show ?thesis
    using b shrink(1) cell_moved[OF n(1), of cell_bytes "(heap (reg w) ! p)\<lparr>c_entry := (c_entry (heap (reg w) ! p))\<lparr>e_mem := sat_sub (mem_of p (reg w)) d\<rparr>\<rparr>"]
      pcs_moved[OF shrink(2), of pc_bytes "Shrinking p d"] pcs_moved[OF shrink(2), of pc_growth "Shrinking p d"]
    by (simp add: binv_def byte_load_def growth_def set_mem_def mem_of_def)
next
  case (recording p n)
  show ?thesis
  proof (cases "metrics_enabled cf")
    case True
    with b recording show ?thesis
      by (auto simp: record_op_def stage_at_def intro!: binv_entry[of w p])
  qed (use b recording in \<open>simp add: record_op_def\<close>)
qed

section \<open>The entry count\<close>

definition cinv :: "config \<Rightarrow> nat \<Rightarrow> rworld \<Rightarrow> bool" where
  "cinv cf threads w \<longleftrightarrow>
     length (pcs w) = threads \<and>
     unat (total_entries (reg w)) = granted w + sum_list (map pc_over (pcs w)) \<and>
     granted w \<le> unat (max_entries cf)"

lemma cinv_same:
  assumes "cinv cf n w" "p < length (heap (reg w))" "heap (reg w') = (heap (reg w))[p := c]"
    "cell_count c = cell_count (heap (reg w) ! p)" "total_entries (reg w') = total_entries (reg w)"
    "length (pcs w') = length (pcs w)"
    "sum_list (map pc_granted (pcs w')) = sum_list (map pc_granted (pcs w))"
    "sum_list (map pc_over (pcs w')) = sum_list (map pc_over (pcs w))"
  shows "cinv cf n w'"
  using assms cell_same[of p "reg w" cell_count c] by (simp add: cinv_def granted_def del: cell_count.simps)

lemma cinv_pc:
  assumes "cinv cf n w" "pc_at t w x" "heap g = heap (reg w)" "total_entries g = total_entries (reg w)"
    "pc_granted x = pc_granted y" "pc_over x = pc_over y"
  shows "cinv cf n (set_pc t y g w)"
  using assms pcs_moved[OF assms(2), of pc_granted y] pcs_moved[OF assms(2), of pc_over y]
  by (simp add: cinv_def granted_def)

lemma cinv_cell:
  assumes "cinv cf n w" "p < length (heap (reg w))" "heap g = (heap (reg w))[p := c]"
    "cell_count c = cell_count (heap (reg w) ! p)" "total_entries g = total_entries (reg w)"
  shows "cinv cf n (w\<lparr>reg := g\<rparr>)"
  by (rule cinv_same[OF assms(1,2), where c = c]) (use assms in simp_all)

lemma cinv_cell_pc:
  assumes "cinv cf n w" "p < length (heap (reg w))" "heap g = (heap (reg w))[p := c]"
    "cell_count c = cell_count (heap (reg w) ! p)" "total_entries g = total_entries (reg w)"
    "pc_at t w x" "pc_granted x = pc_granted y" "pc_over x = pc_over y"
  shows "cinv cf n (set_pc t y g w)"
  by (rule cinv_same[OF assms(1,2), where c = c])
    (use assms pcs_moved[OF assms(6), of pc_granted y] pcs_moved[OF assms(6), of pc_over y] in simp_all)

lemma over_le: "t < length xs \<Longrightarrow> xs ! t = Idle \<Longrightarrow> sum_list (map pc_over xs) < length xs"
proof -
  assume t: "t < length xs" "xs ! t = Idle"
  have "sum_list (map pc_over xs) = (\<Sum>k<length xs. pc_over (xs ! k))"
    by (simp add: sum_list_sum_nth atLeast0LessThan)
  also have "\<dots> < (\<Sum>k<length xs. 1)"
  proof (rule sum_strict_mono_ex1)
    show "\<forall>k\<in>{..<length xs}. pc_over (xs ! k) \<le> 1"
    proof
      fix k show "pc_over (xs ! k) \<le> 1" by (cases "xs ! k") auto
    qed
    show "\<exists>k\<in>{..<length xs}. pc_over (xs ! k) < 1" using t by (intro bexI[of _ t]) auto
  qed simp
  finally show ?thesis by simp
qed

lemma cinv_step:
  assumes st: "rstep cf w w'" and h: "\<forall>q. hcell q w" and c: "cinv cf n w"
    and fit: "unat (max_entries cf) + n < 2 ^ 64"
  shows "cinv cf n w'"
  using st
proof cases
  case (count_ok t g tag m)
  have o: "sum_list (map pc_over (pcs w)) < n" using c over_le[of t "pcs w"] count_ok(2) by (auto simp: pc_at_def cinv_def)
  have "unat (total_entries (reg w) + 1) = unat (total_entries (reg w)) + unat (1::u64)"
    using c fit o by (intro unat_add_lt) (auto simp: cinv_def)
  then show ?thesis
    using c count_ok pcs_moved[OF count_ok(2), of pc_granted "Counted tag m"]
      pcs_moved[OF count_ok(2), of pc_over "Counted tag m"]
    by (auto simp: cinv_def granted_def reserve_entry_def Let_def word_le_nat_alt not_less)
next
  case (count_over t g)
  have o: "sum_list (map pc_over (pcs w)) < n" using c over_le[of t "pcs w"] count_over(2) by (auto simp: pc_at_def cinv_def)
  have "unat (total_entries (reg w) + 1) = unat (total_entries (reg w)) + unat (1::u64)"
    using c fit o by (intro unat_add_lt) (auto simp: cinv_def)
  then show ?thesis
    using c count_over pcs_moved[OF count_over(2), of pc_granted Overcount]
      pcs_moved[OF count_over(2), of pc_over Overcount]
    by (auto simp: cinv_def granted_def reserve_entry_def Let_def)
next
  case (uncount t)
  have "1 \<le> sum_list (map pc_over (pcs w))"
    using sum_list_entry[of t "pcs w" pc_over] uncount by (auto simp: pc_at_def)
  then have le: "1 \<le> total_entries (reg w)" using c by (simp add: cinv_def word_le_nat_alt)
  then have "unat (total_entries (reg w) - 1) = unat (total_entries (reg w)) - unat (1::u64)" by (rule unat_sub_le)
  with le show ?thesis
    using c uncount pcs_moved[OF uncount(2), of pc_granted Idle] pcs_moved[OF uncount(2), of pc_over Idle]
    by (simp add: cinv_def granted_def unreserve_entry_def word_le_nat_alt)
next
  case (discount p)
  have p: "p < length (heap (reg w))" "c_stage (heap (reg w) ! p) = Uncounting"
    using discount by (simp_all add: stage_at_def)
  have "1 \<le> sum_list (map cell_count (heap (reg w)))"
    using sum_list_entry[OF p(1), of cell_count] p by simp
  then have le: "1 \<le> total_entries (reg w)" using c by (simp add: cinv_def granted_def word_le_nat_alt)
  then have "unat (total_entries (reg w) - 1) = unat (total_entries (reg w)) - unat (1::u64)" by (rule unat_sub_le)
  with le show ?thesis
    using c discount p cell_moved[OF p(1), of cell_count "(heap (reg w) ! p)\<lparr>c_stage := Unbooking\<rparr>"]
    by (simp add: cinv_def granted_def drop_count_def word_le_nat_alt)
next
  case (publishing t tag m p g)
  then show ?thesis
    using c pcs_moved[OF publishing(2), of pc_granted Idle] pcs_moved[OF publishing(2), of pc_over Idle]
    by (auto simp: cinv_def granted_def publish_def Let_def)
next
  case (upgrading p r g)
  then show ?thesis using c by (auto elim!: upgradeE simp: retain_def intro!: cinv_cell[of cf n w p])
next
  case (releasing p k)
  then show ?thesis using c by (auto simp: stage_at_def release_def intro!: cinv_cell[of cf n w p])
next
  case (unpool p)
  then show ?thesis using c by (auto simp: stage_at_def drop_pools_def Let_def intro!: cinv_cell[of cf n w p])
next
  case (unindex p)
  then show ?thesis using c by (auto simp: stage_at_def drop_index_def intro!: cinv_cell[of cf n w p])
next
  case (unbooking p)
  then show ?thesis using c by (auto simp: stage_at_def drop_bytes_def intro!: cinv_cell[of cf n w p])
next
  case (hold t p r g)
  then obtain k where "p < length (heap (reg w))" "c_stage (heap (reg w) ! p) = Live k" "g = retain p (reg w)" "r = p"
    by (auto elim!: upgradeE)
  with c hold show ?thesis by (auto simp: retain_def intro!: cinv_cell_pc[of cf n w p])
next
  case (unhold t p)
  have "0 < holders p w" using pc_at_held[OF unhold(2), of p] by simp
  with h obtain k where "p < length (heap (reg w))" "c_stage (heap (reg w) ! p) = Live k" by (rule held_live)
  with c unhold show ?thesis by (auto simp: release_def intro!: cinv_cell_pc[of cf n w p])
next
  case (grow t p d)
  have "0 < holders p w" using pc_at_held[OF grow(2), of p] by simp
  with h obtain k where "p < length (heap (reg w))" by (rule held_live)
  with c grow show ?thesis by (auto simp: set_mem_def intro!: cinv_cell_pc[of cf n w p])
next
  case (shrink t p d)
  have "0 < holders p w" using pc_at_held[OF shrink(2), of p] by simp
  with h obtain k where "p < length (heap (reg w))" by (rule held_live)
  with c shrink show ?thesis by (auto simp: set_mem_def intro!: cinv_cell_pc[of cf n w p])
next
  case (recording p k)
  show ?thesis
  proof (cases "metrics_enabled cf")
    case True
    with c recording show ?thesis by (auto simp: record_op_def stage_at_def intro!: cinv_cell[of cf n w p])
  qed (use c recording in \<open>simp add: record_op_def\<close>)
next
  case (book_ok t tag m g)
  then show ?thesis using cinv_pc[OF c book_ok(2), of g] by (auto simp: reserve_bytes_def Let_def)
next
  case (book_over t tag m g)
  then show ?thesis using cinv_pc[OF c book_over(2), of g] by (auto simp: reserve_bytes_def Let_def)
next
  case (unbook t m)
  have "pc_granted (Overbook m) = 1" by simp
  then show ?thesis
    using c unbook pcs_moved[OF unbook(2), of pc_granted Overcount] pcs_moved[OF unbook(2), of pc_over Overcount]
    by (simp add: cinv_def granted_def unreserve_bytes_def)
next
  case (grown t p d)
  then show ?thesis using cinv_pc[OF c grown(2)] by (simp add: grow_total_def)
next
  case (shrunk t p d)
  then show ?thesis using cinv_pc[OF c shrunk(2)] by (simp add: shrink_total_def)
qed

section \<open>Ids and the indexes\<close>

fun indexed :: "stage \<Rightarrow> bool" where
  "indexed (Live _) = True"
| "indexed Unpooling = True"
| "indexed Unregistering = True"
| "indexed _ = False"

fun pooled :: "stage \<Rightarrow> bool" where
  "pooled (Live _) = True"
| "pooled Unpooling = True"
| "pooled _ = False"

definition id_at :: "nat \<Rightarrow> registry \<Rightarrow> SharedId" where
  "id_at p g = e_id (c_entry (heap g ! p))"

definition iinv :: "u64 \<Rightarrow> registry \<Rightarrow> bool" where
  "iinv seed g \<longleftrightarrow>
     unat (next_id g) = unat seed + length (heap g) \<and>
     (\<forall>p < length (heap g). unat (id_at p g) = unat seed + p) \<and>
     (\<forall>i p. entries g i = Some p \<longleftrightarrow> p < length (heap g) \<and> id_at p g = i \<and> indexed (c_stage (heap g ! p))) \<and>
     (\<forall>i p. pools g i = Some p \<longleftrightarrow>
        p < length (heap g) \<and> id_at p g = i \<and> e_tag (c_entry (heap g ! p)) = Pool \<and> pooled (c_stage (heap g ! p)))"

definition same_index :: "registry \<Rightarrow> registry \<Rightarrow> bool" where
  "same_index g g' \<longleftrightarrow>
     next_id g' = next_id g \<and> entries g' = entries g \<and> pools g' = pools g \<and> length (heap g') = length (heap g) \<and>
     (\<forall>q < length (heap g). id_at q g' = id_at q g \<and>
        e_tag (c_entry (heap g' ! q)) = e_tag (c_entry (heap g ! q)) \<and>
        indexed (c_stage (heap g' ! q)) = indexed (c_stage (heap g ! q)) \<and>
        pooled (c_stage (heap g' ! q)) = pooled (c_stage (heap g ! q)))"

lemma iinvD:
  assumes "iinv seed g"
  shows "unat (next_id g) = unat seed + length (heap g)"
    "p < length (heap g) \<Longrightarrow> unat (id_at p g) = unat seed + p"
    "entries g i = Some p \<longleftrightarrow> p < length (heap g) \<and> id_at p g = i \<and> indexed (c_stage (heap g ! p))"
    "pools g i = Some p \<longleftrightarrow>
       p < length (heap g) \<and> id_at p g = i \<and> e_tag (c_entry (heap g ! p)) = Pool \<and> pooled (c_stage (heap g ! p))"
  using assms by (simp_all add: iinv_def)

lemma iinv_same:
  assumes "iinv seed g" "same_index g g'"
  shows "iinv seed g'"
  unfolding iinv_def
proof (intro conjI allI impI)
  have sel: "next_id g' = next_id g" "entries g' = entries g" "pools g' = pools g" "length (heap g') = length (heap g)"
    using assms(2) by (simp_all add: same_index_def)
  have cell: "id_at q g' = id_at q g" "e_tag (c_entry (heap g' ! q)) = e_tag (c_entry (heap g ! q))"
    "indexed (c_stage (heap g' ! q)) = indexed (c_stage (heap g ! q))"
    "pooled (c_stage (heap g' ! q)) = pooled (c_stage (heap g ! q))" if "q < length (heap g)" for q
    using assms(2) that by (simp_all add: same_index_def)
  show "unat (next_id g') = unat seed + length (heap g')" by (simp add: sel iinvD(1)[OF assms(1)])
  show "unat (id_at p g') = unat seed + p" if "p < length (heap g')" for p
    using that by (simp add: sel cell iinvD(2)[OF assms(1)])
  show "entries g' i = Some p \<longleftrightarrow> p < length (heap g') \<and> id_at p g' = i \<and> indexed (c_stage (heap g' ! p))" for i p
    by (cases "p < length (heap g)") (simp_all add: sel cell iinvD(3)[OF assms(1)])
  show "pools g' i = Some p \<longleftrightarrow> p < length (heap g') \<and> id_at p g' = i \<and>
      e_tag (c_entry (heap g' ! p)) = Pool \<and> pooled (c_stage (heap g' ! p))" for i p
    by (cases "p < length (heap g)") (simp_all add: sel cell iinvD(4)[OF assms(1)])
qed

lemma same_index_cell:
  assumes "heap g' = (heap g)[p := c]" "p < length (heap g)"
    "next_id g' = next_id g" "entries g' = entries g" "pools g' = pools g"
    "e_id (c_entry c) = e_id (c_entry (heap g ! p))" "e_tag (c_entry c) = e_tag (c_entry (heap g ! p))"
    "indexed (c_stage c) = indexed (c_stage (heap g ! p))" "pooled (c_stage c) = pooled (c_stage (heap g ! p))"
  shows "same_index g g'"
  unfolding same_index_def
proof (intro conjI allI impI)
  fix q assume "q < length (heap g)"
  then show "id_at q g' = id_at q g" "e_tag (c_entry (heap g' ! q)) = e_tag (c_entry (heap g ! q))"
    "indexed (c_stage (heap g' ! q)) = indexed (c_stage (heap g ! q))"
    "pooled (c_stage (heap g' ! q)) = pooled (c_stage (heap g ! q))"
    unfolding id_at_def assms(1) by (cases "q = p"; simp add: assms)+
qed (simp_all add: assms)

lemma same_index_heap:
  "heap g' = heap g \<Longrightarrow> next_id g' = next_id g \<Longrightarrow> entries g' = entries g \<Longrightarrow> pools g' = pools g \<Longrightarrow> same_index g g'"
  by (simp add: same_index_def id_at_def)

lemma ids_distinct:
  assumes "iinv seed g" "p < length (heap g)" "q < length (heap g)" "id_at p g = id_at q g"
  shows "p = q"
proof -
  have "unat seed + p = unat seed + q"
    unfolding iinvD(2)[OF assms(1,2), symmetric] iinvD(2)[OF assms(1,3), symmetric] assms(4) by (rule refl)
  then show ?thesis by (rule add_left_imp_eq)
qed

lemma retain_same:
  assumes "upgrade p g = Some (q, g')" shows "same_index g g'"
proof -
  obtain n where "p < length (heap g)" "c_stage (heap g ! p) = Live n" "g' = retain p g"
    using assms by (rule upgradeE)
  then show ?thesis
    by (intro same_index_cell[of _ g p "(heap g ! p)\<lparr>c_stage := Live (Suc n)\<rparr>"]) (simp_all add: retain_def)
qed

lemma release_same:
  assumes "p < length (heap g)" shows "same_index g (release p g)"
proof (cases "c_stage (heap g ! p)")
  case (Live n)
  with assms show ?thesis
    by (intro same_index_cell[of _ g p "(heap g ! p)\<lparr>c_stage := if n \<le> 1 then Unpooling else Live (n - 1)\<rparr>"])
      (auto simp: release_def)
qed (simp_all add: release_def same_index_heap)

lemma set_mem_same: "p < length (heap g) \<Longrightarrow> same_index g (set_mem p m g)"
  by (rule same_index_cell[of _ g p "(heap g ! p)\<lparr>c_entry := (c_entry (heap g ! p))\<lparr>e_mem := m\<rparr>\<rparr>"])
    (simp_all add: set_mem_def)

lemma record_same:
  assumes "p < length (heap g)" shows "same_index g (record_op cf p g)"
proof (cases "metrics_enabled cf")
  case True
  show ?thesis
    by (rule same_index_cell[of _ g p "(heap g ! p)\<lparr>c_entry := (c_entry (heap g ! p))\<lparr>e_ops := e_ops (c_entry (heap g ! p)) + 1\<rparr>\<rparr>"])
      (use assms True in \<open>simp_all add: record_op_def\<close>)
qed (simp add: record_op_def same_index_heap)

lemma publish_sel:
  assumes "publish tag m g = (p, g')"
  shows "p = length (heap g)" "next_id g' = next_id g + 1" "entries g' = (entries g)(next_id g \<mapsto> p)"
    "pools g' = (if tag = Pool then (pools g)(next_id g \<mapsto> p) else pools g)"
    "heap g' = heap g @ [\<lparr>c_entry = \<lparr>e_id = next_id g, e_tag = tag, e_mem = m, e_ops = 0\<rparr>, c_stage = Live 1\<rparr>]"
  using assms by (auto simp: publish_def Let_def)

lemma publish_index:
  assumes inv: "iinv seed g" and room: "unat (next_id g) + 1 < 2 ^ 64" and pub: "publish tag m g = (p, g')"
  shows "iinv seed g'"
  unfolding iinv_def
proof (intro conjI allI impI)
  note sel = publish_sel[OF pub]
  have n: "unat (next_id g + 1) = unat (next_id g) + 1"
    using room unat_add_lt[of "next_id g" 1] by simp
  have new: "id_at q g \<noteq> next_id g" if "q < length (heap g)" for q
    using iinvD(1)[OF inv] iinvD(2)[OF inv that] that by auto
  have cell: "id_at q g' = (if q < length (heap g) then id_at q g else next_id g)"
    "heap g' ! q = (if q < length (heap g) then heap g ! q else heap g' ! length (heap g))"
    if "q < length (heap g')" for q
    using that sel by (auto simp: id_at_def nth_append less_Suc_eq)
  show "unat (next_id g') = unat seed + length (heap g')" using n iinvD(1)[OF inv] by (simp add: sel)
  show "unat (id_at q g') = unat seed + q" if "q < length (heap g')" for q
    using that cell(1)[OF that] iinvD(1)[OF inv] iinvD(2)[OF inv, of q] by (simp add: sel less_Suc_eq split: if_splits)
  show "entries g' i = Some q \<longleftrightarrow> q < length (heap g') \<and> id_at q g' = i \<and> indexed (c_stage (heap g' ! q))" for i q
    using iinvD(3)[OF inv, of i q] new[of q]
    by (auto simp: sel id_at_def nth_append less_Suc_eq)
  show "pools g' i = Some q \<longleftrightarrow> q < length (heap g') \<and> id_at q g' = i \<and>
      e_tag (c_entry (heap g' ! q)) = Pool \<and> pooled (c_stage (heap g' ! q))" for i q
    using iinvD(4)[OF inv, of i q] new[of q]
    by (auto simp: sel id_at_def nth_append less_Suc_eq)
qed

lemma drop_index_inv:
  assumes inv: "iinv seed g" and p: "p < length (heap g)" "c_stage (heap g ! p) = Unregistering"
  shows "iinv seed (drop_index p g)"
  unfolding iinv_def
proof (intro conjI allI impI)
  let ?g = "drop_index p g"
  show "unat (next_id ?g) = unat seed + length (heap ?g)" using iinvD(1)[OF inv] by (simp add: drop_index_def)
  have id: "id_at q ?g = id_at q g" for q
    by (cases "q = p") (use p in \<open>simp_all add: drop_index_def id_at_def\<close>)
  show "unat (id_at q ?g) = unat seed + q" if "q < length (heap ?g)" for q
    using iinvD(2)[OF inv, of q] that id by (simp add: drop_index_def)
  show "entries ?g i = Some q \<longleftrightarrow> q < length (heap ?g) \<and> id_at q ?g = i \<and> indexed (c_stage (heap ?g ! q))" for i q
    using iinvD(3)[OF inv, of i q] ids_distinct[OF inv p(1), of q] id[of q] p
    by (cases "q = p") (auto simp: drop_index_def id_at_def)
  show "pools ?g i = Some q \<longleftrightarrow> q < length (heap ?g) \<and> id_at q ?g = i \<and>
      e_tag (c_entry (heap ?g ! q)) = Pool \<and> pooled (c_stage (heap ?g ! q))" for i q
    using iinvD(4)[OF inv, of i q] id[of q] p
    by (cases "q = p") (auto simp: drop_index_def)
qed

lemma drop_pools_inv:
  assumes inv: "iinv seed g" and p: "p < length (heap g)" "c_stage (heap g ! p) = Unpooling"
  shows "iinv seed (drop_pools p g)"
  unfolding iinv_def
proof (intro conjI allI impI)
  let ?g = "drop_pools p g"
  show "unat (next_id ?g) = unat seed + length (heap ?g)"
    using iinvD(1)[OF inv] by (simp add: drop_pools_def Let_def)
  have id: "id_at q ?g = id_at q g" for q
    by (cases "q = p") (use p in \<open>simp_all add: drop_pools_def Let_def id_at_def\<close>)
  show "unat (id_at q ?g) = unat seed + q" if "q < length (heap ?g)" for q
    using iinvD(2)[OF inv, of q] that id by (simp add: drop_pools_def Let_def split: if_splits)
  show "entries ?g i = Some q \<longleftrightarrow> q < length (heap ?g) \<and> id_at q ?g = i \<and> indexed (c_stage (heap ?g ! q))" for i q
    using iinvD(3)[OF inv, of i q] id[of q] p
    by (cases "q = p") (auto simp: drop_pools_def Let_def)
  show "pools ?g i = Some q \<longleftrightarrow> q < length (heap ?g) \<and> id_at q ?g = i \<and>
      e_tag (c_entry (heap ?g ! q)) = Pool \<and> pooled (c_stage (heap ?g ! q))" for i q
    using iinvD(4)[OF inv, of i q] ids_distinct[OF inv p(1), of q] id[of q] p
    by (cases "q = p") (auto simp: drop_pools_def Let_def id_at_def)
qed

lemma iinv_step:
  assumes st: "rstep cf w w'" and h: "\<forall>q. hcell q w" and i: "iinv seed (reg w)"
  shows "iinv seed (reg w')"
  using st
proof cases
  case (publishing t tag m p g)
  then show ?thesis using publish_index[OF i] by simp
next
  case (unpool p)
  then show ?thesis using drop_pools_inv[OF i] by (simp add: stage_at_def)
next
  case (unindex p)
  then show ?thesis using drop_index_inv[OF i] by (simp add: stage_at_def)
next
  case (discount p)
  then have "same_index (reg w) (drop_count p (reg w))"
    by (intro same_index_cell[of _ "reg w" p "(heap (reg w) ! p)\<lparr>c_stage := Unbooking\<rparr>"])
      (simp_all add: drop_count_def stage_at_def)
  then show ?thesis using iinv_same[OF i] discount by simp
next
  case (unbooking p)
  then have "same_index (reg w) (drop_bytes p (reg w))"
    by (intro same_index_cell[of _ "reg w" p "(heap (reg w) ! p)\<lparr>c_stage := Freed\<rparr>"])
      (simp_all add: drop_bytes_def stage_at_def)
  then show ?thesis using iinv_same[OF i] unbooking by simp
next
  case (upgrading p q g)
  then show ?thesis using iinv_same[OF i retain_same] by simp
next
  case (hold t p q g)
  then show ?thesis using iinv_same[OF i retain_same] by simp
next
  case (releasing p n)
  then show ?thesis using iinv_same[OF i release_same] by (simp add: stage_at_def)
next
  case (unhold t p)
  have "0 < holders p w" using pc_at_held[OF unhold(2), of p] by simp
  with h obtain n where "p < length (heap (reg w))" by (rule held_live)
  then show ?thesis using iinv_same[OF i release_same] unhold by simp
next
  case (grow t p d)
  have "0 < holders p w" using pc_at_held[OF grow(2), of p] by simp
  with h obtain n where "p < length (heap (reg w))" by (rule held_live)
  then show ?thesis using iinv_same[OF i set_mem_same] grow by simp
next
  case (shrink t p d)
  have "0 < holders p w" using pc_at_held[OF shrink(2), of p] by simp
  with h obtain n where "p < length (heap (reg w))" by (rule held_live)
  then show ?thesis using iinv_same[OF i set_mem_same] shrink by simp
next
  case (recording p n)
  then show ?thesis using iinv_same[OF i record_same] by (simp add: stage_at_def)
next
  case (count_ok t g tag m)
  then have "same_index (reg w) g" by (auto simp: reserve_entry_def Let_def intro!: same_index_heap)
  then show ?thesis using iinv_same[OF i] count_ok by simp
next
  case (count_over t g)
  then have "same_index (reg w) g" by (auto simp: reserve_entry_def Let_def intro!: same_index_heap)
  then show ?thesis using iinv_same[OF i] count_over by simp
next
  case (book_ok t tag m g)
  then have "same_index (reg w) g" by (auto simp: reserve_bytes_def Let_def intro!: same_index_heap)
  then show ?thesis using iinv_same[OF i] book_ok by simp
next
  case (book_over t tag m g)
  then have "same_index (reg w) g" by (auto simp: reserve_bytes_def Let_def intro!: same_index_heap)
  then show ?thesis using iinv_same[OF i] book_over by simp
qed (use iinv_same[OF i same_index_heap] in
      \<open>simp_all add: unreserve_entry_def unreserve_bytes_def grow_total_def shrink_total_def\<close>)

section \<open>Every reachable state\<close>

lemma seed_fits: "unat (random_id_seed r) < 2 ^ 32 \<and> 0 < unat (random_id_seed r)"
proof (cases r)
  case (Some raw)
  have lt: "unat raw < 2 ^ 32" using unsigned_less[of raw, where ?'a = nat] by simp
  then have "unat (ucast raw :: u64) = unat raw" by (simp add: unsigned_ucast_eq take_bit_nat_eq_self)
  with lt show ?thesis using Some by (simp add: random_id_seed_def unat_max)
qed (simp add: random_id_seed_def)

lemma rinv_reached:
  assumes "rreached cf r n w" "unat (max_entries cf) + n < 2 ^ 64"
  shows "(\<forall>q. hcell q w) \<and> binv w \<and> cinv cf n w \<and> iinv (random_id_seed r) (reg w)"
  using assms(1)
proof induction
  case start
  show ?case
    by (simp add: rstart_def init_registry_def hcell_def binv_def cinv_def iinv_def holders_def growth_def
        byte_load_def granted_def map_replicate_const sum_list_replicate)
next
  case (step w w')
  then show ?case
    using hcell_step[OF step.hyps(2)] binv_step[OF step.hyps(2)] cinv_step[OF step.hyps(2) _ _ assms(2)]
      iinv_step[OF step.hyps(2)] by blast
qed

fun is_live :: "stage \<Rightarrow> bool" where
  "is_live (Live _) = True"
| "is_live _ = False"

definition live_cells :: "registry \<Rightarrow> nat" where
  "live_cells g = length (filter (\<lambda>c. is_live (c_stage c)) (heap g))"

definition booked_bytes :: "registry \<Rightarrow> nat" where
  "booked_bytes g = sum_list (map cell_bytes (heap g))"

lemma live_cells_le: "live_cells g \<le> sum_list (map cell_count (heap g))"
proof -
  have "length (filter (\<lambda>c. is_live (c_stage c)) cs) \<le> sum_list (map cell_count cs)" for cs
  proof (induction cs)
    case (Cons c cs)
    then show ?case by (cases "c_stage c") auto
  qed simp
  then show ?thesis by (simp add: live_cells_def)
qed

lemma all_idle:
  assumes "\<forall>x\<in>set xs. x = Idle"
  shows "sum_list (map pc_granted xs) = 0" "sum_list (map pc_over xs) = 0" "sum_list (map pc_bytes xs) = 0"
    "sum_list (map pc_growth xs) = 0"
  using assms by auto

lemma lookup_fst:
  "fst (lookup i g) =
     (case entries g i of
        None \<Rightarrow> Inl StaleHandle
      | Some p \<Rightarrow> if p < length (heap g) \<and> 0 < strong (c_stage (heap g ! p)) then Inr p else Inl StaleHandle)"
  by (auto simp: lookup_def upgrade_def split: option.splits)

text \<open>A registry with one thread that has inserted a counter.\<close>

definition ex_cf :: config where
  "ex_cf = \<lparr>max_entries = 2, max_bytes = 1000, metrics_enabled = True\<rparr>"

definition ex_r1 :: rworld where
  "ex_r1 = set_pc 0 (Counted Counter 16) (snd (reserve_entry ex_cf (reg (rstart None 1)))) (rstart None 1)"

definition ex_r2 :: rworld where
  "ex_r2 = set_pc 0 (Booked Counter (booked_size 16)) (snd (reserve_bytes ex_cf (booked_size 16) (reg ex_r1))) ex_r1"

definition ex_r3 :: rworld where
  "ex_r3 = set_pc 0 Idle (snd (publish Counter (booked_size 16) (reg ex_r2))) ex_r2"

lemmas ex_r_defs = ex_cf_def ex_r1_def ex_r2_def ex_r3_def rstart_def init_registry_def random_id_seed_def
  set_pc_def reserve_entry_def reserve_bytes_def publish_def booked_size_def ENTRY_FIXED_OVERHEAD_def sat_add_def Let_def

lemma ex_r3_reached: "rreached ex_cf None 1 ex_r3"
proof -
  have "rreached ex_cf None 1 ex_r1" unfolding ex_r1_def
    by (rule rreached.step[OF rreached.start rstep.count_ok])
      (simp_all add: ex_r_defs pc_at_def)
  then have "rreached ex_cf None 1 ex_r2" unfolding ex_r2_def
    by (rule rreached.step[OF _ rstep.book_ok])
      (simp_all add: ex_r_defs pc_at_def byte_load_def)
  then show ?thesis unfolding ex_r3_def
    by (rule rreached.step[OF _ rstep.publishing[where p = 0 and tag = Counter and m = 216]])
      (simp_all add: ex_r_defs pc_at_def)
qed

section \<open>Properties\<close>



text \<open>
  C19. Resolving an id finds exactly the live entry that was given this id: in every
  reachable state \<^verbatim>\<open>lookup\<close> answers with a cell precisely when that cell is alive and
  carries the id, and \<^verbatim>\<open>StaleHandle\<close> precisely when no live entry carries it, and no two
  live entries share an id.  An entry whose last reference is gone is never resolved,
  even while \<^verbatim>\<open>Entry::drop\<close> has not reached the index.
\<close>

theorem lookup_exact:
  assumes "rreached cf r threads w" "unat (max_entries cf) + threads < 2 ^ 64"
  shows "(fst (lookup i (reg w)) = Inr p \<longleftrightarrow>
       p < length (heap (reg w)) \<and> id_at p (reg w) = i \<and> is_live (c_stage (heap (reg w) ! p))) \<and>
    (fst (lookup i (reg w)) = Inl StaleHandle \<longleftrightarrow>
       (\<nexists>q. q < length (heap (reg w)) \<and> id_at q (reg w) = i \<and> is_live (c_stage (heap (reg w) ! q)))) \<and>
    (p < length (heap (reg w)) \<and> q < length (heap (reg w)) \<and> id_at p (reg w) = id_at q (reg w) \<longrightarrow> p = q)"
proof -
  let ?g = "reg w"
  have inv: "iinv (random_id_seed r) ?g" and h: "\<forall>q. hcell q w" using rinv_reached[OF assms] by blast+
  have live: "0 < strong (c_stage (heap ?g ! q)) \<longleftrightarrow> is_live (c_stage (heap ?g ! q))" if "q < length (heap ?g)" for q
    using spec[OF h, of q] that by (cases "c_stage (heap ?g ! q)") (auto simp: hcell_def)
  have found: "fst (lookup i ?g) = Inr q \<longleftrightarrow>
      q < length (heap ?g) \<and> id_at q ?g = i \<and> is_live (c_stage (heap ?g ! q))" for q
    unfolding lookup_fst
    using iinvD(3)[OF inv, of i q] live[of q]
    by (cases "c_stage (heap ?g ! q)") (auto split: option.splits)
  have "fst (lookup i ?g) = Inl StaleHandle \<or> (\<exists>q. fst (lookup i ?g) = Inr q)"
    unfolding lookup_fst by (auto split: option.splits)
  then have "fst (lookup i ?g) = Inl StaleHandle \<longleftrightarrow> (\<nexists>q. fst (lookup i ?g) = Inr q)" by auto
  with found ids_distinct[OF inv, of p q] show ?thesis by auto
qed

theorem lookup_exact_witness:
  "fst (lookup 1 (reg ex_r3)) = Inr 0 \<and> fst (lookup 2 (reg ex_r3)) = Inl StaleHandle"
  using lookup_exact[OF ex_r3_reached, of 1 0 0] lookup_exact[OF ex_r3_reached, of 2 0 0]
  by (simp add: ex_r_defs id_at_def)

section \<open>Insert by itself, and two limits of the accounting\<close>

text \<open>An insert that no other thread interrupts: either it leaves the registry as it was, or both
  caps hold afterwards and the new entry is the one found under its id.\<close>

lemma insert_entry_cases:
  assumes "insert_entry cf tag m g = (res, g')"
  shows "(res = Inl CapacityExceeded \<and> g' = g) \<or>
    (res = Inr (length (heap g)) \<and> total_entries g' \<le> max_entries cf \<and> total_bytes g' \<le> max_bytes cf \<and>
     fst (lookup (next_id g) g') = Inr (length (heap g)))"
  using assms
  by (auto simp: insert_entry_def reserve_entry_def unreserve_entry_def reserve_bytes_def unreserve_bytes_def
      publish_def Let_def lookup_fst split: bool.splits if_splits)

lemma insert_entry_full:
  assumes "total_entries g = max_entries cf" "unat (total_entries g) + 1 < 2 ^ 64"
  shows "insert_entry cf tag m g = (Inl CapacityExceeded, g)"
proof -
  have "max_entries cf < total_entries g + 1"
    using assms unat_add_lt[of "total_entries g" 1] by (simp add: word_less_nat_alt)
  then show ?thesis by (simp add: insert_entry_def reserve_entry_def unreserve_entry_def Let_def)
qed

definition ex_two :: registry where
  "ex_two = \<lparr>entries = [1 \<mapsto> 0, 2 \<mapsto> 1], pools = Map.empty, next_id = 3, total_bytes = 432, total_entries = 2,
     heap = [\<lparr>c_entry = \<lparr>e_id = 1, e_tag = Counter, e_mem = 216, e_ops = 0\<rparr>, c_stage = Live 1\<rparr>,
             \<lparr>c_entry = \<lparr>e_id = 2, e_tag = Counter, e_mem = 216, e_ops = 0\<rparr>, c_stage = Live 1\<rparr>]\<rparr>"

text \<open>The clamp on the entry's own figure does not protect the total: refunding more than an entry
  has booked takes the excess off the other entries' bytes, and dropping one of them then wraps the
  total around.\<close>

lemma over_refund_wraps:
  "mem_of 0 (Entry_adjust_mem_bytes 0 (- 300) ex_two) = 0 \<and>
   total_bytes (Entry_drop 1 (release 1 (Entry_adjust_mem_bytes 0 (- 300) ex_two))) = - 84"
  by (simp add: ex_two_def Entry_adjust_mem_bytes_def Entry_drop_def release_def mem_of_def Let_def set_mem_def
      shrink_total_def sat_sub_def drop_pools_def drop_index_def drop_count_def drop_bytes_def set_stage_def)

text \<open>An inner value that reports a size near the largest word is booked at the largest word, and
  the addition to the total wraps below the cap: the insert is accepted.\<close>

lemma huge_insert_accepted:
  "fst (insert_entry \<lparr>max_entries = 10, max_bytes = 1000, metrics_enabled = False\<rparr> Map (- 5) ex_two) = Inr 2"
  by (simp add: ex_two_def insert_entry_def booked_size_def ENTRY_FIXED_OVERHEAD_def sat_add_def reserve_entry_def
      reserve_bytes_def publish_def Let_def)

end
