(* ===== verification/Shared_Value.thy ===== *)
theory Shared_Value
  imports Shared_Registry "HOL-Library.Multiset"
begin

text \<open>
  Values stored in the shared containers and their wire format
  (\<^verbatim>\<open>src/plugins/ox_shared/value.rs\<close>).

  \<^verbatim>\<open>SharedValue\<close> and \<^verbatim>\<open>SharedValueRaw\<close> have one shape and differ in what a nested
  reference is: an owning handle, which keeps one strong reference to its entry, or
  a plain view.  Both are instances of one datatype.  Integers and floats are their
  64 bits.  The portbuf reader of the source walks a buffer with a position; here it
  takes the bytes from that position on and returns the bytes left.  A byte is a
  \<^typ>\<open>char\<close>, and lengths and counts are little-endian.

  \<^verbatim>\<open>raw_to_owned\<close> takes the references out of the registry, so it threads the registry
  through, and gives back the references it has taken when one cannot be resolved.
\<close>

section \<open>Data\<close>

datatype 'r svalue =
    Null
  | Bool bool
  | Long u64
  | Double u64
  | Str string
  | Bytes string
  | Array "'r svalue list" "(string \<times> 'r svalue) list"
  | Shared 'r

record SharedRef =
  ref_id :: SharedId
  ref_tag :: SharedType

record SharedRefOwned =
  own_entry :: nat
  own_id :: SharedId
  own_tag :: SharedType

type_synonym SharedValue = "SharedRefOwned svalue"
type_synonym SharedValueRaw = "SharedRef svalue"

definition from_arc :: "nat \<Rightarrow> registry \<Rightarrow> SharedRefOwned" where
  "from_arc p g =
     \<lparr>own_entry = p, own_id = e_id (c_entry (heap g ! p)), own_tag = e_tag (c_entry (heap g ! p))\<rparr>"

definition as_view :: "SharedRefOwned \<Rightarrow> SharedRef" where
  "as_view r = \<lparr>ref_id = own_id r, ref_tag = own_tag r\<rparr>"

fun collect_shared_refs :: "SharedValue \<Rightarrow> SharedRef list" where
  "collect_shared_refs (Shared r) = [as_view r]"
| "collect_shared_refs (Array ints strs) =
     concat (map collect_shared_refs ints) @ concat (map (\<lambda>(_, v). collect_shared_refs v) strs)"
| "collect_shared_refs _ = []"

fun mem_bytes :: "SharedValue \<Rightarrow> nat" where
  "mem_bytes Null = 1"
| "mem_bytes (Bool _) = 1"
| "mem_bytes (Long _) = 8"
| "mem_bytes (Double _) = 8"
| "mem_bytes (Str s) = length s + 16"
| "mem_bytes (Bytes b) = length b + 16"
| "mem_bytes (Array ints strs) =
     sum_list (map mem_bytes ints) + sum_list (map (\<lambda>(k, v). length k + 16 + mem_bytes v) strs) + 64"
| "mem_bytes (Shared _) = 16"

section \<open>Bytes\<close>

text \<open>\<^verbatim>\<open>to_le_bytes\<close> of the low \<open>k\<close> bytes of a number, and \<^verbatim>\<open>from_le_bytes\<close>.\<close>

fun le_bytes :: "nat \<Rightarrow> nat \<Rightarrow> string" where
  "le_bytes 0 v = []"
| "le_bytes (Suc k) v = char_of v # le_bytes k (v div 256)"

fun from_le :: "string \<Rightarrow> nat" where
  "from_le [] = 0"
| "from_le (c # cs) = of_char c + 256 * from_le cs"

lemma length_le_bytes [simp]: "length (le_bytes k v) = k"
  by (induction k arbitrary: v) simp_all

lemma from_le_le_bytes: "from_le (le_bytes k v) = v mod 256 ^ k"
proof (induction k arbitrary: v)
  case (Suc k)
  have "v mod 256 + 256 * (v div 256 mod 256 ^ k) = v mod (256 * 256 ^ k)"
    by (simp add: mod_mult2_eq)
  with Suc show ?case by simp
qed simp

lemma from_le_bound: "from_le s < 256 ^ length s"
proof (induction s)
  case (Cons c s)
  have "of_char c < (256 :: nat)" by (cases c) (simp add: of_char_def)
  moreover have "from_le s + 1 \<le> 256 ^ length s" using Cons by simp
  then have "256 * from_le s + 256 \<le> 256 * 256 ^ length s" by linarith
  ultimately have "of_char c + 256 * from_le s < 256 * 256 ^ length s" by linarith
  then show ?case by simp
qed simp

section \<open>Writing\<close>

fun sv_write :: "SharedValue \<Rightarrow> string"
  and write_ints :: "nat \<Rightarrow> SharedValue list \<Rightarrow> string"
  and write_strs :: "(string \<times> SharedValue) list \<Rightarrow> string" where
  "sv_write Null = le_bytes 1 0"
| "sv_write (Bool True) = le_bytes 1 1"
| "sv_write (Bool False) = le_bytes 1 2"
| "sv_write (Long v) = le_bytes 1 3 @ le_bytes 8 (unat v)"
| "sv_write (Double v) = le_bytes 1 4 @ le_bytes 8 (unat v)"
| "sv_write (Str s) = le_bytes 1 5 @ le_bytes 4 (length s) @ s"
| "sv_write (Bytes b) = le_bytes 1 5 @ le_bytes 4 (length b) @ b"
| "sv_write (Array ints strs) =
     le_bytes 1 6 @ le_bytes 4 (length ints + length strs) @ write_ints 0 ints @ write_strs strs"
| "sv_write (Shared r) = le_bytes 1 7 @ le_bytes 1 (tag_of (own_tag r)) @ le_bytes 8 (unat (own_id r))"
| "write_ints idx [] = []"
| "write_ints idx (v # vs) = le_bytes 1 0 @ le_bytes 8 idx @ sv_write v @ write_ints (Suc idx) vs"
| "write_strs [] = []"
| "write_strs ((k, v) # kvs) = le_bytes 1 1 @ le_bytes 4 (length k) @ k @ sv_write v @ write_strs kvs"

definition sv_to_portbuf :: "SharedValue \<Rightarrow> string" where
  "sv_to_portbuf v = sv_write v"

section \<open>Reading\<close>

definition read_bytes :: "nat \<Rightarrow> string \<Rightarrow> SharedError + string \<times> string" where
  "read_bytes n s = (if length s < n then Inl Generic else Inr (take n s, drop n s))"

definition read_u8 :: "string \<Rightarrow> SharedError + nat \<times> string" where
  "read_u8 s = (case s of [] \<Rightarrow> Inl Generic | c # r \<Rightarrow> Inr (of_char c, r))"

definition read_u32_le :: "string \<Rightarrow> SharedError + nat \<times> string" where
  "read_u32_le s = (if length s < 4 then Inl Generic else Inr (from_le (take 4 s), drop 4 s))"

definition read_u64_le :: "string \<Rightarrow> SharedError + u64 \<times> string" where
  "read_u64_le s = (if length s < 8 then Inl Generic else Inr (of_nat (from_le (take 8 s)), drop 8 s))"

text \<open>What every reader takes off the front.\<close>

lemma read_u8_InrD: "read_u8 s = Inr (n, r) \<Longrightarrow> length r < length s"
  by (auto simp: read_u8_def split: list.splits)

lemma read_u32_InrD: "read_u32_le s = Inr (n, r) \<Longrightarrow> length r < length s"
  by (auto simp: read_u32_le_def split: if_splits)

lemma read_u64_InrD: "read_u64_le s = Inr (n, r) \<Longrightarrow> length r < length s"
  by (auto simp: read_u64_le_def split: if_splits)

lemma read_bytes_InrD: "read_bytes k s = Inr (b, r) \<Longrightarrow> length r \<le> length s"
  by (auto simp: read_bytes_def split: if_splits)

text \<open>The \<^verbatim>\<open>?\<close> operator.\<close>

definition rbind :: "'e + 'a \<Rightarrow> ('a \<Rightarrow> 'e + 'b) \<Rightarrow> 'e + 'b" where
  "rbind m f = (case m of Inl e \<Rightarrow> Inl e | Inr x \<Rightarrow> f x)"

lemma rbind_simps [simp]: "rbind (Inl e) f = Inl e" "rbind (Inr x) f = f x"
  by (simp_all add: rbind_def)

lemma rbind_Inr_iff [simp]: "rbind m (\<lambda>(a, b). f a b) = Inr y \<longleftrightarrow> (\<exists>a b. m = Inr (a, b) \<and> f a b = Inr y)"
  by (cases m) auto

lemma rbind_Inl_iff: "rbind m (\<lambda>(a, b). f a b) = Inl e \<longleftrightarrow> m = Inl e \<or> (\<exists>a b. m = Inr (a, b) \<and> f a b = Inl e)"
  by (cases m) auto

lemma rbind_cong [fundef_cong]:
  "m = m' \<Longrightarrow> (\<And>x. m' = Inr x \<Longrightarrow> f x = f' x) \<Longrightarrow> rbind m f = rbind m' f'"
  by (cases m') (auto simp: rbind_def)

text \<open>Every value read takes at least one byte, so both loops end.\<close>

function sv_read :: "string \<Rightarrow> SharedError + SharedValueRaw \<times> string"
  and sv_entries :: "nat \<Rightarrow> string \<Rightarrow> SharedValueRaw list \<Rightarrow> (string \<times> SharedValueRaw) list \<Rightarrow>
     SharedError + (SharedValueRaw list \<times> (string \<times> SharedValueRaw) list) \<times> string" where
  "sv_read s =
     rbind (read_u8 s) (\<lambda>(tag, s).
       if tag = 0 then Inr (Null, s)
       else if tag = 1 then Inr (Bool True, s)
       else if tag = 2 then Inr (Bool False, s)
       else if tag = 3 then rbind (read_u64_le s) (\<lambda>(v, s). Inr (Long v, s))
       else if tag = 4 then rbind (read_u64_le s) (\<lambda>(v, s). Inr (Double v, s))
       else if tag = 5 then
         rbind (read_u32_le s) (\<lambda>(len, s).
         rbind (read_bytes len s) (\<lambda>(bytes, s).
           Inr (if utf8_valid bytes then Str bytes else Bytes bytes, s)))
       else if tag = 6 then
         rbind (read_u32_le s) (\<lambda>(n, s).
         rbind (sv_entries n s [] []) (\<lambda>((ints, strs), s).
           Inr (Array ints strs, s)))
       else if tag = 7 then
         rbind (read_u8 s) (\<lambda>(tt, s).
         rbind (read_u64_le s) (\<lambda>(i, s).
           case from_tag tt of
             None \<Rightarrow> Inl TypeError
           | Some t \<Rightarrow> Inr (Shared \<lparr>ref_id = i, ref_tag = t\<rparr>, s)))
       else Inl TypeError)"
| "sv_entries 0 s ints strs = Inr ((ints, strs), s)"
| "sv_entries (Suc n) s ints strs =
     rbind (read_u8 s) (\<lambda>(key_type, s).
       if key_type = 1 then
         rbind (read_u32_le s) (\<lambda>(klen, s).
         rbind (read_bytes klen s) (\<lambda>(kbytes, s).
         rbind (sv_read s) (\<lambda>(v, s).
           sv_entries n s ints (strs @ [(if utf8_valid kbytes then kbytes else [], v)]))))
       else
         rbind (read_u64_le s) (\<lambda>(_, s).
         rbind (sv_read s) (\<lambda>(v, s).
           sv_entries n s (ints @ [v]) strs)))"
  by pat_completeness auto

termination
proof -
  have shrinks:
    "sv_read_sv_entries_dom (Inl s) \<Longrightarrow> sv_read s = Inr (v, r) \<Longrightarrow> length r < length s"
    "sv_read_sv_entries_dom (Inr (n, s', ints, strs)) \<Longrightarrow> sv_entries n s' ints strs = Inr (x, r') \<Longrightarrow>
       length r' \<le> length s'" for s v r n s' ints strs x r'
  proof (induction arbitrary: v r and x r' rule: sv_read_sv_entries.pinduct)
    case (1 s)
    obtain tag s1 where t: "read_u8 s = Inr (tag, s1)" using 1(3) by (auto simp: sv_read.psimps[OF 1(1)])
    show ?case
    proof (cases "tag = 6")
      case True
      with t 1(3) obtain n s2 a b where n: "read_u32_le s1 = Inr (n, s2)" "sv_entries n s2 [] [] = Inr ((a, b), r)"
        by (auto simp: sv_read.psimps[OF 1(1)])
      have "length r \<le> length s2" by (rule 1(2)[OF t refl]) (use True n in auto)
      with read_u8_InrD[OF t] read_u32_InrD[OF n(1)] show ?thesis by simp
    next
      case False
      with 1(3) t show ?thesis
        by (auto simp: sv_read.psimps[OF 1(1)] split: if_splits option.splits
            dest!: read_u8_InrD read_u32_InrD read_u64_InrD read_bytes_InrD)
    qed
  next
    case (2 s ints strs)
    then show ?case by (simp add: sv_entries.psimps)
  next
    case (3 n s ints strs)
    obtain kt s1 where t: "read_u8 s = Inr (kt, s1)" using 3(6) by (auto simp: sv_entries.psimps(2)[OF 3(1)])
    show ?case
    proof (cases "kt = 1")
      case True
      with t 3(6) obtain klen s2 kb s3 v s4 where n: "read_u32_le s1 = Inr (klen, s2)"
          "read_bytes klen s2 = Inr (kb, s3)" "sv_read s3 = Inr (v, s4)"
          "sv_entries n s4 ints (strs @ [(if utf8_valid kb then kb else [], v)]) = Inr (x, r')"
        by (auto simp: sv_entries.psimps(2)[OF 3(1)])
      have "length s4 < length s3" by (rule 3(2)[OF t refl True n(1) refl n(2) refl n(3)])
      moreover have "length r' \<le> length s4"
        by (rule 3(3)[OF t refl True n(1) refl n(2) refl n(3) refl n(4)])
      ultimately show ?thesis
        using read_u8_InrD[OF t] read_u32_InrD[OF n(1)] read_bytes_InrD[OF n(2)] by simp
    next
      case False
      with t 3(6) obtain idx s2 v s3 where n: "read_u64_le s1 = Inr (idx, s2)" "sv_read s2 = Inr (v, s3)"
          "sv_entries n s3 (ints @ [v]) strs = Inr (x, r')"
        by (auto simp: sv_entries.psimps(2)[OF 3(1)])
      have "length s3 < length s2" by (rule 3(4)[OF t refl False n(1) refl n(2)])
      moreover have "length r' \<le> length s3" by (rule 3(5)[OF t refl False n(1) refl n(2) refl n(3)])
      ultimately show ?thesis using read_u8_InrD[OF t] read_u64_InrD[OF n(1)] by simp
    qed
  qed
  show ?thesis
    by (relation "measure (\<lambda>x. case x of Inl s \<Rightarrow> length s | Inr (n, s, _, _) \<Rightarrow> length s)")
      (auto dest!: read_u8_InrD read_u32_InrD read_u64_InrD read_bytes_InrD shrinks(1))
qed

definition portbuf_to_sv :: "string \<Rightarrow> SharedError + SharedValueRaw" where
  "portbuf_to_sv buf = rbind (sv_read buf) (\<lambda>(v, _). Inr v)"

section \<open>Scanning for references\<close>

definition skip :: "nat \<Rightarrow> string \<Rightarrow> SharedError + unit \<times> string" where
  "skip n s = (if length s < n then Inl Generic else Inr ((), drop n s))"

lemma skip_InrD: "skip k s = Inr (u, r) \<Longrightarrow> length r \<le> length s"
  by (auto simp: skip_def split: if_splits)

function scan_one :: "string \<Rightarrow> SharedRef list \<Rightarrow> SharedError + SharedRef list \<times> string"
  and scan_entries :: "nat \<Rightarrow> string \<Rightarrow> SharedRef list \<Rightarrow> SharedError + SharedRef list \<times> string" where
  "scan_one s out =
     rbind (read_u8 s) (\<lambda>(tag, s).
       if tag \<le> 2 then Inr (out, s)
       else if tag \<le> 4 then rbind (skip 8 s) (\<lambda>(_, s). Inr (out, s))
       else if tag = 5 then
         rbind (read_u32_le s) (\<lambda>(n, s).
         rbind (skip n s) (\<lambda>(_, s). Inr (out, s)))
       else if tag = 6 then rbind (read_u32_le s) (\<lambda>(n, s). scan_entries n s out)
       else if tag = 7 then
         rbind (read_u8 s) (\<lambda>(tt, s).
         rbind (read_u64_le s) (\<lambda>(i, s).
           case from_tag tt of
             None \<Rightarrow> Inl TypeError
           | Some t \<Rightarrow> Inr (out @ [\<lparr>ref_id = i, ref_tag = t\<rparr>], s)))
       else Inl TypeError)"
| "scan_entries 0 s out = Inr (out, s)"
| "scan_entries (Suc n) s out =
     rbind (read_u8 s) (\<lambda>(key_type, s).
     rbind (if key_type = 1 then rbind (read_u32_le s) (\<lambda>(klen, s). skip klen s) else skip 8 s) (\<lambda>(_, s).
     rbind (scan_one s out) (\<lambda>(out, s).
       scan_entries n s out)))"
  by pat_completeness auto

termination
proof -
  have shrinks:
    "scan_one_scan_entries_dom (Inl (s, out)) \<Longrightarrow> scan_one s out = Inr (v, r) \<Longrightarrow> length r < length s"
    "scan_one_scan_entries_dom (Inr (n, s', out')) \<Longrightarrow> scan_entries n s' out' = Inr (x, r') \<Longrightarrow>
       length r' \<le> length s'" for s out v r n s' out' x r'
  proof (induction arbitrary: v r and x r' rule: scan_one_scan_entries.pinduct)
    case (1 s out)
    obtain tag s1 where t: "read_u8 s = Inr (tag, s1)" using 1(3) by (auto simp: scan_one.psimps[OF 1(1)])
    show ?case
    proof (cases "tag = 6")
      case True
      with t 1(3) obtain n s2 where n: "read_u32_le s1 = Inr (n, s2)" "scan_entries n s2 out = Inr (v, r)"
        by (auto simp: scan_one.psimps[OF 1(1)])
      have "length r \<le> length s2" by (rule 1(2)[OF t refl]) (use True n in auto)
      with read_u8_InrD[OF t] read_u32_InrD[OF n(1)] show ?thesis by simp
    next
      case False
      with 1(3) t show ?thesis
        by (auto simp: scan_one.psimps[OF 1(1)] split: if_splits option.splits
            dest!: read_u8_InrD read_u32_InrD read_u64_InrD skip_InrD)
    qed
  next
    case (2 s out)
    then show ?case by (simp add: scan_entries.psimps)
  next
    case (3 n s out)
    from 3(4) obtain kt s1 u s2 o3 s3 where n: "read_u8 s = Inr (kt, s1)"
        "(if kt = 1 then rbind (read_u32_le s1) (\<lambda>(klen, s). skip klen s) else skip 8 s1) = Inr (u, s2)"
        "scan_one s2 out = Inr (o3, s3)" "scan_entries n s3 o3 = Inr (x, r')"
      by (auto simp: scan_entries.psimps(2)[OF 3(1)])
    have "length s3 < length s2" by (rule 3(2)[OF n(1) refl n(2) refl n(3)])
    moreover have "length r' \<le> length s3" by (rule 3(3)[OF n(1) refl n(2) refl n(3) refl n(4)])
    moreover have "length s2 \<le> length s1"
      using n(2) by (auto split: if_splits dest!: read_u32_InrD skip_InrD)
    ultimately show ?case using read_u8_InrD[OF n(1)] by simp
  qed
  show ?thesis
    by (relation "measure (\<lambda>x. case x of Inl (s, _) \<Rightarrow> length s | Inr (n, s, _) \<Rightarrow> length s)")
      (auto split: if_splits dest!: read_u8_InrD read_u32_InrD skip_InrD shrinks(1))
qed

definition scan_shared_refs :: "string \<Rightarrow> SharedError + SharedRef list" where
  "scan_shared_refs buf = rbind (scan_one buf []) (\<lambda>(out, _). Inr out)"

declare sv_read.simps [simp del] scan_one.simps [simp del]

section \<open>Round trip\<close>

text \<open>What the wire keeps of a value: references become views, and a byte string that happens to be
  UTF-8 comes back as a string, since the format has one tag for both.\<close>

fun wire_view :: "SharedValue \<Rightarrow> SharedValueRaw" where
  "wire_view Null = Null"
| "wire_view (Bool b) = Bool b"
| "wire_view (Long v) = Long v"
| "wire_view (Double v) = Double v"
| "wire_view (Str s) = (if utf8_valid s then Str s else Bytes s)"
| "wire_view (Bytes b) = (if utf8_valid b then Str b else Bytes b)"
| "wire_view (Array ints strs) = Array (map wire_view ints) (map (\<lambda>(k, v). (k, wire_view v)) strs)"
| "wire_view (Shared r) = Shared (as_view r)"

text \<open>Sizes that fit the 32-bit lengths of the format, and keys that are text, as a Rust \<^verbatim>\<open>str\<close> is.\<close>

fun encodable :: "'r svalue \<Rightarrow> bool" where
  "encodable (Str s) \<longleftrightarrow> length s < 2 ^ 32 \<and> utf8_valid s"
| "encodable (Bytes b) \<longleftrightarrow> length b < 2 ^ 32"
| "encodable (Array ints strs) \<longleftrightarrow> length ints + length strs < 2 ^ 32 \<and> (\<forall>v \<in> set ints. encodable v) \<and>
     (\<forall>(k, v) \<in> set strs. length k < 2 ^ 32 \<and> utf8_valid k \<and> encodable v)"
| "encodable _ \<longleftrightarrow> True"

lemma read_u8_byte: "read_u8 (le_bytes (Suc 0) n @ r) = Inr (n mod 256, r)"
  by (simp add: read_u8_def)

lemma read_u32_written: "n < 2 ^ 32 \<Longrightarrow> read_u32_le (le_bytes 4 n @ r) = Inr (n, r)"
  by (simp add: read_u32_le_def from_le_le_bytes)

lemma read_u64_written: "read_u64_le (le_bytes 8 n @ r) = Inr (of_nat n, r)"
proof -
  have "of_nat (n mod 2 ^ 64) = (of_nat n :: u64)"
    by (simp add: word_of_nat_eq_iff take_bit_eq_mod)
  then show ?thesis by (simp add: read_u64_le_def from_le_le_bytes)
qed

lemma read_bytes_written: "read_bytes (length b) (b @ r) = Inr (b, r)"
  by (simp add: read_bytes_def)

lemmas read_written = read_u8_byte read_u32_written read_u64_written read_bytes_written

lemma sv_read_written:
  "encodable v \<Longrightarrow> sv_read (sv_write v @ r) = Inr (wire_view v, r)"
  "\<forall>x \<in> set vs. encodable x \<Longrightarrow>
     sv_entries (length vs + n) (write_ints idx vs @ r) a b = sv_entries n r (a @ map wire_view vs) b"
  "\<forall>(k, x) \<in> set kvs. length k < 2 ^ 32 \<and> utf8_valid k \<and> encodable x \<Longrightarrow>
     sv_entries (length kvs + n) (write_strs kvs @ r) a b =
     sv_entries n r a (b @ map (\<lambda>(k, x). (k, wire_view x)) kvs)"
proof (induction v and idx vs and kvs arbitrary: r and n r a b and n r a b
    rule: sv_write_write_ints_write_strs.induct)
  case (8 ints strs)
  then show ?case
    using "8.IH"(1)[of "length strs" "write_strs strs @ r" "[]" "[]"] "8.IH"(2)[of 0 r "map wire_view ints" "[]"]
    by (simp add: sv_read.simps[of "_ # _"] read_u8_def read_written)
next
  case (9 r)
  then show ?case by (simp add: sv_read.simps[of "_ # _"] read_u8_def read_written as_view_def)
qed (simp_all add: sv_read.simps[of "_ # _"] read_u8_def read_written)

section \<open>What decoding yields\<close>

text \<open>A decoded value is one the Rust types allow and the writer can produce: strings and keys are
  UTF-8, byte strings are not.\<close>

fun decoded_ok :: "'r svalue \<Rightarrow> bool" where
  "decoded_ok (Str s) \<longleftrightarrow> utf8_valid s"
| "decoded_ok (Bytes b) \<longleftrightarrow> \<not> utf8_valid b"
| "decoded_ok (Array ints strs) \<longleftrightarrow> (\<forall>v \<in> set ints. decoded_ok v) \<and> (\<forall>(k, v) \<in> set strs. utf8_valid k \<and> decoded_ok v)"
| "decoded_ok _ \<longleftrightarrow> True"

text \<open>The bytes a value stands for: one per node, and the text it carries.\<close>

fun weight :: "'r svalue \<Rightarrow> nat" where
  "weight (Str s) = Suc (length s)"
| "weight (Bytes b) = Suc (length b)"
| "weight (Array ints strs) = Suc (sum_list (map weight ints) + sum_list (map (\<lambda>(k, v). length k + weight v) strs))"
| "weight _ = 1"

lemma read_bytes_take: "read_bytes k s = Inr (b, r) \<Longrightarrow> length b + length r = length s"
  by (auto simp: read_bytes_def split: if_splits)

lemma sv_read_ok:
  "sv_read s = Inr (v, r) \<Longrightarrow> decoded_ok v \<and> weight v + length r \<le> length s"
  "sv_entries n s' ints strs = Inr ((ints', strs'), r') \<Longrightarrow> decoded_ok (Array ints strs) \<Longrightarrow>
     decoded_ok (Array ints' strs') \<and>
     weight (Array ints' strs') + length r' \<le> weight (Array ints strs) + length s'"
proof (induction s and n s' ints strs arbitrary: v r and ints' strs' r' rule: sv_read_sv_entries.induct)
  case (1 s)
  obtain tag s1 where t: "read_u8 s = Inr (tag, s1)" using 1(2) by (auto simp: sv_read.simps[of s])
  show ?case
  proof (cases "tag = 6")
    case True
    with t 1(2) obtain n s2 a b where n: "read_u32_le s1 = Inr (n, s2)" "sv_entries n s2 [] [] = Inr ((a, b), r)"
      "v = Array a b"
      by (auto simp: sv_read.simps[of s])
    have "decoded_ok (Array a b) \<and> weight (Array a b) + length r \<le> weight (Array [] [] :: SharedValueRaw) + length s2"
      by (rule 1(1)[OF t refl]) (use True n in auto)
    with n read_u8_InrD[OF t] read_u32_InrD[OF n(1)] show ?thesis by simp
  next
    case False
    with 1(2) t show ?thesis
      by (auto simp: sv_read.simps[of s] split: if_splits option.splits
          dest!: read_u8_InrD read_u32_InrD read_u64_InrD dest: read_bytes_take)
  qed
next
  case (2 s ints strs)
  then show ?case by simp
next
  case (3 n s ints strs)
  obtain kt s1 where t: "read_u8 s = Inr (kt, s1)" using 3(5) by auto
  show ?case
  proof (cases "kt = 1")
    case True
    with t 3(5) obtain klen s2 kb s3 v s4 where n: "read_u32_le s1 = Inr (klen, s2)"
        "read_bytes klen s2 = Inr (kb, s3)" "sv_read s3 = Inr (v, s4)"
        "sv_entries n s4 ints (strs @ [(if utf8_valid kb then kb else [], v)]) = Inr ((ints', strs'), r')"
      by auto
    have v: "decoded_ok v \<and> weight v + length s4 \<le> length s3" by (rule 3(1)[OF t refl True n(1) refl n(2) refl n(3)])
    then have "decoded_ok (Array ints (strs @ [(if utf8_valid kb then kb else [], v)]))" using 3(6) by auto
    from 3(2)[OF t refl True n(1) refl n(2) refl n(3) refl n(4) this] v
    show ?thesis using read_u8_InrD[OF t] read_u32_InrD[OF n(1)] read_bytes_take[OF n(2)]
      by (auto split: if_splits)
  next
    case False
    with t 3(5) obtain idx s2 v s3 where n: "read_u64_le s1 = Inr (idx, s2)" "sv_read s2 = Inr (v, s3)"
        "sv_entries n s3 (ints @ [v]) strs = Inr ((ints', strs'), r')"
      by auto
    have v: "decoded_ok v \<and> weight v + length s3 \<le> length s2" by (rule 3(3)[OF t refl False n(1) refl n(2)])
    then have "decoded_ok (Array (ints @ [v]) strs)" using 3(6) by auto
    from 3(4)[OF t refl False n(1) refl n(2) refl n(3) this] v
    show ?thesis using read_u8_InrD[OF t] read_u64_InrD[OF n(1)] by auto
  qed
qed

section \<open>Scanning and decoding agree\<close>

fun refs_of :: "'r svalue \<Rightarrow> 'r list" where
  "refs_of (Shared r) = [r]"
| "refs_of (Array ints strs) = concat (map refs_of ints) @ concat (map (\<lambda>(_, v). refs_of v) strs)"
| "refs_of _ = []"

lemma collect_shared_refs_views: "collect_shared_refs v = map as_view (refs_of v)"
proof (induction v rule: collect_shared_refs.induct)
  case (2 ints strs)
  have "concat (map collect_shared_refs ints) = map as_view (concat (map refs_of ints))"
    using 2(1) by (auto simp: map_concat comp_def intro!: arg_cong[of _ _ concat])
  moreover have "concat (map (\<lambda>(_, v). collect_shared_refs v) strs) = map as_view (concat (map (\<lambda>(_, v). refs_of v) strs))"
    using 2(2) by (auto simp: map_concat comp_def intro!: arg_cong[of _ _ concat])
  ultimately show ?case by simp
qed simp_all

definition agrees :: "SharedRef list \<Rightarrow> SharedRef multiset \<Rightarrow> SharedError + 'v \<times> string \<Rightarrow> ('v \<Rightarrow> SharedRef list) \<Rightarrow>
    SharedError + SharedRef list \<times> string \<Rightarrow> bool" where
  "agrees out base m f k =
     (case m of
        Inl e \<Rightarrow> k = Inl e
      | Inr (v, r) \<Rightarrow> (\<exists>refs. k = Inr (out @ refs, r) \<and> mset refs + base = mset (f v)))"

abbreviation entry_refs :: "SharedValueRaw list \<times> (string \<times> SharedValueRaw) list \<Rightarrow> SharedRef list" where
  "entry_refs x \<equiv> refs_of (Array (fst x) (snd x))"

lemma skip_read: "skip n s = rbind (read_bytes n s) (\<lambda>(_, s). Inr ((), s))"
  by (simp add: skip_def read_bytes_def)

lemma skip_u64: "skip 8 s = rbind (read_u64_le s) (\<lambda>(_, s). Inr ((), s))"
  by (simp add: skip_def read_u64_le_def)

lemma rbind_assoc_pair:
  "rbind (rbind m (\<lambda>(a, b). f a b)) (\<lambda>(c, d). h c d) = rbind m (\<lambda>(a, b). rbind (f a b) (\<lambda>(c, d). h c d))"
  by (cases m) auto

lemma agrees_Inr: "mset refs + base = mset (f v) \<Longrightarrow> agrees out base (Inr (v, r)) f (Inr (out @ refs, r))"
  by (auto simp: agrees_def)

lemma agrees_Inr_same: "base = mset (f v) \<Longrightarrow> agrees out base (Inr (v, r)) f (Inr (out, r))"
  by (simp add: agrees_def)

lemma agrees_rbind:
  "(\<And>a b. m = Inr (a, b) \<Longrightarrow> agrees out base (f a b) g (k a b)) \<Longrightarrow>
     agrees out base (rbind m (\<lambda>(a, b). f a b)) g (rbind m (\<lambda>(a, b). k a b))"
  by (cases m) (auto simp: agrees_def)

lemma agrees_value:
  assumes "agrees out {#} m refs_of k"
    and "\<And>v r refs. m = Inr (v, r) \<Longrightarrow> agrees (out @ refs) (base + mset (refs_of v)) (f v r) g (h (out @ refs) r)"
  shows "agrees out base (rbind m (\<lambda>(v, r). f v r)) g (rbind k (\<lambda>(o', r). h o' r))"
proof (cases m)
  case (Inr x)
  then obtain v r where m: "m = Inr (v, r)" by (cases x) auto
  with assms(1) obtain refs where k: "k = Inr (out @ refs, r)" "mset refs = mset (refs_of v)"
    by (auto simp: agrees_def)
  from assms(2)[OF m, of refs] m k show ?thesis
    by (auto simp: agrees_def split: sum.splits) (metis append.assoc mset_append union_assoc union_commute)
qed (use assms(1) in \<open>auto simp: agrees_def\<close>)

lemma scan_agrees_aux:
  "agrees out {#} (sv_read s) refs_of (scan_one s out)"
  "agrees out (mset (refs_of (Array ints strs))) (sv_entries n s' ints strs) entry_refs (scan_entries n s' out)"
proof (induction s and n s' ints strs arbitrary: out and out rule: sv_read_sv_entries.induct)
  case (1 s)
  note IH = 1(1)
  show ?case unfolding sv_read.simps[of s] scan_one.simps[of s]
  proof (rule agrees_rbind, goal_cases)
    case (1 tag s1)
    consider "tag = 0 \<or> tag = 1 \<or> tag = 2" | "tag = 3 \<or> tag = 4" | "tag = 5" | "tag = 6" | "tag = 7" | "tag > 7"
      by linarith
    then show ?case
    proof cases
      case 4
      have "agrees out {#} (rbind (sv_entries n s2 [] []) (\<lambda>((ints, strs), s). Inr (Array ints strs, s))) refs_of
          (scan_entries n s2 out)" if n: "read_u32_le s1 = Inr (n, s2)" for n s2
      proof -
        have "agrees out (mset (refs_of (Array [] [] :: SharedValueRaw))) (sv_entries n s2 [] []) entry_refs (scan_entries n s2 out)"
          by (rule IH[OF 1 refl]) (use 4 n in auto)
        then show ?thesis by (cases "sv_entries n s2 [] []") (auto simp: agrees_def)
      qed
      with 4 show ?thesis by (auto intro!: agrees_rbind)
    next
      case 5
      then show ?thesis by (auto intro!: agrees_rbind agrees_Inr simp: agrees_def[of _ _ "Inl _"] split: option.splits)
    next
      case 2
      then show ?thesis by (auto intro!: agrees_rbind agrees_Inr_same simp: skip_u64 rbind_assoc_pair)
    qed (auto intro!: agrees_rbind agrees_Inr_same simp: skip_read rbind_assoc_pair agrees_def[of _ _ "Inl _"])
  qed
next
  case (2 s ints strs)
  then show ?case by (simp add: agrees_Inr_same)
next
  case (3 n s ints strs)
  show ?case unfolding sv_entries.simps scan_entries.simps
  proof (rule agrees_rbind, goal_cases)
    case t: (1 kt s1)
    show ?case
    proof (cases "kt = 1")
      case True
      show ?thesis unfolding if_P[OF True] rbind_assoc_pair skip_read
      proof (rule agrees_rbind, rule agrees_rbind, unfold rbind_simps prod.case, rule agrees_value, goal_cases)
        case (1 klen s2 kb s3)
        show ?case by (rule 3(1)[OF t refl True 1(1) refl 1(2) refl])
      next
        case (2 klen s2 kb s3 v s4 refs)
        have "agrees (out @ refs) (mset (refs_of (Array ints (strs @ [(if utf8_valid kb then kb else [], v)]))))
           (sv_entries n s4 ints (strs @ [(if utf8_valid kb then kb else [], v)])) entry_refs (scan_entries n s4 (out @ refs))"
          by (rule 3(2)[OF t refl True 2(1) refl 2(2) refl 2(3) refl])
        then show ?case by (simp add: union_assoc)
      qed
    next
      case False
      show ?thesis unfolding if_not_P[OF False] skip_u64 rbind_assoc_pair
      proof (rule agrees_rbind, unfold rbind_simps prod.case, rule agrees_value, goal_cases)
        case (1 idx s2)
        show ?case by (rule 3(3)[OF t refl False 1 refl])
      next
        case (2 idx s2 v s3 refs)
        have "agrees (out @ refs) (mset (refs_of (Array (ints @ [v]) strs))) (sv_entries n s3 (ints @ [v]) strs)
           entry_refs (scan_entries n s3 (out @ refs))"
          by (rule 3(4)[OF t refl False 2(1) refl 2(2) refl])
        then show ?case by (simp add: union_assoc union_commute union_lcomm)
      qed
    qed
  qed
qed

section \<open>Taking ownership of the references\<close>

text \<open>Dropping a value drops every handle in it.\<close>

definition drop_value :: "SharedValue \<Rightarrow> registry \<Rightarrow> registry" where
  "drop_value v g = fold release (map own_entry (refs_of v)) g"

definition drop_values :: "SharedValue list \<Rightarrow> registry \<Rightarrow> registry" where
  "drop_values vs g = fold drop_value vs g"

fun raw_to_owned :: "SharedValueRaw \<Rightarrow> registry \<Rightarrow> (SharedError + SharedValue) \<times> registry"
  and own_ints :: "SharedValueRaw list \<Rightarrow> SharedValue list \<Rightarrow> registry \<Rightarrow> (SharedError + SharedValue list) \<times> registry"
  and own_strs :: "(string \<times> SharedValueRaw) list \<Rightarrow> SharedValue list \<Rightarrow> (string \<times> SharedValue) list \<Rightarrow> registry \<Rightarrow>
     (SharedError + (string \<times> SharedValue) list) \<times> registry" where
  "raw_to_owned Null g = (Inr Null, g)"
| "raw_to_owned (Bool b) g = (Inr (Bool b), g)"
| "raw_to_owned (Long v) g = (Inr (Long v), g)"
| "raw_to_owned (Double v) g = (Inr (Double v), g)"
| "raw_to_owned (Str s) g = (Inr (Str s), g)"
| "raw_to_owned (Bytes b) g = (Inr (Bytes b), g)"
| "raw_to_owned (Array ints strs) g =
     (case own_ints ints [] g of
        (Inl e, g1) \<Rightarrow> (Inl e, g1)
      | (Inr vs, g1) \<Rightarrow>
          (case own_strs strs vs [] g1 of
             (Inl e, g2) \<Rightarrow> (Inl e, g2)
           | (Inr kvs, g2) \<Rightarrow> (Inr (Array vs kvs), g2)))"
| "raw_to_owned (Shared r) g =
     (case lookup (ref_id r) g of
        (Inl e, g1) \<Rightarrow> (Inl e, g1)
      | (Inr p, g1) \<Rightarrow> (Inr (Shared (from_arc p g1)), g1))"
| "own_ints [] acc g = (Inr acc, g)"
| "own_ints (v # vs) acc g =
     (case raw_to_owned v g of
        (Inl e, g1) \<Rightarrow> (Inl e, drop_values acc g1)
      | (Inr x, g1) \<Rightarrow> own_ints vs (acc @ [x]) g1)"
| "own_strs [] ints acc g = (Inr acc, g)"
| "own_strs ((k, v) # kvs) ints acc g =
     (case raw_to_owned v g of
        (Inl e, g1) \<Rightarrow> (Inl e, drop_values (map snd acc) (drop_values ints g1))
      | (Inr x, g1) \<Rightarrow> own_strs kvs ints (acc @ [(k, x)]) g1)"

text \<open>\<^verbatim>\<open>resolve_transit_keepalive\<close>, without the type erasure of its result: the handles that pin the
  references of a serialized value.  A registry that does not exist yet is \<open>None\<close>.\<close>

fun pin_all :: "SharedRef list \<Rightarrow> registry \<Rightarrow> SharedRefOwned list \<times> registry" where
  "pin_all [] g = ([], g)"
| "pin_all (r # rs) g =
     (case lookup (ref_id r) g of
        (Inl _, g1) \<Rightarrow> pin_all rs g1
      | (Inr p, g1) \<Rightarrow> (case pin_all rs g1 of (ks, g2) \<Rightarrow> (from_arc p g1 # ks, g2)))"

definition resolve_transit_keepalive ::
    "string \<Rightarrow> registry option \<Rightarrow> SharedRefOwned list option \<times> registry option" where
  "resolve_transit_keepalive bytes reg_opt =
     (case scan_shared_refs bytes of
        Inl _ \<Rightarrow> (None, reg_opt)
      | Inr roots \<Rightarrow>
          if roots = [] then (None, reg_opt)
          else (case reg_opt of
                  None \<Rightarrow> (None, None)
                | Some g \<Rightarrow> (case pin_all roots g of
                     (ks, g') \<Rightarrow> (if ks = [] then None else Some ks, Some g'))))"

text \<open>The registry with extra strong references, one per occurrence.\<close>

definition bump :: "nat multiset \<Rightarrow> registry \<Rightarrow> registry" where
  "bump M g = g\<lparr>heap := map (\<lambda>(p, c). case c_stage c of
       Live n \<Rightarrow> c\<lparr>c_stage := Live (n + count M p)\<rparr> | _ \<Rightarrow> c) (enumerate 0 (heap g))\<rparr>"

definition live_at :: "registry \<Rightarrow> nat \<Rightarrow> bool" where
  "live_at g p \<longleftrightarrow> p < length (heap g) \<and> 0 < strong (c_stage (heap g ! p))"

text \<open>The value with every reference resolved in one state of the registry.\<close>

definition handle_of :: "registry \<Rightarrow> SharedRef \<Rightarrow> SharedRefOwned option" where
  "handle_of g r =
     (case fst (lookup (ref_id r) g) of Inl _ \<Rightarrow> None | Inr p \<Rightarrow> Some (from_arc p g))"

definition resolvable :: "registry \<Rightarrow> SharedValueRaw \<Rightarrow> bool" where
  "resolvable g v \<longleftrightarrow> (\<forall>r \<in> set (refs_of v). handle_of g r \<noteq> None)"

definition resolved :: "registry \<Rightarrow> SharedValueRaw \<Rightarrow> SharedValue" where
  "resolved g v = map_svalue (\<lambda>r. the (handle_of g r)) v"

lemma length_bump [simp]: "length (heap (bump M g)) = length (heap g)"
  by (simp add: bump_def)

lemma bump_sel [simp]: "entries (bump M g) = entries g"
  by (simp add: bump_def)

lemma heap_bump:
  "p < length (heap g) \<Longrightarrow> heap (bump M g) ! p =
     (case c_stage (heap g ! p) of
        Live n \<Rightarrow> (heap g ! p)\<lparr>c_stage := Live (n + count M p)\<rparr> | _ \<Rightarrow> heap g ! p)"
  by (simp add: bump_def nth_enumerate_eq split: stage.splits)

lemma bump_empty [simp]: "bump {#} g = g"
proof -
  have "heap (bump {#} g) = heap g"
    by (rule nth_equalityI) (auto simp: heap_bump split: stage.splits)
  then show ?thesis by (simp add: bump_def)
qed

lemma c_entry_bump: "p < length (heap g) \<Longrightarrow> c_entry (heap (bump M g) ! p) = c_entry (heap g ! p)"
  by (auto simp: heap_bump split: stage.splits)

lemma strong_bump:
  "p < length (heap g) \<Longrightarrow> strong (c_stage (heap (bump M g) ! p)) =
     (case c_stage (heap g ! p) of Live n \<Rightarrow> n + count M p | _ \<Rightarrow> 0)"
  by (auto simp: heap_bump split: stage.splits)

lemma registry_heap_eqI:
  assumes "g = k\<lparr>heap := h\<rparr>" "g' = k\<lparr>heap := h'\<rparr>" "length h = length h'" "\<And>p. p < length h \<Longrightarrow> h ! p = h' ! p"
  shows "g = g'"
  using assms nth_equalityI[of h h'] by auto

lemma retain_bump:
  assumes "live_at g p"
  shows "retain p (bump M g) = bump (add_mset p M) g"
proof (rule registry_heap_eqI)
  show "retain p (bump M g) = g\<lparr>heap := heap (retain p (bump M g))\<rparr>"
    by (simp add: retain_def set_stage_def bump_def)
  show "bump (add_mset p M) g = g\<lparr>heap := heap (bump (add_mset p M) g)\<rparr>" by (simp add: bump_def)
  show "length (heap (retain p (bump M g))) = length (heap (bump (add_mset p M) g))" by (simp add: retain_def)
  show "heap (retain p (bump M g)) ! q = heap (bump (add_mset p M) g) ! q"
    if "q < length (heap (retain p (bump M g)))" for q
    using that assms
    by (cases "q = p") (auto simp: retain_def live_at_def heap_bump split: stage.splits)
qed

lemma release_bump:
  assumes "live_at g p"
  shows "release p (bump (add_mset p M) g) = bump M g"
proof (rule registry_heap_eqI)
  obtain n where n: "p < length (heap g)" "c_stage (heap g ! p) = Live n" "0 < n"
    using assms by (cases "c_stage (heap g ! p)") (auto simp: live_at_def)
  have r: "release p (bump (add_mset p M) g) = set_stage p (Live (n + count M p)) (bump (add_mset p M) g)"
    using n by (simp add: release_def heap_bump)
  show "release p (bump (add_mset p M) g) = g\<lparr>heap := heap (release p (bump (add_mset p M) g))\<rparr>"
    unfolding r by (simp add: set_stage_def bump_def)
  show "bump M g = g\<lparr>heap := heap (bump M g)\<rparr>" by (simp add: bump_def)
  show "length (heap (release p (bump (add_mset p M) g))) = length (heap (bump M g))" unfolding r by simp
  show "heap (release p (bump (add_mset p M) g)) ! q = heap (bump M g) ! q"
    if "q < length (heap (release p (bump (add_mset p M) g)))" for q
    using that n unfolding r by (cases "q = p") (auto simp: heap_bump split: stage.splits)
qed

lemma release_all_bump:
  "\<forall>p \<in> set ps. live_at g p \<Longrightarrow> fold release ps (bump (mset ps + M) g) = bump M g"
  by (induction ps) (simp_all add: release_bump)

lemma lookup_live: "fst (lookup i g) = Inr p \<Longrightarrow> live_at g p"
  by (auto simp: lookup_fst live_at_def split: option.splits if_splits)

lemma lookup_bump:
  assumes "\<forall>p \<in># M. live_at g p"
  shows "lookup i (bump M g) =
    (case fst (lookup i g) of Inl e \<Rightarrow> (Inl e, bump M g) | Inr p \<Rightarrow> (Inr p, bump (add_mset p M) g))"
proof (cases "entries g i")
  case None
  then show ?thesis by (simp add: lookup_def)
next
  case (Some p)
  have "p < length (heap g) \<Longrightarrow> 0 < strong (c_stage (heap (bump M g) ! p)) \<longleftrightarrow> 0 < strong (c_stage (heap g ! p))"
    using assms by (cases "c_stage (heap g ! p)") (auto simp: strong_bump live_at_def count_greater_zero_iff)
  then show ?thesis using Some retain_bump[of g p M]
    by (auto simp: lookup_def upgrade_def live_at_def)
qed

lemma from_arc_bump: "p < length (heap g) \<Longrightarrow> from_arc p (bump M g) = from_arc p g"
  by (simp add: from_arc_def c_entry_bump)

abbreviation ptrs :: "SharedValue \<Rightarrow> nat list" where
  "ptrs v \<equiv> map own_entry (refs_of v)"

lemma refs_of_Array: "refs_of (Array ints strs) = concat (map refs_of ints) @ concat (map refs_of (map snd strs))"
  by (simp add: comp_def case_prod_beta')

lemma refs_of_map: "refs_of (map_svalue f v) = map f (refs_of v)"
proof (induction v)
  case (Array ints strs)
  have "concat (map (refs_of \<circ> map_svalue f) ints) = map f (concat (map refs_of ints))"
    using Array(1) by (auto simp: map_concat comp_def intro!: arg_cong[of _ _ concat])
  moreover have "concat (map (refs_of \<circ> map_svalue f) (map snd strs)) = map f (concat (map refs_of (map snd strs)))"
    using Array(2) by (fastforce simp: map_concat comp_def intro!: arg_cong[of _ _ concat])
  ultimately show ?case by (simp add: refs_of_Array comp_def del: refs_of.simps)
qed simp_all

lemma resolved_live:
  assumes "resolvable g v" shows "\<forall>p \<in> set (ptrs (resolved g v)). live_at g p"
proof
  fix p assume "p \<in> set (ptrs (resolved g v))"
  then obtain r where r: "r \<in> set (refs_of v)" "p = own_entry (the (handle_of g r))"
    by (auto simp: resolved_def refs_of_map)
  with assms obtain q where "fst (lookup (ref_id r) g) = Inr q" "p = q"
    by (auto simp: resolvable_def handle_of_def from_arc_def split: sum.splits)
  then show "live_at g p" using lookup_live by blast
qed

lemma resolve_Array:
  "resolvable g (Array ints strs) \<longleftrightarrow> (\<forall>v \<in> set ints. resolvable g v) \<and> (\<forall>v \<in> set (map snd strs). resolvable g v)"
  "resolved g (Array ints strs) = Array (map (resolved g) ints) (map (\<lambda>(k, v). (k, resolved g v)) strs)"
proof -
  show "resolvable g (Array ints strs) \<longleftrightarrow> (\<forall>v \<in> set ints. resolvable g v) \<and> (\<forall>v \<in> set (map snd strs). resolvable g v)"
    unfolding resolvable_def refs_of_Array by auto
  show "resolved g (Array ints strs) = Array (map (resolved g) ints) (map (\<lambda>(k, v). (k, resolved g v)) strs)"
    by (auto simp: resolved_def)
qed

abbreviation list_ptrs :: "SharedValue list \<Rightarrow> nat list" where
  "list_ptrs vs \<equiv> concat (map ptrs vs)"

lemma ptrs_Array: "ptrs (Array vs kvs) = list_ptrs vs @ list_ptrs (map snd kvs)"
  unfolding refs_of_Array by (simp add: map_concat comp_def)

lemma drop_values_bump:
  "\<forall>p \<in> set (list_ptrs vs). live_at g p \<Longrightarrow> drop_values vs (bump (mset (list_ptrs vs) + M) g) = bump M g"
proof (induction vs)
  case (Cons v vs)
  have "drop_value v (bump (mset (ptrs v) + (mset (list_ptrs vs) + M)) g) = bump (mset (list_ptrs vs) + M) g"
    unfolding drop_value_def by (rule release_all_bump) (use Cons.prems in auto)
  with Cons show ?case by (simp add: drop_values_def union_assoc)
qed (simp add: drop_values_def)

text \<open>The whole conversion: either every reference resolves and the value holds one more strong
  reference for each, or nothing has changed.\<close>

definition owns :: "registry \<Rightarrow> SharedValueRaw \<Rightarrow> bool" where
  "owns g v \<longleftrightarrow> (\<forall>M. (\<forall>p \<in># M. live_at g p) \<longrightarrow> raw_to_owned v (bump M g) =
     (if resolvable g v then (Inr (resolved g v), bump (mset (ptrs (resolved g v)) + M) g)
      else (Inl StaleHandle, bump M g)))"

lemma ownsD:
  "owns g v \<Longrightarrow> \<forall>p \<in># M. live_at g p \<Longrightarrow> raw_to_owned v (bump M g) =
     (if resolvable g v then (Inr (resolved g v), bump (mset (ptrs (resolved g v)) + M) g)
      else (Inl StaleHandle, bump M g))"
  by (simp add: owns_def)

lemma own_ints_bump:
  "\<forall>v \<in> set vs. owns g v \<Longrightarrow> \<forall>p \<in># M. live_at g p \<Longrightarrow> \<forall>p \<in> set (list_ptrs acc). live_at g p \<Longrightarrow>
     own_ints vs acc (bump (mset (list_ptrs acc) + M) g) =
     (if \<forall>v \<in> set vs. resolvable g v
      then (Inr (acc @ map (resolved g) vs), bump (mset (list_ptrs (acc @ map (resolved g) vs)) + M) g)
      else (Inl StaleHandle, bump M g))"
proof (induction vs arbitrary: acc)
  case (Cons v vs)
  have v: "raw_to_owned v (bump (mset (list_ptrs acc) + M) g) =
     (if resolvable g v then (Inr (resolved g v), bump (mset (list_ptrs (acc @ [resolved g v])) + M) g)
      else (Inl StaleHandle, bump (mset (list_ptrs acc) + M) g))"
  proof -
    have "\<forall>p \<in># mset (list_ptrs acc) + M. live_at g p" using Cons.prems(2,3) by (metis set_mset_mset union_iff)
    from ownsD[OF _ this, of v] Cons.prems(1) show ?thesis by (simp add: ac_simps)
  qed
  show ?case
  proof (cases "resolvable g v")
    case True
    have "\<forall>p \<in> set (list_ptrs (acc @ [resolved g v])). live_at g p" using Cons.prems(3) resolved_live[OF True] by auto
    from Cons.IH[OF _ Cons.prems(2) this] Cons.prems(1) True v show ?thesis by simp
  next
    case False
    with v drop_values_bump[OF Cons.prems(3), of M] show ?thesis by simp
  qed
qed simp

lemma own_strs_bump:
  "\<forall>v \<in> set (map snd kvs). owns g v \<Longrightarrow> \<forall>p \<in># M. live_at g p \<Longrightarrow> \<forall>p \<in> set (list_ptrs ints). live_at g p \<Longrightarrow>
   \<forall>p \<in> set (list_ptrs (map snd acc)). live_at g p \<Longrightarrow>
     own_strs kvs ints acc (bump (mset (list_ptrs ints) + (mset (list_ptrs (map snd acc)) + M)) g) =
     (if \<forall>v \<in> set (map snd kvs). resolvable g v
      then (Inr (acc @ map (\<lambda>(k, v). (k, resolved g v)) kvs),
            bump (mset (list_ptrs ints) + (mset (list_ptrs (map snd (acc @ map (\<lambda>(k, v). (k, resolved g v)) kvs))) + M)) g)
      else (Inl StaleHandle, bump M g))"
proof (induction kvs arbitrary: acc)
  case (Cons kv kvs)
  obtain k v where kv: "kv = (k, v)" by (cases kv)
  let ?M = "mset (list_ptrs ints) + (mset (list_ptrs (map snd acc)) + M)"
  have v: "raw_to_owned v (bump ?M g) =
     (if resolvable g v
      then (Inr (resolved g v), bump (mset (list_ptrs ints) + (mset (list_ptrs (map snd (acc @ [(k, resolved g v)]))) + M)) g)
      else (Inl StaleHandle, bump ?M g))"
  proof -
    have "\<forall>p \<in># ?M. live_at g p" using Cons.prems(2-4) by (metis set_mset_mset union_iff)
    from ownsD[OF _ this, of v] Cons.prems(1) kv show ?thesis by (simp add: ac_simps)
  qed
  show ?case
  proof (cases "resolvable g v")
    case True
    have "\<forall>p \<in> set (list_ptrs (map snd (acc @ [(k, resolved g v)]))). live_at g p"
      using Cons.prems(4) resolved_live[OF True] by auto
    from Cons.IH[OF _ Cons.prems(2,3) this] Cons.prems(1) True v kv show ?thesis by simp
  next
    case False
    with v kv drop_values_bump[OF Cons.prems(3)] drop_values_bump[OF Cons.prems(4), of M] show ?thesis by simp
  qed
qed simp

lemma raw_to_owned_bump: "owns g v"
proof (induction v)
  case (Array ints strs)
  show ?case unfolding owns_def
  proof (intro allI impI)
    fix M assume M: "\<forall>p \<in># M. live_at g p"
    have i: "own_ints ints [] (bump M g) =
       (if \<forall>v \<in> set ints. resolvable g v
        then (Inr (map (resolved g) ints), bump (mset (list_ptrs (map (resolved g) ints)) + M) g)
        else (Inl StaleHandle, bump M g))"
      using own_ints_bump[of ints g M "[]"] Array(1) M by simp
    show "raw_to_owned (Array ints strs) (bump M g) =
       (if resolvable g (Array ints strs)
        then (Inr (resolved g (Array ints strs)), bump (mset (ptrs (resolved g (Array ints strs))) + M) g)
        else (Inl StaleHandle, bump M g))"
    proof (cases "\<forall>v \<in> set ints. resolvable g v")
      case True
      have "\<forall>p \<in> set (list_ptrs (map (resolved g) ints)). live_at g p" using True resolved_live by fastforce
      with own_strs_bump[of strs g M "map (resolved g) ints" "[]"] Array(2) M i True show ?thesis
        by (fastforce simp: resolve_Array ptrs_Array ac_simps simp del: refs_of.simps)
    next
      case False
      with i show ?thesis by (auto simp: resolve_Array)
    qed
  qed
next
  case (Shared r)
  show ?case unfolding owns_def
  proof (intro allI impI)
    fix M assume M: "\<forall>p \<in># M. live_at g p"
    show "raw_to_owned (Shared r) (bump M g) =
       (if resolvable g (Shared r) then (Inr (resolved g (Shared r)), bump (mset (ptrs (resolved g (Shared r))) + M) g)
        else (Inl StaleHandle, bump M g))"
    proof (cases "fst (lookup (ref_id r) g)")
      case (Inl e)
      then have "e = StaleHandle" by (auto simp: lookup_fst split: option.splits if_splits)
      with Inl lookup_bump[OF M, of "ref_id r"] show ?thesis by (simp add: resolvable_def handle_of_def)
    next
      case (Inr p)
      then have "p < length (heap g)" using lookup_live[OF Inr] by (simp add: live_at_def)
      with Inr lookup_bump[OF M, of "ref_id r"] show ?thesis
        by (simp add: resolvable_def resolved_def handle_of_def from_arc_bump) (simp add: from_arc_def)
    qed
  qed
qed (simp_all add: owns_def resolvable_def resolved_def)

section \<open>Properties\<close>

text \<open>
  C20. Round trip of the wire format.  Whatever follows in the buffer, decoding what
  \<^verbatim>\<open>sv_to_portbuf\<close> wrote gives the value back: references as views of the same id and
  type, arrays with their entries in order, and byte strings as strings when they are
  UTF-8.  The value must fit the format: lengths below \<open>2 ^ 32\<close>, and strings and keys
  that are text.
\<close>

theorem portbuf_roundtrip:
  assumes "encodable v"
  shows "portbuf_to_sv (sv_to_portbuf v @ extra) = Inr (wire_view v) \<and>
    sv_read (sv_to_portbuf v @ extra) = Inr (wire_view v, extra)"
  using sv_read_written(1)[OF assms, of extra] by (simp add: portbuf_to_sv_def sv_to_portbuf_def)

definition ex_value :: SharedValue where
  "ex_value = Array [Long 258, Bytes ''abc''] [(''k'', Shared \<lparr>own_entry = 0, own_id = 1, own_tag = Counter\<rparr>)]"

theorem portbuf_roundtrip_witness:
  "portbuf_to_sv (sv_to_portbuf ex_value @ ''zz'') =
     Inr (Array [Long 258, Str ''abc''] [(''k'', Shared \<lparr>ref_id = 1, ref_tag = Counter\<rparr>)])"
proof -
  have "encodable ex_value" by code_simp
  moreover have "wire_view ex_value = Array [Long 258, Str ''abc''] [(''k'', Shared \<lparr>ref_id = 1, ref_tag = Counter\<rparr>)]"
    by code_simp
  ultimately show ?thesis using portbuf_roundtrip[of ex_value "''zz''"] by simp
qed

text \<open>
  C21. Decoding any bytes at all yields only values of the Rust types: every string and
  every key is UTF-8 and no byte string is, whatever the buffer claims.  The value
  is no larger than the bytes it was read from, however large the counts in them.
\<close>

theorem decoded_value_typed:
  assumes "portbuf_to_sv buf = Inr v"
  shows "decoded_ok v \<and> weight v \<le> length buf"
  using assms sv_read_ok(1)[of buf v] by (fastforce simp: portbuf_to_sv_def)

theorem decoded_value_typed_witness:
  "decoded_ok (Bytes [CHR 0xFF] :: SharedValueRaw) \<and>
   weight (Bytes [CHR 0xFF] :: SharedValueRaw) \<le> length (map char_of [5, 1, 0, 0, 0, 255 :: nat])"
proof -
  have "portbuf_to_sv (map char_of [5, 1, 0, 0, 0, 255 :: nat]) = Inr (Bytes [CHR 0xFF])" by code_simp
  then show ?thesis by (rule decoded_value_typed)
qed

text \<open>
  C22. The scan for references agrees with decoding on every buffer, well formed or not:
  it fails with the same error, and when decoding succeeds it finds exactly the
  references of the decoded value, each as often as it occurs.
\<close>

theorem scan_agrees_with_decoding:
  "case portbuf_to_sv buf of
     Inl e \<Rightarrow> scan_shared_refs buf = Inl e
   | Inr v \<Rightarrow> \<exists>refs. scan_shared_refs buf = Inr refs \<and> mset refs = mset (refs_of v)"
  using scan_agrees_aux(1)[of "[]" buf]
  by (cases "sv_read buf") (auto simp: agrees_def portbuf_to_sv_def scan_shared_refs_def)

text \<open>
  C23. Taking ownership of a decoded value is all or nothing.  If every reference in it
  resolves, the result is the value with each reference replaced by the handle of its
  entry, and the registry has gained exactly one strong reference per occurrence, so
  that dropping the value restores it.  If one reference is stale the answer is
  \<^verbatim>\<open>StaleHandle\<close> and the registry is as it was: the references already taken are
  given back.
\<close>

theorem raw_to_owned_all_or_nothing:
  "case raw_to_owned raw g of
     (Inr v, g') \<Rightarrow> resolvable g raw \<and> v = resolved g raw \<and> g' = bump (mset (ptrs v)) g \<and> drop_value v g' = g
   | (Inl e, g') \<Rightarrow> \<not> resolvable g raw \<and> e = StaleHandle \<and> g' = g"
proof (cases "resolvable g raw")
  case True
  have "drop_value (resolved g raw) (bump (mset (ptrs (resolved g raw)) + {#}) g) = bump {#} g"
    unfolding drop_value_def by (rule release_all_bump[OF resolved_live[OF True]])
  with True ownsD[OF raw_to_owned_bump, of "{#}" g raw] show ?thesis by simp
next
  case False
  with ownsD[OF raw_to_owned_bump, of "{#}" g raw] show ?thesis by simp
qed

end
