(* ===== verification/Cycle_Check.thy ===== *)
theory Cycle_Check
  imports Shared_Value
begin

text \<open>
  The check that a nested reference does not close a cycle of strong references
  (\<^verbatim>\<open>src/plugins/ox_shared/cycle.rs\<close>): a breadth-first walk from the value about to be
  stored, looking for the container it is stored into, with bounds on depth and on the
  number of edges walked.

  The graph is the argument \<open>children_of\<close>, which the callers build from the registry.
  The walk over \<^verbatim>\<open>parent\<close> that rebuilds the path found is a loop without a bound, so it
  is a partial function whose value is \<open>None\<close> when it does not end; the outcome of the
  whole check is wrapped the same way.
\<close>

section \<open>The walk\<close>

datatype cycle_outcome = NoCycle | CycleFound "SharedId list" | DepthExceeded | EdgeLimitExceeded

record walk =
  w_queue :: "(SharedId \<times> nat) list"
  w_visited :: "SharedId set"
  w_parent :: "SharedId \<rightharpoonup> SharedId"
  w_edges :: nat

text \<open>The loop over the children of one node; \<open>None\<close> is the edge limit.\<close>

fun walk_children :: "nat \<Rightarrow> SharedId \<Rightarrow> nat \<Rightarrow> SharedRef list \<Rightarrow> walk \<Rightarrow> walk option" where
  "walk_children max_edges i depth [] w = Some w"
| "walk_children max_edges i depth (c # cs) w =
     (let edges = w_edges w + 1 in
      if edges > max_edges then None
      else
        walk_children max_edges i depth cs
          (if ref_id c \<notin> w_visited w
           then w\<lparr>w_edges := edges,
                  w_visited := insert (ref_id c) (w_visited w),
                  w_parent := (w_parent w)(ref_id c \<mapsto> i),
                  w_queue := w_queue w @ [(ref_id c, depth + 1)]\<rparr>
           else w\<lparr>w_edges := edges\<rparr>))"

partial_function (option) walk_parents ::
    "(SharedId \<rightharpoonup> SharedId) \<Rightarrow> SharedId \<Rightarrow> SharedId \<Rightarrow> SharedId list \<Rightarrow> SharedId list option" where
  "walk_parents parent start cur path =
     (case parent cur of
        None \<Rightarrow> Some path
      | Some p \<Rightarrow> if p = start then Some (path @ [p]) else walk_parents parent start p (path @ [p]))"

declare walk_parents.simps [code]

definition reconstruct_path :: "(SharedId \<rightharpoonup> SharedId) \<Rightarrow> SharedId \<Rightarrow> SharedId \<Rightarrow> SharedId list option" where
  "reconstruct_path parent target start =
     (if target = start then Some [target]
      else map_option rev (walk_parents parent start target [target]))"

lemma walk_children_measure:
  "walk_children max_edges i depth cs w = Some w' \<Longrightarrow>
     length (w_queue w') + (max_edges - w_edges w') \<le> length (w_queue w) + (max_edges - w_edges w)"
proof (induction cs arbitrary: w)
  case (Cons c cs)
  then show ?case by (fastforce simp: Let_def split: if_splits)
qed simp

function walk_loop :: "SharedId \<Rightarrow> SharedId \<Rightarrow> nat \<Rightarrow> nat \<Rightarrow> (SharedId \<Rightarrow> SharedRef list) \<Rightarrow> walk \<Rightarrow>
    cycle_outcome option" where
  "walk_loop start target max_depth max_edges children_of w =
     (case w_queue w of
        [] \<Rightarrow> Some NoCycle
      | (i, depth) # rest \<Rightarrow>
          if i = target then map_option CycleFound (reconstruct_path (w_parent w) target start)
          else if depth \<ge> max_depth then Some DepthExceeded
          else (case walk_children max_edges i depth (children_of i) (w\<lparr>w_queue := rest\<rparr>) of
                  None \<Rightarrow> Some EdgeLimitExceeded
                | Some w' \<Rightarrow> walk_loop start target max_depth max_edges children_of w'))"
  by pat_completeness auto
termination
proof (relation "measure (\<lambda>(start, target, max_depth, max_edges, children_of, w).
    length (w_queue w) + (max_edges - w_edges w))", simp, goal_cases)
  case (1 start target max_depth max_edges children_of w x21 x22 i depth w')
  from walk_children_measure[OF 1(5)] 1(1) show ?case by simp
qed

declare walk_loop.simps [simp del]

definition would_create_cycle ::
    "SharedRef \<Rightarrow> SharedId \<Rightarrow> nat \<Rightarrow> nat \<Rightarrow> (SharedId \<Rightarrow> SharedRef list) \<Rightarrow> cycle_outcome option" where
  "would_create_cycle start target max_depth max_edges children_of =
     walk_loop (ref_id start) target max_depth max_edges children_of
       \<lparr>w_queue = [(ref_id start, 0)], w_visited = {ref_id start}, w_parent = Map.empty, w_edges = 0\<rparr>"

text \<open>The path as it is shown to the user: ids in decimal, joined by an arrow (U+2192 in UTF-8).\<close>

fun dec :: "nat \<Rightarrow> string" where
  "dec n = (if n < 10 then [char_of (48 + n)] else dec (n div 10) @ [char_of (48 + n mod 10)])"

declare dec.simps [simp del]

fun format_cycle_path :: "SharedId list \<Rightarrow> string" where
  "format_cycle_path [] = []"
| "format_cycle_path [i] = CHR ''#'' # dec (unat i)"
| "format_cycle_path (i # j # ids) =
     CHR ''#'' # dec (unat i) @ map char_of [0x20, 0xE2, 0x86, 0x92, 0x20 :: nat] @ format_cycle_path (j # ids)"

section \<open>The path found\<close>

definition ref_edges :: "(SharedId \<Rightarrow> SharedRef list) \<Rightarrow> (SharedId \<times> SharedId) set" where
  "ref_edges children_of = {(a, b). b \<in> ref_id ` set (children_of a)}"

text \<open>A list of ids that follows the edges of the graph.\<close>

fun follows :: "(SharedId \<Rightarrow> SharedRef list) \<Rightarrow> SharedId list \<Rightarrow> bool" where
  "follows children_of (a # b # xs) \<longleftrightarrow> b \<in> ref_id ` set (children_of a) \<and> follows children_of (b # xs)"
| "follows children_of _ \<longleftrightarrow> True"

lemma follows_snoc:
  "xs \<noteq> [] \<Longrightarrow> follows ch (xs @ [v]) \<longleftrightarrow> follows ch xs \<and> v \<in> ref_id ` set (ch (last xs))"
  by (induction ch xs rule: follows.induct) auto

lemma follows_reaches:
  "follows ch xs \<Longrightarrow> xs \<noteq> [] \<Longrightarrow> (hd xs, last xs) \<in> (ref_edges ch)\<^sup>*"
  by (induction ch xs rule: follows.induct)
    (auto simp: ref_edges_def intro: converse_rtrancl_into_rtrancl)

inductive linked :: "(SharedId \<Rightarrow> SharedRef list) \<Rightarrow> (SharedId \<rightharpoonup> SharedId) \<Rightarrow> SharedId \<Rightarrow> SharedId \<Rightarrow> SharedId list \<Rightarrow> bool"
  for ch parent start where
  root: "linked ch parent start start [start]"
| child: "linked ch parent start p xs \<Longrightarrow> v \<noteq> start \<Longrightarrow> parent v = Some p \<Longrightarrow> v \<in> ref_id ` set (ch p) \<Longrightarrow>
     linked ch parent start v (xs @ [v])"

lemma linked_path: "linked ch parent start v xs \<Longrightarrow> xs \<noteq> [] \<and> hd xs = start \<and> last xs = v \<and> follows ch xs"
  by (induction rule: linked.induct) (auto simp: follows_snoc)

lemma linked_mono: "linked ch parent start v xs \<Longrightarrow> parent \<subseteq>\<^sub>m parent' \<Longrightarrow> linked ch parent' start v xs"
proof (induction rule: linked.induct)
  case (child p xs v)
  have "parent' v = Some p" using child.hyps(3) child.prems by (metis domI map_le_def)
  with child show ?case by (auto intro: linked.child)
qed (rule linked.root)

text \<open>The walk back over the parents ends, and gives the path in reverse.\<close>

lemma walk_parents_linked:
  "linked ch parent start v xs \<Longrightarrow> v \<noteq> start \<Longrightarrow>
     walk_parents parent start v path = Some (path @ tl (rev xs))"
proof (induction arbitrary: path rule: linked.induct)
  case (child p xs v)
  show ?case
  proof (cases "p = start")
    case True
    from child.hyps(1)[unfolded True] have "xs = [start]"
      by (cases rule: linked.cases) auto
    with True child.hyps(3) show ?thesis by (subst walk_parents.simps) simp
  next
    case False
    have "rev xs = p # tl (rev xs)"
      using linked_path[OF child.hyps(1)] by (metis hd_rev list.collapse rev_is_Nil_conv)
    then have "path @ v # rev xs = (path @ [v]) @ p # tl (rev xs)" by simp
    with False child.hyps(3) child.IH[OF False, of "path @ [p]"] show ?thesis
      by (subst walk_parents.simps) (simp add: \<open>rev xs = p # tl (rev xs)\<close>[symmetric])
  qed
qed simp

lemma reconstruct_linked:
  assumes "linked ch parent start v xs"
  shows "reconstruct_path parent v start = Some xs"
proof (cases "v = start")
  case True
  from assms[unfolded True] have "xs = [start]" by (cases rule: linked.cases) auto
  with True show ?thesis by (simp add: reconstruct_path_def)
next
  case False
  have "rev xs = v # tl (rev xs)"
    using linked_path[OF assms] by (metis hd_rev list.collapse rev_is_Nil_conv)
  with walk_parents_linked[OF assms False, of "[v]"] False show ?thesis
    by (simp add: reconstruct_path_def rev_swap)
qed

section \<open>The invariant of the walk\<close>

text \<open>\<open>D\<close> is the set of nodes already taken off the queue.\<close>

definition walk_ok :: "(SharedId \<Rightarrow> SharedRef list) \<Rightarrow> SharedId \<Rightarrow> SharedId set \<Rightarrow> walk \<Rightarrow> bool" where
  "walk_ok ch start D w \<longleftrightarrow>
     start \<in> w_visited w \<and> dom (w_parent w) \<subseteq> w_visited w \<and>
     w_visited w = D \<union> fst ` set (w_queue w) \<and>
     (\<forall>(v, d) \<in> set (w_queue w). \<exists>xs. linked ch (w_parent w) start v xs \<and> length xs = Suc d)"

lemma walk_ok_push:
  assumes ok: "walk_ok ch start D w" and i: "linked ch (w_parent w) start i xs" "length xs = Suc depth"
    and c: "c \<in> set (ch i)" "ref_id c \<notin> w_visited w"
  shows "walk_ok ch start D (w\<lparr>w_edges := e, w_visited := insert (ref_id c) (w_visited w),
      w_parent := (w_parent w)(ref_id c \<mapsto> i), w_queue := w_queue w @ [(ref_id c, depth + 1)]\<rparr>)"
proof -
  let ?p = "(w_parent w)(ref_id c \<mapsto> i)"
  have new: "w_parent w (ref_id c) = None" "ref_id c \<noteq> start"
    using ok c(2) by (auto simp: walk_ok_def)
  then have le: "w_parent w \<subseteq>\<^sub>m ?p" by (auto simp: map_le_def)
  have "linked ch ?p start (ref_id c) (xs @ [ref_id c])"
    by (rule linked.child[OF linked_mono[OF i(1) le]]) (use new c in auto)
  then have new_link: "\<exists>ys. linked ch ?p start (ref_id c) ys \<and> length ys = Suc (Suc depth)"
    using i(2) by (intro exI[of _ "xs @ [ref_id c]"]) simp
  have old_link: "\<exists>ys. linked ch ?p start v ys \<and> length ys = Suc d" if "(v, d) \<in> set (w_queue w)" for v d
    using ok that linked_mono[OF _ le] unfolding walk_ok_def by blast
  show ?thesis using ok new_link old_link by (auto simp: walk_ok_def)
qed

lemma walk_children_ok:
  assumes "walk_children me i depth cs w = Some w'" "walk_ok ch start D w" "set cs \<subseteq> set (ch i)"
    "linked ch (w_parent w) start i xs" "length xs = Suc depth"
  shows "walk_ok ch start D w' \<and> w_visited w \<subseteq> w_visited w' \<and> ref_id ` set cs \<subseteq> w_visited w'"
  using assms
proof (induction cs arbitrary: w)
  case (Cons c cs)
  let ?w = "if ref_id c \<notin> w_visited w
     then w\<lparr>w_edges := w_edges w + 1, w_visited := insert (ref_id c) (w_visited w),
            w_parent := (w_parent w)(ref_id c \<mapsto> i), w_queue := w_queue w @ [(ref_id c, depth + 1)]\<rparr>
     else w\<lparr>w_edges := w_edges w + 1\<rparr>"
  have step: "walk_children me i depth cs ?w = Some w'" using Cons.prems(1) by (auto simp: Let_def split: if_splits)
  have ok: "walk_ok ch start D ?w"
  proof (cases "ref_id c \<in> w_visited w")
    case True
    with Cons.prems(2) show ?thesis by (auto simp: walk_ok_def)
  next
    case False
    with walk_ok_push[OF Cons.prems(2,4,5), of c] Cons.prems(3) show ?thesis by simp
  qed
  have "w_parent w \<subseteq>\<^sub>m w_parent ?w" using Cons.prems(2) by (auto simp: walk_ok_def map_le_def)
  then have "linked ch (w_parent ?w) start i xs" by (rule linked_mono[OF Cons.prems(4)])
  with Cons.IH[OF step ok] Cons.prems(3,5)
  have "walk_ok ch start D w'" "w_visited ?w \<subseteq> w_visited w'" "ref_id ` set cs \<subseteq> w_visited w'" by auto
  then show ?case by (auto split: if_splits)
qed simp

lemma walk_loop_correct:
  assumes "walk_ok ch start D w" "\<forall>x \<in> D. x \<noteq> target \<and> ref_id ` set (ch x) \<subseteq> w_visited w"
  shows "\<exists>r. walk_loop start target md me ch w = Some r \<and>
    (r = NoCycle \<longrightarrow> (start, target) \<notin> (ref_edges ch)\<^sup>*) \<and>
    (\<forall>path. r = CycleFound path \<longrightarrow> path \<noteq> [] \<and> hd path = start \<and> last path = target \<and> follows ch path) \<and>
    (r = DepthExceeded \<longrightarrow> (\<exists>path. path \<noteq> [] \<and> hd path = start \<and> follows ch path \<and> length path > md))"
  using assms
proof (induction start target md me ch w arbitrary: D rule: walk_loop.induct)
  case (1 start target md me ch w)
  show ?case
  proof (cases "w_queue w")
    case Nil
    have "b \<in> w_visited w" if "(start, b) \<in> (ref_edges ch)\<^sup>*" for b
      using that
    proof (induction rule: rtrancl_induct)
      case base
      show ?case using 1(2) unfolding walk_ok_def by blast
    next
      case (step b c)
      with 1(2,3) Nil show ?case by (auto simp: walk_ok_def ref_edges_def)
    qed
    moreover have "target \<notin> w_visited w" using 1(2,3) Nil by (auto simp: walk_ok_def)
    ultimately show ?thesis using Nil by (auto simp: walk_loop.simps[of _ _ _ _ _ w])
  next
    case (Cons x rest)
    obtain i depth where x: "x = (i, depth)" by (cases x)
    obtain xs where xs: "linked ch (w_parent w) start i xs" "length xs = Suc depth"
      using 1(2) Cons x by (auto simp: walk_ok_def)
    note path = linked_path[OF xs(1)]
    consider "i = target" | "i \<noteq> target" "depth \<ge> md" | "i \<noteq> target" "\<not> depth \<ge> md" by blast
    then show ?thesis
    proof cases
      case 1
      with Cons x reconstruct_linked[OF xs(1)] path show ?thesis by (simp add: walk_loop.simps[of _ _ _ _ _ w])
    next
      case 2
      with Cons x path xs show ?thesis by (auto simp: walk_loop.simps[of _ _ _ _ _ w] intro!: exI[of _ xs])
    next
      case 3
      show ?thesis
      proof (cases "walk_children me i depth (ch i) (w\<lparr>w_queue := rest\<rparr>)")
        case None
        with 3 Cons x show ?thesis by (simp add: walk_loop.simps[of _ _ _ _ _ w])
      next
        case (Some w')
        have ok: "walk_ok ch start (insert i D) (w\<lparr>w_queue := rest\<rparr>)" using "1.prems"(1) Cons x by (auto simp: walk_ok_def)
        from walk_children_ok[OF Some ok] xs
        have w': "walk_ok ch start (insert i D) w'" "w_visited w \<subseteq> w_visited w'" "ref_id ` set (ch i) \<subseteq> w_visited w'"
          by auto
        have "\<forall>x \<in> insert i D. x \<noteq> target \<and> ref_id ` set (ch x) \<subseteq> w_visited w'"
          using "1.prems"(2) 3(1) w'(2,3) by blast
        from "1.IH"[OF Cons x[symmetric] 3(1,2) Some w'(1) this] 3 Cons x Some show ?thesis
          by (simp add: walk_loop.simps[of _ _ _ _ _ w])
      qed
    qed
  qed
qed

section \<open>Properties\<close>

text \<open>
  C24. The check always returns, and what it answers is right.  When it lets a reference
  through, adding the edge from the container to it keeps an acyclic reference graph
  acyclic.  When it reports a cycle, the path it names starts at the value, ends at the
  container and follows the graph, so the edge would close a cycle.  When it gives up
  on depth, the graph has a path longer than the limit.
\<close>

theorem cycle_check_correct:
  "\<exists>r. would_create_cycle start target max_depth max_edges children_of = Some r \<and>
    (r = NoCycle \<longrightarrow> acyclic (ref_edges children_of) \<longrightarrow>
       acyclic (insert (target, ref_id start) (ref_edges children_of))) \<and>
    (\<forall>path. r = CycleFound path \<longrightarrow>
       path \<noteq> [] \<and> hd path = ref_id start \<and> last path = target \<and> follows children_of path \<and>
       \<not> acyclic (insert (target, ref_id start) (ref_edges children_of))) \<and>
    (r = DepthExceeded \<longrightarrow>
       (\<exists>path. path \<noteq> [] \<and> hd path = ref_id start \<and> follows children_of path \<and> length path > max_depth))"
proof -
  have "walk_ok children_of (ref_id start) {}
     \<lparr>w_queue = [(ref_id start, 0)], w_visited = {ref_id start}, w_parent = Map.empty, w_edges = 0\<rparr>"
    by (auto simp: walk_ok_def intro!: exI[of _ "[ref_id start]"] linked.root)
  from walk_loop_correct[OF this, of target max_depth max_edges] obtain r where r:
    "would_create_cycle start target max_depth max_edges children_of = Some r"
    "r = NoCycle \<Longrightarrow> (ref_id start, target) \<notin> (ref_edges children_of)\<^sup>*"
    "\<And>path. r = CycleFound path \<Longrightarrow> path \<noteq> [] \<and> hd path = ref_id start \<and> last path = target \<and> follows children_of path"
    "r = DepthExceeded \<Longrightarrow> (\<exists>path. path \<noteq> [] \<and> hd path = ref_id start \<and> follows children_of path \<and> length path > max_depth)"
    unfolding would_create_cycle_def by auto
  moreover have "(ref_id start, target) \<in> (ref_edges children_of)\<^sup>*" if "r = CycleFound path" for path
    using r(3)[OF that] follows_reaches[of children_of path] by simp
  ultimately show ?thesis by (auto simp: acyclic_insert)
qed

text \<open>A chain \<open>1 \<rightarrow> 2 \<rightarrow> 3\<close>: storing 1 into 3 is refused with the path, storing 1 into 9 is not.\<close>

definition ex_chain :: "SharedId \<Rightarrow> SharedRef list" where
  "ex_chain i = (if i = 1 then [\<lparr>ref_id = 2, ref_tag = Map\<rparr>]
     else if i = 2 then [\<lparr>ref_id = 3, ref_tag = Map\<rparr>] else [])"


theorem cycle_check_correct_witness:
  "would_create_cycle \<lparr>ref_id = 1, ref_tag = Map\<rparr> 3 8 8 ex_chain = Some (CycleFound [1, 2, 3]) \<and>
   \<not> acyclic (insert (3, 1) (ref_edges ex_chain)) \<and>
   would_create_cycle \<lparr>ref_id = 1, ref_tag = Map\<rparr> 9 8 8 ex_chain = Some NoCycle \<and>
   acyclic (insert (9, 1) (ref_edges ex_chain))"
proof -
  have "acyclic (ref_edges ex_chain)"
    by (rule acyclicI_order[where f = "\<lambda>i. 3 - unat i"])
      (auto simp: ref_edges_def ex_chain_def split: if_splits)
  moreover
  have a: "would_create_cycle \<lparr>ref_id = 1, ref_tag = Map\<rparr> 3 8 8 ex_chain = Some (CycleFound [1, 2, 3])" by code_simp
  have b: "would_create_cycle \<lparr>ref_id = 1, ref_tag = Map\<rparr> 9 8 8 ex_chain = Some NoCycle" by code_simp
  ultimately show ?thesis
    using a b cycle_check_correct[of "\<lparr>ref_id = 1, ref_tag = Map\<rparr>" 3 8 8 ex_chain]
      cycle_check_correct[of "\<lparr>ref_id = 1, ref_tag = Map\<rparr>" 9 8 8 ex_chain] by simp
qed

lemma ex_path_shown: "format_cycle_path [1, 2] = ''#1 '' @ map char_of [0xE2, 0x86, 0x92 :: nat] @ '' #2''"
  by code_simp

end
