(* ===== verification/Shared_Channel.thy ===== *)
theory Shared_Channel
  imports Cycle_Check
begin

text \<open>
  \<^verbatim>\<open>Shared\Channel\<close>: a bounded channel between threads and fibers
  (\<^verbatim>\<open>src/plugins/ox_shared/types/channel.rs\<close>), and the synthetic promises its parked
  fibers wait on (\<^verbatim>\<open>src/plugins/ox_async/synthetic.rs\<close>).

  The buffer is the bounded channel of the \<^verbatim>\<open>crossbeam_channel\<close> crate, a parameter of
  the model with the documented laws \<open>x_laws\<close>.  Beside it the source keeps a front stash
  for items that bounced off a dead receiver, the lists of parked receivers and
  senders, and a bank of credits for freed slots nobody was waiting for.

  A method is not atomic: each lock region and each atomic operation of it is one
  step of its thread.  \<open>tpc\<close> names the point a thread has reached, \<open>tstep\<close> is what
  the thread does next, and \<open>cstep\<close> lets the threads take their steps in any order,
  with fibers cancelled and torn down in between.  \<^verbatim>\<open>occupancy\<close> reads its two lengths
  together and \<^verbatim>\<open>resolve_value\<close> is one step.  The wake-ups of \<^verbatim>\<open>tokio::sync::Notify\<close>, which
  no code waits on, the gauges and the byte accounting of the registry are left out.
\<close>

section \<open>The buffer\<close>

datatype x_error = XFull | XDisconnected

record ('c, 'm) xchan =
  x_bounded :: "nat \<Rightarrow> 'c"
  x_try_send :: "'c \<Rightarrow> 'm \<Rightarrow> x_error + 'c"
  x_try_recv :: "'c \<Rightarrow> ('m \<times> 'c) option"
  x_len :: "'c \<Rightarrow> nat"
  x_items :: "'c \<Rightarrow> 'm list"
  x_cap :: "'c \<Rightarrow> nat"

text \<open>A bounded queue whose two ends are both held by the channel, so it is never disconnected: a
  send is refused exactly when the queue holds its capacity, and a receive takes the oldest item.\<close>

definition x_laws :: "('c, 'm) xchan \<Rightarrow> bool" where
  "x_laws X \<longleftrightarrow>
     (\<forall>n. x_items X (x_bounded X n) = [] \<and> x_cap X (x_bounded X n) = n) \<and>
     (\<forall>c. x_len X c = length (x_items X c)) \<and>
     (\<forall>c m. length (x_items X c) < x_cap X c \<longrightarrow>
        (\<exists>c'. x_try_send X c m = Inr c' \<and> x_items X c' = x_items X c @ [m] \<and> x_cap X c' = x_cap X c)) \<and>
     (\<forall>c m. x_cap X c \<le> length (x_items X c) \<longrightarrow> x_try_send X c m = Inl XFull) \<and>
     (\<forall>c. x_items X c = [] \<longrightarrow> x_try_recv X c = None) \<and>
     (\<forall>c m ms. x_items X c = m # ms \<longrightarrow>
        (\<exists>c'. x_try_recv X c = Some (m, c') \<and> x_items X c' = ms \<and> x_cap X c' = x_cap X c))"

section \<open>Synthetic promises\<close>

datatype PromisePayload =
    Value string "SharedRefOwned list"
  | Exception string string
  | PCancelled

text \<open>\<open>pr_senders\<close> is the global sender map, \<open>pr_gone\<close> the promises whose receiver has been dropped, and
  \<open>pr_log\<close> what has been delivered.  The id counter starts just above the least 64-bit integer and is not
  wrapped: it would take \<open>2 ^ 63 - 2\<close> allocations to reach the ids of the async pool.\<close>

record promises =
  pr_next :: int
  pr_senders :: "int set"
  pr_gone :: "int set"
  pr_log :: "(int \<times> PromisePayload) list"

definition promises_new :: promises where
  "promises_new = \<lparr>pr_next = - (2 ^ 63) + 1, pr_senders = {}, pr_gone = {}, pr_log = []\<rparr>"

definition alloc :: "promises \<Rightarrow> int \<times> promises" where
  "alloc pr = (pr_next pr, pr\<lparr>pr_next := pr_next pr + 1, pr_senders := insert (pr_next pr) (pr_senders pr)\<rparr>)"

definition resolve :: "int \<Rightarrow> PromisePayload \<Rightarrow> promises \<Rightarrow> bool \<times> promises" where
  "resolve i payload pr =
     (if i \<notin> pr_senders pr then (False, pr)
      else
        let pr' = pr\<lparr>pr_senders := pr_senders pr - {i}\<rparr> in
        if i \<in> pr_gone pr then (False, pr') else (True, pr'\<lparr>pr_log := pr_log pr @ [(i, payload)]\<rparr>))"

definition resolve_value :: "int \<Rightarrow> string \<Rightarrow> SharedRefOwned list \<Rightarrow> promises \<Rightarrow>
    (string \<times> SharedRefOwned list) option \<times> promises" where
  "resolve_value i bytes keepalive pr =
     (if i \<notin> pr_senders pr then (Some (bytes, keepalive), pr)
      else
        let pr' = pr\<lparr>pr_senders := pr_senders pr - {i}\<rparr> in
        if i \<in> pr_gone pr then (Some (bytes, keepalive), pr')
        else (None, pr'\<lparr>pr_log := pr_log pr @ [(i, Value bytes keepalive)]\<rparr>))"

definition cancel :: "int \<Rightarrow> promises \<Rightarrow> bool \<times> promises" where
  "cancel i pr = resolve i PCancelled pr"

definition reject :: "int \<Rightarrow> string \<Rightarrow> string \<Rightarrow> promises \<Rightarrow> bool \<times> promises" where
  "reject i cls msg pr = resolve i (Exception cls msg) pr"

text \<open>What has become of a promise.\<close>

definition outcome_of :: "int \<Rightarrow> promises \<Rightarrow> PromisePayload option" where
  "outcome_of i pr = map_of (pr_log pr) i"

section \<open>The channel\<close>

record payload =
  p_bytes :: string
  p_keep :: "SharedRefOwned list"

definition bytes_only :: "string \<Rightarrow> payload" where
  "bytes_only b = \<lparr>p_bytes = b, p_keep = []\<rparr>"

record 'c chan =
  tx :: 'c
  capacity :: nat
  pending :: u64
  closed :: bool
  recv_waiters :: "int list"
  send_ids :: "int list"
  credits :: nat
  recv_front :: "payload list"
  in_flight :: "SharedRef list"
  items_sent_total :: u64

definition ChannelInner_new :: "('c, payload) xchan \<Rightarrow> nat \<Rightarrow> 'c chan" where
  "ChannelInner_new X cap =
     (let capacity = max cap 1 in
      \<lparr>tx = x_bounded X capacity, capacity = capacity, pending = 0, closed = False, recv_waiters = [],
       send_ids = [], credits = 0, recv_front = [], in_flight = [], items_sent_total = 0\<rparr>)"

definition swap_remove :: "'a list \<Rightarrow> nat \<Rightarrow> 'a list" where
  "swap_remove xs i = butlast (xs[i := last xs])"

fun index_of :: "'a \<Rightarrow> 'a list \<Rightarrow> nat option" where
  "index_of x [] = None"
| "index_of x (y # ys) = (if y = x then Some 0 else map_option Suc (index_of x ys))"

definition keepalive_views :: "SharedRefOwned list \<Rightarrow> SharedRef list" where
  "keepalive_views ks = map as_view ks"

definition index_add :: "SharedRef list \<Rightarrow> 'c chan \<Rightarrow> 'c chan" where
  "index_add views ch = (if views = [] then ch else ch\<lparr>in_flight := in_flight ch @ views\<rparr>)"

fun drop_views :: "SharedRef list \<Rightarrow> SharedRef list \<Rightarrow> SharedRef list" where
  "drop_views [] idx = idx"
| "drop_views (v # vs) idx =
     drop_views vs (case index_of v idx of None \<Rightarrow> idx | Some p \<Rightarrow> swap_remove idx p)"

definition index_remove_views :: "SharedRef list \<Rightarrow> 'c chan \<Rightarrow> 'c chan" where
  "index_remove_views views ch = (if views = [] then ch else ch\<lparr>in_flight := drop_views views (in_flight ch)\<rparr>)"

definition index_remove :: "SharedRefOwned list \<Rightarrow> 'c chan \<Rightarrow> 'c chan" where
  "index_remove ks ch = index_remove_views (map as_view ks) ch"

definition bump_pending :: "'c chan \<Rightarrow> 'c chan" where
  "bump_pending ch = ch\<lparr>pending := pending ch + 1\<rparr>"

definition drop_pending :: "'c chan \<Rightarrow> 'c chan" where
  "drop_pending ch = ch\<lparr>pending := pending ch - 1\<rparr>"

definition count_sent :: "'c chan \<Rightarrow> 'c chan" where
  "count_sent ch = ch\<lparr>items_sent_total := items_sent_total ch + 1\<rparr>"

definition occupancy :: "('c, payload) xchan \<Rightarrow> 'c chan \<Rightarrow> nat" where
  "occupancy X ch = x_len X (tx ch) + length (recv_front ch)"

text \<open>The edges the cycle walker sees: one per distinct id.\<close>

fun distinct_ids :: "SharedId set \<Rightarrow> SharedRef list \<Rightarrow> SharedRef list" where
  "distinct_ids seen [] = []"
| "distinct_ids seen (r # rs) =
     (if ref_id r \<in> seen then distinct_ids seen rs else r # distinct_ids (insert (ref_id r) seen) rs)"

definition channel_children :: "'c chan \<Rightarrow> SharedRef list" where
  "channel_children ch = distinct_ids {} (in_flight ch)"

section \<open>Building a payload\<close>

record limits =
  cycle_detect_depth :: nat
  cycle_detect_edges :: nat

text \<open>\<^verbatim>\<open>cycle_check\<close>, with the graph of the registry as an argument; a channel without an id or a
  registry skips it.  The walk always ends (\<open>cycle_check_correct\<close> of the previous theory), so the
  outer \<open>None\<close> does not occur.\<close>

fun cycle_check :: "limits \<Rightarrow> SharedId option \<Rightarrow> (SharedId \<Rightarrow> SharedRef list) \<Rightarrow> SharedRef list \<Rightarrow>
    (SharedError + unit) option" where
  "cycle_check cf None children_of roots = Some (Inr ())"
| "cycle_check cf (Some self) children_of [] = Some (Inr ())"
| "cycle_check cf (Some self) children_of (root # roots) =
     (case would_create_cycle root self (cycle_detect_depth cf) (cycle_detect_edges cf) children_of of
        None \<Rightarrow> None
      | Some NoCycle \<Rightarrow> cycle_check cf (Some self) children_of roots
      | Some _ \<Rightarrow> Some (Inl Cycle))"

definition build_payload :: "limits \<Rightarrow> SharedId option \<Rightarrow> (SharedId \<Rightarrow> SharedRef list) \<Rightarrow> string \<Rightarrow> registry option \<Rightarrow>
    (SharedError + payload) option \<times> registry option" where
  "build_payload cf self children_of bytes reg_opt =
     (if bytes = [] then (Some (Inr (bytes_only bytes)), reg_opt)
      else case scan_shared_refs bytes of
             Inl _ \<Rightarrow> (Some (Inr (bytes_only bytes)), reg_opt)
           | Inr roots \<Rightarrow>
               if roots = [] then (Some (Inr (bytes_only bytes)), reg_opt)
               else (case cycle_check cf (if reg_opt = None then None else self) children_of roots of
                       None \<Rightarrow> (None, reg_opt)
                     | Some (Inl e) \<Rightarrow> (Some (Inl e), reg_opt)
                     | Some (Inr _) \<Rightarrow>
                         (case reg_opt of
                            None \<Rightarrow> (Some (Inr (bytes_only bytes)), None)
                          | Some g \<Rightarrow> (case pin_all roots g of
                              (ks, g') \<Rightarrow> (Some (Inr \<lparr>p_bytes = bytes, p_keep = ks\<rparr>), Some g')))))"

section \<open>Sizes and timeouts\<close>

datatype Wait = Forever | Try | Bounded nat

definition parse_timeout :: "int \<Rightarrow> Wait" where
  "parse_timeout ms = (if ms < 0 then Forever else if ms = 0 then Try else Bounded (nat ms))"

definition read_positive_ms_from_long :: "int \<Rightarrow> SharedError + int" where
  "read_positive_ms_from_long ms = (if ms \<le> 0 then Inl TypeError else Inr ms)"

definition channel_capacity_fits :: "u64 \<Rightarrow> u64 \<Rightarrow> u64 \<Rightarrow> bool" where
  "channel_capacity_fits slot_bytes cap budget =
     (if unat cap * unat slot_bytes < 2 ^ 64 then cap * slot_bytes \<le> budget else False)"

definition effective_channel_budget :: "u64 \<Rightarrow> u64 \<Rightarrow> u64" where
  "effective_channel_budget slot_bytes configured = max configured slot_bytes"

fun first_oversized_from :: "nat \<Rightarrow> nat list \<Rightarrow> nat \<Rightarrow> nat \<Rightarrow> (nat \<times> nat) option" where
  "first_oversized_from i [] concat_len cap = None"
| "first_oversized_from i (start # offsets) concat_len cap =
     (let stop = (case offsets of [] \<Rightarrow> concat_len | e # _ \<Rightarrow> e); sz = stop - start in
      if sz > cap then Some (i, sz) else first_oversized_from (Suc i) offsets concat_len cap)"

definition first_oversized_element :: "nat list \<Rightarrow> nat \<Rightarrow> nat \<Rightarrow> (nat \<times> nat) option" where
  "first_oversized_element offsets concat_len cap = first_oversized_from 0 offsets concat_len cap"

definition check_value_size :: "nat \<Rightarrow> nat \<Rightarrow> SharedError + unit" where
  "check_value_size len cap = (if len > cap then Inl ValueTooLarge else Inr ())"


definition split_payloads :: "nat list \<Rightarrow> string \<Rightarrow> string list option" where
  "split_payloads offsets buf =
     (let total = last offsets; n = length offsets - 1 in
      if \<forall>i<n. offsets ! i \<le> offsets ! Suc i \<and> offsets ! Suc i \<le> total
      then Some (map (\<lambda>i. take (offsets ! Suc i - offsets ! i) (drop (offsets ! i) buf)) [0..<n])
      else None)"

section \<open>A thread's steps\<close>

text \<open>How a caller waits: not at all, parked as a fiber, or blocking its thread; the flag says that
  there is a deadline.\<close>

datatype mode = Once | InFiber bool | Block bool

datatype outcome =
    Idle
  | Sent
  | FullBack payload
  | ClosedBack payload
  | Got payload
  | EndOfStream
  | WouldBlock
  | TimedOut
  | Parked int
  | Raised string string
  | CloseDone bool
  | Unwound

datatype tpc =
    Return outcome
    \<comment> \<open>\<^verbatim>\<open>try_send\<close>\<close>
  | S_check payload mode
  | S_offer payload mode
  | S_hand payload mode int
  | S_handed
  | S_index payload mode
  | S_deposit payload mode
  | S_count
    \<comment> \<open>the slow path of \<^verbatim>\<open>send_blocking\<close>\<close>
  | B_index payload bool
  | B_send payload bool
  | B_try payload bool
    \<comment> \<open>\<^verbatim>\<open>drain_buffered_to_waiters\<close>\<close>
  | D_peek outcome
  | D_stash outcome
  | D_buffer outcome
  | D_drop payload outcome
  | D_offer payload outcome
  | D_hand payload int outcome
  | D_index payload outcome
  | D_back payload outcome
  | D_bump outcome
    \<comment> \<open>\<^verbatim>\<open>drain_one_send_waiter_on_slot_free\<close>\<close>
  | W_pop bool outcome
  | W_wake int bool outcome
    \<comment> \<open>\<^verbatim>\<open>try_recv\<close> and \<^verbatim>\<open>recv_blocking\<close>\<close>
  | R_stash mode
  | R_buffer mode
  | R_drop payload
  | R_empty mode
  | B_recv bool
  | B_closed bool
  | B_final
  | R_last payload
  | B_poll bool
    \<comment> \<open>\<^verbatim>\<open>recv_fiber_register\<close>, \<^verbatim>\<open>register_recv_waiter\<close> and the wait\<close>
  | P_alloc
  | P_recv int
  | P_pend int
  | P_refuse int
  | P_push int
  | F_wait_recv int
    \<comment> \<open>\<^verbatim>\<open>send_fiber_register\<close>, \<^verbatim>\<open>register_send_waiter\<close> and the wait\<close>
  | F_full payload bool
  | P_send int payload bool
  | P_redeem int payload bool
  | P_tell int payload bool
  | F_wait_send int payload bool
    \<comment> \<open>\<^verbatim>\<open>close\<close>\<close>
  | C_close
  | C_recv
  | C_cancel "int list"
  | C_send
  | C_tell "int list"

text \<open>What a step does to the items of the channel: nothing, put one in, take one out, pass one straight
  through, or spend a credit on a sender that is no longer there.\<close>

datatype ev = Quiet | Enter payload | Leave payload | Pass payload | Miss

fun finish :: "outcome \<Rightarrow> tpc" where
  "finish (Parked i) = F_wait_recv i"
| "finish o' = Return o'"

fun on_full :: "mode \<Rightarrow> payload \<Rightarrow> tpc" where
  "on_full Once p = Return (FullBack p)"
| "on_full (InFiber b) p = F_full p b"
| "on_full (Block b) p = B_index p b"

fun on_empty :: "mode \<Rightarrow> tpc" where
  "on_empty Once = Return WouldBlock"
| "on_empty (InFiber b) = P_alloc"
| "on_empty (Block b) = B_recv b"

definition woke :: "bool \<Rightarrow> outcome \<Rightarrow> tpc" where
  "woke again o' = (if again then D_peek o' else finish o')"

abbreviation closed_class :: string where
  "closed_class \<equiv> ''OxPHP'' @ [CHR 0x5C] @ ''Shared'' @ [CHR 0x5C] @ ''ClosedException''"

abbreviation closed_exception :: PromisePayload where
  "closed_exception \<equiv> Exception closed_class ''channel closed''"

type_synonym 'c shared = "'c chan \<times> promises"

text \<open>\<^verbatim>\<open>drain_one_recv_waiter_with\<close>: offer an item to the parked receivers.\<close>

fun hand_step :: "tpc \<Rightarrow> 'c shared \<Rightarrow> ev \<times> tpc \<times> 'c shared" where
  "hand_step (S_offer p m) (ch, pr) =
     (case recv_waiters ch of
        [] \<Rightarrow> (Quiet, S_index p m, ch, pr)
      | i # is \<Rightarrow> (Quiet, S_hand p m i, ch\<lparr>recv_waiters := is\<rparr>, pr))"
| "hand_step (S_hand p m i) (ch, pr) =
     (case resolve_value i (p_bytes p) (p_keep p) pr of
        (None, pr') \<Rightarrow> (Pass p, S_handed, ch, pr')
      | (Some (b, k), pr') \<Rightarrow> (Quiet, S_offer \<lparr>p_bytes = b, p_keep = k\<rparr> m, ch, pr'))"
| "hand_step (D_offer p r) (ch, pr) =
     (case recv_waiters ch of
        [] \<Rightarrow> (Quiet, D_index p r, ch, pr)
      | i # is \<Rightarrow> (Quiet, D_hand p i r, ch\<lparr>recv_waiters := is\<rparr>, pr))"
| "hand_step (D_hand p i r) (ch, pr) =
     (case resolve_value i (p_bytes p) (p_keep p) pr of
        (None, pr') \<Rightarrow> (Leave p, W_pop True r, ch, pr')
      | (Some (b, k), pr') \<Rightarrow> (Quiet, D_offer \<lparr>p_bytes = b, p_keep = k\<rparr> r, ch, pr'))"
| "hand_step pc s = (Quiet, pc, s)"

text \<open>\<^verbatim>\<open>drain_one_send_waiter_on_slot_free\<close>: wake the first live sender, or bank the slot.\<close>

fun wake_step :: "tpc \<Rightarrow> 'c shared \<Rightarrow> ev \<times> tpc \<times> 'c shared" where
  "wake_step (W_pop again r) (ch, pr) =
     (case send_ids ch of
        [] \<Rightarrow> (Quiet, woke again r, ch\<lparr>credits := min (credits ch + 1) (capacity ch)\<rparr>, pr)
      | i # is \<Rightarrow> (Quiet, W_wake i again r, ch\<lparr>send_ids := is\<rparr>, pr))"
| "wake_step (W_wake i again r) (ch, pr) =
     (case resolve i (Value [] []) pr of
        (ok, pr') \<Rightarrow> (Quiet, if ok then woke again r else W_pop again r, ch, pr'))"
| "wake_step pc s = (Quiet, pc, s)"

text \<open>\<^verbatim>\<open>try_send\<close>.\<close>

fun try_send_step :: "('c, payload) xchan \<Rightarrow> tpc \<Rightarrow> 'c shared \<Rightarrow> ev \<times> tpc \<times> 'c shared" where
  "try_send_step X (S_check p m) (ch, pr) =
     (Quiet, if closed ch then Return (ClosedBack p) else S_offer p m, ch, pr)"
| "try_send_step X S_handed (ch, pr) =
     (Quiet, if occupancy X ch < capacity ch then W_pop False Sent else Return Sent, count_sent ch, pr)"
| "try_send_step X (S_index p m) (ch, pr) =
     (Quiet, S_deposit p m, index_add (keepalive_views (p_keep p)) ch, pr)"
| "try_send_step X (S_deposit p m) (ch, pr) =
     (case x_try_send X (tx ch) p of
        Inr c \<Rightarrow> (Enter p, S_count, ch\<lparr>tx := c\<rparr>, pr)
      | Inl XFull \<Rightarrow> (Quiet, on_full m p, index_remove_views (keepalive_views (p_keep p)) ch, pr)
      | Inl XDisconnected \<Rightarrow>
          (Quiet, Return (ClosedBack p), index_remove_views (keepalive_views (p_keep p)) ch, pr))"
| "try_send_step X S_count (ch, pr) = (Quiet, D_peek Sent, count_sent (bump_pending ch), pr)"
| "try_send_step X pc s = (Quiet, pc, s)"

text \<open>The slow path of \<^verbatim>\<open>send_blocking\<close>.\<close>

fun send_blocking_step :: "('c, payload) xchan \<Rightarrow> tpc \<Rightarrow> 'c shared \<Rightarrow> ev \<times> tpc \<times> 'c shared" where
  "send_blocking_step X (B_index p b) (ch, pr) =
     (Quiet, B_send p b, index_add (keepalive_views (p_keep p)) ch, pr)"
| "send_blocking_step X (B_send p b) (ch, pr) =
     (if closed ch
      then (Quiet, Return (ClosedBack p), index_remove_views (keepalive_views (p_keep p)) ch, pr)
      else (Quiet, B_try p b, ch, pr))"
| "send_blocking_step X (B_try p b) (ch, pr) =
     (case x_try_send X (tx ch) p of
        Inr c \<Rightarrow> (Enter p, S_count, ch\<lparr>tx := c\<rparr>, pr)
      | Inl XFull \<Rightarrow> (Quiet, B_send p b, ch, pr)
      | Inl XDisconnected \<Rightarrow>
          (Quiet, Return (ClosedBack p), index_remove_views (keepalive_views (p_keep p)) ch, pr))"
| "send_blocking_step X pc s = (Quiet, pc, s)"

text \<open>\<^verbatim>\<open>push_front_stash\<close>.\<close>

fun push_front_step :: "tpc \<Rightarrow> 'c shared \<Rightarrow> ev \<times> tpc \<times> 'c shared" where
  "push_front_step (D_index p r) (ch, pr) =
     (Quiet, D_back p r, index_add (keepalive_views (p_keep p)) ch, pr)"
| "push_front_step (D_back p r) (ch, pr) = (Quiet, D_bump r, ch\<lparr>recv_front := recv_front ch @ [p]\<rparr>, pr)"
| "push_front_step (D_bump r) (ch, pr) = (Quiet, D_peek r, bump_pending ch, pr)"
| "push_front_step pc s = (Quiet, pc, s)"

text \<open>\<^verbatim>\<open>drain_buffered_to_waiters\<close>.\<close>

fun drain_step :: "('c, payload) xchan \<Rightarrow> tpc \<Rightarrow> 'c shared \<Rightarrow> ev \<times> tpc \<times> 'c shared" where
  "drain_step X (D_peek r) (ch, pr) =
     (Quiet, if recv_waiters ch = [] then finish r else D_stash r, ch, pr)"
| "drain_step X (D_stash r) (ch, pr) =
     (case recv_front ch of
        [] \<Rightarrow> (Quiet, D_buffer r, ch, pr)
      | p # ps \<Rightarrow> (Quiet, D_drop p r, ch\<lparr>recv_front := ps\<rparr>, pr))"
| "drain_step X (D_buffer r) (ch, pr) =
     (case x_try_recv X (tx ch) of
        None \<Rightarrow> (Quiet, finish r, ch, pr)
      | Some (p, c) \<Rightarrow> (Quiet, D_drop p r, ch\<lparr>tx := c\<rparr>, pr))"
| "drain_step X (D_drop p r) (ch, pr) =
     (Quiet, D_offer p r, index_remove (p_keep p) (drop_pending ch), pr)"
| "drain_step X pc s = (Quiet, pc, s)"

text \<open>\<^verbatim>\<open>try_recv\<close>, and the fast path of \<^verbatim>\<open>recv_blocking\<close>.\<close>

fun try_recv_step :: "('c, payload) xchan \<Rightarrow> tpc \<Rightarrow> 'c shared \<Rightarrow> ev \<times> tpc \<times> 'c shared" where
  "try_recv_step X (R_stash m) (ch, pr) =
     (case recv_front ch of
        [] \<Rightarrow> (Quiet, R_buffer m, ch, pr)
      | p # ps \<Rightarrow> (Quiet, R_drop p, ch\<lparr>recv_front := ps\<rparr>, pr))"
| "try_recv_step X (R_buffer m) (ch, pr) =
     (case x_try_recv X (tx ch) of
        None \<Rightarrow> (Quiet, R_empty m, ch, pr)
      | Some (p, c) \<Rightarrow> (Quiet, R_drop p, ch\<lparr>tx := c\<rparr>, pr))"
| "try_recv_step X (R_drop p) (ch, pr) =
     (Leave p, W_pop False (Got p), index_remove (p_keep p) (drop_pending ch), pr)"
| "try_recv_step X (R_empty m) (ch, pr) =
     (Quiet, if closed ch then Return EndOfStream else on_empty m, ch, pr)"
| "try_recv_step X pc s = (Quiet, pc, s)"

text \<open>The slow path of \<^verbatim>\<open>recv_blocking\<close>.\<close>

fun recv_blocking_step :: "('c, payload) xchan \<Rightarrow> tpc \<Rightarrow> 'c shared \<Rightarrow> ev \<times> tpc \<times> 'c shared" where
  "recv_blocking_step X (B_recv b) (ch, pr) =
     (case recv_front ch of
        [] \<Rightarrow> (Quiet, B_closed b, ch, pr)
      | p # ps \<Rightarrow> (Quiet, R_drop p, ch\<lparr>recv_front := ps\<rparr>, pr))"
| "recv_blocking_step X (B_closed b) (ch, pr) = (Quiet, if closed ch then B_final else B_poll b, ch, pr)"
| "recv_blocking_step X B_final (ch, pr) =
     (case x_try_recv X (tx ch) of
        None \<Rightarrow> (Quiet, Return EndOfStream, ch, pr)
      | Some (p, c) \<Rightarrow> (Quiet, R_last p, ch\<lparr>tx := c\<rparr>, pr))"
| "recv_blocking_step X (R_last p) (ch, pr) =
     (Leave p, Return (Got p), index_remove (p_keep p) (drop_pending ch), pr)"
| "recv_blocking_step X (B_poll b) (ch, pr) =
     (case x_try_recv X (tx ch) of
        None \<Rightarrow> (Quiet, B_recv b, ch, pr)
      | Some (p, c) \<Rightarrow> (Quiet, R_drop p, ch\<lparr>tx := c\<rparr>, pr))"
| "recv_blocking_step X pc s = (Quiet, pc, s)"

text \<open>\<^verbatim>\<open>register_recv_waiter\<close>.\<close>

fun park_recv_step :: "tpc \<Rightarrow> 'c shared \<Rightarrow> ev \<times> tpc \<times> 'c shared" where
  "park_recv_step (P_recv i) (ch, pr) = (Quiet, if closed ch then P_pend i else P_push i, ch, pr)"
| "park_recv_step (P_pend i) (ch, pr) = (Quiet, if pending ch = 0 then P_refuse i else P_push i, ch, pr)"
| "park_recv_step (P_refuse i) (ch, pr) = (Quiet, F_wait_recv i, ch, snd (cancel i pr))"
| "park_recv_step (P_push i) (ch, pr) =
     (Quiet, D_peek (Parked i), ch\<lparr>recv_waiters := recv_waiters ch @ [i]\<rparr>, pr)"
| "park_recv_step pc s = (Quiet, pc, s)"

text \<open>The fiber path of \<^verbatim>\<open>recv\<close>: a promise, and what the awaited outcome leads to.\<close>

fun await_recv_step :: "tpc \<Rightarrow> 'c shared \<Rightarrow> ev \<times> tpc \<times> 'c shared" where
  "await_recv_step P_alloc (ch, pr) = (case alloc pr of (i, pr') \<Rightarrow> (Quiet, P_recv i, ch, pr'))"
| "await_recv_step (F_wait_recv i) (ch, pr) =
     (Quiet,
      case outcome_of i pr of
        None \<Rightarrow> F_wait_recv i
      | Some (Value b k) \<Rightarrow> Return (Got \<lparr>p_bytes = b, p_keep = k\<rparr>)
      | Some PCancelled \<Rightarrow> R_stash Once
      | Some (Exception c msg) \<Rightarrow> Return (Raised c msg), ch, pr)"
| "await_recv_step pc s = (Quiet, pc, s)"

text \<open>\<^verbatim>\<open>register_send_waiter\<close>.\<close>

fun park_send_step :: "tpc \<Rightarrow> 'c shared \<Rightarrow> ev \<times> tpc \<times> 'c shared" where
  "park_send_step (P_send i p b) (ch, pr) =
     (if \<not> closed ch
      then if credits ch > 0
           then (Quiet, P_redeem i p b, ch\<lparr>credits := credits ch - 1\<rparr>, pr)
           else (Quiet, F_wait_send i p b, ch\<lparr>send_ids := send_ids ch @ [i]\<rparr>, pr)
      else (Quiet, P_tell i p b, ch, pr))"
| "park_send_step (P_redeem i p b) (ch, pr) =
     (case resolve i (Value [] []) pr of
        (ok, pr') \<Rightarrow> (if ok then Quiet else Miss, F_wait_send i p b, ch, pr'))"
| "park_send_step (P_tell i p b) (ch, pr) = (Quiet, F_wait_send i p b, ch, snd (resolve i closed_exception pr))"
| "park_send_step pc s = (Quiet, pc, s)"

text \<open>The fiber path of \<^verbatim>\<open>send\<close>.\<close>

fun await_send_step :: "tpc \<Rightarrow> 'c shared \<Rightarrow> ev \<times> tpc \<times> 'c shared" where
  "await_send_step (F_full p b) (ch, pr) = (case alloc pr of (i, pr') \<Rightarrow> (Quiet, P_send i p b, ch, pr'))"
| "await_send_step (F_wait_send i p b) (ch, pr) =
     (Quiet,
      case outcome_of i pr of
        None \<Rightarrow> F_wait_send i p b
      | Some (Value _ _) \<Rightarrow> S_check p (InFiber b)
      | Some PCancelled \<Rightarrow>
          if b then S_check p (InFiber b)
          else Return (Raised (''OxPHP'' @ [CHR 0x5C] @ ''Async'' @ [CHR 0x5C] @ ''AsyncException'') ''send: fiber cancelled'')
      | Some (Exception c msg) \<Rightarrow> if c = closed_class then Return (ClosedBack p) else Return (Raised c msg),
      ch, pr)"
| "await_send_step pc s = (Quiet, pc, s)"

text \<open>\<^verbatim>\<open>cancel_all_recv_waiters\<close> and \<^verbatim>\<open>cancel_all_send_waiters_with_closed\<close>.\<close>

fun sweep_step :: "tpc \<Rightarrow> 'c shared \<Rightarrow> ev \<times> tpc \<times> 'c shared" where
  "sweep_step C_recv (ch, pr) = (Quiet, C_cancel (recv_waiters ch), ch\<lparr>recv_waiters := []\<rparr>, pr)"
| "sweep_step (C_cancel ids) (ch, pr) =
     (case ids of
        [] \<Rightarrow> (Quiet, C_send, ch, pr)
      | i # is \<Rightarrow> (Quiet, C_cancel is, ch, snd (resolve i PCancelled pr)))"
| "sweep_step C_send (ch, pr) = (Quiet, C_tell (send_ids ch), ch\<lparr>send_ids := []\<rparr>, pr)"
| "sweep_step (C_tell ids) (ch, pr) =
     (case ids of
        [] \<Rightarrow> (Quiet, Return (CloseDone True), ch, pr)
      | i # is \<Rightarrow> (Quiet, C_tell is, ch, snd (resolve i closed_exception pr)))"
| "sweep_step pc s = (Quiet, pc, s)"

text \<open>\<^verbatim>\<open>close\<close>.\<close>

fun close_step :: "tpc \<Rightarrow> 'c shared \<Rightarrow> ev \<times> tpc \<times> 'c shared" where
  "close_step C_close (ch, pr) =
     (Quiet, if closed ch then Return (CloseDone False) else C_recv, ch\<lparr>closed := True\<rparr>, pr)"
| "close_step pc s = (Quiet, pc, s)"

definition tstep :: "('c, payload) xchan \<Rightarrow> tpc \<Rightarrow> 'c shared \<Rightarrow> ev \<times> tpc \<times> 'c shared" where
  "tstep X pc s =
     (case pc of
        Return _ \<Rightarrow> (Quiet, pc, s)
      | S_check _ _ \<Rightarrow> try_send_step X pc s
      | S_offer _ _ \<Rightarrow> hand_step pc s
      | S_hand _ _ _ \<Rightarrow> hand_step pc s
      | S_handed \<Rightarrow> try_send_step X pc s
      | S_index _ _ \<Rightarrow> try_send_step X pc s
      | S_deposit _ _ \<Rightarrow> try_send_step X pc s
      | S_count \<Rightarrow> try_send_step X pc s
      | B_index _ _ \<Rightarrow> send_blocking_step X pc s
      | B_send _ _ \<Rightarrow> send_blocking_step X pc s
      | B_try _ _ \<Rightarrow> send_blocking_step X pc s
      | D_peek _ \<Rightarrow> drain_step X pc s
      | D_stash _ \<Rightarrow> drain_step X pc s
      | D_buffer _ \<Rightarrow> drain_step X pc s
      | D_drop _ _ \<Rightarrow> drain_step X pc s
      | D_offer _ _ \<Rightarrow> hand_step pc s
      | D_hand _ _ _ \<Rightarrow> hand_step pc s
      | D_index _ _ \<Rightarrow> push_front_step pc s
      | D_back _ _ \<Rightarrow> push_front_step pc s
      | D_bump _ \<Rightarrow> push_front_step pc s
      | W_pop _ _ \<Rightarrow> wake_step pc s
      | W_wake _ _ _ \<Rightarrow> wake_step pc s
      | R_stash _ \<Rightarrow> try_recv_step X pc s
      | R_buffer _ \<Rightarrow> try_recv_step X pc s
      | R_drop _ \<Rightarrow> try_recv_step X pc s
      | R_empty _ \<Rightarrow> try_recv_step X pc s
      | B_recv _ \<Rightarrow> recv_blocking_step X pc s
      | B_closed _ \<Rightarrow> recv_blocking_step X pc s
      | B_final \<Rightarrow> recv_blocking_step X pc s
      | R_last _ \<Rightarrow> recv_blocking_step X pc s
      | B_poll _ \<Rightarrow> recv_blocking_step X pc s
      | P_alloc \<Rightarrow> await_recv_step pc s
      | P_recv _ \<Rightarrow> park_recv_step pc s
      | P_pend _ \<Rightarrow> park_recv_step pc s
      | P_refuse _ \<Rightarrow> park_recv_step pc s
      | P_push _ \<Rightarrow> park_recv_step pc s
      | F_wait_recv _ \<Rightarrow> await_recv_step pc s
      | F_full _ _ \<Rightarrow> await_send_step pc s
      | P_send _ _ _ \<Rightarrow> park_send_step pc s
      | P_redeem _ _ _ \<Rightarrow> park_send_step pc s
      | P_tell _ _ _ \<Rightarrow> park_send_step pc s
      | F_wait_send _ _ _ \<Rightarrow> await_send_step pc s
      | C_close \<Rightarrow> close_step pc s
      | C_recv \<Rightarrow> sweep_step pc s
      | C_cancel _ \<Rightarrow> sweep_step pc s
      | C_send \<Rightarrow> sweep_step pc s
      | C_tell _ \<Rightarrow> sweep_step pc s)"

text \<open>Where a call starts, and what an elapsed deadline turns a waiting call into.\<close>

fun entry_point :: "tpc \<Rightarrow> bool" where
  "entry_point (S_check p m) = True"
| "entry_point (R_stash m) = True"
| "entry_point C_close = True"
| "entry_point _ = False"

fun deadline_passed :: "tpc \<Rightarrow> 'c shared \<Rightarrow> (tpc \<times> 'c shared) option" where
  "deadline_passed (F_full p b) s = (if b then Some (Return TimedOut, s) else None)"
| "deadline_passed (F_wait_send i p b) (ch, pr) =
     (if b \<and> outcome_of i pr = Some PCancelled then Some (Return TimedOut, ch, pr) else None)"
| "deadline_passed (B_try p b) (ch, pr) =
     (if b then Some (Return TimedOut, index_remove_views (keepalive_views (p_keep p)) ch, pr) else None)"
| "deadline_passed (B_poll b) s = (if b then Some (Return TimedOut, s) else None)"
| "deadline_passed _ _ = None"

section \<open>Threads and fibers together\<close>

record 'c cworld =
  wch :: "'c chan"
  wpr :: promises
  wpc :: "tpc list"
  entered :: "payload list"
  gone_out :: "payload list"
  missed :: nat

fun note_ev :: "ev \<Rightarrow> 'c cworld \<Rightarrow> 'c cworld" where
  "note_ev Quiet w = w"
| "note_ev (Enter p) w = w\<lparr>entered := p # entered w\<rparr>"
| "note_ev (Leave p) w = w\<lparr>gone_out := p # gone_out w\<rparr>"
| "note_ev (Pass p) w = w\<lparr>entered := p # entered w, gone_out := p # gone_out w\<rparr>"
| "note_ev Miss w = w\<lparr>missed := Suc (missed w)\<rparr>"

fun awaits :: "tpc \<Rightarrow> int option" where
  "awaits (F_wait_recv i) = Some i"
| "awaits (F_wait_send i p b) = Some i"
| "awaits _ = None"

fun has_value :: "PromisePayload option \<Rightarrow> bool" where
  "has_value (Some (Value b k)) = True"
| "has_value _ = False"

fun owes_retry :: "tpc \<Rightarrow> promises \<Rightarrow> bool" where
  "owes_retry (F_wait_send i p b) pr = has_value (outcome_of i pr)"
| "owes_retry _ pr = False"

definition cworld_init :: "('c, payload) xchan \<Rightarrow> nat \<Rightarrow> nat \<Rightarrow> 'c cworld" where
  "cworld_init X cap n =
     \<lparr>wch = ChannelInner_new X cap, wpr = promises_new, wpc = replicate n (Return Idle), entered = [],
      gone_out = [], missed = 0\<rparr>"

definition run_thread :: "('c, payload) xchan \<Rightarrow> nat \<Rightarrow> 'c cworld \<Rightarrow> 'c cworld" where
  "run_thread X t w =
     (case tstep X (wpc w ! t) (wch w, wpr w) of
        (e, pc, ch, pr) \<Rightarrow> note_ev e (w\<lparr>wch := ch, wpr := pr, wpc := (wpc w)[t := pc]\<rparr>))"

definition tear_down :: "nat \<Rightarrow> int \<Rightarrow> 'c cworld \<Rightarrow> 'c cworld" where
  "tear_down t i w =
     w\<lparr>wpr := (wpr w)\<lparr>pr_gone := insert i (pr_gone (wpr w))\<rparr>,
       wpc := (wpc w)[t := Return Unwound],
       missed := missed w + (if owes_retry (wpc w ! t) (wpr w) then 1 else 0)\<rparr>"

text \<open>\<open>call\<close> starts a method on an idle thread, \<open>run\<close> takes a thread's next step, \<open>expire\<close> is an elapsed
  deadline, \<open>cancelled\<close> the timer or another fiber cancelling a promise, and \<open>torn\<close> the end of a
  parked fiber.\<close>

inductive cstep :: "('c, payload) xchan \<Rightarrow> 'c cworld \<Rightarrow> 'c cworld \<Rightarrow> bool" for X where
  call: "t < length (wpc w) \<Longrightarrow> wpc w ! t = Return r \<Longrightarrow> entry_point pc \<Longrightarrow>
     cstep X w (w\<lparr>wpc := (wpc w)[t := pc]\<rparr>)"
| run: "t < length (wpc w) \<Longrightarrow> cstep X w (run_thread X t w)"
| expire: "t < length (wpc w) \<Longrightarrow> deadline_passed (wpc w ! t) (wch w, wpr w) = Some (pc, ch, pr) \<Longrightarrow>
     cstep X w (w\<lparr>wch := ch, wpr := pr, wpc := (wpc w)[t := pc]\<rparr>)"
| cancelled: "cstep X w (w\<lparr>wpr := snd (cancel i (wpr w))\<rparr>)"
| torn: "t < length (wpc w) \<Longrightarrow> awaits (wpc w ! t) = Some i \<Longrightarrow> cstep X w (tear_down t i w)"

inductive creached :: "('c, payload) xchan \<Rightarrow> nat \<Rightarrow> nat \<Rightarrow> 'c cworld \<Rightarrow> bool" for X cap n where
  start: "creached X cap n (cworld_init X cap n)"
| step: "creached X cap n w \<Longrightarrow> cstep X w w' \<Longrightarrow> creached X cap n w'"

section \<open>What the small pieces do\<close>

lemma channel_capacity_fits_iff:
  "channel_capacity_fits slot cap budget \<longleftrightarrow> unat cap * unat slot \<le> unat budget"
proof (cases "unat cap * unat slot < 2 ^ 64")
  case True
  then have "unat (cap * slot) = unat cap * unat slot" by (simp add: unat_word_ariths(2))
  then show ?thesis using True by (simp add: channel_capacity_fits_def word_le_nat_alt)
next
  case False
  then show ?thesis using unsigned_less[of budget, where ?'a = nat] by (simp add: channel_capacity_fits_def)
qed

lemma first_oversized_from_None:
  "first_oversized_from k offs n cap = None \<longleftrightarrow>
     (\<forall>i < length offs. (offs @ [n]) ! Suc i - offs ! i \<le> cap)"
proof (induction offs arbitrary: k)
  case (Cons a offs)
  have first: "(case offs of [] \<Rightarrow> n | e # _ \<Rightarrow> e) = (offs @ [n]) ! 0" by (cases offs) auto
  show ?case using Cons.IH[of "Suc k"] by (auto simp: first Let_def less_Suc_eq_0_disj)
qed simp

lemma first_oversized_element_Some:
  "first_oversized_from k offs n cap = Some (i, sz) \<Longrightarrow>
     k \<le> i \<and> i < k + length offs \<and> sz = (offs @ [n]) ! Suc (i - k) - offs ! (i - k) \<and> cap < sz"
proof (induction offs arbitrary: k)
  case (Cons a offs)
  have first: "(case offs of [] \<Rightarrow> n | e # _ \<Rightarrow> e) = (offs @ [n]) ! 0" by (cases offs) auto
  show ?case using Cons.prems Cons.IH[of "Suc k"]
    by (auto simp: first Let_def nth_Cons' Suc_diff_le[symmetric] split: if_splits)
qed simp

lemma distinct_ids_spec:
  "ref_id ` set (distinct_ids seen rs) = ref_id ` set rs - seen \<and> distinct (map ref_id (distinct_ids seen rs))"
  by (induction rs arbitrary: seen) auto

lemma channel_children_spec:
  "ref_id ` set (channel_children ch) = ref_id ` set (in_flight ch) \<and> distinct (map ref_id (channel_children ch))"
  using distinct_ids_spec[of "{}" "in_flight ch"] by (simp add: channel_children_def)

end
