(* ===== verification/Channel_Books.thy ===== *)
theory Channel_Books
  imports Shared_Channel "HOL-Library.Multiset"
begin

text \<open>
  The books of a channel: what went in is what came out and what is still inside, the
  pending counter is the number of items inside, and the index the cycle detector reads
  lists exactly the references those items carry.
\<close>

section \<open>The buffer's laws as rules\<close>

lemma x_new: "x_laws X \<Longrightarrow> x_items X (x_bounded X n) = [] \<and> x_cap X (x_bounded X n) = n"
  by (simp add: x_laws_def)

lemma x_length: "x_laws X \<Longrightarrow> x_len X c = length (x_items X c)"
  by (simp add: x_laws_def)

lemma x_sent:
  assumes "x_laws X" "x_try_send X c m = Inr c'"
  shows "x_items X c' = x_items X c @ [m] \<and> x_cap X c' = x_cap X c \<and> length (x_items X c) < x_cap X c"
proof (cases "length (x_items X c) < x_cap X c")
  case True
  then obtain d where "x_try_send X c m = Inr d \<and> x_items X d = x_items X c @ [m] \<and> x_cap X d = x_cap X c"
    using assms(1) unfolding x_laws_def by blast
  then show ?thesis using assms(2) True by simp
next
  case False
  then have "x_try_send X c m = Inl XFull" using assms(1) by (simp add: x_laws_def)
  then show ?thesis using assms(2) by simp
qed

lemma x_refused:
  assumes "x_laws X" "x_try_send X c m = Inl e"
  shows "e = XFull \<and> x_cap X c \<le> length (x_items X c)"
proof (cases "length (x_items X c) < x_cap X c")
  case True
  then obtain d where "x_try_send X c m = Inr d" using assms(1) unfolding x_laws_def by blast
  then show ?thesis using assms(2) by simp
next
  case False
  then have "x_try_send X c m = Inl XFull" using assms(1) by (simp add: x_laws_def)
  then show ?thesis using assms(2) False by simp
qed

lemma x_empty:
  assumes "x_laws X" "x_try_recv X c = None"
  shows "x_items X c = []"
proof (rule ccontr)
  assume "x_items X c \<noteq> []"
  then obtain m ms where "x_items X c = m # ms" by (cases "x_items X c") auto
  then obtain d where "x_try_recv X c = Some (m, d)" using assms(1) unfolding x_laws_def by blast
  then show False using assms(2) by simp
qed

lemma x_taken:
  assumes "x_laws X" "x_try_recv X c = Some (m, c')"
  shows "x_items X c = m # x_items X c' \<and> x_cap X c' = x_cap X c"
proof (cases "x_items X c")
  case Nil
  then have "x_try_recv X c = None" using assms(1) unfolding x_laws_def by blast
  then show ?thesis using assms(2) by simp
next
  case (Cons k ks)
  then obtain d where "x_try_recv X c = Some (k, d) \<and> x_items X d = ks \<and> x_cap X d = x_cap X c"
    using assms(1) unfolding x_laws_def by blast
  then show ?thesis using assms(2) Cons by simp
qed

section \<open>Sums over the threads\<close>

definition elsewhere :: "('a \<Rightarrow> 'b::comm_monoid_add) \<Rightarrow> nat \<Rightarrow> 'a list \<Rightarrow> 'b" where
  "elsewhere f t xs = sum_list (map f (take t xs)) + sum_list (map f (drop (Suc t) xs))"

lemma sum_threads:
  assumes "t < length xs"
  shows "sum_list (map f xs) = f (xs ! t) + elsewhere f t xs"
proof -
  have "sum_list (map f xs) = sum_list (map f (take t xs @ xs ! t # drop (Suc t) xs))"
    using assms by (simp add: id_take_nth_drop[symmetric])
  then show ?thesis by (simp add: elsewhere_def ac_simps)
qed

lemma sum_threads_update:
  assumes "t < length xs"
  shows "sum_list (map f (xs[t := x])) = f x + elsewhere f t xs"
  using assms sum_threads[of t "xs[t := x]" f] by (simp add: elsewhere_def)

lemma elsewhere_mono:
  assumes "\<And>x. f x \<le> (g x :: nat)"
  shows "elsewhere f t xs \<le> elsewhere g t xs"
  unfolding elsewhere_def by (intro add_mono sum_list_mono assms)

section \<open>The reference index\<close>

lemma index_of_Some: "index_of x xs = Some i \<Longrightarrow> i < length xs \<and> xs ! i = x"
  by (induction xs arbitrary: i) (auto split: if_splits)

lemma index_of_None: "index_of x xs = None \<longleftrightarrow> x \<notin> set xs"
  by (induction xs) auto

lemma mset_swap_remove:
  assumes "i < length xs"
  shows "mset (swap_remove xs i) = mset xs - {#xs ! i#}"
proof -
  have ne: "xs[i := last xs] \<noteq> []" using assms by auto
  have "mset (xs[i := last xs]) = add_mset (last xs) (mset xs - {#xs ! i#})"
    using assms by (simp add: mset_update)
  moreover have "mset (xs[i := last xs]) = add_mset (last (xs[i := last xs])) (mset (butlast (xs[i := last xs])))"
    using ne by (metis append_butlast_last_id mset.simps(2) mset_append add_mset_add_single mset_single_iff_right)
  moreover have "last (xs[i := last xs]) = last xs"
    using assms ne by (cases xs rule: rev_cases) (auto simp: list_update_append split: nat.splits)
  ultimately show ?thesis by (simp add: swap_remove_def)
qed

lemma mset_drop_views: "mset (drop_views vs idx) = mset idx - mset vs"
proof (induction vs arbitrary: idx)
  case (Cons v vs)
  show ?case
  proof (cases "index_of v idx")
    case None
    then have "v \<notin># mset idx" by (simp add: index_of_None)
    then have "mset idx - mset (v # vs) = mset idx - mset vs"
      by (simp add: diff_add_mset_swap minus_add_mset_if_not_in_lhs)
    then show ?thesis using None Cons.IH by simp
  next
    case (Some i)
    then show ?thesis using Cons.IH index_of_Some[OF Some] mset_swap_remove[of i idx] by simp
  qed
qed simp

definition views_of :: "payload \<Rightarrow> SharedRef multiset" where
  "views_of p = mset (map as_view (p_keep p))"

lemma in_flight_index_add [simp]:
  "mset (in_flight (index_add (keepalive_views (p_keep p)) ch)) = mset (in_flight ch) + views_of p"
  by (simp add: index_add_def keepalive_views_def views_of_def)

lemma in_flight_index_remove [simp]:
  "mset (in_flight (index_remove (p_keep p) ch)) = mset (in_flight ch) - views_of p"
  "mset (in_flight (index_remove_views (keepalive_views (p_keep p)) ch)) = mset (in_flight ch) - views_of p"
  by (simp_all add: index_remove_def index_remove_views_def keepalive_views_def views_of_def mset_drop_views)

text \<open>The channel's counters and its index are independent of everything else in it.\<close>

lemma chan_frames [simp]:
  "tx (index_add vs ch) = tx ch" "tx (index_remove_views vs ch) = tx ch" "tx (index_remove ks ch) = tx ch"
  "tx (bump_pending ch) = tx ch" "tx (drop_pending ch) = tx ch" "tx (count_sent ch) = tx ch"
  "capacity (index_add vs ch) = capacity ch" "capacity (index_remove_views vs ch) = capacity ch"
  "capacity (index_remove ks ch) = capacity ch" "capacity (bump_pending ch) = capacity ch"
  "capacity (drop_pending ch) = capacity ch" "capacity (count_sent ch) = capacity ch"
  "closed (index_add vs ch) = closed ch" "closed (index_remove_views vs ch) = closed ch"
  "closed (index_remove ks ch) = closed ch" "closed (bump_pending ch) = closed ch"
  "closed (drop_pending ch) = closed ch" "closed (count_sent ch) = closed ch"
  "recv_waiters (index_add vs ch) = recv_waiters ch" "recv_waiters (index_remove_views vs ch) = recv_waiters ch"
  "recv_waiters (index_remove ks ch) = recv_waiters ch" "recv_waiters (bump_pending ch) = recv_waiters ch"
  "recv_waiters (drop_pending ch) = recv_waiters ch" "recv_waiters (count_sent ch) = recv_waiters ch"
  "send_ids (index_add vs ch) = send_ids ch" "send_ids (index_remove_views vs ch) = send_ids ch"
  "send_ids (index_remove ks ch) = send_ids ch" "send_ids (bump_pending ch) = send_ids ch"
  "send_ids (drop_pending ch) = send_ids ch" "send_ids (count_sent ch) = send_ids ch"
  "credits (index_add vs ch) = credits ch" "credits (index_remove_views vs ch) = credits ch"
  "credits (index_remove ks ch) = credits ch" "credits (bump_pending ch) = credits ch"
  "credits (drop_pending ch) = credits ch" "credits (count_sent ch) = credits ch"
  "recv_front (index_add vs ch) = recv_front ch" "recv_front (index_remove_views vs ch) = recv_front ch"
  "recv_front (index_remove ks ch) = recv_front ch" "recv_front (bump_pending ch) = recv_front ch"
  "recv_front (drop_pending ch) = recv_front ch" "recv_front (count_sent ch) = recv_front ch"
  "pending (index_add vs ch) = pending ch" "pending (index_remove_views vs ch) = pending ch"
  "pending (index_remove ks ch) = pending ch" "pending (count_sent ch) = pending ch"
  "pending (bump_pending ch) = pending ch + 1" "pending (drop_pending ch) = pending ch - 1"
  "in_flight (bump_pending ch) = in_flight ch" "in_flight (drop_pending ch) = in_flight ch"
  "in_flight (count_sent ch) = in_flight ch"
  by (simp_all add: index_add_def index_remove_views_def index_remove_def bump_pending_def drop_pending_def count_sent_def)

lemma resolve_value_back: "resolve_value i b k pr = (Some (b', k'), pr') \<Longrightarrow> b' = b \<and> k' = k"
  by (auto simp: resolve_value_def Let_def split: if_splits)

section \<open>The books of one thread\<close>

text \<open>What a thread holds between two of its steps: an item it has taken out and not yet handed on or put
  back, an item it has put in and not counted, one it has taken out and not yet uncounted, and the
  references it has indexed for an item that is in its hands.\<close>

fun in_hand :: "tpc \<Rightarrow> payload multiset" where
  "in_hand (D_drop p r) = {#p#}"
| "in_hand (D_offer p r) = {#p#}"
| "in_hand (D_hand p i r) = {#p#}"
| "in_hand (D_index p r) = {#p#}"
| "in_hand (D_back p r) = {#p#}"
| "in_hand (R_drop p) = {#p#}"
| "in_hand (R_last p) = {#p#}"
| "in_hand _ = {#}"

fun uncounted :: "tpc \<Rightarrow> u64" where
  "uncounted S_count = 1"
| "uncounted (D_bump r) = 1"
| "uncounted _ = 0"

fun still_counted :: "tpc \<Rightarrow> u64" where
  "still_counted (D_drop p r) = 1"
| "still_counted (R_drop p) = 1"
| "still_counted (R_last p) = 1"
| "still_counted _ = 0"

fun indexed_by :: "tpc \<Rightarrow> SharedRef multiset" where
  "indexed_by (S_deposit p m) = views_of p"
| "indexed_by (B_send p b) = views_of p"
| "indexed_by (B_try p b) = views_of p"
| "indexed_by (D_drop p r) = views_of p"
| "indexed_by (D_back p r) = views_of p"
| "indexed_by (R_drop p) = views_of p"
| "indexed_by (R_last p) = views_of p"
| "indexed_by _ = {#}"

definition inside :: "('c, payload) xchan \<Rightarrow> 'c chan \<Rightarrow> payload multiset" where
  "inside X ch = mset (x_items X (tx ch)) + mset (recv_front ch)"

definition views_in :: "('c, payload) xchan \<Rightarrow> 'c chan \<Rightarrow> SharedRef multiset" where
  "views_in X ch = sum_mset (image_mset views_of (inside X ch))"

lemma finish_books [simp]:
  "in_hand (finish r) = {#}" "uncounted (finish r) = 0" "still_counted (finish r) = 0" "indexed_by (finish r) = {#}"
  by (cases r; simp)+

lemma on_full_books [simp]:
  "in_hand (on_full m p) = {#}" "uncounted (on_full m p) = 0" "still_counted (on_full m p) = 0"
  "indexed_by (on_full m p) = {#}"
  by (cases m; simp)+

lemma on_empty_books [simp]:
  "in_hand (on_empty m) = {#}" "uncounted (on_empty m) = 0" "still_counted (on_empty m) = 0"
  "indexed_by (on_empty m) = {#}"
  by (cases m; simp)+

lemma woke_books [simp]:
  "in_hand (woke again r) = {#}" "uncounted (woke again r) = 0" "still_counted (woke again r) = 0"
  "indexed_by (woke again r) = {#}"
  by (simp_all add: woke_def)

definition into :: "ev \<Rightarrow> payload multiset" where
  "into e = (case e of Enter p \<Rightarrow> {#p#} | Pass p \<Rightarrow> {#p#} | _ \<Rightarrow> {#})"

definition outof :: "ev \<Rightarrow> payload multiset" where
  "outof e = (case e of Leave p \<Rightarrow> {#p#} | Pass p \<Rightarrow> {#p#} | _ \<Rightarrow> {#})"

lemma tstep_items:
  assumes "x_laws X" "tstep X pc (ch, pr) = (e, pc', ch', pr')"
  shows "into e + inside X ch + in_hand pc = outof e + inside X ch' + in_hand pc'"
  using assms(2)
  by (cases pc)
     (auto simp: tstep_def inside_def into_def outof_def
           dest: x_sent[OF assms(1)] x_refused[OF assms(1)] x_empty[OF assms(1)] x_taken[OF assms(1)] resolve_value_back
           split: list.splits sum.splits x_error.splits option.splits prod.splits if_splits PromisePayload.splits)

lemma tstep_pending:
  assumes "x_laws X" "tstep X pc (ch, pr) = (e, pc', ch', pr')"
  shows "pending ch' - pending ch + uncounted pc' - uncounted pc =
     of_nat (size (inside X ch')) - of_nat (size (inside X ch)) + still_counted pc' - still_counted pc"
  using assms(2)
  by (cases pc)
     (auto simp: tstep_def inside_def
           dest: x_sent[OF assms(1)] x_refused[OF assms(1)] x_empty[OF assms(1)] x_taken[OF assms(1)]
           split: list.splits sum.splits x_error.splits option.splits prod.splits if_splits PromisePayload.splits)


lemma put_back: "v \<subseteq># M \<Longrightarrow> v + (M + B - v) = M + B"
  by (meson mset_subset_eq_add_left subset_mset.add_diff_inverse subset_mset.trans)

lemma tstep_index_delta:
  assumes "x_laws X" "tstep X pc (ch, pr) = (e, pc', ch', pr')" "indexed_by pc \<subseteq># mset (in_flight ch)"
  shows "mset (in_flight ch') + (views_in X ch + indexed_by pc) = mset (in_flight ch) + (views_in X ch' + indexed_by pc')"
  using assms(2,3)
  by (cases pc)
     (auto simp: tstep_def inside_def views_in_def put_back ac_simps
           dest: x_sent[OF assms(1)] x_refused[OF assms(1)] x_empty[OF assms(1)] x_taken[OF assms(1)]
           split: list.splits sum.splits x_error.splits option.splits prod.splits if_splits PromisePayload.splits)

lemma tstep_index:
  assumes "x_laws X" "tstep X pc (ch, pr) = (e, pc', ch', pr')"
    "mset (in_flight ch) = views_in X ch + (indexed_by pc + K)"
  shows "mset (in_flight ch') = views_in X ch' + (indexed_by pc' + K)"
proof -
  have "mset (in_flight ch') + (views_in X ch + indexed_by pc) =
      (views_in X ch' + (indexed_by pc' + K)) + (views_in X ch + indexed_by pc)"
    using tstep_index_delta[OF assms(1,2)] by (simp add: assms(3) ac_simps)
  then show ?thesis by simp
qed

section \<open>The books of all\<close>

definition balanced :: "('c, payload) xchan \<Rightarrow> 'c cworld \<Rightarrow> bool" where
  "balanced X w \<longleftrightarrow>
     mset (entered w) = mset (gone_out w) + inside X (wch w) + sum_list (map in_hand (wpc w)) \<and>
     pending (wch w) + sum_list (map uncounted (wpc w)) =
       of_nat (size (inside X (wch w))) + sum_list (map still_counted (wpc w)) \<and>
     mset (in_flight (wch w)) = views_in X (wch w) + sum_list (map indexed_by (wpc w))"

lemma note_ev_frames [simp]:
  "wch (note_ev e w) = wch w" "wpr (note_ev e w) = wpr w" "wpc (note_ev e w) = wpc w"
  "mset (entered (note_ev e w)) = mset (entered w) + into e"
  "mset (gone_out (note_ev e w)) = mset (gone_out w) + outof e"
  by (cases e; simp add: into_def outof_def)+

lemma carry_over:
  fixes p :: "'a :: ab_group_add"
  assumes "p' - p + u' - u = s' - s + c' - c" "p + (u + U) = s + (c + C)"
  shows "p' + (u' + U) = s' + (c' + C)"
proof -
  have "p' + (u' + U) = (p' - p + u' - u) + (p + (u + U))" by (simp add: algebra_simps)
  also have "\<dots> = (s' - s + c' - c) + (s + (c + C))" using assms by simp
  also have "\<dots> = s' + (c' + C)" by (simp add: algebra_simps)
  finally show ?thesis .
qed

lemma hand_over:
  fixes E :: "'a :: comm_monoid_add"
  assumes "i + I + h = out + I' + h'" "E = G + I + (h + H)"
  shows "E + i = G + out + I' + (h' + H)"
proof -
  have "E + i = G + (i + I + h) + H" by (simp add: assms(2) ac_simps)
  also have "\<dots> = G + out + I' + (h' + H)" unfolding assms(1) by (simp add: ac_simps)
  finally show ?thesis .
qed

lemma balanced_run:
  assumes "x_laws X" "balanced X w" "t < length (wpc w)"
  shows "balanced X (run_thread X t w)"
proof -
  obtain e pc ch pr where s: "tstep X (wpc w ! t) (wch w, wpr w) = (e, pc, ch, pr)"
    by (cases "tstep X (wpc w ! t) (wch w, wpr w)") auto
  note b = assms(2)[unfolded balanced_def sum_threads[OF assms(3)]]
  note b1 = b[THEN conjunct1] and b2 = b[THEN conjunct2, THEN conjunct1] and b3 = b[THEN conjunct2, THEN conjunct2]
  note 1 = hand_over[OF tstep_items[OF assms(1) s] b1]
  note 2 = carry_over[OF tstep_pending[OF assms(1) s] b2]
  note 3 = tstep_index[OF assms(1) s b3]
  have f: "wch (run_thread X t w) = ch" "wpc (run_thread X t w) = (wpc w)[t := pc]"
    "mset (entered (run_thread X t w)) = mset (entered w) + into e"
    "mset (gone_out (run_thread X t w)) = mset (gone_out w) + outof e"
    by (simp_all add: run_thread_def s)
  show ?thesis unfolding balanced_def f sum_threads_update[OF assms(3)] by (rule conjI[OF 1 conjI[OF 2 3]])
qed

text \<open>A step that leaves the books of its thread as they are.\<close>

lemma balanced_idle:
  assumes "balanced X w" "t < length (wpc w)" "wch w' = wch w" "wpc w' = (wpc w)[t := pc]"
    "entered w' = entered w" "gone_out w' = gone_out w"
    "in_hand pc = in_hand (wpc w ! t)" "uncounted pc = uncounted (wpc w ! t)"
    "still_counted pc = still_counted (wpc w ! t)" "indexed_by pc = indexed_by (wpc w ! t)"
  shows "balanced X w'"
  using assms(1)
  unfolding balanced_def assms(3-6) sum_threads[OF assms(2)] sum_threads_update[OF assms(2)] assms(7-10) .

lemma entry_point_books:
  "entry_point pc \<Longrightarrow> in_hand pc = {#} \<and> uncounted pc = 0 \<and> still_counted pc = 0 \<and> indexed_by pc = {#}"
  by (cases pc) auto

lemma awaits_books:
  "awaits pc = Some i \<Longrightarrow> in_hand pc = {#} \<and> uncounted pc = 0 \<and> still_counted pc = 0 \<and> indexed_by pc = {#}"
  by (cases pc) auto

lemma deadline_passed_inv:
  assumes "deadline_passed pc (ch, pr) = Some (pc', ch', pr')"
  shows "pc' = Return TimedOut \<and> pr' = pr \<and> in_hand pc = {#} \<and> uncounted pc = 0 \<and> still_counted pc = 0 \<and>
     mset (in_flight ch') = mset (in_flight ch) - indexed_by pc \<and> tx ch' = tx ch \<and> recv_front ch' = recv_front ch \<and>
     pending ch' = pending ch \<and> closed ch' = closed ch \<and> capacity ch' = capacity ch \<and>
     recv_waiters ch' = recv_waiters ch \<and> send_ids ch' = send_ids ch \<and> credits ch' = credits ch"
  using assms by (cases pc) (auto split: if_splits)

lemma balanced_expire:
  assumes "balanced X w" "t < length (wpc w)" "deadline_passed (wpc w ! t) (wch w, wpr w) = Some (pc, ch, pr)"
  shows "balanced X (w\<lparr>wch := ch, wpr := pr, wpc := (wpc w)[t := pc]\<rparr>)" (is "balanced X ?w'")
proof -
  note b = assms(1)[unfolded balanced_def sum_threads[OF assms(2)]]
  note d = deadline_passed_inv[OF assms(3)]
  have i: "inside X ch = inside X (wch w)" "views_in X ch = views_in X (wch w)" "pending ch = pending (wch w)"
    using d by (simp_all add: inside_def views_in_def)
  have f: "wch ?w' = ch" "wpc ?w' = (wpc w)[t := pc]" "entered ?w' = entered w" "gone_out ?w' = gone_out w" by simp_all
  have z: "in_hand (wpc w ! t) = in_hand pc" "uncounted (wpc w ! t) = uncounted pc"
    "still_counted (wpc w ! t) = still_counted pc" "indexed_by pc = {#}"
    using d by simp_all
  have x: "mset (in_flight ch) = views_in X (wch w) + ({#} + elsewhere indexed_by t (wpc w))"
    using d b[THEN conjunct2, THEN conjunct2] by simp
  note b1 = b[THEN conjunct1, unfolded z] and b2 = b[THEN conjunct2, THEN conjunct1, unfolded z]
  show ?thesis
    unfolding balanced_def f i sum_threads_update[OF assms(2)] z(4) by (rule conjI[OF b1 conjI[OF b2 x]])
qed

lemma balanced_step:
  assumes "x_laws X" "cstep X w w'" "balanced X w"
  shows "balanced X w'"
  using assms(2,3)
proof cases
  case (call t r pc)
  show ?thesis
    by (rule balanced_idle[OF assms(3) call(2), of _ pc]) (use call entry_point_books[OF call(4)] in auto)
next
  case (run t)
  then show ?thesis using balanced_run[OF assms(1,3)] by simp
next
  case (expire t pc ch pr)
  then show ?thesis using balanced_expire[OF assms(3)] by simp
next
  case (cancelled i)
  then show ?thesis using assms(3) by (simp add: balanced_def)
next
  case (torn t i)
  show ?thesis
    by (rule balanced_idle[OF assms(3) torn(2), of _ "Return Unwound"])
       (use torn awaits_books[OF torn(3)] in \<open>auto simp: tear_down_def\<close>)
qed

lemma sum_list_replicate_zero [simp]: "sum_list (replicate n (0 :: 'a :: monoid_add)) = 0"
  by (induction n) auto

lemma sum_list_replicate_empty [simp]: "sum_list (replicate n {#}) = {#}"
  by (induction n) auto

lemma balanced_init: "x_laws X \<Longrightarrow> balanced X (cworld_init X cap n)"
  by (simp add: balanced_def cworld_init_def ChannelInner_new_def Let_def inside_def views_in_def x_new)

lemma balanced_reached:
  assumes "x_laws X" "creached X cap n w"
  shows "balanced X w"
  using assms(2) by induction (auto intro: balanced_init balanced_step assms(1))

end
