(* ===== verification/Channel_Props.thy ===== *)
theory Channel_Props
  imports Channel_Books
begin

text \<open>
  No wake-up of a channel is lost: a parked sender is owed every free slot, a parked
  receiver is owed every item, and closing reaches every parked sender.
\<close>

section \<open>Promises are delivered once\<close>

definition settled :: "(int \<times> PromisePayload) list \<Rightarrow> int set" where
  "settled l = fst ` set l"

lemma settled_simps [simp]: "settled [] = {}" "settled (l @ [(i, v)]) = insert i (settled l)"
  by (auto simp: settled_def)

lemma outcome_of_None: "outcome_of i pr = None \<longleftrightarrow> i \<notin> settled (pr_log pr)"
  by (simp add: outcome_of_def map_of_eq_None_iff settled_def)

lemma outcome_of_Some: "outcome_of i pr = Some v \<Longrightarrow> i \<in> settled (pr_log pr)"
  using outcome_of_None[of i pr] by auto

definition grows :: "promises \<Rightarrow> promises \<Rightarrow> bool" where
  "grows pr pr' \<longleftrightarrow>
     (\<exists>l. pr_log pr' = pr_log pr @ l) \<and> pr_next pr \<le> pr_next pr' \<and> pr_gone pr \<subseteq> pr_gone pr' \<and>
     (\<forall>i \<in> pr_senders pr'. i < pr_next pr \<longrightarrow> i \<in> pr_senders pr)"

lemma grows_refl [simp]: "grows pr pr"
  by (simp add: grows_def)

lemma grows_resolve: "resolve i v pr = (ok, pr') \<Longrightarrow> grows pr pr'"
  by (auto simp: resolve_def grows_def Let_def split: if_splits)

lemma grows_snd_resolve [simp]: "grows pr (snd (resolve i v pr))"
  using grows_resolve[of i v pr] by (cases "resolve i v pr") auto

lemma grows_resolve_value: "resolve_value i b k pr = (r, pr') \<Longrightarrow> grows pr pr'"
  by (auto simp: resolve_value_def grows_def Let_def split: if_splits)

lemma grows_alloc: "alloc pr = (i, pr') \<Longrightarrow> grows pr pr'"
  by (auto simp: alloc_def grows_def)

lemma grows_tstep: "tstep X pc (ch, pr) = (e, pc', ch', pr') \<Longrightarrow> grows pr pr'"
  by (cases pc)
     (auto simp: tstep_def cancel_def dest: grows_resolve grows_resolve_value grows_alloc
           split: list.splits sum.splits x_error.splits option.splits prod.splits if_splits PromisePayload.splits)

lemma grows_outcome: "grows pr pr' \<Longrightarrow> outcome_of i pr = Some v \<Longrightarrow> outcome_of i pr' = Some v"
  by (auto simp: grows_def outcome_of_def map_add_Some_iff)

definition fresh_pr :: "promises \<Rightarrow> bool" where
  "fresh_pr pr \<longleftrightarrow>
     (\<forall>i \<in> pr_senders pr. i < pr_next pr \<and> i \<notin> settled (pr_log pr)) \<and>
     (\<forall>i \<in> settled (pr_log pr). i < pr_next pr)"

lemma fresh_resolve: "resolve i v pr = (ok, pr') \<Longrightarrow> fresh_pr pr \<Longrightarrow> fresh_pr pr'"
  by (auto simp: resolve_def fresh_pr_def Let_def split: if_splits)

lemma fresh_snd_resolve [simp]: "fresh_pr pr \<Longrightarrow> fresh_pr (snd (resolve i v pr))"
  using fresh_resolve[of i v pr] by (cases "resolve i v pr") auto

lemma fresh_resolve_value: "resolve_value i b k pr = (r, pr') \<Longrightarrow> fresh_pr pr \<Longrightarrow> fresh_pr pr'"
  by (auto simp: resolve_value_def fresh_pr_def Let_def split: if_splits)

lemma fresh_alloc: "alloc pr = (i, pr') \<Longrightarrow> fresh_pr pr \<Longrightarrow> fresh_pr pr'"
  by (force simp: alloc_def fresh_pr_def)

lemma fresh_tstep: "tstep X pc (ch, pr) = (e, pc', ch', pr') \<Longrightarrow> fresh_pr pr \<Longrightarrow> fresh_pr pr'"
  by (cases pc)
     (auto simp: tstep_def cancel_def dest: fresh_resolve fresh_resolve_value fresh_alloc
           split: list.splits sum.splits x_error.splits option.splits prod.splits if_splits PromisePayload.splits)

section \<open>What a parked sender is owed\<close>

text \<open>A thread that will yet wake a sender, give back the item it holds, or try to send.\<close>

fun tok :: "promises \<Rightarrow> tpc \<Rightarrow> nat" where
  "tok pr (S_check p m) = 1"
| "tok pr (S_offer p m) = 1"
| "tok pr (S_hand p m i) = 1"
| "tok pr S_handed = 1"
| "tok pr (S_index p m) = 1"
| "tok pr (S_deposit p m) = 1"
| "tok pr (D_drop p r) = 1"
| "tok pr (D_offer p r) = 1"
| "tok pr (D_hand p i r) = 1"
| "tok pr (D_index p r) = 1"
| "tok pr (D_back p r) = 1"
| "tok pr (W_pop again r) = 1"
| "tok pr (W_wake i again r) = 1"
| "tok pr (R_drop p) = 1"
| "tok pr (P_redeem i p b) = 1"
| "tok pr (F_wait_send i p b) = (if has_value (outcome_of i pr) then 1 else 0)"
| "tok pr _ = 0"

text \<open>A sender that found the channel full and is on its way to parking.\<close>

fun seeking :: "tpc \<Rightarrow> bool" where
  "seeking (F_full p b) = True"
| "seeking (P_send i p b) = True"
| "seeking _ = False"

text \<open>Points reached only on a closed channel.\<close>

fun past_close :: "tpc \<Rightarrow> bool" where
  "past_close B_final = True"
| "past_close (R_last p) = True"
| "past_close C_recv = True"
| "past_close (C_cancel is) = True"
| "past_close C_send = True"
| "past_close (C_tell is) = True"
| "past_close _ = False"

definition room :: "('c, payload) xchan \<Rightarrow> 'c chan \<Rightarrow> nat" where
  "room X ch = capacity ch - (length (x_items X (tx ch)) + length (recv_front ch))"

lemma tok_mono: "grows pr pr' \<Longrightarrow> tok pr pc \<le> tok pr' pc"
proof (cases pc)
  case (F_wait_send i p b)
  assume "grows pr pr'"
  then show ?thesis using F_wait_send grows_outcome[of pr pr' i]
    by (cases "outcome_of i pr" rule: has_value.cases) auto
qed auto

lemma finish_marks [simp]:
  "tok pr (finish r) = 0" "\<not> seeking (finish r)" "\<not> past_close (finish r)"
  by (cases r; simp)+

lemma on_full_marks [simp]: "tok pr (on_full m p) = 0" "\<not> past_close (on_full m p)"
  by (cases m; simp)+

lemma on_empty_marks [simp]: "tok pr (on_empty m) = 0" "\<not> seeking (on_empty m)" "\<not> past_close (on_empty m)"
  by (cases m; simp)+

lemma woke_marks [simp]:
  "tok pr (woke again r) = 0" "\<not> seeking (woke again r)" "\<not> past_close (woke again r)"
  by (simp_all add: woke_def)

definition wakes :: "tpc \<Rightarrow> promises \<Rightarrow> nat" where
  "wakes pc pr = (case pc of W_wake i _ _ \<Rightarrow> if fst (resolve i (Value [] []) pr) then 1 else 0 | _ \<Rightarrow> 0)"

definition misses :: "ev \<Rightarrow> nat" where
  "misses e = (case e of Miss \<Rightarrow> 1 | _ \<Rightarrow> 0)"

lemma tstep_closed:
  assumes "tstep X pc (ch, pr) = (e, pc', ch', pr')"
  shows "capacity ch' = capacity ch \<and> (closed ch \<longrightarrow> closed ch') \<and> (past_close pc' \<longrightarrow> past_close pc \<or> closed ch')"
  using assms
  by (cases pc)
     (auto simp: tstep_def
           split: list.splits sum.splits x_error.splits option.splits prod.splits if_splits PromisePayload.splits)

lemma resolve_True: "resolve i v pr = (True, pr') \<Longrightarrow> i \<in> pr_senders pr \<and> i \<notin> pr_gone pr \<and> pr_log pr' = pr_log pr @ [(i, v)]"
  by (auto simp: resolve_def Let_def split: if_splits)

lemma unsettled: "fresh_pr pr \<Longrightarrow> i \<in> pr_senders pr \<Longrightarrow> outcome_of i pr = None"
  by (simp add: fresh_pr_def outcome_of_None)

lemma resolve_outcome:
  assumes "resolve i v pr = (True, pr')" "fresh_pr pr"
  shows "outcome_of i pr' = Some v"
proof -
  have "outcome_of i pr = None" "pr_log pr' = pr_log pr @ [(i, v)]"
    using resolve_True[OF assms(1)] unsettled[OF assms(2)] by simp_all
  then show ?thesis by (simp add: outcome_of_def map_add_def)
qed

lemma tstep_room:
  assumes "x_laws X" "tstep X pc (ch, pr) = (e, pc', ch', pr')" "\<not> closed ch" "\<not> past_close pc"
    "x_cap X (tx ch) = capacity ch" "fresh_pr pr" "room X ch \<le> credits ch + tok pr pc + K" "\<not> closed ch'"
  shows "room X ch' \<le> credits ch' + tok pr' pc' + K + misses e + wakes pc pr"
  using assms(2-)
  by (cases pc)
     (auto simp: tstep_def room_def misses_def wakes_def occupancy_def x_length[OF assms(1)]
           dest: x_sent[OF assms(1)] x_refused[OF assms(1)] x_empty[OF assms(1)] x_taken[OF assms(1)] resolve_outcome
           split: list.splits sum.splits x_error.splits option.splits prod.splits if_splits PromisePayload.splits)


lemma tstep_cap:
  assumes "x_laws X" "tstep X pc (ch, pr) = (e, pc', ch', pr')"
  shows "x_cap X (tx ch') = x_cap X (tx ch)"
  using assms(2)
  by (cases pc)
     (auto simp: tstep_def dest: x_sent[OF assms(1)] x_taken[OF assms(1)]
           split: list.splits sum.splits x_error.splits option.splits prod.splits if_splits PromisePayload.splits)

fun pids :: "tpc \<Rightarrow> int set" where
  "pids (P_send i p b) = {i}"
| "pids (W_wake i again r) = {i}"
| "pids _ = {}"

lemma finish_pids [simp]: "pids (finish r) = {}" "finish r \<noteq> W_wake i again r'"
  by (cases r; simp)+

lemma on_full_pids [simp]: "pids (on_full m p) = {}" "on_full m p \<noteq> W_wake i again r'"
  by (cases m; simp)+

lemma on_empty_pids [simp]: "pids (on_empty m) = {}" "on_empty m \<noteq> W_wake i again r'"
  by (cases m; simp)+

lemma woke_pids [simp]: "pids (woke again r) = {}" "woke again r \<noteq> W_wake i again' r'"
  by (simp_all add: woke_def)

lemma tstep_parks:
  assumes "tstep X pc (ch, pr) = (e, pc', ch', pr')"
  shows "(\<forall>i \<in> set (send_ids ch'). i \<in> set (send_ids ch) \<or> i \<in> pids pc \<and> (\<exists>p b. pc' = F_wait_send i p b)) \<and>
     (\<forall>i again r. pc' = W_wake i again r \<longrightarrow> i \<in> set (send_ids ch)) \<and>
     (\<forall>i p b. pc = F_wait_send i p b \<longrightarrow> pc' = pc \<or> i \<in> settled (pr_log pr)) \<and>
     (\<forall>i \<in> pids pc'. i \<in> set (send_ids ch) \<or> i < pr_next pr')"
  using assms
  by (cases pc)
     (auto simp: tstep_def alloc_def dest: outcome_of_Some
           split: list.splits sum.splits x_error.splits option.splits prod.splits if_splits PromisePayload.splits)

lemma tstep_seeks:
  assumes "x_laws X" "tstep X pc (ch, pr) = (e, pc', ch', pr')" "x_cap X (tx ch) = capacity ch"
  shows "(seeking pc' \<longrightarrow> seeking pc \<or> room X ch' = 0) \<and> (send_ids ch' \<noteq> [] \<longrightarrow> send_ids ch \<noteq> [] \<or> seeking pc) \<and>
     (send_ids ch = [] \<or> credits ch = 0 \<longrightarrow> send_ids ch' = [] \<or> credits ch' = 0)"
  using assms(2,3)
  by (cases pc)
     (auto simp: tstep_def room_def dest: x_refused[OF assms(1)]
           split: list.splits sum.splits x_error.splits option.splits prod.splits if_splits PromisePayload.splits)

section \<open>No slot is forgotten\<close>

definition owed :: "'c cworld \<Rightarrow> nat" where
  "owed w = sum_list (map (tok (wpr w)) (wpc w))"

definition waiting_send :: "'c cworld \<Rightarrow> bool" where
  "waiting_send w \<longleftrightarrow> send_ids (wch w) \<noteq> [] \<or> (\<exists>pc \<in> set (wpc w). seeking pc)"

definition handled :: "'c cworld \<Rightarrow> bool" where
  "handled w \<longleftrightarrow>
     (\<forall>i. i \<in> set (send_ids (wch w)) \<or> (\<exists>again r. W_wake i again r \<in> set (wpc w)) \<longrightarrow>
        i \<in> pr_senders (wpr w) \<longrightarrow> i \<notin> pr_gone (wpr w) \<longrightarrow> (\<exists>p b. F_wait_send i p b \<in> set (wpc w)))"

definition known_ids :: "'c cworld \<Rightarrow> bool" where
  "known_ids w \<longleftrightarrow>
     (\<forall>i \<in> set (send_ids (wch w)). i < pr_next (wpr w)) \<and> (\<forall>pc \<in> set (wpc w). \<forall>i \<in> pids pc. i < pr_next (wpr w))"

definition sinv :: "('c, payload) xchan \<Rightarrow> 'c cworld \<Rightarrow> bool" where
  "sinv X w \<longleftrightarrow>
     x_cap X (tx (wch w)) = capacity (wch w) \<and> fresh_pr (wpr w) \<and>
     (\<forall>pc \<in> set (wpc w). past_close pc \<longrightarrow> closed (wch w)) \<and>
     (send_ids (wch w) = [] \<or> credits (wch w) = 0) \<and> known_ids w \<and> handled w \<and>
     (\<not> closed (wch w) \<longrightarrow> waiting_send w \<longrightarrow> room X (wch w) \<le> credits (wch w) + owed w + missed w)"

lemma sinvI:
  assumes "x_cap X (tx (wch w)) = capacity (wch w)" "fresh_pr (wpr w)"
    "\<And>pc. pc \<in> set (wpc w) \<Longrightarrow> past_close pc \<Longrightarrow> closed (wch w)" "send_ids (wch w) = [] \<or> credits (wch w) = 0"
    "known_ids w" "handled w"
    "\<not> closed (wch w) \<Longrightarrow> waiting_send w \<Longrightarrow> room X (wch w) \<le> credits (wch w) + owed w + missed w"
  shows "sinv X w"
  using assms unfolding sinv_def by blast

lemma sinvD:
  assumes "sinv X w"
  shows "x_cap X (tx (wch w)) = capacity (wch w)" "fresh_pr (wpr w)"
    "\<And>pc. pc \<in> set (wpc w) \<Longrightarrow> past_close pc \<Longrightarrow> closed (wch w)" "send_ids (wch w) = [] \<or> credits (wch w) = 0"
    "known_ids w" "handled w"
    "\<not> closed (wch w) \<Longrightarrow> waiting_send w \<Longrightarrow> room X (wch w) \<le> credits (wch w) + owed w + missed w"
  using assms unfolding sinv_def by auto

lemma other_thread: "t < length xs \<Longrightarrow> x \<in> set xs \<Longrightarrow> x = xs ! t \<or> x \<in> set (take t xs @ drop (Suc t) xs)"
  using id_take_nth_drop[of t xs] by (metis Un_iff list.set(2) insert_iff set_append)

lemma kept_by_update: "t < length xs \<Longrightarrow> x \<in> set xs \<Longrightarrow> x = xs ! t \<or> x \<in> set (xs[t := y])"
  using other_thread[of t xs x] by (auto simp: upd_conv_take_nth_drop)

lemma elsewhere_more:
  assumes "t < length xs" "x \<in> set xs" "x \<noteq> xs ! t" "\<And>y. f y \<le> (g y :: nat)" "f x < g x"
  shows "elsewhere f t xs + 1 \<le> elsewhere g t xs"
proof -
  obtain as bs where ab: "take t xs @ drop (Suc t) xs = as @ x # bs"
    using other_thread[OF assms(1,2)] assms(3) by (meson split_list)
  have e: "elsewhere h t xs = sum_list (map h as) + h x + sum_list (map h bs)" for h :: "'a \<Rightarrow> nat"
    using arg_cong[OF ab, of "\<lambda>l. sum_list (map h l)"] by (simp add: elsewhere_def)
  have "sum_list (map f as) \<le> sum_list (map g as)" "sum_list (map f bs) \<le> sum_list (map g bs)"
    by (simp_all add: sum_list_mono assms(4))
  then show ?thesis using assms(5) by (simp add: e)
qed

lemma elsewhere_wakes:
  assumes "sinv X w" "t < length (wpc w)" "tstep X (wpc w ! t) (wch w, wpr w) = (e, pc', ch', pr')"
  shows "elsewhere (tok (wpr w)) t (wpc w) + wakes (wpc w ! t) (wpr w) \<le> elsewhere (tok pr') t (wpc w)"
proof (cases "\<exists>i again r. wpc w ! t = W_wake i again r \<and> fst (resolve i (Value [] []) (wpr w))")
  case True
  then obtain i again r where i: "wpc w ! t = W_wake i again r" "fst (resolve i (Value [] []) (wpr w))" by blast
  then have r: "resolve i (Value [] []) (wpr w) = (True, pr')"
    using assms(3) by (auto simp: tstep_def split: prod.splits)
  have "W_wake i again r \<in> set (wpc w)" using i(1) assms(2) by (metis nth_mem)
  then obtain p b where w: "F_wait_send i p b \<in> set (wpc w)"
    using assms(1) resolve_True[OF r] unfolding sinv_def handled_def by blast
  have "tok (wpr w) (F_wait_send i p b) < tok pr' (F_wait_send i p b)"
    using assms(1) resolve_True[OF r] resolve_outcome[OF r] unsettled[of "wpr w" i] by (simp add: sinv_def)
  then show ?thesis
    using elsewhere_more[OF assms(2) w, of "tok (wpr w)" "tok pr'"] i tok_mono[OF grows_tstep[OF assms(3)]]
    by (simp add: wakes_def)
next
  case False
  then have "wakes (wpc w ! t) (wpr w) = 0" by (auto simp: wakes_def split: tpc.splits)
  then show ?thesis using elsewhere_mono[OF tok_mono[OF grows_tstep[OF assms(3)]]] by simp
qed


lemma missed_note_ev [simp]: "missed (note_ev e w) = missed w + misses e"
  by (cases e) (simp_all add: misses_def)

lemma sinv_run:
  assumes "x_laws X" "sinv X w" "t < length (wpc w)"
  shows "sinv X (run_thread X t w)"
proof -
  obtain e pc ch pr where s: "tstep X (wpc w ! t) (wch w, wpr w) = (e, pc, ch, pr)"
    by (cases "tstep X (wpc w ! t) (wch w, wpr w)") auto
  let ?w = "run_thread X t w" and ?pc = "wpc w ! t"
  have f: "wch ?w = ch" "wpc ?w = (wpc w)[t := pc]" "wpr ?w = pr" "missed ?w = missed w + misses e"
    by (simp_all add: run_thread_def s)
  note old = sinvD[OF assms(2)]
  have mine: "?pc \<in> set (wpc w)" using assms(3) by simp
  note c = tstep_closed[OF s] and k = tstep_seeks[OF assms(1) s old(1)] and p = tstep_parks[OF s]
  have g: "grows (wpr w) pr" by (rule grows_tstep[OF s])
  have upd: "x \<in> set (wpc w) \<or> x = pc" if "x \<in> set ((wpc w)[t := pc])" for x
    using that set_update_subset_insert[of "wpc w" t pc] by blast
  have 1: "x_cap X (tx ch) = capacity ch" using tstep_cap[OF assms(1) s] old(1) c by simp
  have 2: "closed ch" if "x \<in> set ((wpc w)[t := pc])" "past_close x" for x
    using upd[OF that(1)] that(2) old(3)[of x] old(3)[OF mine] c by blast
  have 3: "send_ids ch = [] \<or> credits ch = 0" using k old(4) by argo
  have 4: "known_ids ?w"
  proof -
    have n: "i < pr_next pr" if "i < pr_next (wpr w)" for i using g that by (simp add: grows_def)
    have "i < pr_next pr" if "i \<in> set (send_ids ch)" for i
      using that old(5) mine p n unfolding known_ids_def by blast
    moreover have "i < pr_next pr" if "x \<in> set ((wpc w)[t := pc])" "i \<in> pids x" for x i
      using upd[OF that(1)] that(2) old(5) p n unfolding known_ids_def by blast
    ultimately show ?thesis unfolding known_ids_def f by blast
  qed
  have 5: "handled ?w" unfolding handled_def f
  proof (intro allI impI)
    fix i assume i: "i \<in> set (send_ids ch) \<or> (\<exists>again r. W_wake i again r \<in> set ((wpc w)[t := pc]))"
      and live: "i \<in> pr_senders pr" "i \<notin> pr_gone pr"
    show "\<exists>p b. F_wait_send i p b \<in> set ((wpc w)[t := pc])"
    proof (cases "\<exists>p b. pc = F_wait_send i p b")
      case True
      then show ?thesis using set_update_memI[OF assms(3)] by metis
    next
      case False
      then have i': "i \<in> set (send_ids (wch w)) \<or> (\<exists>again r. W_wake i again r \<in> set (wpc w))" using i p upd by metis
      then have "i < pr_next (wpr w)" using old(5) unfolding known_ids_def by (metis pids.simps(2) singletonI)
      then have live': "i \<in> pr_senders (wpr w)" "i \<notin> pr_gone (wpr w)" using g live unfolding grows_def by auto
      then obtain q b where q: "F_wait_send i q b \<in> set (wpc w)" using old(6) i' unfolding handled_def by blast
      have "i \<notin> settled (pr_log (wpr w))" using old(2) live'(1) by (simp add: fresh_pr_def)
      then have "?pc \<noteq> F_wait_send i q b" using False p by metis
      then show ?thesis using kept_by_update[OF assms(3) q] by metis
    qed
  qed
  have 6: "room X ch \<le> credits ch + owed ?w + missed ?w" if o: "\<not> closed ch" "waiting_send ?w"
  proof (cases "waiting_send w")
    case True
    have open': "\<not> closed (wch w)" "\<not> past_close ?pc" using o(1) c old(3)[OF mine] by blast+
    have "room X (wch w) \<le> credits (wch w) + tok (wpr w) ?pc + (elsewhere (tok (wpr w)) t (wpc w) + missed w)"
      using old(7)[OF open'(1) True] by (simp add: owed_def sum_threads[OF assms(3)])
    from tstep_room[OF assms(1) s open' old(1,2) this o(1)] elsewhere_wakes[OF assms(2,3) s]
    show ?thesis unfolding owed_def f sum_threads_update[OF assms(3)] by linarith
  next
    case False
    then have "\<not> seeking ?pc" "send_ids (wch w) = []" using mine by (auto simp: waiting_send_def)
    then have "seeking pc" using o(2) False k upd unfolding waiting_send_def f by blast
    then show ?thesis using k \<open>\<not> seeking ?pc\<close> by simp
  qed
  show ?thesis
  proof (rule sinvI)
    show "closed (wch ?w)" if "x \<in> set (wpc ?w)" "past_close x" for x using 2[of x] that by (simp add: f)
    show "room X (wch ?w) \<le> credits (wch ?w) + owed ?w + missed ?w" if "\<not> closed (wch ?w)" "waiting_send ?w"
      using 6 that by (simp add: f(1))
  qed (use 1 3 4 5 fresh_tstep[OF s old(2)] in \<open>simp_all only: f\<close>)
qed

text \<open>Steps other than a thread's own: the channel's fields that matter here stay, promises only grow, and no
  parked sender that can still be woken goes away.\<close>

fun quiet :: "tpc \<Rightarrow> bool" where
  "quiet (F_full p b) = False"
| "quiet (P_send i p b) = False"
| "quiet (W_wake i again r) = False"
| "quiet pc = (\<not> past_close pc)"

lemma quiet_marks: "quiet pc \<Longrightarrow> \<not> seeking pc \<and> \<not> past_close pc \<and> pids pc = {} \<and> (\<forall>i again r. pc \<noteq> W_wake i again r)"
  by (cases pc) auto

lemma sinv_env:
  assumes "sinv X w"
    "tx (wch w') = tx (wch w)" "capacity (wch w') = capacity (wch w)" "closed (wch w') = closed (wch w)"
    "send_ids (wch w') = send_ids (wch w)" "credits (wch w') = credits (wch w)" "recv_front (wch w') = recv_front (wch w)"
    "grows (wpr w) (wpr w')" "fresh_pr (wpr w')"
    "\<And>x. x \<in> set (wpc w') \<Longrightarrow> x \<in> set (wpc w) \<or> quiet x"
    "\<And>i p b. F_wait_send i p b \<in> set (wpc w) \<Longrightarrow>
       F_wait_send i p b \<in> set (wpc w') \<or> i \<notin> pr_senders (wpr w') \<or> i \<in> pr_gone (wpr w')"
    "owed w + missed w \<le> owed w' + missed w'"
  shows "sinv X w'"
proof (rule sinvI)
  note old = sinvD[OF assms(1)]
  note q = quiet_marks
  show "x_cap X (tx (wch w')) = capacity (wch w')" using old(1) assms(2,3) by simp
  show "fresh_pr (wpr w')" by (rule assms(9))
  show "closed (wch w')" if "pc \<in> set (wpc w')" "past_close pc" for pc
    using assms(10)[OF that(1)] q[of pc] that(2) old(3)[of pc] assms(4) by blast
  show "send_ids (wch w') = [] \<or> credits (wch w') = 0" using old(4) assms(5,6) by simp
  have n: "pr_next (wpr w) \<le> pr_next (wpr w')" using assms(8) by (simp add: grows_def)
  show "known_ids w'"
    using old(5) n assms(10) q unfolding known_ids_def assms(5) by (metis empty_iff order_less_le_trans)
  show "handled w'" unfolding handled_def assms(5)
  proof (intro allI impI)
    fix i assume i: "i \<in> set (send_ids (wch w)) \<or> (\<exists>again r. W_wake i again r \<in> set (wpc w'))"
      and live: "i \<in> pr_senders (wpr w')" "i \<notin> pr_gone (wpr w')"
    have i': "i \<in> set (send_ids (wch w)) \<or> (\<exists>again r. W_wake i again r \<in> set (wpc w))" using i assms(10) q by metis
    then have "i < pr_next (wpr w)" using old(5) unfolding known_ids_def by (metis pids.simps(2) singletonI)
    then have "i \<in> pr_senders (wpr w)" "i \<notin> pr_gone (wpr w)" using assms(8) live unfolding grows_def by auto
    then show "\<exists>p b. F_wait_send i p b \<in> set (wpc w')"
      using old(6) i' assms(11) live unfolding handled_def by metis
  qed
  show "room X (wch w') \<le> credits (wch w') + owed w' + missed w'" if "\<not> closed (wch w')" "waiting_send w'"
  proof -
    have "waiting_send w" using that(2) assms(10) q unfolding waiting_send_def assms(5) by blast
    then have "room X (wch w) \<le> credits (wch w) + owed w + missed w" using that(1) old(7) assms(4) by simp
    then show ?thesis using assms(12) unfolding room_def assms(2,3,6,7) by linarith
  qed
qed

lemma sinv_one_thread:
  assumes "sinv X w" "t < length (wpc w)" "wpc w' = (wpc w)[t := pc]" "quiet pc"
    "tx (wch w') = tx (wch w)" "capacity (wch w') = capacity (wch w)" "closed (wch w') = closed (wch w)"
    "send_ids (wch w') = send_ids (wch w)" "credits (wch w') = credits (wch w)" "recv_front (wch w') = recv_front (wch w)"
    "grows (wpr w) (wpr w')" "fresh_pr (wpr w')"
    "\<And>i p b. wpc w ! t = F_wait_send i p b \<Longrightarrow> i \<notin> pr_senders (wpr w') \<or> i \<in> pr_gone (wpr w')"
    "tok (wpr w) (wpc w ! t) + missed w \<le> tok (wpr w') pc + missed w'"
  shows "sinv X w'"
proof (rule sinv_env[OF assms(1,5-12)])
  fix x assume "x \<in> set (wpc w')"
  then show "x \<in> set (wpc w) \<or> quiet x"
    using set_update_subset_insert[of "wpc w" t pc] assms(3,4) by auto
next
  fix i p b assume "F_wait_send i p b \<in> set (wpc w)"
  then show "F_wait_send i p b \<in> set (wpc w') \<or> i \<notin> pr_senders (wpr w') \<or> i \<in> pr_gone (wpr w')"
    using kept_by_update[OF assms(2), of _ pc] assms(3,13) by metis
next
  have "elsewhere (tok (wpr w)) t (wpc w) \<le> elsewhere (tok (wpr w')) t (wpc w)"
    by (rule elsewhere_mono[OF tok_mono[OF assms(11)]])
  then show "owed w + missed w \<le> owed w' + missed w'"
    using assms(14) unfolding owed_def assms(3) sum_threads[OF assms(2)] sum_threads_update[OF assms(2)] by linarith
qed

lemma entry_point_quiet: "entry_point pc \<Longrightarrow> quiet pc"
  by (cases pc) auto

lemma tear_down_promises [simp]:
  "fresh_pr (pr\<lparr>pr_gone := G\<rparr>) = fresh_pr pr" "outcome_of i (pr\<lparr>pr_gone := G\<rparr>) = outcome_of i pr"
  by (simp_all add: fresh_pr_def outcome_of_def)

lemma tok_awaits: "awaits pc = Some i \<Longrightarrow> tok pr pc = (if owes_retry pc pr then 1 else 0)"
  by (cases pc) auto

lemma deadline_tok: "deadline_passed pc (ch, pr) = Some r \<Longrightarrow> tok pr pc = 0"
  by (cases pc) (auto split: if_splits)

lemma deadline_settled:
  "deadline_passed (F_wait_send i p b) (ch, pr) = Some r \<Longrightarrow> fresh_pr pr \<Longrightarrow> i \<notin> pr_senders pr"
  using unsettled[of pr i] by (auto split: if_splits)

lemma sinv_step:
  assumes "x_laws X" "cstep X w w'" "sinv X w"
  shows "sinv X w'"
  using assms(2)
proof (cases rule: cstep.cases)
  case (call t r pc)
  show ?thesis
    by (rule sinv_one_thread[OF assms(3) call(2), of _ pc])
       (use call entry_point_quiet[OF call(4)] sinvD(2)[OF assms(3)] in auto)
next
  case (run t)
  then show ?thesis using sinv_run[OF assms(1,3)] by simp
next
  case (expire t pc ch pr)
  note d = deadline_passed_inv[OF expire(3)]
  have "i \<notin> pr_senders (wpr w)" if "wpc w ! t = F_wait_send i p b" for i p b
    using expire(3) unfolding that by (rule deadline_settled) (rule sinvD(2)[OF assms(3)])
  then show ?thesis
    by (rule_tac sinv_one_thread[OF assms(3) expire(2), of _ pc])
       (use expire(1) d sinvD(2)[OF assms(3)] deadline_tok[OF expire(3)] in auto)
next
  case (cancelled i)
  have "grows (wpr w) (wpr w')" "fresh_pr (wpr w')"
    using cancelled sinvD(2)[OF assms(3)] by (simp_all add: cancel_def)
  then show ?thesis
    by (rule_tac sinv_env[OF assms(3)]) (use cancelled in \<open>auto simp: owed_def intro!: sum_list_mono tok_mono\<close>)
next
  case (torn t i)
  show ?thesis
    by (rule sinv_one_thread[OF assms(3) torn(2), of _ "Return Unwound"])
       (use torn tok_awaits[OF torn(3)] sinvD(2)[OF assms(3)] in \<open>auto simp: tear_down_def grows_def\<close>)
qed

lemma sinv_init: "x_laws X \<Longrightarrow> sinv X (cworld_init X cap n)"
  by (rule sinvI)
     (auto simp: cworld_init_def ChannelInner_new_def Let_def x_new promises_new_def fresh_pr_def known_ids_def
        handled_def waiting_send_def)

lemma sinv_reached:
  assumes "x_laws X" "creached X cap n w"
  shows "sinv X w"
  using assms(2) by induction (auto intro: sinv_init sinv_step assms(1))


section \<open>What a parked receiver is owed\<close>

text \<open>A thread on its way to look at the parked receivers again: one that will find what is in the front
  stash, and one that will at least find what is in the buffer.\<close>

fun will_drain :: "tpc \<Rightarrow> bool" where
  "will_drain S_count = True"
| "will_drain (D_peek r) = True"
| "will_drain (D_stash r) = True"
| "will_drain (D_drop p r) = True"
| "will_drain (D_offer p r) = True"
| "will_drain (D_hand p i r) = True"
| "will_drain (D_index p r) = True"
| "will_drain (D_back p r) = True"
| "will_drain (D_bump r) = True"
| "will_drain (W_pop again r) = again"
| "will_drain (W_wake i again r) = again"
| "will_drain _ = False"

fun will_take :: "tpc \<Rightarrow> bool" where
  "will_take (D_buffer r) = True"
| "will_take pc = will_drain pc"

text \<open>The closing thread, up to its sweep of the parked senders.\<close>

fun will_sweep :: "tpc \<Rightarrow> bool" where
  "will_sweep C_recv = True"
| "will_sweep (C_cancel is) = True"
| "will_sweep C_send = True"
| "will_sweep _ = False"

definition dinv :: "('c, payload) xchan \<Rightarrow> 'c cworld \<Rightarrow> bool" where
  "dinv X w \<longleftrightarrow>
     (recv_waiters (wch w) \<noteq> [] \<longrightarrow> recv_front (wch w) \<noteq> [] \<longrightarrow> (\<exists>pc \<in> set (wpc w). will_drain pc)) \<and>
     (recv_waiters (wch w) \<noteq> [] \<longrightarrow> x_items X (tx (wch w)) \<noteq> [] \<longrightarrow> (\<exists>pc \<in> set (wpc w). will_take pc)) \<and>
     (closed (wch w) \<longrightarrow> send_ids (wch w) \<noteq> [] \<longrightarrow> (\<exists>pc \<in> set (wpc w). will_sweep pc))"

lemma woke_drains [simp]: "will_drain (woke True r)" "will_take (woke True r)"
  by (simp_all add: woke_def)

lemma will_drain_take: "will_drain pc \<Longrightarrow> will_take pc"
  by (cases pc) auto

text \<open>A step keeps the duty of its thread, or there is nothing left to do, or the thread was not needed.\<close>

lemma tstep_drains:
  assumes "x_laws X" "tstep X pc (ch, pr) = (e, pc', ch', pr')"
  shows "recv_waiters ch' = [] \<or> recv_front ch' = [] \<or> will_drain pc' \<or>
     recv_waiters ch \<noteq> [] \<and> recv_front ch \<noteq> [] \<and> \<not> will_drain pc"
  using assms(2)
  by (cases pc)
     (auto simp: tstep_def dest: x_empty[OF assms(1)]
           split: list.splits sum.splits x_error.splits option.splits prod.splits if_splits PromisePayload.splits)

lemma tstep_takes:
  assumes "x_laws X" "tstep X pc (ch, pr) = (e, pc', ch', pr')"
  shows "recv_waiters ch' = [] \<or> x_items X (tx ch') = [] \<or> will_take pc' \<or>
     recv_waiters ch \<noteq> [] \<and> x_items X (tx ch) \<noteq> [] \<and> \<not> will_take pc"
  using assms(2)
  by (cases pc)
     (auto simp: tstep_def dest: x_empty[OF assms(1)] x_taken[OF assms(1)] x_sent[OF assms(1)]
           split: list.splits sum.splits x_error.splits option.splits prod.splits if_splits PromisePayload.splits)

lemma tstep_sweeps:
  assumes "tstep X pc (ch, pr) = (e, pc', ch', pr')"
  shows "\<not> closed ch' \<or> send_ids ch' = [] \<or> will_sweep pc' \<or>
     closed ch \<and> send_ids ch \<noteq> [] \<and> \<not> will_sweep pc"
  using assms
  by (cases pc)
     (auto simp: tstep_def
           split: list.splits sum.splits x_error.splits option.splits prod.splits if_splits PromisePayload.splits)

lemma duty_kept:
  assumes "t < length xs" "\<exists>x \<in> set xs. P x" "\<not> P (xs ! t)"
  shows "\<exists>x \<in> set (xs[t := y]). P x"
  using assms kept_by_update[OF assms(1), of _ y] by metis

lemma duty_taken: "t < length xs \<Longrightarrow> P y \<Longrightarrow> \<exists>x \<in> set (xs[t := y]). P x"
  by (meson set_update_memI)

lemma dinv_run:
  assumes "x_laws X" "dinv X w" "t < length (wpc w)"
  shows "dinv X (run_thread X t w)"
proof -
  obtain e pc ch pr where s: "tstep X (wpc w ! t) (wch w, wpr w) = (e, pc, ch, pr)"
    by (cases "tstep X (wpc w ! t) (wch w, wpr w)") auto
  have f: "wch (run_thread X t w) = ch" "wpc (run_thread X t w) = (wpc w)[t := pc]"
    by (simp_all add: run_thread_def s)
  note k = duty_kept[OF assms(3), of _ pc] and n = duty_taken[OF assms(3), of _ pc]
  show ?thesis unfolding dinv_def f
    using assms(2)[unfolded dinv_def] tstep_drains[OF assms(1) s] tstep_takes[OF assms(1) s] tstep_sweeps[OF s]
      k[of will_drain] n[of will_drain] k[of will_take] n[of will_take] k[of will_sweep] n[of will_sweep]
    by argo
qed

lemma dinv_env:
  assumes "dinv X w" "recv_waiters (wch w') = recv_waiters (wch w)" "recv_front (wch w') = recv_front (wch w)"
    "tx (wch w') = tx (wch w)" "closed (wch w') = closed (wch w)" "send_ids (wch w') = send_ids (wch w)"
    "\<And>x. x \<in> set (wpc w) \<Longrightarrow> will_take x \<or> will_sweep x \<Longrightarrow> x \<in> set (wpc w')"
  shows "dinv X w'"
  using assms(1,7) will_drain_take unfolding dinv_def assms(2-6) by meson

lemma idle_no_duty:
  "\<not> will_take (Return r) \<and> \<not> will_sweep (Return r)"
  "awaits pc = Some i \<Longrightarrow> \<not> will_take pc \<and> \<not> will_sweep pc"
  "deadline_passed pc s = Some r' \<Longrightarrow> \<not> will_take pc \<and> \<not> will_sweep pc"
  by (simp, (cases pc; simp), (cases pc; simp))

lemma dinv_one_thread:
  assumes "dinv X w" "t < length (wpc w)" "wpc w' = (wpc w)[t := pc]" "\<not> will_take (wpc w ! t) \<and> \<not> will_sweep (wpc w ! t)"
    "recv_waiters (wch w') = recv_waiters (wch w)" "recv_front (wch w') = recv_front (wch w)"
    "tx (wch w') = tx (wch w)" "closed (wch w') = closed (wch w)" "send_ids (wch w') = send_ids (wch w)"
  shows "dinv X w'"
  using assms(3,4) kept_by_update[OF assms(2), of _ pc]
  by (intro dinv_env[OF assms(1,5-9)]) metis

lemma dinv_step:
  assumes "x_laws X" "cstep X w w'" "dinv X w"
  shows "dinv X w'"
  using assms(2)
proof (cases rule: cstep.cases)
  case (call t r pc)
  then show ?thesis using idle_no_duty(1)[of r]
    by (intro dinv_one_thread[OF assms(3) call(2), of _ pc]) simp_all
next
  case (run t)
  then show ?thesis using dinv_run[OF assms(1,3)] by simp
next
  case (expire t pc ch pr)
  then show ?thesis using deadline_passed_inv[OF expire(3)] idle_no_duty(3)[OF expire(3)]
    by (intro dinv_one_thread[OF assms(3) expire(2), of _ pc]) simp_all
next
  case (cancelled i)
  then show ?thesis using assms(3) by (simp add: dinv_def)
next
  case (torn t i)
  then show ?thesis using idle_no_duty(2)[OF torn(3)]
    by (intro dinv_one_thread[OF assms(3) torn(2), of _ "Return Unwound"]) (simp_all add: tear_down_def)
qed

lemma dinv_init: "dinv X (cworld_init X cap n)"
  by (simp add: dinv_def cworld_init_def ChannelInner_new_def Let_def)

lemma dinv_reached:
  assumes "x_laws X" "creached X cap n w"
  shows "dinv X w"
  using assms(2) by induction (auto intro: dinv_init dinv_step assms(1))


text \<open>A thread that has come back to look, with a live receiver first in line, hands it the oldest item within
  six of its own steps.\<close>

lemma drain_delivers:
  assumes "x_laws X" "t < length (wpc w)" "wpc w ! t = D_peek r" "recv_waiters (wch w) = i # is"
    "i \<in> pr_senders (wpr w)" "i \<notin> pr_gone (wpr w)" "fresh_pr (wpr w)"
    "recv_front (wch w) @ x_items X (tx (wch w)) = p # ps"
  shows "\<exists>k \<le> 6. outcome_of i (wpr ((run_thread X t ^^ k) w)) = Some (Value (p_bytes p) (p_keep p))"
proof (cases "recv_front (wch w)")
  case (Cons q qs)
  then have "outcome_of i (wpr ((run_thread X t ^^ 5) w)) = Some (Value (p_bytes p) (p_keep p))"
    using assms(2-6,8) unsettled[OF assms(7,5)]
    by (simp add: numeral_eq_Suc run_thread_def tstep_def resolve_value_def Let_def outcome_of_def map_add_def)
  then show ?thesis by (intro exI[of _ 5]) simp
next
  case Nil
  then obtain c where "x_try_recv X (tx (wch w)) = Some (p, c)"
    using assms(1,8) unfolding x_laws_def by (metis append_Nil)
  then have "outcome_of i (wpr ((run_thread X t ^^ 6) w)) = Some (Value (p_bytes p) (p_keep p))"
    using Nil assms(2-6) unsettled[OF assms(7,5)]
    by (simp add: numeral_eq_Suc run_thread_def tstep_def resolve_value_def Let_def outcome_of_def map_add_def)
  then show ?thesis by (intro exI[of _ 6]) simp
qed

section \<open>A concrete channel\<close>

definition list_chan :: "(nat \<times> 'm list, 'm) xchan" where
  "list_chan =
     \<lparr>x_bounded = \<lambda>n. (n, []),
      x_try_send = \<lambda>(n, ms) m. if length ms < n then Inr (n, ms @ [m]) else Inl XFull,
      x_try_recv = \<lambda>(n, ms). case ms of [] \<Rightarrow> None | m # ms' \<Rightarrow> Some (m, (n, ms')),
      x_len = \<lambda>(n, ms). length ms, x_items = snd, x_cap = fst\<rparr>"

lemma list_chan_laws: "x_laws list_chan"
  by (auto simp: x_laws_def list_chan_def)

datatype act = Call nat tpc | Run nat | Cancel int | Tear nat int

fun perform :: "('c, payload) xchan \<Rightarrow> act list \<Rightarrow> 'c cworld \<Rightarrow> 'c cworld option" where
  "perform X [] w = Some w"
| "perform X (Call t pc # as) w =
     (if t < length (wpc w) \<and> entry_point pc
      then (case wpc w ! t of Return _ \<Rightarrow> perform X as (w\<lparr>wpc := (wpc w)[t := pc]\<rparr>) | _ \<Rightarrow> None)
      else None)"
| "perform X (Run t # as) w = (if t < length (wpc w) then perform X as (run_thread X t w) else None)"
| "perform X (Cancel i # as) w = perform X as (w\<lparr>wpr := snd (cancel i (wpr w))\<rparr>)"
| "perform X (Tear t i # as) w =
     (if t < length (wpc w) \<and> awaits (wpc w ! t) = Some i then perform X as (tear_down t i w) else None)"

lemma perform_reached: "perform X as w = Some w' \<Longrightarrow> creached X cap n w \<Longrightarrow> creached X cap n w'"
  by (induction X as w rule: perform.induct)
     (auto split: if_splits tpc.splits intro: creached.step cstep.intros)

definition demo :: "act list \<Rightarrow> (nat \<times> payload list) cworld" where
  "demo as = the (perform list_chan as (cworld_init list_chan 1 2))"

lemma demo_reached: "perform list_chan as (cworld_init list_chan 1 2) \<noteq> None \<Longrightarrow> creached list_chan 1 2 (demo as)"
  using perform_reached[OF _ creached.start] by (auto simp: demo_def)

text \<open>One thread fills the channel and returns; a fiber on the other finds it full and parks.\<close>

definition fill_and_park :: "act list" where
  "fill_and_park =
     [Call 0 (S_check (bytes_only ''a'') Once)] @ replicate 6 (Run 0) @
     [Call 1 (S_check (bytes_only ''b'') (InFiber False))] @ replicate 6 (Run 1)"

lemma fill_and_park_runs: "perform list_chan fill_and_park (cworld_init list_chan 1 2) \<noteq> None"
  by code_simp

lemma fill_and_park_ends:
  "\<not> closed (wch (demo fill_and_park)) \<and> send_ids (wch (demo fill_and_park)) \<noteq> [] \<and>
   map awaits (wpc (demo fill_and_park)) = [None, Some (- (2 ^ 63) + 1)] \<and> owed (demo fill_and_park) = 0"
  by code_simp

text \<open>A fiber parks as a receiver while the channel is open and empty; a sender then deposits between its
  check for receivers and its own.\<close>

definition park_and_fill :: "act list" where
  "park_and_fill =
     [Call 1 (S_check (bytes_only ''a'') Once)] @ replicate 2 (Run 1) @
     [Call 0 (R_stash (InFiber False))] @ replicate 6 (Run 0) @ replicate 2 (Run 1)"

lemma park_and_fill_runs: "perform list_chan park_and_fill (cworld_init list_chan 1 2) \<noteq> None"
  by code_simp

lemma park_and_fill_ends:
  "recv_waiters (wch (demo park_and_fill)) \<noteq> [] \<and> 0 < occupancy list_chan (wch (demo park_and_fill))"
  by code_simp

section \<open>The properties\<close>



text \<open>C26. No item is kept from a parked receiver.  In every reachable state in which fibers are parked as
  receivers and the channel holds an item, some thread is on its way back to the list of parked
  receivers with that item still to be taken.\<close>

theorem no_receiver_stranded:
  assumes "x_laws X" "creached X cap n w" "recv_waiters (wch w) \<noteq> []" "0 < occupancy X (wch w)"
  shows "\<exists>pc \<in> set (wpc w). will_take pc"
proof -
  have "recv_front (wch w) \<noteq> [] \<or> x_items X (tx (wch w)) \<noteq> []"
    using assms(4) by (auto simp: occupancy_def x_length[OF assms(1)])
  then show ?thesis using dinv_reached[OF assms(1,2)] assms(3) will_drain_take unfolding dinv_def by blast
qed

theorem no_receiver_stranded_witness: "\<exists>pc \<in> set (wpc (demo park_and_fill)). will_take pc"
  by (rule no_receiver_stranded[OF list_chan_laws demo_reached[OF park_and_fill_runs]])
     (use park_and_fill_ends in simp_all)



text \<open>\<^verbatim>\<open>register_recv_waiter\<close> looks at the closed flag before it takes the waiter lock and never again.  A
  receiver that parks while \<^verbatim>\<open>close\<close> runs is left on the list of a closed, empty channel whose one
  sweep is over: no thread is working on it, and its promise is still waiting.\<close>

definition park_across_close :: "act list" where
  "park_across_close =
     [Call 0 (R_stash (InFiber False))] @ replicate 5 (Run 0) @ [Call 1 C_close] @ replicate 5 (Run 1) @
     replicate 4 (Run 0)"

lemma close_strands_a_receiver:
  "\<exists>w i. creached list_chan 1 2 w \<and> closed (wch w) \<and> occupancy list_chan (wch w) = 0 \<and> recv_waiters (wch w) = [i] \<and>
     wpc w = [F_wait_recv i, Return (CloseDone True)] \<and> i \<in> pr_senders (wpr w)"
proof -
  have r: "perform list_chan park_across_close (cworld_init list_chan 1 2) \<noteq> None" by code_simp
  have "closed (wch (demo park_across_close)) \<and> occupancy list_chan (wch (demo park_across_close)) = 0 \<and>
      recv_waiters (wch (demo park_across_close)) = [- (2 ^ 63) + 1] \<and>
      wpc (demo park_across_close) = [F_wait_recv (- (2 ^ 63) + 1), Return (CloseDone True)] \<and>
      - (2 ^ 63) + 1 \<in> pr_senders (wpr (demo park_across_close))"
    by code_simp
  then show ?thesis using demo_reached[OF r] by blast
qed

end
