(* ===== verification/Ip_Addr.thy ===== *)
theory Ip_Addr
  imports Ox_Words
begin

text \<open>
  Internet addresses as the code reads them from text: the parser of Rust's
  \<^verbatim>\<open>std::net::IpAddr\<close>, with its pieces in the order the library has them.  An IPv4
  address is its four octets, an IPv6 address its eight groups.
\<close>

datatype IpAddr = V4 "nat list" | V6 "nat list"

fun ip_ok :: "IpAddr \<Rightarrow> bool" where
  "ip_ok (V4 os) = (length os = 4 \<and> (\<forall>x \<in> set os. x < 256))"
| "ip_ok (V6 gs) = (length gs = 8 \<and> (\<forall>x \<in> set gs. x < 65536))"

section \<open>Reading text\<close>

text \<open>A reader takes a value off the front of the text, or fails and leaves the text alone.\<close>

definition to_digit :: "nat \<Rightarrow> char \<Rightarrow> nat option" where
  "to_digit radix c =
     (let n = of_char c :: nat;
          d = (if 48 \<le> n \<and> n \<le> 57 then n - 48
               else if 97 \<le> n \<and> n \<le> 122 then n - 87
               else if 65 \<le> n \<and> n \<le> 90 then n - 55 else radix)
      in if d < radix then Some d else None)"

fun number_loop :: "nat \<Rightarrow> nat \<Rightarrow> nat \<Rightarrow> nat \<Rightarrow> nat \<Rightarrow> string \<Rightarrow> (nat \<times> nat \<times> string) option" where
  "number_loop radix lim digits r k [] = Some (r, k, [])"
| "number_loop radix lim digits r k (c # s) =
     (case to_digit radix c of
        None \<Rightarrow> Some (r, k, c # s)
      | Some d \<Rightarrow>
          if r * radix + d > lim \<or> Suc k > digits then None
          else number_loop radix lim digits (r * radix + d) (Suc k) s)"

definition read_number :: "nat \<Rightarrow> nat \<Rightarrow> nat \<Rightarrow> bool \<Rightarrow> string \<Rightarrow> (nat \<times> string) option" where
  "read_number radix lim digits allow_zero_prefix s =
     (case number_loop radix lim digits 0 0 s of
        None \<Rightarrow> None
      | Some (r, k, rest) \<Rightarrow>
          if k = 0 then None
          else if \<not> allow_zero_prefix \<and> hd s = CHR ''0'' \<and> k > 1 then None
          else Some (r, rest))"

definition read_separator :: "char \<Rightarrow> nat \<Rightarrow> (string \<Rightarrow> 'a option) \<Rightarrow> string \<Rightarrow> 'a option" where
  "read_separator sep i inner s =
     (if i > 0 then (case s of [] \<Rightarrow> None | c # cs \<Rightarrow> if c = sep then inner cs else None) else inner s)"

fun read_octets :: "nat \<Rightarrow> nat \<Rightarrow> string \<Rightarrow> (nat list \<times> string) option" where
  "read_octets i 0 s = Some ([], s)"
| "read_octets i (Suc n) s =
     (case read_separator (CHR ''.'') i (read_number 10 255 3 False) s of
        None \<Rightarrow> None
      | Some (x, s1) \<Rightarrow> (case read_octets (Suc i) n s1 of None \<Rightarrow> None | Some (xs, s2) \<Rightarrow> Some (x # xs, s2)))"

definition read_ipv4_addr :: "string \<Rightarrow> (nat list \<times> string) option" where
  "read_ipv4_addr s = read_octets 0 4 s"

text \<open>\<open>n\<close> groups are still wanted, of which the first has index \<open>i\<close>; an IPv4 address may stand for the
  last two.\<close>

fun read_groups :: "nat \<Rightarrow> nat \<Rightarrow> string \<Rightarrow> nat list \<times> bool \<times> string" where
  "read_groups i 0 s = ([], False, s)"
| "read_groups i (Suc n) s =
     (case (if n \<ge> 1 then read_separator (CHR '':'') i read_ipv4_addr s else None) of
        Some (os, s1) \<Rightarrow> ([os ! 0 * 256 + os ! 1, os ! 2 * 256 + os ! 3], True, s1)
      | None \<Rightarrow>
          (case read_separator (CHR '':'') i (read_number 16 65535 4 True) s of
             None \<Rightarrow> ([], False, s)
           | Some (g, s1) \<Rightarrow> (case read_groups (Suc i) n s1 of (gs, v4, s2) \<Rightarrow> (g # gs, v4, s2))))"

definition read_ipv6_addr :: "string \<Rightarrow> (nat list \<times> string) option" where
  "read_ipv6_addr s =
     (case read_groups 0 8 s of
        (head, v4, s1) \<Rightarrow>
          if length head = 8 then Some (head, s1)
          else if v4 then None
          else (case strip_prefix s1 ''::'' of
                  None \<Rightarrow> None
                | Some s2 \<Rightarrow>
                    (case read_groups 0 (7 - length head) s2 of
                       (tail, _, s3) \<Rightarrow> Some (head @ replicate (8 - length head - length tail) 0 @ tail, s3))))"

definition parse_ip :: "string \<Rightarrow> IpAddr option" where
  "parse_ip s =
     (case read_ipv4_addr s of
        Some (os, rest) \<Rightarrow> if rest = [] then Some (V4 os) else None
      | None \<Rightarrow>
          (case read_ipv6_addr s of
             Some (gs, rest) \<Rightarrow> if rest = [] then Some (V6 gs) else None
           | None \<Rightarrow> None))"

section \<open>Questions about an address\<close>

fun is_loopback :: "IpAddr \<Rightarrow> bool" where
  "is_loopback (V4 os) = (os ! 0 = 127)"
| "is_loopback (V6 gs) = (gs = [0, 0, 0, 0, 0, 0, 0, 1])"

fun is_unspecified :: "IpAddr \<Rightarrow> bool" where
  "is_unspecified (V4 os) = (os = [0, 0, 0, 0])"
| "is_unspecified (V6 gs) = (gs = [0, 0, 0, 0, 0, 0, 0, 0])"

text \<open>An IPv4-mapped IPv6 address as the IPv4 address it stands for.\<close>

fun to_canonical :: "IpAddr \<Rightarrow> IpAddr" where
  "to_canonical (V4 os) = V4 os"
| "to_canonical (V6 gs) =
     (if take 6 gs = [0, 0, 0, 0, 0, 0xFFFF]
      then V4 [gs ! 6 div 256, gs ! 6 mod 256, gs ! 7 div 256, gs ! 7 mod 256] else V6 gs)"

section \<open>What is read is an address\<close>

lemma number_loop_le: "number_loop radix lim digits r k s = Some (r', k', rest) \<Longrightarrow> r \<le> lim \<Longrightarrow> r' \<le> lim"
  by (induction radix lim digits r k s rule: number_loop.induct) (auto split: option.splits if_splits)

lemma read_number_le: "read_number radix lim digits z s = Some (n, rest) \<Longrightarrow> n \<le> lim"
  by (auto simp: read_number_def dest: number_loop_le split: option.splits if_splits)

lemma read_separator_Some:
  "read_separator sep i inner s = Some x \<Longrightarrow> \<exists>s'. inner s' = Some x"
  by (auto simp: read_separator_def split: if_splits list.splits)

lemma read_octets_ok:
  "read_octets i n s = Some (xs, rest) \<Longrightarrow> length xs = n \<and> (\<forall>x \<in> set xs. x < 256)"
proof (induction n arbitrary: i s xs rest)
  case (Suc n)
  then obtain x s1 ys where x: "read_separator (CHR ''.'') i (read_number 10 255 3 False) s = Some (x, s1)"
    and ys: "read_octets (Suc i) n s1 = Some (ys, rest)" "xs = x # ys"
    by (auto split: option.splits prod.splits)
  have "x \<le> 255" using read_separator_Some[OF x] read_number_le by blast
  then show ?case using Suc.IH[OF ys(1)] ys(2) by simp
qed simp

lemma read_groups_ok:
  "read_groups i n s = (gs, v4, rest) \<Longrightarrow> length gs \<le> n \<and> (\<forall>g \<in> set gs. g < 65536)"
proof (induction n arbitrary: i s gs v4 rest)
  case (Suc n)
  consider (embedded) os s1 where "n \<ge> 1" "read_separator (CHR '':'') i read_ipv4_addr s = Some (os, s1)"
      "gs = [os ! 0 * 256 + os ! 1, os ! 2 * 256 + os ! 3]"
    | (none) "gs = []"
    | (group) g s1 gs' v s2 where "read_separator (CHR '':'') i (read_number 16 65535 4 True) s = Some (g, s1)"
      "read_groups (Suc i) n s1 = (gs', v, s2)" "gs = g # gs'"
    using Suc.prems by (auto split: option.splits if_splits prod.splits)
  then show ?case
  proof cases
    case embedded
    then have "length os = 4" "\<forall>x \<in> set os. x < 256"
      using read_separator_Some[OF embedded(2)] read_octets_ok unfolding read_ipv4_addr_def by blast+
    then have "os ! k < 256" if "k < 4" for k using that by simp
    from this[of 0] this[of 1] this[of 2] this[of 3] show ?thesis using embedded by simp
  next
    case group
    then have "g \<le> 65535" using read_separator_Some[OF group(1)] read_number_le by blast
    then show ?thesis using group(3) Suc.IH[OF group(2)] by simp
  qed simp
qed simp

lemma parse_ip_ok:
  assumes "parse_ip s = Some ip"
  shows "ip_ok ip"
proof (cases "read_ipv4_addr s")
  case (Some r)
  then show ?thesis using assms read_octets_ok[of 0 4 s] by (auto simp: parse_ip_def read_ipv4_addr_def split: if_splits prod.splits)
next
  case None
  then obtain gs where gs: "read_ipv6_addr s = Some (gs, [])" "ip = V6 gs"
    using assms by (auto simp: parse_ip_def split: option.splits if_splits)
  obtain head v4 s1 where h: "read_groups 0 8 s = (head, v4, s1)" by (metis prod_cases3)
  note hok = read_groups_ok[OF h]
  show ?thesis
  proof (cases "length head = 8")
    case True
    then show ?thesis using gs h hok by (simp add: read_ipv6_addr_def)
  next
    case False
    obtain s2 tail v s3 where t: "read_groups 0 (7 - length head) s2 = (tail, v, s3)"
      "gs = head @ replicate (8 - length head - length tail) 0 @ tail"
      using gs(1) h False by (auto simp: read_ipv6_addr_def split: if_splits option.splits prod.splits)
    show ?thesis using gs(2) t(2) hok read_groups_ok[OF t(1)] False by auto
  qed
qed

lemma parse_ip_examples:
  "parse_ip ''192.0.2.1'' = Some (V4 [192, 0, 2, 1])"
  "parse_ip ''192.0.2.01'' = None"
  "parse_ip ''192.0.2.256'' = None"
  "parse_ip ''::1'' = Some (V6 [0, 0, 0, 0, 0, 0, 0, 1])"
  "parse_ip ''2001:db8::7'' = Some (V6 [0x2001, 0xdb8, 0, 0, 0, 0, 0, 7])"
  "parse_ip ''::ffff:192.0.2.1'' = Some (V6 [0, 0, 0, 0, 0, 0xFFFF, 0xC000, 0x201])"
  "parse_ip ''1::2::3'' = None"
  "parse_ip ''1.2.3.4:80'' = None"
  by code_simp+

end
