(* ===== verification/Http_Headers.thy ===== *)
theory Http_Headers
  imports Ox_Words
begin

text \<open>
  Header maps and responses.  The \<^verbatim>\<open>http\<close> crate's \<^verbatim>\<open>HeaderMap\<close> and \<^verbatim>\<open>HeaderValue\<close> are
  parameters with their documented behaviour in \<open>header_laws\<close>; names are in the lower case
  the crate keeps them in, values are byte strings.  A response body is either held whole or a
  stream with a size hint, as \<^verbatim>\<open>ResponseBody\<close> of \<^verbatim>\<open>src/types.rs\<close> is.
\<close>

section \<open>The header map\<close>

record 'h headers =
  hempty :: 'h
  get_all :: "'h \<Rightarrow> string \<Rightarrow> string list"
  hkeys :: "'h \<Rightarrow> string list"
  hset :: "'h \<Rightarrow> string \<Rightarrow> string \<Rightarrow> 'h"
  happend :: "'h \<Rightarrow> string \<Rightarrow> string \<Rightarrow> 'h"
  hremove :: "'h \<Rightarrow> string \<Rightarrow> 'h"
  to_str :: "string \<Rightarrow> string option"
  from_str :: "string \<Rightarrow> string option"
  from_bytes :: "string \<Rightarrow> string option"

definition visible :: "char \<Rightarrow> bool" where
  "visible c = (c = CHR 0x09 \<or> 32 \<le> (of_char c :: nat) \<and> (of_char c :: nat) \<le> 126)"

text \<open>A byte a header value may hold: a tab, or anything from a space on but a delete.\<close>

definition value_byte :: "char \<Rightarrow> bool" where
  "value_byte c = (c = CHR 0x09 \<or> 32 \<le> (of_char c :: nat) \<and> (of_char c :: nat) \<noteq> 127)"

lemma visible_value: "list_all visible s \<Longrightarrow> list_all value_byte s"
  by (erule list.pred_mono_strong) (auto simp: visible_def value_byte_def)

definition header_laws :: "'h headers \<Rightarrow> bool" where
  "header_laws H \<longleftrightarrow>
     (\<forall>k. get_all H (hempty H) k = []) \<and>
     (\<forall>h k v k'. get_all H (hset H h k v) k' = (if k' = k then [v] else get_all H h k')) \<and>
     (\<forall>h k v k'. get_all H (happend H h k v) k' = (if k' = k then get_all H h k @ [v] else get_all H h k')) \<and>
     (\<forall>h k k'. get_all H (hremove H h k) k' = (if k' = k then [] else get_all H h k')) \<and>
     (\<forall>h. distinct (hkeys H h) \<and> (\<forall>k. k \<in> set (hkeys H h) \<longleftrightarrow> get_all H h k \<noteq> [])) \<and>
     (\<forall>v. to_str H v = (if list_all visible v then Some v else None)) \<and>
     (\<forall>v. list_all visible v \<longrightarrow> from_str H v = Some v) \<and>
     (\<forall>v. from_bytes H v = (if list_all value_byte v then Some v else None))"

definition get :: "'h headers \<Rightarrow> 'h \<Rightarrow> string \<Rightarrow> string option" where
  "get H h k = (case get_all H h k of [] \<Rightarrow> None | v # _ \<Rightarrow> Some v)"

text \<open>\<^verbatim>\<open>headers.get(name).and_then(|v| v.to_str().ok())\<close>.\<close>

definition header_str :: "'h headers \<Rightarrow> 'h \<Rightarrow> string \<Rightarrow> string option" where
  "header_str H h k = (case get H h k of Some v \<Rightarrow> to_str H v | None \<Rightarrow> None)"

lemma header_lookup:
  assumes "header_laws H"
  shows "get_all H (hset H h k v) k' = (if k' = k then [v] else get_all H h k')"
    "get_all H (hempty H) k = []"
    "get_all H (happend H h k v) k' = (if k' = k then get_all H h k @ [v] else get_all H h k')"
    "get_all H (hremove H h k) k' = (if k' = k then [] else get_all H h k')"
  using assms unfolding header_laws_def by blast+

lemma header_values:
  assumes "header_laws H"
  shows "to_str H v = (if list_all visible v then Some v else None)"
    "list_all visible v \<Longrightarrow> from_str H v = Some v"
    "from_bytes H v = (if list_all value_byte v then Some v else None)"
  using assms unfolding header_laws_def by blast+

lemma header_keys:
  assumes "header_laws H"
  shows "distinct (hkeys H h)" "k \<in> set (hkeys H h) \<longleftrightarrow> get_all H h k \<noteq> []"
  using assms unfolding header_laws_def by blast+

lemma header_str_Some:
  assumes "header_laws H"
  shows "header_str H h k = Some s \<longleftrightarrow> (\<exists>vs. get_all H h k = s # vs) \<and> list_all visible s"
  by (auto simp: header_str_def get_def header_values[OF assms] split: list.splits if_splits)

lemma header_str_set: "header_laws H \<Longrightarrow> list_all visible v \<Longrightarrow> header_str H (hset H h k v) k = Some v"
  by (simp add: header_str_Some header_lookup)

definition list_headers :: "(string \<times> string) list headers" where
  "list_headers =
     \<lparr>hempty = [],
      get_all = \<lambda>h k. map snd (filter (\<lambda>e. fst e = k) h),
      hkeys = \<lambda>h. remdups (map fst h),
      hset = \<lambda>h k v. filter (\<lambda>e. fst e \<noteq> k) h @ [(k, v)],
      happend = \<lambda>h k v. h @ [(k, v)],
      hremove = \<lambda>h k. filter (\<lambda>e. fst e \<noteq> k) h,
      to_str = \<lambda>v. if list_all visible v then Some v else None,
      from_str = \<lambda>v. Some v,
      from_bytes = \<lambda>v. if list_all value_byte v then Some v else None\<rparr>"

lemma list_headers_laws: "header_laws list_headers"
  unfolding header_laws_def list_headers_def
  by (auto simp: filter_empty_conv image_iff intro!: arg_cong[of _ _ "map snd"] filter_cong)

section \<open>Bodies and responses\<close>

text \<open>A streamed body has the two ends of its size hint and what collecting it gives: its bytes or a failure.\<close>

datatype body = Full string | Streamed nat "nat option" "string option"

fun size_upper :: "body \<Rightarrow> nat option" where
  "size_upper (Full b) = Some (length b)"
| "size_upper (Streamed lo up _) = up"

fun size_exact :: "body \<Rightarrow> nat option" where
  "size_exact (Full b) = Some (length b)"
| "size_exact (Streamed lo up _) = (if up = Some lo then up else None)"

fun collect :: "body \<Rightarrow> string option" where
  "collect (Full b) = Some b"
| "collect (Streamed _ _ c) = c"

record 'h response =
  rs_status :: nat
  rs_headers :: 'h
  rs_body :: body

section \<open>Trimming and splitting visible text\<close>

definition blank :: "char \<Rightarrow> bool" where
  "blank c = (c = CHR '' '' \<or> c = CHR 0x09)"

lemma visible_ws:
  assumes "visible c"
  shows "ws1 (of_char c) = blank c" "\<not> ws2 (of_char c) n" "\<not> ws3 (of_char c) n m" "\<not> ws3 n m (of_char c)" "\<not> ws2 n (of_char c)"
proof -
  have "of_char c \<le> (126 :: nat)" using assms by (auto simp: visible_def)
  moreover have "c = CHR '' ''" if "of_char c = (32 :: nat)"
    by (rule of_char_eq_iff[where ?'a = nat, THEN iffD1]) (simp add: that)
  ultimately show "ws1 (of_char c) = blank c" "\<not> ws2 (of_char c) n" "\<not> ws3 (of_char c) n m" "\<not> ws3 n m (of_char c)"
    "\<not> ws2 n (of_char c)"
    using assms by (auto simp: visible_def ws1_def ws2_def ws3_def blank_def)
qed

lemma trim_start_visible: "list_all visible s \<Longrightarrow> trim_start s = dropWhile blank s"
  by (induction s rule: trim_start.induct) (auto simp: visible_ws split: list.splits)

lemma trim_start_rev_visible: "list_all visible s \<Longrightarrow> trim_start_rev s = dropWhile blank s"
  by (induction s rule: trim_start_rev.induct) (auto simp: visible_ws split: list.splits)

lemma list_all_dropWhile: "list_all P s \<Longrightarrow> list_all P (dropWhile Q s)"
  by (induction s) auto

lemma str_trim_visible: "list_all visible s \<Longrightarrow> str_trim s = rev (dropWhile blank (rev (dropWhile blank s)))"
  by (simp add: str_trim_def trim_start_visible trim_start_rev_visible list_all_dropWhile)

lemma rev_dropWhile_rev: "rev (dropWhile P (rev (x # s))) = (if list_all P s \<and> P x then [] else x # rev (dropWhile P (rev s)))"
proof (cases "list_all P s")
  case True
  then have "dropWhile P (rev s) = []" "dropWhile P (rev s @ [x]) = dropWhile P [x]"
    by (auto simp: list_all_iff dropWhile_append)
  then show ?thesis using True by simp
next
  case False
  then show ?thesis by (auto simp: list_all_iff dropWhile_append)
qed

lemma hd_trim_end: "rev (dropWhile P (rev s)) = [] \<or> hd (rev (dropWhile P (rev s))) = hd s"
proof (cases s)
  case (Cons x r)
  show ?thesis unfolding Cons rev_dropWhile_rev by simp
qed simp

lemma dropWhile_hd: "s = [] \<or> \<not> P (hd s) \<Longrightarrow> dropWhile P s = s"
  by (cases s) auto

lemma str_trim_idem:
  assumes "list_all visible s"
  shows "str_trim (str_trim s) = str_trim s"
proof -
  let ?a = "dropWhile blank s"
  let ?b = "rev (dropWhile blank (rev ?a))"
  have t: "str_trim s = ?b" by (rule str_trim_visible[OF assms])
  have v: "list_all visible ?b" using assms by (simp add: list_all_dropWhile)
  have "?b = [] \<or> \<not> blank (hd ?b)"
  proof (cases "?a = []")
    case False
    then have "\<not> blank (hd ?a)" by (rule hd_dropWhile)
    then show ?thesis using hd_trim_end[of blank ?a] by presburger
  next
    case True
    then have "?b = []" by (simp only: rev.simps dropWhile.simps)
    then show ?thesis ..
  qed
  then have "dropWhile blank ?b = ?b" by (rule dropWhile_hd)
  then show ?thesis unfolding t str_trim_visible[OF v] by simp
qed

lemma str_trim_blank: "list_all visible s \<Longrightarrow> str_trim (CHR '' '' # s) = str_trim s"
  by (simp add: str_trim_visible visible_def blank_def)

lemma visible_trim: "list_all visible s \<Longrightarrow> list_all visible (str_trim s)"
  by (simp add: str_trim_visible list_all_dropWhile)

lemma set_str_trim:
  assumes "list_all visible s"
  shows "set (str_trim s) \<subseteq> set s"
proof
  fix x
  assume "x \<in> set (str_trim s)"
  then have "x \<in> set (dropWhile blank (rev (dropWhile blank s)))" by (simp only: str_trim_visible[OF assms] set_rev)
  then have "x \<in> set (rev (dropWhile blank s))" by (rule set_dropWhileD)
  then show "x \<in> set s" unfolding set_rev by (rule set_dropWhileD)
qed

lemma starts_with_trim:
  assumes "list_all visible s" "starts_with (str_trim s) p"
  shows "starts_with (trim_start s) p"
proof -
  have "str_trim s = rev (dropWhile blank (rev (trim_start s)))"
    using assms(1) by (simp add: str_trim_visible trim_start_visible)
  then have "trim_start s = str_trim s @ rev (takeWhile blank (rev (trim_start s)))"
    by (metis rev_append rev_rev_ident takeWhile_dropWhile_id)
  then show ?thesis using assms(2) by (metis append_assoc starts_with_iff)
qed

text \<open>Joining by a separator string, as \<^verbatim>\<open>join\<close> does, and cutting at its first character again.\<close>

fun join_str :: "string \<Rightarrow> string list \<Rightarrow> string" where
  "join_str sep [] = []"
| "join_str sep [s] = s"
| "join_str sep (s # ss) = s @ sep @ join_str sep ss"

lemma join_str_Cons: "ss \<noteq> [] \<Longrightarrow> join_str sep (s # ss) = s @ sep @ join_str sep ss"
  by (cases ss) auto

lemma join_str_visible: "list_all (list_all visible) ss \<Longrightarrow> list_all visible sep \<Longrightarrow> list_all visible (join_str sep ss)"
  by (induction sep ss rule: join_str.induct) auto

lemma split_join_str:
  assumes "ss \<noteq> []" "\<forall>s \<in> set ss. CHR '';'' \<notin> set s"
  shows "split_on (CHR '';'') (join_str ''; '' ss) = hd ss # map ((#) (CHR '' '')) (tl ss)"
  using assms
proof (induction "''; ''" ss rule: join_str.induct)
  case (3 s v va)
  then show ?case by (simp add: split_on_append_sep)
qed (simp_all add: split_on_no_sep)

lemma trimmed_pieces:
  assumes "ss \<noteq> []" "\<forall>s \<in> set ss. CHR '';'' \<notin> set s \<and> list_all visible s"
  shows "map str_trim (split_on (CHR '';'') (join_str ''; '' ss)) = map str_trim ss"
  using assms by (cases ss) (auto simp: split_join_str str_trim_blank)

definition find_map :: "('a \<Rightarrow> 'b option) \<Rightarrow> 'a list \<Rightarrow> 'b option" where
  "find_map f xs = foldr (\<lambda>x r. case f x of Some y \<Rightarrow> Some y | None \<Rightarrow> r) xs None"

definition split_once :: "char \<Rightarrow> string \<Rightarrow> (string \<times> string) option" where
  "split_once c s = (case dropWhile (\<lambda>x. x \<noteq> c) s of [] \<Rightarrow> None | _ # r \<Rightarrow> Some (takeWhile (\<lambda>x. x \<noteq> c) s, r))"

fun contains :: "string \<Rightarrow> string \<Rightarrow> bool" where
  "contains [] p = (p = [])"
| "contains (c # s) p = (starts_with (c # s) p \<or> contains s p)"

lemma contains_append: "contains (a @ p @ b) p"
proof (induction a)
  case Nil
  show ?case
  proof (cases "p @ b")
    case (Cons a r)
    then have "starts_with (a # r) p" by (metis starts_with_append)
    then show ?thesis using Cons by simp
  qed simp
next
  case (Cons c a)
  then show ?case by simp
qed

end
