(* ===== verification/Client_Addr.thy ===== *)
theory Client_Addr
  imports Ip_Addr Http_Headers
begin

text \<open>
  Whose request it is: the trusted proxies (\<^verbatim>\<open>src/config/proxy.rs\<close>) and the handler that
  takes the client's address from the forwarding headers a trusted proxy sends
  (\<^verbatim>\<open>src/handlers/trusted_proxy.rs\<close>).

  Networks are those of the \<^verbatim>\<open>ipnet\<close> crate and header maps those of the \<^verbatim>\<open>http\<close> crate;
  both are parameters, with their documented behaviour in \<open>net_laws\<close> and \<open>header_laws\<close>.
\<close>

section \<open>The crates\<close>

record 'n ipnet =
  parse_net :: "string \<Rightarrow> 'n option"
  net_contains :: "'n \<Rightarrow> IpAddr \<Rightarrow> bool"
  host_net :: "IpAddr \<Rightarrow> 'n"

text \<open>A host route holds its own address and no other.\<close>

definition net_laws :: "'n ipnet \<Rightarrow> bool" where
  "net_laws N \<longleftrightarrow> (\<forall>ip ip'. net_contains N (host_net N ip) ip' \<longleftrightarrow> ip' = ip)"

section \<open>Which proxies are trusted\<close>

record 'n TrustedProxyConfig =
  networks :: "'n list"
  cloudflare :: "'n list"

text \<open>The built-in ranges are parsed and unwrapped; \<open>None\<close> is the panic.\<close>

definition all_nets :: "'n ipnet \<Rightarrow> string list \<Rightarrow> 'n list option" where
  "all_nets N cidrs = those (map (parse_net N) cidrs)"

definition private_ranges :: "'n ipnet \<Rightarrow> 'n list option" where
  "private_ranges N =
     all_nets N [''10.0.0.0/8'', ''172.16.0.0/12'', ''192.168.0.0/16'', ''127.0.0.0/8'', ''169.254.0.0/16'',
       ''::1/128'', ''fc00::/7'', ''fe80::/10'']"

definition cloudflare_ranges :: "'n ipnet \<Rightarrow> 'n list option" where
  "cloudflare_ranges N =
     all_nets N [''173.245.48.0/20'', ''103.21.244.0/22'', ''103.22.200.0/22'', ''103.31.4.0/22'',
       ''141.101.64.0/18'', ''108.162.192.0/18'', ''190.93.240.0/20'', ''188.114.96.0/20'',
       ''197.234.240.0/22'', ''198.41.128.0/17'', ''162.158.0.0/15'', ''104.16.0.0/13'',
       ''104.24.0.0/14'', ''172.64.0.0/13'', ''131.0.72.0/22'', ''2400:cb00::/32'', ''2606:4700::/32'',
       ''2803:f800::/32'', ''2405:b500::/32'', ''2405:8100::/32'', ''2a06:98c0::/29'', ''2c0f:f248::/32'']"

datatype cidr_error = InvalidCidr string | NoCidrs | Panicked

definition parse_cidr :: "'n ipnet \<Rightarrow> string \<Rightarrow> cidr_error + 'n" where
  "parse_cidr N cidr =
     (case parse_net N cidr of
        Some n \<Rightarrow> Inr n
      | None \<Rightarrow> (case parse_ip cidr of Some ip \<Rightarrow> Inr (host_net N ip) | None \<Rightarrow> Inl (InvalidCidr cidr)))"

definition list_entries :: "string \<Rightarrow> string list" where
  "list_entries s = filter (\<lambda>e. e \<noteq> []) (map str_trim (split_on (CHR '','') s))"

fun parse_entries :: "'n ipnet \<Rightarrow> string list \<Rightarrow> 'n TrustedProxyConfig \<Rightarrow> cidr_error + 'n TrustedProxyConfig" where
  "parse_entries N [] cfg = Inr cfg"
| "parse_entries N (entry # es) cfg =
     (if eq_ignore_case entry ''private'' then
        (case private_ranges N of
           None \<Rightarrow> Inl Panicked
         | Some ns \<Rightarrow> parse_entries N es (cfg\<lparr>networks := networks cfg @ ns\<rparr>))
      else if eq_ignore_case entry ''cloudflare'' then
        (case cloudflare_ranges N of
           None \<Rightarrow> Inl Panicked
         | Some ns \<Rightarrow> parse_entries N es (cfg\<lparr>cloudflare := ns\<rparr>))
      else
        (case parse_cidr N entry of
           Inl e \<Rightarrow> Inl e
         | Inr n \<Rightarrow> parse_entries N es (cfg\<lparr>networks := networks cfg @ [n]\<rparr>)))"

definition TrustedProxyConfig_parse :: "'n ipnet \<Rightarrow> string \<Rightarrow> cidr_error + 'n TrustedProxyConfig" where
  "TrustedProxyConfig_parse N spec =
     (case parse_entries N (list_entries spec) \<lparr>networks = [], cloudflare = []\<rparr> of
        Inl e \<Rightarrow> Inl e
      | Inr cfg \<Rightarrow> if networks cfg = [] \<and> cloudflare cfg = [] then Inl NoCidrs else Inr cfg)"

definition TrustedProxyConfig_from_env ::
    "'n ipnet \<Rightarrow> string option \<Rightarrow> cidr_error + 'n TrustedProxyConfig option" where
  "TrustedProxyConfig_from_env N var =
     (case var of
        None \<Rightarrow> Inr None
      | Some v \<Rightarrow> if v = [] then Inr None
          else (case TrustedProxyConfig_parse N v of Inl e \<Rightarrow> Inl e | Inr c \<Rightarrow> Inr (Some c)))"

definition in_nets :: "'n ipnet \<Rightarrow> 'n list \<Rightarrow> IpAddr \<Rightarrow> bool" where
  "in_nets N ns ip = list_ex (\<lambda>n. net_contains N n ip) ns"

definition is_cloudflare :: "'n ipnet \<Rightarrow> 'n TrustedProxyConfig \<Rightarrow> IpAddr \<Rightarrow> bool" where
  "is_cloudflare N cfg ip = in_nets N (cloudflare cfg) ip"

definition is_trusted :: "'n ipnet \<Rightarrow> 'n TrustedProxyConfig \<Rightarrow> IpAddr \<Rightarrow> bool" where
  "is_trusted N cfg ip = (in_nets N (networks cfg) ip \<or> is_cloudflare N cfg ip)"

definition is_own_proxy :: "'n ipnet \<Rightarrow> 'n TrustedProxyConfig \<Rightarrow> IpAddr \<Rightarrow> bool" where
  "is_own_proxy N cfg ip = (\<not> is_cloudflare N cfg ip \<and> in_nets N (networks cfg) ip)"

fun parse_cidr_entries :: "'n ipnet \<Rightarrow> string list \<Rightarrow> cidr_error + 'n list" where
  "parse_cidr_entries N [] = Inr []"
| "parse_cidr_entries N (c # cs) =
     (case parse_cidr N c of
        Inl e \<Rightarrow> Inl e
      | Inr n \<Rightarrow> (case parse_cidr_entries N cs of Inl e \<Rightarrow> Inl e | Inr ns \<Rightarrow> Inr (n # ns)))"

definition parse_cidr_list :: "'n ipnet \<Rightarrow> string \<Rightarrow> cidr_error + 'n list" where
  "parse_cidr_list N val =
     (case parse_cidr_entries N (list_entries (str_trim val)) of
        Inl e \<Rightarrow> Inl e
      | Inr ns \<Rightarrow> if ns = [] then Inl NoCidrs else Inr ns)"

definition IpAllowList_from_env :: "'n ipnet \<Rightarrow> string option \<Rightarrow> cidr_error + 'n list option" where
  "IpAllowList_from_env N var =
     (case var of
        None \<Rightarrow> Inr None
      | Some v \<Rightarrow> if str_trim v = [] then Inr None
          else (case parse_cidr_list N v of Inl e \<Rightarrow> Inl e | Inr ns \<Rightarrow> Inr (Some ns)))"

definition IpAllowList_contains :: "'n ipnet \<Rightarrow> 'n list \<Rightarrow> IpAddr \<Rightarrow> bool" where
  "IpAllowList_contains N ns ip = in_nets N ns (to_canonical ip)"

datatype BindExposure = Loopback | Private | Exposed

definition classify_bind_exposure :: "'n ipnet \<Rightarrow> IpAddr \<Rightarrow> BindExposure option" where
  "classify_bind_exposure N ip =
     (if is_loopback ip then Some Loopback
      else if is_unspecified ip then Some Exposed
      else map_option (\<lambda>ns. if in_nets N ns ip then Private else Exposed) (private_ranges N))"

section \<open>Reading the forwarding headers\<close>

type_synonym hop = "IpAddr \<times> nat option"

definition rsplit_once :: "char \<Rightarrow> string \<Rightarrow> (string \<times> string) option" where
  "rsplit_once c s = map_option (\<lambda>(a, b). (rev b, rev a)) (split_once c (rev s))"

definition trim_quotes :: "string \<Rightarrow> string" where
  "trim_quotes s = rev (dropWhile (\<lambda>c. c = CHR 0x22) (rev (dropWhile (\<lambda>c. c = CHR 0x22) s)))"

definition parse_port :: "string \<Rightarrow> nat option" where
  "parse_port s = (case parse_uint 65535 s of Some p \<Rightarrow> if p > 0 then Some p else None | None \<Rightarrow> None)"

definition parse_forwarded_for :: "string \<Rightarrow> hop option" where
  "parse_forwarded_for raw =
     (let val = str_trim (trim_quotes raw) in
      case strip_prefix val ''['' of
        Some rest \<Rightarrow>
          (case split_once (CHR '']'') rest of
             None \<Rightarrow> None
           | Some (ip_part, after) \<Rightarrow>
               (case parse_ip ip_part of
                  None \<Rightarrow> None
                | Some ip \<Rightarrow>
                    Some (ip, case strip_prefix after '':'' of Some p \<Rightarrow> parse_port p | None \<Rightarrow> None)))
      | None \<Rightarrow>
          (case parse_ip val of
             Some ip \<Rightarrow> Some (ip, None)
           | None \<Rightarrow>
               (case rsplit_once (CHR '':'') val of
                  None \<Rightarrow> None
                | Some (ip_part, port_part) \<Rightarrow>
                    (case parse_ip ip_part of None \<Rightarrow> None | Some ip \<Rightarrow> Some (ip, parse_port port_part)))))"

record ForwardedEntry =
  forwarded_for :: "IpAddr option"
  forwarded_for_port :: "nat option"
  proto :: "string option"
  host :: "string option"

definition add_pair :: "ForwardedEntry \<Rightarrow> string \<Rightarrow> ForwardedEntry" where
  "add_pair entry pair =
     (case split_once (CHR ''='') (str_trim pair) of
        None \<Rightarrow> entry
      | Some (key, val) \<Rightarrow>
          (let k = lower_str (str_trim key); v = str_trim val in
           if k = ''for'' then
             (case parse_forwarded_for v of
                Some (ip, port) \<Rightarrow> entry\<lparr>forwarded_for := Some ip, forwarded_for_port := port\<rparr>
              | None \<Rightarrow> entry)
           else if k = ''proto'' then entry\<lparr>proto := Some v\<rparr>
           else if k = ''host'' then entry\<lparr>host := Some v\<rparr>
           else entry))"

definition parse_forwarded :: "string \<Rightarrow> ForwardedEntry list" where
  "parse_forwarded value =
     map (\<lambda>element. foldl add_pair
            \<lparr>forwarded_for = None, forwarded_for_port = None, proto = None, host = None\<rparr>
            (split_on (CHR '';'') element))
         (split_on (CHR '','') value)"

text \<open>The hops right of the last one without an address.\<close>

definition chain_of :: "hop option list \<Rightarrow> hop list" where
  "chain_of es = foldl (\<lambda>hops e. case e of Some h \<Rightarrow> hops @ [h] | None \<Rightarrow> []) [] es"

definition text_of :: "'h headers \<Rightarrow> string \<Rightarrow> string" where
  "text_of H v = (case to_str H v of Some s \<Rightarrow> s | None \<Rightarrow> [])"

definition forwarded_combined :: "'h headers \<Rightarrow> 'h \<Rightarrow> string option" where
  "forwarded_combined H h =
     (case map (text_of H) (get_all H h ''forwarded'') of
        [] \<Rightarrow> None
      | v # vs \<Rightarrow> Some (v @ concat (map (\<lambda>x. '', '' @ x) vs)))"

definition xff_entries :: "'h headers \<Rightarrow> 'h \<Rightarrow> hop option list" where
  "xff_entries H h =
     map (\<lambda>s. parse_forwarded_for (str_trim s))
         (concat (map (\<lambda>v. split_on (CHR '','') (text_of H v)) (get_all H h ''x-forwarded-for'')))"

definition cf_connecting_ip :: "'h headers \<Rightarrow> 'h \<Rightarrow> IpAddr option" where
  "cf_connecting_ip H h =
     (case get_all H h ''cf-connecting-ip'' of
        [v] \<Rightarrow> (case to_str H v of None \<Rightarrow> None | Some s \<Rightarrow> parse_ip (str_trim s))
      | _ \<Rightarrow> None)"

section \<open>Choosing the client\<close>

fun find_rightmost :: "(hop \<Rightarrow> bool) \<Rightarrow> hop list \<Rightarrow> hop option" where
  "find_rightmost P [] = None"
| "find_rightmost P (h # hs) = (case find_rightmost P hs of Some x \<Rightarrow> Some x | None \<Rightarrow> if P h then Some h else None)"

definition extract_client_ip :: "'n ipnet \<Rightarrow> 'n TrustedProxyConfig \<Rightarrow> hop list \<Rightarrow> hop option" where
  "extract_client_ip N cfg chain =
     (if chain = [] then None
      else case find_rightmost (\<lambda>h. \<not> is_trusted N cfg (fst h)) chain of
             Some h \<Rightarrow> Some h
           | None \<Rightarrow> Some (hd chain))"

definition came_through_cloudflare :: "'n ipnet \<Rightarrow> 'n TrustedProxyConfig \<Rightarrow> IpAddr \<Rightarrow> hop list \<Rightarrow> bool" where
  "came_through_cloudflare N cfg peer hops =
     (case find (\<lambda>ip. \<not> is_own_proxy N cfg ip) (peer # map fst (rev hops)) of
        Some ip \<Rightarrow> is_cloudflare N cfg ip
      | None \<Rightarrow> False)"

definition resolve_client ::
    "'n ipnet \<Rightarrow> 'h headers \<Rightarrow> 'n TrustedProxyConfig \<Rightarrow> IpAddr \<Rightarrow> 'h \<Rightarrow> hop list \<Rightarrow> hop option" where
  "resolve_client N H cfg peer h chain =
     (case (if came_through_cloudflare N cfg peer chain then cf_connecting_ip H h else None) of
        Some ip \<Rightarrow> Some (ip, None)
      | None \<Rightarrow> extract_client_ip N cfg chain)"

record 'h received =
  rq_headers :: 'h
  rq_method :: string
  rq_ip :: IpAddr
  rq_port :: nat
  rq_id :: string
  rq_early :: "'h response option"
  rq_meta :: "(string \<times> string) list"

definition push_meta :: "string \<Rightarrow> string option \<Rightarrow> 'h received \<Rightarrow> 'h received" where
  "push_meta k v ev = (case v of None \<Rightarrow> ev | Some s \<Rightarrow> ev\<lparr>rq_meta := rq_meta ev @ [(k, s)]\<rparr>)"

definition header_text :: "'h headers \<Rightarrow> 'h \<Rightarrow> string \<Rightarrow> string option" where
  "header_text H h k = (case get H h k of None \<Rightarrow> None | Some v \<Rightarrow> map_option str_trim (to_str H v))"

definition first_of :: "('a \<Rightarrow> 'b option) \<Rightarrow> 'a list \<Rightarrow> 'b option" where
  "first_of f xs = (case xs of [] \<Rightarrow> None | x # _ \<Rightarrow> f x)"

text \<open>The chain, and the metadata taken from the same header.\<close>

definition read_forwarded :: "'h headers \<Rightarrow> 'h received \<Rightarrow> string \<Rightarrow> hop list \<times> 'h received" where
  "read_forwarded H ev fwd =
     (let entries = parse_forwarded fwd in
      (chain_of (map (\<lambda>e. map_option (\<lambda>ip. (ip, forwarded_for_port e)) (forwarded_for e)) entries),
       push_meta ''forwarded_host'' (first_of host entries)
         (push_meta ''forwarded_proto'' (first_of proto entries) ev)))"

definition forwarded_port :: "'h headers \<Rightarrow> 'h \<Rightarrow> string option" where
  "forwarded_port H h =
     (case header_text H h ''x-forwarded-port'' of
        Some s \<Rightarrow> if parse_port s = None then None else Some s
      | None \<Rightarrow> None)"

definition read_x_forwarded :: "'h headers \<Rightarrow> 'h received \<Rightarrow> hop list \<times> 'h received" where
  "read_x_forwarded H ev =
     (let h = rq_headers ev in
      (chain_of (xff_entries H h),
       push_meta ''forwarded_port'' (forwarded_port H h)
         (push_meta ''forwarded_host'' (header_text H h ''x-forwarded-host'')
           (push_meta ''forwarded_proto'' (header_text H h ''x-forwarded-proto'') ev))))"

definition TrustedProxy_handle ::
    "'n ipnet \<Rightarrow> 'h headers \<Rightarrow> 'n TrustedProxyConfig \<Rightarrow> 'h received \<Rightarrow> 'h received" where
  "TrustedProxy_handle N H cfg ev =
     (let peer = rq_ip ev; h = rq_headers ev in
      if \<not> is_trusted N cfg peer then ev
      else
        (case (case forwarded_combined H h of
                 Some fwd \<Rightarrow> read_forwarded H ev fwd
               | None \<Rightarrow> read_x_forwarded H ev) of
           (chain, ev1) \<Rightarrow>
             (case resolve_client N H cfg peer h chain of
                Some (ip, port) \<Rightarrow> ev1\<lparr>rq_ip := ip, rq_port := (case port of Some p \<Rightarrow> p | None \<Rightarrow> 0)\<rparr>
              | None \<Rightarrow> ev1)))"

section \<open>What the client can and cannot choose\<close>

lemma chain_fold: "foldl (\<lambda>hops e. case e of Some h \<Rightarrow> hops @ [h] | None \<Rightarrow> []) hs es =
    (if None \<in> set es then chain_of es else hs @ map the es)"
proof (induction es arbitrary: hs rule: rev_induct)
  case (snoc e es)
  show ?case
  proof (cases e)
    case None
    then show ?thesis by (simp add: chain_of_def)
  next
    case (Some h)
    then show ?thesis using snoc.IH[of hs] by (simp add: chain_of_def)
  qed
qed simp

lemma chain_of_append: "chain_of (xs @ ys) = (if None \<in> set ys then chain_of ys else chain_of xs @ map the ys)"
proof -
  have "chain_of (xs @ ys) = foldl (\<lambda>hops e. case e of Some h \<Rightarrow> hops @ [h] | None \<Rightarrow> []) (chain_of xs) ys"
    by (simp add: chain_of_def)
  then show ?thesis by (simp only: chain_fold)
qed

lemma set_chain_of: "h \<in> set (chain_of es) \<Longrightarrow> Some h \<in> set es"
proof (induction es rule: rev_induct)
  case (snoc e es)
  then show ?case by (cases e) (auto simp: chain_of_def)
qed (simp add: chain_of_def)

lemma chain_of_no_break: "None \<notin> set es \<Longrightarrow> chain_of es = map the es"
  using chain_of_append[of "[]" es] by (simp add: chain_of_def)

lemma find_rightmost_append:
  "find_rightmost P (xs @ ys) = (case find_rightmost P ys of Some x \<Rightarrow> Some x | None \<Rightarrow> find_rightmost P xs)"
  by (induction xs) (auto split: option.splits)

lemma find_rightmost_None: "find_rightmost P hs = None \<longleftrightarrow> (\<forall>h \<in> set hs. \<not> P h)"
  by (induction hs) (auto split: option.splits)

lemma find_rightmost_Some: "find_rightmost P hs = Some h \<Longrightarrow> h \<in> set hs \<and> P h"
  by (induction hs) (auto split: option.splits if_splits)

text \<open>The walk from the peer stops in the recorded part of the chain when an untrusted address, or a hop
  without an address, is recorded there.\<close>

definition stops :: "'n ipnet \<Rightarrow> 'n TrustedProxyConfig \<Rightarrow> hop option list \<Rightarrow> bool" where
  "stops N cfg real = list_ex (\<lambda>e. case e of None \<Rightarrow> True | Some h \<Rightarrow> \<not> is_trusted N cfg (fst h)) real"

lemma own_is_trusted: "is_own_proxy N cfg ip \<Longrightarrow> is_trusted N cfg ip"
  by (simp add: is_own_proxy_def is_trusted_def)

lemma stops_hop:
  assumes "stops N cfg real" "None \<notin> set real"
  shows "\<exists>h \<in> set (map the real). \<not> is_trusted N cfg (fst h)"
proof -
  obtain e where e: "e \<in> set real" "case e of None \<Rightarrow> True | Some h \<Rightarrow> \<not> is_trusted N cfg (fst h)"
    using assms(1) by (auto simp: stops_def list_ex_iff)
  then obtain h where "e = Some h" using assms(2) by (metis option.exhaust)
  then show ?thesis using e by force
qed

lemma find_append_found: "(\<exists>x \<in> set xs. P x) \<Longrightarrow> find P (xs @ ys) = find P xs"
  by (induction xs) auto

lemma resolve_client_recorded:
  assumes "stops N cfg real" "get_all H h ''cf-connecting-ip'' = get_all H h' ''cf-connecting-ip''"
  shows "resolve_client N H cfg peer h (chain_of (forged @ real)) = resolve_client N H cfg peer h' (chain_of real)"
proof -
  have cf: "cf_connecting_ip H h = cf_connecting_ip H h'" using assms(2) by (simp add: cf_connecting_ip_def)
  show ?thesis
  proof (cases "None \<in> set real")
  case True
  then show ?thesis using cf by (simp add: chain_of_append resolve_client_def)
next
  case False
  then obtain x where x: "x \<in> set (map the real)" "\<not> is_trusted N cfg (fst x)"
    using stops_hop[OF assms(1)] by blast
  let ?r = "map the real"
  have cc: "came_through_cloudflare N cfg peer (chain_of forged @ ?r) = came_through_cloudflare N cfg peer ?r"
  proof -
    have "\<exists>ip \<in> set (peer # map fst (rev ?r)). \<not> is_own_proxy N cfg ip"
      using x own_is_trusted by fastforce
    then show ?thesis
      using find_append_found[of "peer # map fst (rev ?r)" "\<lambda>ip. \<not> is_own_proxy N cfg ip" "map fst (rev (chain_of forged))"]
      by (simp add: came_through_cloudflare_def)
  qed
  have ee: "extract_client_ip N cfg (chain_of forged @ ?r) = extract_client_ip N cfg ?r"
  proof -
    have "find_rightmost (\<lambda>h. \<not> is_trusted N cfg (fst h)) ?r \<noteq> None"
      using x unfolding find_rightmost_None by blast
    then obtain y where "find_rightmost (\<lambda>h. \<not> is_trusted N cfg (fst h)) ?r = Some y" by blast
    moreover have "?r \<noteq> []" using x(1) by (metis empty_iff list.set(1))
    ultimately show ?thesis by (simp add: extract_client_ip_def find_rightmost_append)
  qed
  have "chain_of (forged @ real) = chain_of forged @ ?r" using False by (simp add: chain_of_append)
  then show ?thesis unfolding resolve_client_def chain_of_no_break[OF False] by (simp only: cc ee cf)
  qed
qed

lemma resolve_client_from:
  assumes "resolve_client N H cfg peer h (chain_of real) = Some (ip, port)"
  shows "cf_connecting_ip H h = Some ip \<or> Some (ip, port) \<in> set real"
proof (cases "(if came_through_cloudflare N cfg peer (chain_of real) then cf_connecting_ip H h else None)")
  case (Some x)
  then show ?thesis using assms by (auto simp: resolve_client_def split: if_splits)
next
  case None
  then have "extract_client_ip N cfg (chain_of real) = Some (ip, port)" using assms by (simp add: resolve_client_def)
  then have "(ip, port) \<in> set (chain_of real)"
    by (auto simp: extract_client_ip_def dest: find_rightmost_Some hd_in_set split: if_splits option.splits)
  then show ?thesis by (simp add: set_chain_of)
qed

lemma push_meta_addr [simp]: "rq_ip (push_meta k v ev) = rq_ip ev" "rq_port (push_meta k v ev) = rq_port ev"
  by (simp_all add: push_meta_def split: option.splits)

lemma read_x_forwarded_addr:
  "fst (read_x_forwarded H ev) = chain_of (xff_entries H (rq_headers ev))"
  "rq_ip (snd (read_x_forwarded H ev)) = rq_ip ev" "rq_port (snd (read_x_forwarded H ev)) = rq_port ev"
  unfolding read_x_forwarded_def Let_def fst_conv snd_conv push_meta_addr by (rule refl)+

lemma TrustedProxy_handle_xff:
  assumes "get_all H (rq_headers ev) ''forwarded'' = []" "is_trusted N cfg (rq_ip ev)"
  shows "(rq_ip (TrustedProxy_handle N H cfg ev), rq_port (TrustedProxy_handle N H cfg ev)) =
    (case resolve_client N H cfg (rq_ip ev) (rq_headers ev) (chain_of (xff_entries H (rq_headers ev))) of
       Some (ip, port) \<Rightarrow> (ip, case port of Some p \<Rightarrow> p | None \<Rightarrow> 0)
     | None \<Rightarrow> (rq_ip ev, rq_port ev))"
proof -
  have "forwarded_combined H (rq_headers ev) = None" using assms(1) by (simp add: forwarded_combined_def)
  then have "TrustedProxy_handle N H cfg ev =
      (case resolve_client N H cfg (rq_ip ev) (rq_headers ev) (chain_of (xff_entries H (rq_headers ev))) of
         Some (ip, port) \<Rightarrow> (snd (read_x_forwarded H ev))\<lparr>rq_ip := ip, rq_port := (case port of Some p \<Rightarrow> p | None \<Rightarrow> 0)\<rparr>
       | None \<Rightarrow> snd (read_x_forwarded H ev))"
    using assms(2) by (simp add: TrustedProxy_handle_def Let_def read_x_forwarded_addr case_prod_beta)
  then show ?thesis
    by (cases "resolve_client N H cfg (rq_ip ev) (rq_headers ev) (chain_of (xff_entries H (rq_headers ev)))")
       (simp_all add: read_x_forwarded_addr case_prod_beta)
qed



section \<open>A concrete request\<close>

definition host_nets :: "IpAddr ipnet" where
  "host_nets = \<lparr>parse_net = \<lambda>_. None, net_contains = \<lambda>n ip. ip = n, host_net = \<lambda>ip. ip\<rparr>"

lemma host_nets_laws: "net_laws host_nets"
  by (simp add: net_laws_def host_nets_def)

definition forwarded_request :: "string \<Rightarrow> (string \<times> string) list received" where
  "forwarded_request xff =
     \<lparr>rq_headers = [(''x-forwarded-for'', xff)], rq_method = ''GET'', rq_ip = V4 [10, 0, 0, 1], rq_port = 4711,
      rq_id = [], rq_early = None, rq_meta = []\<rparr>"

definition one_proxy :: "IpAddr TrustedProxyConfig" where
  "one_proxy = \<lparr>networks = [V4 [10, 0, 0, 1]], cloudflare = []\<rparr>"

lemma one_proxy_parsed: "TrustedProxyConfig_parse host_nets '' 10.0.0.1 ,'' = Inr one_proxy"
  by code_simp


end
