(* ===== verification/Rate_Limit.thy ===== *)
theory Rate_Limit
  imports Client_Addr
begin

text \<open>
  The request limiter (\<^verbatim>\<open>src/server/rate_limit.rs\<close>): a fixed window of requests per address.
  Time is in nanoseconds; a call is atomic, as the entry's lock makes it.
\<close>

section \<open>The limiter\<close>

definition MAX_TRACKED_IPS :: nat where
  "MAX_TRACKED_IPS = 100000"

record RateLimiter =
  limits :: "(IpAddr \<times> u32 \<times> nat) list"
  tracked_count :: nat
  max_requests :: u32
  window_secs :: nat

definition RateLimiter_new :: "u32 \<Rightarrow> nat \<Rightarrow> RateLimiter" where
  "RateLimiter_new maxr window = \<lparr>limits = [], tracked_count = 0, max_requests = maxr, window_secs = window\<rparr>"

text \<open>\<^verbatim>\<open>now.duration_since(start).as_secs()\<close>; a start in the future counts as now.\<close>

definition elapsed_secs :: "nat \<Rightarrow> nat \<Rightarrow> nat" where
  "elapsed_secs now start = (now - start) div 1000000000"

definition RateLimiter_cleanup :: "nat \<Rightarrow> RateLimiter \<Rightarrow> RateLimiter" where
  "RateLimiter_cleanup now rl =
     (let kept = filter (\<lambda>(_, _, start). elapsed_secs now start < window_secs rl * 2) (limits rl) in
      rl\<lparr>limits := kept, tracked_count := length kept\<rparr>)"

fun put :: "IpAddr \<Rightarrow> u32 \<times> nat \<Rightarrow> (IpAddr \<times> u32 \<times> nat) list \<Rightarrow> (IpAddr \<times> u32 \<times> nat) list" where
  "put ip e [] = [(ip, e)]"
| "put ip e ((k, v) # m) = (if k = ip then (ip, e) # m else (k, v) # put ip e m)"

definition too_many :: "'h headers \<Rightarrow> string \<Rightarrow> u32 \<Rightarrow> nat \<Rightarrow> 'h response" where
  "too_many H request_id limit reset_secs =
     (let h = foldl (\<lambda>h (k, v). happend H h k v) (hempty H)
                [(''content-type'', ''text/plain; charset=utf-8''), (''retry-after'', show_nat reset_secs),
                 (''x-ratelimit-limit'', show_nat (unat limit)), (''x-ratelimit-remaining'', ''0''),
                 (''x-ratelimit-reset'', show_nat reset_secs)]
      in \<lparr>rs_status = 429,
          rs_headers = (case from_str H request_id of Some hv \<Rightarrow> hset H h ''x-request-id'' hv | None \<Rightarrow> h),
          rs_body = Full ''429 Too Many Requests''\<rparr>)"

definition check_rate_limited :: "'h headers \<Rightarrow> nat \<Rightarrow> IpAddr \<Rightarrow> string \<Rightarrow> RateLimiter \<Rightarrow>
    'h response option \<times> RateLimiter" where
  "check_rate_limited H now ip request_id rl0 =
     (let rl = (if tracked_count rl0 > MAX_TRACKED_IPS then RateLimiter_cleanup now rl0 else rl0);
          (tracked, count0, start0) =
            (case map_of (limits rl) ip of
               Some (c, s) \<Rightarrow> (tracked_count rl, c, s)
             | None \<Rightarrow> (tracked_count rl + 1, 0, now));
          (count1, start) = (if elapsed_secs now start0 \<ge> window_secs rl then (0, now) else (count0, start0));
          count = count1 + 1;
          rl' = rl\<lparr>limits := put ip (count, start) (limits rl), tracked_count := tracked\<rparr>
      in (if count > max_requests rl
          then Some (too_many H request_id (max_requests rl) (window_secs rl - elapsed_secs now start))
          else None, rl'))"

section \<open>Runs of the limiter\<close>

text \<open>A request, or the background task's cleanup, at a time.\<close>

datatype rl_call = Check IpAddr string | Cleanup

text \<open>The times at which requests of one address were let through.\<close>

fun passes :: "'h headers \<Rightarrow> IpAddr \<Rightarrow> (nat \<times> rl_call) list \<Rightarrow> RateLimiter \<Rightarrow> nat list" where
  "passes H ip [] rl = []"
| "passes H ip ((now, Cleanup) # cs) rl = passes H ip cs (RateLimiter_cleanup now rl)"
| "passes H ip ((now, Check k rid) # cs) rl =
     (case check_rate_limited H now k rid rl of
        (r, rl') \<Rightarrow> (if k = ip \<and> r = None then [now] else []) @ passes H ip cs rl')"

lemma map_of_put: "map_of (put ip e m) k = (if k = ip then Some e else map_of m k)"
  by (induction m) auto

lemma elapsed_ge: "elapsed_secs now start \<ge> w \<longleftrightarrow> w * 1000000000 \<le> now - start"
  unfolding elapsed_secs_def by (subst less_eq_div_iff_mult_less_eq) simp_all

definition cnt :: "(nat \<Rightarrow> bool) \<Rightarrow> nat list \<Rightarrow> nat" where
  "cnt P as = length (filter P as)"

lemma cnt_snoc [simp]: "cnt P (as @ [x]) = cnt P as + (if P x then 1 else 0)"
  by (simp add: cnt_def)

lemma cnt_mono: "(\<And>a. a \<in> set as \<Longrightarrow> P a \<Longrightarrow> Q a) \<Longrightarrow> cnt P as \<le> cnt Q as"
  by (induction as) (auto simp: cnt_def le_SucI)

lemma cnt_split: "(\<And>a. a \<in> set as \<Longrightarrow> P a \<Longrightarrow> Q a \<or> R a) \<Longrightarrow> cnt P as \<le> cnt Q as + cnt R as"
  by (induction as) (auto simp: cnt_def le_SucI)

lemma cnt_none: "(\<And>a. a \<in> set as \<Longrightarrow> \<not> P a) \<Longrightarrow> cnt P as = 0"
  by (induction as) (auto simp: cnt_def)

text \<open>What the limiter knows of an address when \<open>n\<close> calls have been made, the last at time \<open>l\<close>, and the
  requests at the times \<open>as\<close> were let through: those of the current window are at most the count and at
  most the limit, and so are those of a window's length before it.\<close>

fun knows :: "nat \<Rightarrow> nat \<Rightarrow> nat \<Rightarrow> nat \<Rightarrow> nat list \<Rightarrow> (u32 \<times> nat) option \<Rightarrow> bool" where
  "knows M W n l as None = (\<forall>a \<in> set as. a + W \<le> l)"
| "knows M W n l as (Some (c, s)) =
     (unat c \<le> n \<and> s \<le> l \<and> (\<forall>a \<in> set as. a < s + W) \<and>
      cnt (\<lambda>a. s \<le> a) as \<le> min (unat c) M \<and> cnt (\<lambda>a. s < a + W \<and> a < s) as \<le> M)"

definition bounded :: "nat \<Rightarrow> nat \<Rightarrow> nat list \<Rightarrow> bool" where
  "bounded M W as \<longleftrightarrow> (\<forall>t. cnt (\<lambda>a. t \<le> a \<and> a < t + W) as \<le> 2 * M)"

lemma knows_later: "knows M W n l as e \<Longrightarrow> l \<le> l' \<Longrightarrow> n \<le> n' \<Longrightarrow> knows M W n' l' as e"
  by (cases "(M, W, n, l, as, e)" rule: knows.cases) auto

text \<open>One request, seen from its own entry.\<close>

definition turn :: "nat \<Rightarrow> nat \<Rightarrow> (u32 \<times> nat) option \<Rightarrow> u32 \<times> nat" where
  "turn W now e =
     (case e of None \<Rightarrow> (1, now) | Some (c, s) \<Rightarrow> if W \<le> now - s then (1, now) else (c + 1, s))"

lemma turn_fresh:
  assumes "0 < W" "\<forall>a \<in> set as. a < now" "cnt (\<lambda>a. now < a + W) as \<le> M" "bounded M W as"
    "as' = (if 1 \<le> M then as @ [now] else as)" "1 \<le> n"
  shows "knows M W n now as' (Some (1, now)) \<and> bounded M W as'"
proof (cases "1 \<le> M")
  case True
  have z: "cnt (\<lambda>a. now \<le> a) as = 0" using assms(2) by (intro cnt_none) auto
  have p: "cnt (\<lambda>a. now < a + W \<and> a < now) as \<le> M"
    using cnt_mono[of as "\<lambda>a. now < a + W \<and> a < now" "\<lambda>a. now < a + W"] assms(3) by simp
  have "cnt (\<lambda>a. t \<le> a \<and> a < t + W) (as @ [now]) \<le> 2 * M" for t
  proof (cases "t \<le> now \<and> now < t + W")
    case True
    then have "cnt (\<lambda>a. t \<le> a \<and> a < t + W) as \<le> cnt (\<lambda>a. now < a + W) as" by (intro cnt_mono) auto
    then show ?thesis using assms(3) \<open>1 \<le> M\<close> by simp
  next
    case False
    then show ?thesis using assms(4) by (auto simp: bounded_def)
  qed
  then show ?thesis using True assms z p by (auto simp: bounded_def)
next
  case False
  then have "cnt (\<lambda>a. now \<le> a) as = 0 \<and> cnt (\<lambda>a. now < a + W \<and> a < now) as \<le> M"
    using assms(2,3) cnt_mono[of as "\<lambda>a. now < a + W \<and> a < now" "\<lambda>a. now < a + W"] cnt_none[of as "\<lambda>a. now \<le> a"]
    by fastforce
  then show ?thesis using False assms by auto
qed

lemma turn_knows:
  assumes "0 < W" "knows M W n now as e" "n < 2 ^ 32 - 1" "bounded M W as" "turn W now e = (c, s)"
    "as' = (if unat c \<le> M then as @ [now] else as)"
  shows "knows M W (Suc n) now as' (Some (c, s)) \<and> bounded M W as'"
proof (cases e)
  case None
  then have "\<forall>a \<in> set as. a < now" "cnt (\<lambda>a. now < a + W) as = 0" "c = 1" "s = now"
    using assms(1,2,5) by (auto simp: turn_def intro!: cnt_none)
  then show ?thesis using turn_fresh[OF assms(1), of as now M as' "Suc n"] assms(4,6) by simp
next
  case (Some cs)
  obtain c0 s0 where cs: "cs = (c0, s0)" by fastforce
  note k = assms(2)[unfolded Some cs knows.simps]
  show ?thesis
  proof (cases "W \<le> now - s0")
    case True
    have "\<forall>a \<in> set as. a < now" using k True assms(1) by auto
    moreover have "cnt (\<lambda>a. now < a + W) as \<le> cnt (\<lambda>a. s0 \<le> a) as" using True assms(1) by (intro cnt_mono) auto
    ultimately show ?thesis
      using k True assms(4-6) Some cs turn_fresh[OF assms(1), of as now M as' "Suc n"] by (simp add: turn_def)
  next
    case False
    then have c: "c = c0 + 1" "s = s0" using assms(5) Some cs by (simp_all add: turn_def)
    have "unat c0 < 2 ^ 32 - 1" using k assms(3) by linarith
    then have u: "unat c = Suc (unat c0)" using c(1) by (simp add: unat_add_lt)
    have before: "cnt (\<lambda>a. t \<le> a \<and> a < t + W) as \<le> cnt (\<lambda>a. s \<le> a) as + cnt (\<lambda>a. s < a + W \<and> a < s) as"
      if "t \<le> now" "now < t + W" for t
      using that k c(2) by (intro cnt_split) auto
    have "cnt (\<lambda>a. t \<le> a \<and> a < t + W) (as @ [now]) \<le> 2 * M" if "Suc (unat c0) \<le> M" for t
      using before[of t] k c(2) that assms(4) by (cases "t \<le> now \<and> now < t + W") (auto simp: bounded_def)
    then show ?thesis using k c u assms(4,6) False by (auto simp: bounded_def)
  qed
qed


section \<open>A call on the table\<close>

definition wns :: "RateLimiter \<Rightarrow> nat" where
  "wns rl = window_secs rl * 1000000000"

definition swept :: "nat \<Rightarrow> RateLimiter \<Rightarrow> RateLimiter" where
  "swept now rl = (if tracked_count rl > MAX_TRACKED_IPS then RateLimiter_cleanup now rl else rl)"

definition one_entry :: "RateLimiter \<Rightarrow> bool" where
  "one_entry rl \<longleftrightarrow> distinct (map fst (limits rl))"

lemma put_keys: "set (map fst (put ip e m)) = insert ip (set (map fst m))"
  by (induction ip e m rule: put.induct) auto

lemma distinct_put: "distinct (map fst m) \<Longrightarrow> distinct (map fst (put ip e m))"
proof (induction ip e m rule: put.induct)
  case (2 ip e k v m)
  then show ?case using put_keys[of ip e m] by auto
qed simp

lemma map_of_filter_distinct:
  "distinct (map fst m) \<Longrightarrow>
     map_of (filter P m) k = (case map_of m k of Some v \<Rightarrow> if P (k, v) then Some v else None | None \<Rightarrow> None)"
proof (induction m)
  case (Cons x m)
  have "map_of (filter P m) (fst x) = None" using Cons.prems by (auto simp: map_of_eq_None_iff)
  then show ?case using Cons by (cases x) (auto split: option.splits)
qed simp

lemma cleanup_limiter [simp]:
  "window_secs (RateLimiter_cleanup now rl) = window_secs rl" "max_requests (RateLimiter_cleanup now rl) = max_requests rl"
  "wns (RateLimiter_cleanup now rl) = wns rl"
  by (simp_all add: RateLimiter_cleanup_def wns_def Let_def)

lemma cleanup_one_entry: "one_entry rl \<Longrightarrow> one_entry (RateLimiter_cleanup now rl)"
  by (simp add: one_entry_def RateLimiter_cleanup_def Let_def distinct_map_filter)

lemma cleanup_knows:
  assumes "one_entry rl" "knows M (wns rl) n l as (map_of (limits rl) ip)" "l \<le> now"
  shows "knows M (wns rl) n now as (map_of (limits (RateLimiter_cleanup now rl)) ip)"
proof (cases "map_of (limits rl) ip")
  case None
  then show ?thesis using assms knows_later[OF assms(2,3) order_refl]
    by (simp add: RateLimiter_cleanup_def Let_def one_entry_def map_of_filter_distinct)
next
  case (Some cs)
  obtain c s where cs: "cs = (c, s)" by fastforce
  show ?thesis
  proof (cases "elapsed_secs now s < window_secs rl * 2")
    case True
    then show ?thesis using Some cs assms knows_later[OF assms(2,3) order_refl]
      by (simp add: RateLimiter_cleanup_def Let_def one_entry_def map_of_filter_distinct)
  next
    case False
    then have "window_secs rl * 2 * 1000000000 \<le> now - s" using elapsed_ge[of "window_secs rl * 2" now s] by simp
    then have "wns rl * 2 \<le> now - s" by (simp add: wns_def)
    moreover have "\<forall>a \<in> set as. a < s + wns rl" "s \<le> now" using assms(2,3) Some cs by auto
    ultimately have "\<forall>a \<in> set as. a + wns rl \<le> now" by fastforce
    then show ?thesis using Some cs False assms(1)
      by (simp add: RateLimiter_cleanup_def Let_def one_entry_def map_of_filter_distinct)
  qed
qed

lemma swept_simps [simp]:
  "window_secs (swept now rl) = window_secs rl" "max_requests (swept now rl) = max_requests rl" "wns (swept now rl) = wns rl"
  by (simp_all add: swept_def)

lemma swept_one_entry: "one_entry rl \<Longrightarrow> one_entry (swept now rl)"
  by (simp add: swept_def cleanup_one_entry)

lemma swept_knows:
  "one_entry rl \<Longrightarrow> knows M (wns rl) n l as (map_of (limits rl) ip) \<Longrightarrow> l \<le> now \<Longrightarrow>
     knows M (wns rl) n now as (map_of (limits (swept now rl)) ip)"
  by (simp add: swept_def cleanup_knows knows_later)

lemma check_turn:
  assumes "check_rate_limited H now ip rid rl = (r, rl')"
  shows "map_of (limits rl') k =
      (if k = ip then Some (turn (wns rl) now (map_of (limits (swept now rl)) ip)) else map_of (limits (swept now rl)) k) \<and>
    (r = None \<longleftrightarrow> unat (fst (turn (wns rl) now (map_of (limits (swept now rl)) ip))) \<le> unat (max_requests rl)) \<and>
    max_requests rl' = max_requests rl \<and> window_secs rl' = window_secs rl \<and> (one_entry rl \<longrightarrow> one_entry rl')"
proof -
  have e: "window_secs rl \<le> elapsed_secs now s \<longleftrightarrow> wns rl \<le> now - s" for s
    using elapsed_ge by (simp add: wns_def)
  show ?thesis
    using assms swept_one_entry[of rl now]
    unfolding check_rate_limited_def swept_def[symmetric] Let_def
    by (auto simp: map_of_put turn_def e word_le_nat_alt word_less_nat_alt not_less one_entry_def distinct_put Suc_le_eq unat_gt_0 unat_eq_zero
             split: option.splits prod.splits if_splits)
qed

lemma passes_bounded:
  assumes "0 < wns rl" "one_entry rl" "sorted (map fst calls)" "\<forall>t \<in> fst ` set calls. l \<le> t"
    "n + length calls < 2 ^ 32" "bounded (unat (max_requests rl)) (wns rl) as"
    "knows (unat (max_requests rl)) (wns rl) n l as (map_of (limits rl) ip)"
  shows "bounded (unat (max_requests rl)) (wns rl) (as @ passes H ip calls rl)"
  using assms
proof (induction H ip calls rl arbitrary: l n as rule: passes.induct)
  case (2 H ip now cs rl)
  have "knows (unat (max_requests rl)) (wns rl) (Suc n) now as (map_of (limits (RateLimiter_cleanup now rl)) ip)"
    using cleanup_knows[OF 2(3,8)] 2(5) knows_later[of _ _ n now as _ now "Suc n"] by auto
  then show ?case
    using 2(1)[of now "Suc n" as] 2(2-7) cleanup_one_entry[OF 2(3)] by simp
next
  case (3 H ip now k rid cs rl)
  obtain r rl' where c: "check_rate_limited H now k rid rl = (r, rl')" by fastforce
  let ?e = "map_of (limits (swept now rl)) ip"
  have now: "l \<le> now" using 3(5) by simp
  have kn: "knows (unat (max_requests rl)) (wns rl) n now as ?e" by (rule swept_knows[OF 3(3,8) now])
  define as' where "as' = as @ (if k = ip \<and> r = None then [now] else [])"
  have t: "max_requests rl' = max_requests rl" "wns rl' = wns rl" "one_entry rl'"
    using check_turn[OF c, of ip] 3(3) by (simp_all add: wns_def)
  have "knows (unat (max_requests rl)) (wns rl) (Suc n) now as' (map_of (limits rl') ip) \<and>
      bounded (unat (max_requests rl)) (wns rl) as'"
  proof (cases "k = ip")
    case True
    obtain c1 s1 where u: "turn (wns rl) now ?e = (c1, s1)" by fastforce
    have "as' = (if unat c1 \<le> unat (max_requests rl) then as @ [now] else as)"
      using check_turn[OF c, of ip] True u by (auto simp: as'_def)
    then show ?thesis
      using turn_knows[OF 3(2) kn _ 3(7) u, of as'] 3(6) check_turn[OF c, of ip] True u by simp
  next
    case False
    then show ?thesis using kn 3(7) check_turn[OF c, of ip] knows_later[OF kn order_refl le_SucI[OF order_refl]] by (auto simp: as'_def)
  qed
  then have "bounded (unat (max_requests rl')) (wns rl') (as' @ passes H ip cs rl')"
    using 3(1)[OF c[symmetric], of now "Suc n" as'] 3(2,4,5,6) t by simp
  then show ?case using c t by (simp add: as'_def)
qed simp


definition burst :: "(nat \<times> rl_call) list" where
  "burst = [(0, Check (V4 [192, 0, 2, 1]) ''a''), (1, Check (V4 [192, 0, 2, 1]) ''b''),
            (2, Check (V4 [192, 0, 2, 1]) ''c''), (3, Cleanup), (1000000001, Check (V4 [192, 0, 2, 1]) ''d'')]"

lemma burst_passes: "passes list_headers (V4 [192, 0, 2, 1]) burst (RateLimiter_new 2 1) = [0, 1, 1000000001]"
  by code_simp


text \<open>The table of addresses is not capped: cleaning up removes only expired entries, so requests from ever new
  addresses within one window make it as large as they are many.\<close>

lemma tracked_addresses_unbounded:
  assumes "distinct ips" "0 < window"
  shows "limits (foldl (\<lambda>rl ip. snd (check_rate_limited H now ip [] rl)) (RateLimiter_new m window) ips) =
    map (\<lambda>ip. (ip, 1, now)) ips"
  using assms(1)
proof (induction ips rule: rev_induct)
  case (snoc ip ips)
  define rl where "rl = foldl (\<lambda>rl ip. snd (check_rate_limited H now ip [] rl)) (RateLimiter_new m window) ips"
  have l: "limits rl = map (\<lambda>ip. (ip, 1, now)) ips" using snoc by (simp add: rl_def)
  have w: "window_secs rl = window"
  proof -
    have "window_secs (foldl (\<lambda>rl ip. snd (check_rate_limited H now ip [] rl)) q ips) = window_secs q" for q
      by (induction ips arbitrary: q) (simp_all add: check_turn[OF prod.collapse[symmetric]])
    then show ?thesis by (simp add: rl_def RateLimiter_new_def)
  qed
  have c: "limits (RateLimiter_cleanup now rl) = limits rl"
    using assms(2) by (simp add: RateLimiter_cleanup_def Let_def l w elapsed_secs_def filter_map comp_def)
  have n: "map_of (map (\<lambda>ip. (ip, 1, now)) ips) ip = None" using snoc.prems by (auto simp: map_of_eq_None_iff)
  have p: "put ip e (map (\<lambda>ip. (ip, 1, now)) ips) = map (\<lambda>ip. (ip, 1, now)) ips @ [(ip, e)]" for e
    using snoc.prems by (induction ips) auto
  have "limits (snd (check_rate_limited H now ip [] rl)) = map (\<lambda>ip. (ip, 1, now)) (ips @ [ip])"
    using assms(2) by (simp add: check_rate_limited_def Let_def c l n p w elapsed_secs_def)
  then show ?case by (simp add: rl_def)
qed (simp add: RateLimiter_new_def)

end
