(* ===== verification/Trace_Context.thy ===== *)
theory Trace_Context
  imports Client_Addr
begin

text \<open>
  W3C Trace Context (\<^verbatim>\<open>src/trace_context.rs\<close>): reading, generating and writing the
  \<^verbatim>\<open>traceparent\<close> header.  The random bytes of a new identifier are arguments.
\<close>

definition HEX_CHARS :: string where
  "HEX_CHARS = ''0123456789abcdef''"

record TraceContext =
  trace_id :: string
  span_id :: string
  parent_span_id :: "string option"
  trace_flags :: nat
  tracestate :: "string option"
  traceparent_cache :: string

definition hex_digit_value :: "char \<Rightarrow> nat option" where
  "hex_digit_value c =
     (let n = of_char c :: nat in
      if 48 \<le> n \<and> n \<le> 57 then Some (n - 48) else if 97 \<le> n \<and> n \<le> 102 then Some (n - 97 + 10) else None)"

definition parse_hex_byte :: "char \<Rightarrow> char \<Rightarrow> nat option" where
  "parse_hex_byte hi lo =
     (case hex_digit_value hi of
        None \<Rightarrow> None
      | Some high \<Rightarrow> (case hex_digit_value lo of None \<Rightarrow> None | Some low \<Rightarrow> Some (high * 16 + low)))"

definition is_valid_lowercase_hex :: "string \<Rightarrow> bool" where
  "is_valid_lowercase_hex s = list_all (\<lambda>c. is_digit_byte c \<or> 97 \<le> (of_char c :: nat) \<and> (of_char c :: nat) \<le> 102) s"

definition hex_encode :: "nat list \<Rightarrow> string" where
  "hex_encode raw = concat (map (\<lambda>b. [HEX_CHARS ! (b div 16), HEX_CHARS ! (b mod 16)]) raw)"

definition build_traceparent :: "string \<Rightarrow> string \<Rightarrow> nat \<Rightarrow> string" where
  "build_traceparent tid sid flags =
     ''00-'' @ tid @ ''-'' @ sid @ ''-'' @ [HEX_CHARS ! (flags div 16), HEX_CHARS ! (flags mod 16)]"

definition slice :: "nat \<Rightarrow> nat \<Rightarrow> string \<Rightarrow> string" where
  "slice a b s = take (b - a) (drop a s)"

definition TraceContext_parse :: "nat list \<Rightarrow> string \<Rightarrow> TraceContext option" where
  "TraceContext_parse raw8 header =
     (if length header < 55 then None
      else case parse_hex_byte (header ! 0) (header ! 1) of
        None \<Rightarrow> None
      | Some version \<Rightarrow>
          if version = 0xff then None
          else if version = 0 \<and> length header \<noteq> 55 then None
          else if header ! 2 \<noteq> CHR ''-'' \<or> header ! 35 \<noteq> CHR ''-'' \<or> header ! 52 \<noteq> CHR ''-'' then None
          else
            let tid = slice 3 35 header; pid = slice 36 52 header in
            if \<not> is_valid_lowercase_hex tid \<or> list_all (\<lambda>c. c = CHR ''0'') tid then None
            else if \<not> is_valid_lowercase_hex pid \<or> list_all (\<lambda>c. c = CHR ''0'') pid then None
            else case parse_hex_byte (header ! 53) (header ! 54) of
              None \<Rightarrow> None
            | Some raw_flags \<Rightarrow>
                let flags = raw_flags mod 2; sid = hex_encode raw8 in
                Some \<lparr>trace_id = tid, span_id = sid, parent_span_id = Some pid, trace_flags = flags,
                      tracestate = None, traceparent_cache = build_traceparent tid sid flags\<rparr>)"

definition TraceContext_generate :: "nat list \<Rightarrow> nat list \<Rightarrow> TraceContext" where
  "TraceContext_generate raw16 raw8 =
     (let tid = hex_encode raw16; sid = hex_encode raw8 in
      \<lparr>trace_id = tid, span_id = sid, parent_span_id = None, trace_flags = 0, tracestate = None,
       traceparent_cache = build_traceparent tid sid 0\<rparr>)"

fun join_len :: "string list \<Rightarrow> nat" where
  "join_len [] = 0"
| "join_len es = sum_list (map length es) + length es - 1"

function (sequential) drop_entries :: "string list \<Rightarrow> string list" where
  "drop_entries es = (if join_len es \<le> 512 \<or> es = [] then es else drop_entries (butlast es))"
  by pat_completeness auto
termination by (relation "measure length") auto

declare drop_entries.simps [simp del]

definition truncate_tracestate :: "string \<Rightarrow> string" where
  "truncate_tracestate ts =
     (if length ts \<le> 512 then ts
      else join_with (CHR '','')
             (drop_entries (filter (\<lambda>e. length e \<le> 128) (map str_trim (split_on (CHR '','') ts)))))"

definition TraceContext_from_headers :: "'h headers \<Rightarrow> nat list \<Rightarrow> nat list \<Rightarrow> 'h \<Rightarrow> TraceContext" where
  "TraceContext_from_headers H raw16 raw8 h =
     (case header_str H h ''traceparent'' of
        None \<Rightarrow> TraceContext_generate raw16 raw8
      | Some tp \<Rightarrow>
          (case TraceContext_parse raw8 tp of
             None \<Rightarrow> TraceContext_generate raw16 raw8
           | Some ctx \<Rightarrow>
               (case header_str H h ''tracestate'' of
                  Some ts \<Rightarrow> ctx\<lparr>tracestate := Some (truncate_tracestate ts)\<rparr>
                | None \<Rightarrow> ctx)))"

definition trace_flags_hex :: "TraceContext \<Rightarrow> string" where
  "trace_flags_hex ctx = slice 53 55 (traceparent_cache ctx)"

definition derived_request_id :: "TraceContext \<Rightarrow> string" where
  "derived_request_id ctx = slice 0 16 (trace_id ctx) @ ''-'' @ slice 0 8 (span_id ctx)"

section \<open>What is written can be read\<close>

definition raw_ok :: "nat \<Rightarrow> nat list \<Rightarrow> bool" where
  "raw_ok n raw \<longleftrightarrow> length raw = n \<and> (\<forall>b \<in> set raw. b < 256)"

definition ctx_ok :: "TraceContext \<Rightarrow> bool" where
  "ctx_ok ctx \<longleftrightarrow>
     length (trace_id ctx) = 32 \<and> is_valid_lowercase_hex (trace_id ctx) \<and>
     length (span_id ctx) = 16 \<and> is_valid_lowercase_hex (span_id ctx) \<and> trace_flags ctx < 2 \<and>
     traceparent_cache ctx = build_traceparent (trace_id ctx) (span_id ctx) (trace_flags ctx)"

lemma less_16_cases: "d < 16 \<Longrightarrow> d \<in> {0, 1, 2, 3, 4, 5, 6, 7, 8, 9, 10, 11, 12, 13, 14, 15 :: nat}"
  by (simp, presburger)

lemma hex_char: "d < 16 \<Longrightarrow> hex_digit_value (HEX_CHARS ! d) = Some d \<and> is_valid_lowercase_hex [HEX_CHARS ! d]"
  by (drule less_16_cases)
     (auto simp: HEX_CHARS_def hex_digit_value_def is_valid_lowercase_hex_def is_digit_byte_def)

lemma hex_encode_ok:
  "\<forall>b \<in> set raw. b < 256 \<Longrightarrow> length (hex_encode raw) = 2 * length raw \<and> is_valid_lowercase_hex (hex_encode raw)"
proof (induction raw)
  case (Cons b raw)
  then have "b div 16 < 16" "b mod 16 < 16" by auto
  then show ?case using Cons hex_char[of "b div 16"] hex_char[of "b mod 16"]
    by (simp add: hex_encode_def is_valid_lowercase_hex_def)
qed (simp add: hex_encode_def is_valid_lowercase_hex_def)

lemma slice_ok: "is_valid_lowercase_hex s \<Longrightarrow> is_valid_lowercase_hex (slice a b s)"
  by (auto simp: is_valid_lowercase_hex_def slice_def list_all_iff dest!: in_set_takeD in_set_dropD)

lemma generate_ok: "raw_ok 16 r16 \<Longrightarrow> raw_ok 8 r8 \<Longrightarrow> ctx_ok (TraceContext_generate r16 r8)"
  using hex_encode_ok[of r16] hex_encode_ok[of r8] by (simp add: ctx_ok_def TraceContext_generate_def Let_def raw_ok_def)

lemma parse_ok:
  assumes "TraceContext_parse r8 header = Some ctx" "raw_ok 8 r8"
  shows "ctx_ok ctx \<and> trace_id ctx = slice 3 35 header \<and> parent_span_id ctx = Some (slice 36 52 header)"
  using assms hex_encode_ok[of r8]
  by (auto simp: TraceContext_parse_def Let_def ctx_ok_def raw_ok_def slice_def split: if_splits option.splits)

lemma from_headers_ok: "raw_ok 16 r16 \<Longrightarrow> raw_ok 8 r8 \<Longrightarrow> ctx_ok (TraceContext_from_headers H r16 r8 h)"
  using generate_ok parse_ok by (fastforce simp: TraceContext_from_headers_def ctx_ok_def split: option.splits)

text \<open>The next hop, reading the header a context writes, continues the same trace as a child of its span.\<close>

lemma traceparent_continues:
  assumes "ctx_ok ctx" "\<not> list_all (\<lambda>c. c = CHR ''0'') (trace_id ctx)" "\<not> list_all (\<lambda>c. c = CHR ''0'') (span_id ctx)"
  shows "\<exists>next. TraceContext_parse r8 (traceparent_cache ctx) = Some next \<and> trace_id next = trace_id ctx \<and>
    parent_span_id next = Some (span_id ctx) \<and> trace_flags next = trace_flags ctx"
proof -
  let ?t = "trace_id ctx" and ?s = "span_id ctx" and ?f = "trace_flags ctx"
  have l: "length ?t = 32" "length ?s = 16" and f: "?f < 2" using assms(1) by (simp_all add: ctx_ok_def)
  define h where "h = build_traceparent ?t ?s ?f"
  have hd: "h ! 0 = CHR ''0''" "h ! 1 = CHR ''0''" "h ! 2 = CHR ''-''" by (simp_all add: h_def build_traceparent_def)
  have "h ! 35 = CHR ''-''" "h ! 52 = CHR ''-''" "length h = 55" "slice 3 35 h = ?t" "slice 36 52 h = ?s"
    "h ! 53 = HEX_CHARS ! 0" "h ! 54 = HEX_CHARS ! ?f"
    using l f by (simp_all add: h_def build_traceparent_def nth_append slice_def)
  moreover have "parse_hex_byte (CHR ''0'') (CHR ''0'') = Some 0"
    by (simp add: parse_hex_byte_def hex_digit_value_def)
  moreover have "parse_hex_byte (HEX_CHARS ! 0) (HEX_CHARS ! ?f) = Some ?f"
    using hex_char[of 0] hex_char[of ?f] f by (simp add: parse_hex_byte_def)
  ultimately have "\<exists>next. TraceContext_parse r8 h = Some next \<and> trace_id next = ?t \<and> parent_span_id next = Some ?s \<and>
      trace_flags next = ?f"
    using assms hd f by (simp add: TraceContext_parse_def Let_def ctx_ok_def)
  then show ?thesis using assms(1) by (simp add: ctx_ok_def h_def)
qed

lemma drop_entries_fits: "join_len (drop_entries es) \<le> 512"
proof (induction es rule: drop_entries.induct)
  case (1 es)
  then show ?case using drop_entries.simps[of es] by (cases "join_len es \<le> 512 \<or> es = []") auto
qed

lemma length_join_with: "length (join_with c es) = join_len es"
  by (induction es rule: join_with.induct) (auto simp: join_with_Cons)

lemma truncate_fits: "length (truncate_tracestate ts) \<le> 512"
  by (simp add: truncate_tracestate_def length_join_with drop_entries_fits)

end
