(* ===== verification/Plugin_Cookies.thy ===== *)
theory Plugin_Cookies
  imports Http_Headers
begin

text \<open>
  The cookies of plugins (\<^verbatim>\<open>src/plugin/cookies.rs\<close>): joining the \<^verbatim>\<open>Cookie\<close> field lines
  of a request, reading the cookies of a plugin's namespace, taking the whole \<^verbatim>\<open>__oxp_\<close> namespace
  out of what PHP is given, and writing a plugin's \<^verbatim>\<open>Set-Cookie\<close>.
\<close>

section \<open>Reading\<close>

definition join_cookie_field_lines :: "'h headers \<Rightarrow> 'h \<Rightarrow> 'h" where
  "join_cookie_field_lines H h =
     (case get_all H h ''cookie'' of
        line # line' # lines \<Rightarrow>
          (case from_bytes H (line @ concat (map (\<lambda>l. ''; '' @ l) (line' # lines))) of
             Some v \<Rightarrow> hset H h ''cookie'' v
           | None \<Rightarrow> hremove H h ''cookie'')
      | _ \<Rightarrow> h)"

definition cookie_of_plugin :: "string \<Rightarrow> string \<Rightarrow> (string \<times> string) option" where
  "cookie_of_plugin pfx pair =
     (case split_once (CHR ''='') (str_trim pair) of
        None \<Rightarrow> None
      | Some (name, val) \<Rightarrow> map_option (\<lambda>stripped. (stripped, str_trim val)) (strip_prefix (str_trim name) pfx))"

definition extract_plugin_cookies :: "'h headers \<Rightarrow> 'h \<Rightarrow> string \<Rightarrow> (string \<times> string) list" where
  "extract_plugin_cookies H h pfx =
     (case header_str H h ''cookie'' of
        None \<Rightarrow> []
      | Some s \<Rightarrow> List.map_filter (cookie_of_plugin pfx) (split_on (CHR '';'') s))"

definition PluginCookies_get :: "(string \<times> string) list \<Rightarrow> string \<Rightarrow> string option" where
  "PluginCookies_get cookies key = find_map (\<lambda>(k, v). if k = key then Some v else None) cookies"

definition find_raw_cookie :: "'h headers \<Rightarrow> 'h \<Rightarrow> string \<Rightarrow> string option" where
  "find_raw_cookie H h name =
     find_map (\<lambda>s. find_map (\<lambda>pair. case split_once (CHR ''='') pair of
                                      None \<Rightarrow> None
                                    | Some (k, v) \<Rightarrow> if str_trim k = name then Some (str_trim v) else None)
                            (split_on (CHR '';'') s))
              (List.map_filter (to_str H) (get_all H h ''cookie''))"

definition strip_plugin_cookies :: "'h headers \<Rightarrow> 'h \<Rightarrow> 'h" where
  "strip_plugin_cookies H h =
     (case header_str H h ''cookie'' of
        None \<Rightarrow> h
      | Some s \<Rightarrow>
          if \<not> contains s ''__oxp_'' then h
          else
            (case filter (\<lambda>pair. \<not> starts_with (trim_start pair) ''__oxp_'') (split_on (CHR '';'') s) of
               [] \<Rightarrow> hremove H h ''cookie''
             | p # ps \<Rightarrow>
                 (case from_str H (join_str ''; '' (map str_trim (p # ps))) of
                    Some v \<Rightarrow> hset H h ''cookie'' v
                  | None \<Rightarrow> h)))"

section \<open>Writing\<close>

datatype SameSite = Strict | Lax | NoneSite

fun SameSite_as_str :: "SameSite \<Rightarrow> string" where
  "SameSite_as_str Strict = ''Strict''"
| "SameSite_as_str Lax = ''Lax''"
| "SameSite_as_str NoneSite = ''None''"

record CookieOptions =
  co_path :: "string option"
  co_domain :: "string option"
  co_max_age :: "int option"
  co_secure :: bool
  co_http_only :: bool
  co_same_site :: "SameSite option"

definition show_int :: "int \<Rightarrow> string" where
  "show_int n = (if n < 0 then CHR ''-'' # show_nat (nat (- n)) else show_nat (nat n))"

definition opt_text :: "string \<Rightarrow> string option \<Rightarrow> string" where
  "opt_text label v = (case v of Some s \<Rightarrow> label @ s | None \<Rightarrow> [])"

definition format_set_cookie_header :: "string \<Rightarrow> string \<Rightarrow> string \<Rightarrow> CookieOptions \<Rightarrow> string" where
  "format_set_cookie_header pfx key val opts =
     pfx @ key @ ''='' @ val @
     opt_text ''; Path='' (co_path opts) @
     opt_text ''; Domain='' (co_domain opts) @
     opt_text ''; Max-Age='' (map_option show_int (co_max_age opts)) @
     (if co_secure opts then ''; Secure'' else []) @
     (if co_http_only opts then ''; HttpOnly'' else []) @
     opt_text ''; SameSite='' (map_option SameSite_as_str (co_same_site opts))"

section \<open>What PHP is left with\<close>

text \<open>The pairs of the readable \<^verbatim>\<open>Cookie\<close> header, trimmed: what every later reader of the header starts from.\<close>

definition cookie_pairs :: "'h headers \<Rightarrow> 'h \<Rightarrow> string list" where
  "cookie_pairs H h =
     (case header_str H h ''cookie'' of None \<Rightarrow> [] | Some s \<Rightarrow> map str_trim (split_on (CHR '';'') s))"

abbreviation plugin_pair :: "string \<Rightarrow> bool" where
  "plugin_pair p \<equiv> starts_with p ''__oxp_''"

lemma visible_pieces: "list_all visible s \<Longrightarrow> p \<in> set (split_on c s) \<Longrightarrow> list_all visible p"
  using split_on_subset[of p c s] by (auto simp: list_all_iff)

lemma starts_with_trim_start:
  assumes "list_all visible s" "starts_with (trim_start s) ''__oxp_''"
  shows "starts_with (str_trim s) ''__oxp_''"
proof -
  obtain r where r: "trim_start s = ''__oxp_'' @ r" using assms(2) by (auto simp: starts_with_iff)
  have v: "list_all visible r"
    using assms(1) r by (metis list_all_append list_all_dropWhile trim_start_visible)
  have "str_trim s = rev (dropWhile blank (rev (''__oxp_'' @ r)))"
    using assms(1) r by (simp add: str_trim_visible trim_start_visible)
  also have "\<dots> = ''__oxp_'' @ rev (dropWhile blank (rev r))"
    by (cases "list_all blank r") (auto simp: dropWhile_append list_all_iff blank_def)
  finally show ?thesis by (simp add: starts_with_iff)
qed

lemma plugin_pair_trim: "list_all visible s \<Longrightarrow> starts_with (trim_start s) ''__oxp_'' = plugin_pair (str_trim s)"
  using starts_with_trim_start starts_with_trim by blast

lemma contains_piece:
  assumes "p \<in> set (split_on c s)" "list_all visible s" "plugin_pair (str_trim p)"
  shows "contains s ''__oxp_''"
proof -
  have v: "list_all visible p" using assms by (blast intro: visible_pieces)
  obtain a b where s: "s = a @ p @ b" using assms(1) in_split_on_iff[of p c s] by auto
  have "trim_start p = ''__oxp_'' @ drop 6 (trim_start p)"
    using starts_with_trim[OF v assms(3)] by (auto simp: starts_with_iff)
  moreover have "p = takeWhile blank p @ trim_start p" by (simp add: trim_start_visible[OF v])
  ultimately have "s = (a @ takeWhile blank p) @ ''__oxp_'' @ (drop 6 (trim_start p) @ b)"
    using s by (metis append_assoc)
  then show ?thesis using contains_append by metis
qed

lemma filter_pairs:
  "list_all visible s \<Longrightarrow>
   map str_trim (filter (\<lambda>p. \<not> starts_with (trim_start p) ''__oxp_'') (split_on (CHR '';'') s)) =
   filter (\<lambda>p. \<not> plugin_pair p) (map str_trim (split_on (CHR '';'') s))"
  by (auto simp: filter_map o_def plugin_pair_trim visible_pieces intro!: arg_cong[of _ _ "map str_trim"] filter_cong)

lemma stripped_pairs:
  assumes H: "header_laws H"
  shows "cookie_pairs H (strip_plugin_cookies H h) = filter (\<lambda>p. \<not> plugin_pair p) (cookie_pairs H h)"
proof (cases "header_str H h ''cookie''")
  case None
  then show ?thesis by (simp add: strip_plugin_cookies_def cookie_pairs_def)
next
  case (Some s)
  then have v: "list_all visible s" by (simp add: header_str_Some[OF H])
  let ?ps = "split_on (CHR '';'') s"
  show ?thesis
  proof (cases "contains s ''__oxp_''")
    case False
    then have "\<forall>p \<in> set (map str_trim ?ps). \<not> plugin_pair p" using contains_piece[OF _ v] by auto
    then have "filter (\<lambda>p. \<not> plugin_pair p) (map str_trim ?ps) = map str_trim ?ps" by (simp only: filter_id_conv)
    then show ?thesis using Some False by (simp add: strip_plugin_cookies_def cookie_pairs_def)
  next
    case True
    define qs where "qs = filter (\<lambda>p. \<not> starts_with (trim_start p) ''__oxp_'') ?ps"
    have q: "filter (\<lambda>p. \<not> plugin_pair p) (map str_trim ?ps) = map str_trim qs"
      unfolding qs_def by (rule filter_pairs[OF v, symmetric])
    show ?thesis
    proof (cases "qs = []")
      case True
      then have "strip_plugin_cookies H h = hremove H h ''cookie''"
        using Some \<open>contains s _\<close> by (simp add: strip_plugin_cookies_def qs_def)
      then show ?thesis using q Some True
        by (simp add: cookie_pairs_def header_str_def get_def header_lookup[OF H])
    next
      case False
      let ?j = "join_str ''; '' (map str_trim qs)"
      have qv: "\<forall>p \<in> set (map str_trim qs). CHR '';'' \<notin> set p \<and> list_all visible p"
      proof
        fix p
        assume "p \<in> set (map str_trim qs)"
        then obtain x where x: "p = str_trim x" "x \<in> set ?ps" by (auto simp: qs_def)
        then have xv: "list_all visible x" using v by (blast intro: visible_pieces)
        then show "CHR '';'' \<notin> set p \<and> list_all visible p"
          using x split_on_segments[OF x(2)] set_str_trim[OF xv] visible_trim[OF xv] by auto
      qed
      then have jv: "list_all visible ?j"
        by (intro join_str_visible) (auto simp: list_all_iff visible_def)
      then have st: "strip_plugin_cookies H h = hset H h ''cookie'' ?j"
        using Some \<open>contains s _\<close> False header_values(2)[OF H jv]
        by (auto simp: strip_plugin_cookies_def qs_def[symmetric] split: list.splits)
      have "header_str H (hset H h ''cookie'' ?j) ''cookie'' = Some ?j"
        by (rule header_str_set[OF H jv])
      then have "cookie_pairs H (strip_plugin_cookies H h) = map str_trim (map str_trim qs)"
        unfolding st cookie_pairs_def using trimmed_pieces[OF _ qv] False by simp
      also have "\<dots> = map str_trim qs"
        unfolding map_map o_def
        using v by (intro map_cong refl str_trim_idem) (auto simp: qs_def dest: visible_pieces)
      finally show ?thesis using q Some by (simp add: cookie_pairs_def)
    qed
  qed
qed

text \<open>Joining loses no cookie: the pairs of the lines follow each other, when every line is readable.\<close>

lemma joined_value: "line @ concat (map (\<lambda>l. ''; '' @ l) lines) = join_str ''; '' (line # lines)"
proof (induction lines arbitrary: line)
  case (Cons a ls)
  show ?case using Cons.IH[of a] by simp
qed simp

lemma map_trim_join:
  "ls \<noteq> [] \<Longrightarrow> list_all (list_all visible) ls \<Longrightarrow>
   map str_trim (split_on (CHR '';'') (join_str ''; '' ls)) = concat (map (\<lambda>l. map str_trim (split_on (CHR '';'') l)) ls)"
proof (induction "''; ''" ls rule: join_str.induct)
  case (3 l v va)
  let ?r = "join_str ''; '' (v # va)"
  have r: "list_all visible ?r" using 3(3) by (intro join_str_visible) (auto simp: visible_def)
  obtain q qs where q: "split_on (CHR '';'') ?r = q # qs" by (cases "split_on (CHR '';'') ?r") auto
  have "split_on (CHR '';'') (l @ ''; '' @ ?r) = split_on (CHR '';'') l @ split_on (CHR '';'') (CHR '' '' # ?r)"
    by (simp add: split_on_append)
  moreover have "map str_trim (split_on (CHR '';'') (CHR '' '' # ?r)) = map str_trim (split_on (CHR '';'') ?r)"
    using visible_pieces[OF r, of q "CHR '';''"] q by (simp add: split_on_Cons_neq str_trim_blank)
  ultimately show ?case using 3 by simp
qed simp_all

lemma joined_pairs:
  assumes H: "header_laws H" and v: "list_all (list_all visible) (get_all H h ''cookie'')"
  shows "cookie_pairs H (join_cookie_field_lines H h) =
    concat (map (\<lambda>l. map str_trim (split_on (CHR '';'') l)) (get_all H h ''cookie''))"
proof -
  consider "get_all H h ''cookie'' = []" | l where "get_all H h ''cookie'' = [l]"
    | l l' ls where "get_all H h ''cookie'' = l # l' # ls"
    by (cases "get_all H h ''cookie''" rule: remdups_adj.cases) auto
  then show ?thesis
  proof cases
    case (3 l l' ls)
    let ?j = "join_str ''; '' (l # l' # ls)"
    have jv: "list_all visible ?j" using v 3 by (intro join_str_visible) (auto simp: visible_def)
    then have "list_all value_byte ?j" by (rule visible_value)
    then have "join_cookie_field_lines H h = hset H h ''cookie'' ?j"
      unfolding join_cookie_field_lines_def 3 list.case joined_value header_values(3)[OF H] by simp
    moreover have "header_str H (hset H h ''cookie'' ?j) ''cookie'' = Some ?j"
      by (rule header_str_set[OF H jv])
    moreover have "map str_trim (split_on (CHR '';'') ?j) =
        concat (map (\<lambda>l. map str_trim (split_on (CHR '';'') l)) (l # l' # ls))"
      using v by (intro map_trim_join) (simp_all only: 3, simp)
    ultimately show ?thesis unfolding 3 cookie_pairs_def by (simp only: option.case)
  qed (use v in \<open>auto simp: join_cookie_field_lines_def cookie_pairs_def header_str_def get_def header_values[OF H]\<close>)
qed

end
