(* ===== verification/Compression.thy ===== *)
theory Compression
  imports Http_Headers
begin

text \<open>
  Content codings (\<^verbatim>\<open>src/server/compression.rs\<close>): weighing \<^verbatim>\<open>Accept-Encoding\<close>, choosing a
  coding, encoding a body and rewriting the headers of the response, and declaring that a response
  varies.  The three encoders are crates: an encoder is a parameter that gives the encoded bytes or fails.
\<close>

section \<open>Codings and levels\<close>

datatype Coding = Br | Gzip | Zstd

definition Coding_ALL :: "Coding list" where
  "Coding_ALL = [Br, Gzip, Zstd]"

definition PER_REQUEST :: "Coding list" where
  "PER_REQUEST = [Zstd, Br, Gzip]"

definition ARTIFACT :: "Coding list" where
  "ARTIFACT = [Br, Zstd, Gzip]"

fun Coding_name :: "Coding \<Rightarrow> string" where
  "Coding_name Br = ''br''"
| "Coding_name Gzip = ''gzip''"
| "Coding_name Zstd = ''zstd''"

definition Coding_from_name :: "string \<Rightarrow> Coding option" where
  "Coding_from_name name =
     (case find (\<lambda>c. eq_ignore_case name (Coding_name c)) Coding_ALL of
        Some c \<Rightarrow> Some c
      | None \<Rightarrow> if eq_ignore_case name ''brotli'' then Some Br else None)"

record Levels =
  lv_brotli :: int
  lv_gzip :: int
  lv_zstd :: int

fun Levels_set :: "Coding \<Rightarrow> int \<Rightarrow> Levels \<Rightarrow> Levels" where
  "Levels_set Br level lv = lv\<lparr>lv_brotli := level\<rparr>"
| "Levels_set Gzip level lv = lv\<lparr>lv_gzip := level\<rparr>"
| "Levels_set Zstd level lv = lv\<lparr>lv_zstd := level\<rparr>"

fun level :: "Levels \<Rightarrow> Coding \<Rightarrow> int" where
  "level lv Br = lv_brotli lv"
| "level lv Gzip = lv_gzip lv"
| "level lv Zstd = lv_zstd lv"

definition Levels_any :: "Levels \<Rightarrow> bool" where
  "Levels_any lv = list_ex (\<lambda>c. level lv c > 0) Coding_ALL"

section \<open>Accept-Encoding\<close>

definition frac_value :: "string \<Rightarrow> nat" where
  "frac_value f = sum_list (map (\<lambda>(d, scale). digit_val d * scale) (zip f [100, 10, 1]))"

definition parse_weight :: "string \<Rightarrow> nat option" where
  "parse_weight parameter =
     (case split_once (CHR ''='') parameter of
        None \<Rightarrow> None
      | Some (name, v) \<Rightarrow>
          if \<not> eq_ignore_case (str_trim name) ''q'' then None
          else
            (let val = str_trim v;
                 (integer, fraction) = (case split_once (CHR ''.'') val of Some p \<Rightarrow> p | None \<Rightarrow> (val, []))
             in case (if integer = ''0'' then Some 0 else if integer = ''1'' then Some 1000 else None) of
                  None \<Rightarrow> None
                | Some weight \<Rightarrow>
                    if length fraction > 3 \<or> \<not> list_all is_digit_byte fraction then None
                    else Some (min (weight + frac_value fraction) 1000)))"

fun qvalue_loop :: "string \<Rightarrow> string list \<Rightarrow> nat option \<Rightarrow> nat" where
  "qvalue_loop coding [] wildcard = (case wildcard of Some w \<Rightarrow> w | None \<Rightarrow> 0)"
| "qvalue_loop coding (element # es) wildcard =
     (case split_on (CHR '';'') element of
        [] \<Rightarrow> qvalue_loop coding es wildcard
      | first # parts \<Rightarrow>
          let name = str_trim first in
          if name = [] then qvalue_loop coding es wildcard
          else
            let weight = (case find_map parse_weight parts of Some w \<Rightarrow> w | None \<Rightarrow> 1000) in
            if eq_ignore_case name coding then weight
            else qvalue_loop coding es (if name = ''*'' then Some weight else wildcard))"

definition qvalue :: "string \<Rightarrow> string \<Rightarrow> nat" where
  "qvalue accept_encoding coding = qvalue_loop coding (split_on (CHR '','') accept_encoding) None"

type_synonym Acceptable = "Coding \<Rightarrow> nat"

definition Acceptable_parse :: "string \<Rightarrow> Levels \<Rightarrow> Acceptable" where
  "Acceptable_parse accept_encoding lv = (\<lambda>c. if level lv c > 0 then qvalue accept_encoding (Coding_name c) else 0)"

definition Acceptable_from_headers :: "'h headers \<Rightarrow> 'h \<Rightarrow> Levels \<Rightarrow> Acceptable" where
  "Acceptable_from_headers H h lv =
     (case List.map_filter (to_str H) (get_all H h ''accept-encoding'') of
        [] \<Rightarrow> (\<lambda>_. 0)
      | [line] \<Rightarrow> Acceptable_parse line lv
      | line # lines \<Rightarrow> Acceptable_parse (line @ concat (map (\<lambda>l. '','' @ l) lines)) lv)"

definition best :: "Acceptable \<Rightarrow> Coding list \<Rightarrow> Coding option" where
  "best acc preference =
     map_option snd
       (foldl (\<lambda>b c. if acc c > 0 \<and> (case b of None \<Rightarrow> True | Some (w, _) \<Rightarrow> acc c > w) then Some (acc c, c) else b)
          None preference)"

definition per_request :: "Acceptable \<Rightarrow> Coding option" where
  "per_request acc = best acc PER_REQUEST"

definition artifact :: "Acceptable \<Rightarrow> Coding option" where
  "artifact acc = best acc ARTIFACT"

section \<open>Which bodies are encoded\<close>

definition MIN_COMPRESS_SIZE :: nat where
  "MIN_COMPRESS_SIZE = 256"

definition MAX_COMPRESS_SIZE :: nat where
  "MAX_COMPRESS_SIZE = 3 * 1024 * 1024"

definition BLOCKING_THRESHOLD_LOW :: nat where
  "BLOCKING_THRESHOLD_LOW = 65536"

definition BLOCKING_THRESHOLD_HIGH :: nat where
  "BLOCKING_THRESHOLD_HIGH = 4096"

definition COMPRESSIBLE_TYPES :: "string list" where
  "COMPRESSIBLE_TYPES =
     [''text/html'', ''text/css'', ''text/plain'', ''text/xml'', ''text/javascript'', ''application/javascript'',
      ''application/json'', ''application/xml'', ''application/xhtml+xml'', ''application/rss+xml'',
      ''application/atom+xml'', ''application/manifest+json'', ''application/ld+json'', ''application/wasm'',
      ''image/svg+xml'', ''font/ttf'', ''font/otf'', ''application/x-font-ttf'', ''application/x-font-opentype'',
      ''application/vnd.ms-fontobject'']"

definition is_compressible :: "string \<Rightarrow> bool" where
  "is_compressible content_type =
     (let ct = str_trim (hd (split_on (CHR '';'') content_type)) in
      list_ex (\<lambda>t. eq_ignore_case ct t) COMPRESSIBLE_TYPES)"

definition in_window :: "nat \<Rightarrow> bool" where
  "in_window n = (MIN_COMPRESS_SIZE \<le> n \<and> n \<le> MAX_COMPRESS_SIZE)"

definition would_compress :: "Levels \<Rightarrow> string \<Rightarrow> nat \<Rightarrow> bool" where
  "would_compress lv content_type sz = (Levels_any lv \<and> is_compressible content_type \<and> in_window sz)"

definition blocking_threshold :: "Coding \<Rightarrow> int \<Rightarrow> nat" where
  "blocking_threshold coding lv =
     (if (case coding of Br \<Rightarrow> lv > 4 | Gzip \<Rightarrow> lv > 6 | Zstd \<Rightarrow> lv > 9) then BLOCKING_THRESHOLD_HIGH
      else BLOCKING_THRESHOLD_LOW)"

text \<open>The encoders, and whether a task handed to the blocking pool comes back.\<close>

record encoders =
  encode :: "Coding \<Rightarrow> int \<Rightarrow> string \<Rightarrow> string option"
  offloaded :: "Coding \<Rightarrow> string \<Rightarrow> bool"

definition compress :: "encoders \<Rightarrow> string \<Rightarrow> Coding \<Rightarrow> int \<Rightarrow> string option" where
  "compress E data coding lv =
     (case encode E coding lv data of
        Some out \<Rightarrow> if length out < length data then Some out else None
      | None \<Rightarrow> None)"

fun artifact_level :: "Coding \<Rightarrow> int" where
  "artifact_level Br = 11"
| "artifact_level Gzip = 9"
| "artifact_level Zstd = 19"

definition compress_artifact :: "encoders \<Rightarrow> string \<Rightarrow> Coding \<Rightarrow> string option" where
  "compress_artifact E data coding = compress E data coding (artifact_level coding)"

section \<open>Rewriting a response\<close>

definition already_varies :: "'h headers \<Rightarrow> 'h response \<Rightarrow> bool" where
  "already_varies H r =
     list_ex (\<lambda>m. eq_ignore_case (str_trim m) ''accept-encoding'')
       (concat (map (split_on (CHR '','')) (List.map_filter (to_str H) (get_all H (rs_headers r) ''vary''))))"

definition append_vary :: "'h headers \<Rightarrow> 'h response \<Rightarrow> 'h response" where
  "append_vary H r =
     (if already_varies H r then r
      else r\<lparr>rs_headers := happend H (rs_headers r) ''vary'' ''Accept-Encoding''\<rparr>)"

definition weakened_etag :: "'h headers \<Rightarrow> 'h \<Rightarrow> string option" where
  "weakened_etag H h =
     (case header_str H h ''etag'' of
        Some tag \<Rightarrow> if starts_with tag ''W/'' then None else from_bytes H (''W/'' @ tag)
      | None \<Rightarrow> None)"

definition mark_encoded :: "'h headers \<Rightarrow> Coding \<Rightarrow> 'h response \<Rightarrow> 'h response" where
  "mark_encoded H coding r =
     (let encoded_len = (case size_exact (rs_body r) of Some n \<Rightarrow> n | None \<Rightarrow> 0);
          h1 = hset H (rs_headers r) ''content-encoding'' (Coding_name coding);
          h2 = (case weakened_etag H h1 of Some tag \<Rightarrow> hset H h1 ''etag'' tag | None \<Rightarrow> h1);
          h3 = hremove H h2 ''accept-ranges'';
          h4 = hset H h3 ''content-length'' (show_nat encoded_len)
      in append_vary H (r\<lparr>rs_headers := h4\<rparr>))"

definition content_type_of :: "'h headers \<Rightarrow> 'h response \<Rightarrow> string" where
  "content_type_of H r = (case header_str H (rs_headers r) ''content-type'' of Some s \<Rightarrow> s | None \<Rightarrow> [])"

definition declared_out_of_window :: "'h headers \<Rightarrow> 'h response \<Rightarrow> bool" where
  "declared_out_of_window H r =
     (case get H (rs_headers r) ''content-length'' of
        None \<Rightarrow> False
      | Some cl \<Rightarrow>
          (case parse_uint (2 ^ 64 - 1) (case to_str H cl of Some s \<Rightarrow> s | None \<Rightarrow> ''0'') of
             Some len \<Rightarrow> \<not> in_window len
           | None \<Rightarrow> False))"

text \<open>A body whose collection fails goes out as a stream that fails: \<open>Streamed 0 None None\<close>.\<close>

definition maybe_compress :: "encoders \<Rightarrow> 'h headers \<Rightarrow> 'h response \<Rightarrow> Coding \<Rightarrow> int \<Rightarrow> 'h response" where
  "maybe_compress E H r coding lv =
     (if rs_status r = 206 then r
      else if \<not> is_compressible (content_type_of H r) then r
      else if get_all H (rs_headers r) ''content-encoding'' \<noteq> [] then r
      else if declared_out_of_window H r then r
      else
        (case size_upper (rs_body r) of
           None \<Rightarrow> r
         | Some upper \<Rightarrow>
             if \<not> in_window upper then r
             else
               (case collect (rs_body r) of
                  None \<Rightarrow> r\<lparr>rs_body := Streamed 0 None None\<rparr>
                | Some bytes \<Rightarrow>
                    if \<not> in_window (length bytes) then r\<lparr>rs_body := Full bytes\<rparr>
                    else if length bytes > blocking_threshold coding lv \<and> \<not> offloaded E coding bytes
                      then r\<lparr>rs_body := Full bytes\<rparr>
                    else
                      (case compress E bytes coding lv of
                         None \<Rightarrow> r\<lparr>rs_body := Full bytes\<rparr>
                       | Some c \<Rightarrow> mark_encoded H coding (r\<lparr>rs_body := Full c\<rparr>)))))"

definition mark_varies_by_encoding :: "'h headers \<Rightarrow> Levels \<Rightarrow> 'h response \<Rightarrow> 'h response" where
  "mark_varies_by_encoding H lv r =
     (if rs_status r = 206 \<or> get_all H (rs_headers r) ''content-encoding'' \<noteq> [] then r
      else
        (case size_exact (rs_body r) of
           None \<Rightarrow> r
         | Some len \<Rightarrow> if would_compress lv (content_type_of H r) len then append_vary H r else r))"

text \<open>The tail of \<^verbatim>\<open>handle_request\<close>: encode for this client, then declare the variance.\<close>

definition encode_response :: "encoders \<Rightarrow> 'h headers \<Rightarrow> Levels \<Rightarrow> Acceptable \<Rightarrow> 'h response \<Rightarrow> 'h response" where
  "encode_response E H lv acc r =
     mark_varies_by_encoding H lv
       (case per_request acc of Some coding \<Rightarrow> maybe_compress E H r coding (level lv coding) | None \<Rightarrow> r)"

section \<open>The choice of a coding\<close>

lemma parse_weight_le: "parse_weight p = Some w \<Longrightarrow> w \<le> 1000"
  by (auto simp: parse_weight_def Let_def split: option.splits prod.splits if_splits)

lemma best_fold:
  assumes "\<forall>w c. b = Some (w, c) \<longrightarrow> w = acc c \<and> w > 0"
  defines "f \<equiv> \<lambda>b c. if acc c > 0 \<and> (case b of None \<Rightarrow> True | Some (w, _) \<Rightarrow> acc c > w) then Some (acc c, c) else b"
  shows "case foldl f b cs of
      None \<Rightarrow> b = None \<and> (\<forall>c \<in> set cs. acc c = (0 :: nat))
    | Some (w, c) \<Rightarrow> w = acc c \<and> w > 0 \<and> (c \<in> set cs \<or> b = Some (w, c)) \<and> (\<forall>c' \<in> set cs. acc c' \<le> w) \<and>
        (\<forall>w' c'. b = Some (w', c') \<longrightarrow> w' \<le> w)"
  using assms(1)
proof (induction cs arbitrary: b)
  case Nil
  then show ?case by (auto split: option.splits)
next
  case (Cons c cs)
  have "\<forall>w c'. f b c = Some (w, c') \<longrightarrow> w = acc c' \<and> w > 0" using Cons.prems by (auto simp: f_def)
  note ih = Cons.IH[OF this]
  have "(f b c = None \<longleftrightarrow> b = None \<and> acc c = 0)"
    "\<And>w c'. f b c = Some (w, c') \<Longrightarrow> (c' = c \<or> b = Some (w, c')) \<and> acc c \<le> w \<and> (\<forall>w' c'. b = Some (w', c') \<longrightarrow> w' \<le> w)"
    by (auto simp: f_def split: option.splits if_splits)
  then show ?case using ih by (fastforce split: option.splits prod.splits)
qed

lemma best_spec:
  "case best acc cs of
     None \<Rightarrow> \<forall>c \<in> set cs. acc c = 0
   | Some c \<Rightarrow> c \<in> set cs \<and> acc c > 0 \<and> (\<forall>c' \<in> set cs. acc c' \<le> acc c)"
  using best_fold[where b = None and acc = acc and cs = cs] unfolding best_def by (auto split: option.splits prod.splits)

lemma per_request_max:
  "case per_request acc of None \<Rightarrow> \<forall>c. acc c = 0 | Some c \<Rightarrow> acc c > 0 \<and> (\<forall>c'. acc c' \<le> acc c)"
proof -
  have "c \<in> set PER_REQUEST" for c by (cases c) (simp_all add: PER_REQUEST_def)
  then show ?thesis using best_spec[where acc = acc and cs = PER_REQUEST] by (auto simp: per_request_def split: option.splits)
qed

lemma acceptable_offered: "Acceptable_from_headers H h lv c > 0 \<Longrightarrow> level lv c > 0"
  by (auto simp: Acceptable_from_headers_def Acceptable_parse_def split: list.splits if_splits)

lemma level_any: "level lv c > 0 \<Longrightarrow> Levels_any lv"
  by (cases c) (auto simp: Levels_any_def Coding_ALL_def)

text \<open>A coding refused by name is never chosen, whatever else the header says.\<close>

lemma refused_coding: "qvalue_loop c (element # es) w = 0"
  if "split_on (CHR '';'') element = [n, p]" "str_trim n \<noteq> []" "eq_ignore_case (str_trim n) c" "parse_weight p = Some 0"
  using that by (simp add: find_map_def)

section \<open>Encoding a response\<close>

lemma append_vary_sel [simp]:
  "rs_status (append_vary H r) = rs_status r" "rs_body (append_vary H r) = rs_body r"
  by (simp_all add: append_vary_def)

lemma append_vary_keeps: "header_laws H \<Longrightarrow> k \<noteq> ''vary'' \<Longrightarrow>
    get_all H (rs_headers (append_vary H r)) k = get_all H (rs_headers r) k"
  by (simp add: append_vary_def header_lookup)

lemma vary_text:
  assumes "header_laws H"
  shows "to_str H ''Accept-Encoding'' = Some ''Accept-Encoding''"
    "list_ex (\<lambda>m. eq_ignore_case (str_trim m) ''accept-encoding'') (split_on (CHR '','') ''Accept-Encoding'')"
  by (subst header_values(1)[OF assms], code_simp) code_simp

lemma append_vary_varies: "header_laws H \<Longrightarrow> already_varies H (append_vary H r)"
  using vary_text[of H]
  by (auto simp: append_vary_def already_varies_def header_lookup List.map_filter_def)

text \<open>What the header rewriting leaves: the coding, the length, no ranges and no strong tag.\<close>

lemma weak_tag_visible: "list_all visible tag \<Longrightarrow> list_all visible (''W/'' @ tag)"
  by (simp add: visible_def)

lemma mark_encoded_sel [simp]:
  "rs_status (mark_encoded H c r) = rs_status r" "rs_body (mark_encoded H c r) = rs_body r"
  by (simp_all add: mark_encoded_def Let_def)

lemma mark_encoded_headers:
  assumes H: "header_laws H" and b: "rs_body r = Full b"
  shows "get_all H (rs_headers (mark_encoded H c r)) ''content-encoding'' = [Coding_name c]"
    "get_all H (rs_headers (mark_encoded H c r)) ''content-length'' = [show_nat (length b)]"
    "get_all H (rs_headers (mark_encoded H c r)) ''accept-ranges'' = []"
    "already_varies H (mark_encoded H c r)"
    "\<And>k. k \<notin> {''content-encoding'', ''etag'', ''accept-ranges'', ''content-length'', ''vary''} \<Longrightarrow>
       get_all H (rs_headers (mark_encoded H c r)) k = get_all H (rs_headers r) k"
    "\<And>tag. header_str H (rs_headers (mark_encoded H c r)) ''etag'' = Some tag \<Longrightarrow> starts_with tag ''W/''"
proof -
  define h1 where "h1 = hset H (rs_headers r) ''content-encoding'' (Coding_name c)"
  define h2 where "h2 = (case weakened_etag H h1 of Some tag \<Rightarrow> hset H h1 ''etag'' tag | None \<Rightarrow> h1)"
  define h4 where "h4 = hset H (hremove H h2 ''accept-ranges'') ''content-length'' (show_nat (length b))"
  have m: "mark_encoded H c r = append_vary H (r\<lparr>rs_headers := h4\<rparr>)"
    unfolding mark_encoded_def Let_def b h4_def h2_def h1_def by simp
  have h2k: "get_all H h2 k = get_all H h1 k" if "k \<noteq> ''etag''" for k
    using that by (simp add: h2_def header_lookup[OF H] split: option.splits)
  have h4k: "get_all H h4 k = (if k = ''content-length'' then [show_nat (length b)]
      else if k = ''accept-ranges'' then [] else get_all H h2 k)" for k
    unfolding h4_def header_lookup[OF H] by (rule refl)
  have g: "get_all H (rs_headers (mark_encoded H c r)) k = get_all H h4 k" if "k \<noteq> ''vary''" for k
    unfolding m append_vary_keeps[OF H that] by simp
  show "get_all H (rs_headers (mark_encoded H c r)) ''content-encoding'' = [Coding_name c]"
    by (simp add: g h4k h2k h1_def header_lookup[OF H])
  show "get_all H (rs_headers (mark_encoded H c r)) ''content-length'' = [show_nat (length b)]"
    by (simp add: g h4k)
  show "get_all H (rs_headers (mark_encoded H c r)) ''accept-ranges'' = []"
    by (simp add: g h4k)
  show "already_varies H (mark_encoded H c r)" unfolding m by (rule append_vary_varies[OF H])
  show "get_all H (rs_headers (mark_encoded H c r)) k = get_all H (rs_headers r) k"
    if "k \<notin> {''content-encoding'', ''etag'', ''accept-ranges'', ''content-length'', ''vary''}" for k
    using that by (simp add: g h4k h2k h1_def header_lookup[OF H])
  show "starts_with tag ''W/''"
    if t: "header_str H (rs_headers (mark_encoded H c r)) ''etag'' = Some tag" for tag
  proof -
    have e: "header_str H h2 ''etag'' = Some tag"
      using t by (simp add: header_str_def get_def g h4k)
    show ?thesis
    proof (cases "weakened_etag H h1")
      case None
      then have s: "header_str H h1 ''etag'' = Some tag" using e by (simp add: h2_def)
      then have "list_all value_byte (''W/'' @ tag)"
        using weak_tag_visible[of tag, THEN visible_value] by (simp add: header_str_Some[OF H])
      then show ?thesis
        using None unfolding weakened_etag_def s header_values(3)[OF H] by (simp split: if_splits)
    next
      case (Some w)
      then obtain t0 where "w = ''W/'' @ t0" "list_all visible t0"
        by (auto simp: weakened_etag_def header_values[OF H] header_str_Some[OF H] split: option.splits if_splits)
      moreover have "h2 = hset H h1 ''etag'' w" by (simp add: h2_def Some)
      ultimately show ?thesis
        using e header_str_set[OF H weak_tag_visible] by (metis option.inject starts_with_append)
    qed
  qed
qed

lemma maybe_compress_cases:
  obtains (kept) b where "maybe_compress E H r coding lv = r\<lparr>rs_body := b\<rparr>" "collect b = collect (rs_body r)"
      "b = rs_body r \<or> collect (rs_body r) = None \<or> (\<exists>bytes. collect (rs_body r) = Some bytes \<and> b = Full bytes)"
  | (encoded) bytes c where "maybe_compress E H r coding lv = mark_encoded H coding (r\<lparr>rs_body := Full c\<rparr>)"
      "rs_status r \<noteq> 206" "is_compressible (content_type_of H r)"
      "get_all H (rs_headers r) ''content-encoding'' = []" "collect (rs_body r) = Some bytes"
      "compress E bytes coding lv = Some c" "in_window (length bytes)" "size_upper (rs_body r) \<noteq> None"
proof -
  let ?m = "maybe_compress E H r coding lv"
  have self: "r = r\<lparr>rs_body := rs_body r\<rparr>" by simp
  show ?thesis
  proof (cases "rs_status r = 206 \<or> \<not> is_compressible (content_type_of H r) \<or>
      get_all H (rs_headers r) ''content-encoding'' \<noteq> [] \<or> declared_out_of_window H r \<or>
      (\<forall>upper. size_upper (rs_body r) = Some upper \<longrightarrow> \<not> in_window upper)")
    case True
    then have "?m = r" by (auto simp: maybe_compress_def split: option.splits)
    then show ?thesis using kept[of "rs_body r"] self by simp
  next
    case False
    then obtain upper where u: "size_upper (rs_body r) = Some upper" "in_window upper" by blast
    have m: "?m = (case collect (rs_body r) of
        None \<Rightarrow> r\<lparr>rs_body := Streamed 0 None None\<rparr>
      | Some bytes \<Rightarrow>
          if \<not> in_window (length bytes) then r\<lparr>rs_body := Full bytes\<rparr>
          else if length bytes > blocking_threshold coding lv \<and> \<not> offloaded E coding bytes then r\<lparr>rs_body := Full bytes\<rparr>
          else (case compress E bytes coding lv of
                  None \<Rightarrow> r\<lparr>rs_body := Full bytes\<rparr>
                | Some c \<Rightarrow> mark_encoded H coding (r\<lparr>rs_body := Full c\<rparr>)))"
      using False u by (simp add: maybe_compress_def)
    show ?thesis
    proof (cases "collect (rs_body r)")
      case None
      then show ?thesis using m kept[of "Streamed 0 None None"] by simp
    next
      case (Some bytes)
      show ?thesis
      proof (cases "\<exists>c. ?m = mark_encoded H coding (r\<lparr>rs_body := Full c\<rparr>) \<and> compress E bytes coding lv = Some c \<and> in_window (length bytes)")
        case True
        then show ?thesis using encoded Some False u by fastforce
      next
        case no: False
        then have "?m = r\<lparr>rs_body := Full bytes\<rparr>"
          unfolding m Some by (auto split: option.splits if_splits)
        then show ?thesis using kept[of "Full bytes"] Some by simp
      qed
    qed
  qed
qed

text \<open>What a client reads: the body, decoded when the response names a coding of ours.\<close>

definition read_body :: "(Coding \<Rightarrow> string \<Rightarrow> string option) \<Rightarrow> 'h headers \<Rightarrow> 'h response \<Rightarrow> string option" where
  "read_body decode H r =
     (case get_all H (rs_headers r) ''content-encoding'' of
        [] \<Rightarrow> collect (rs_body r)
      | name # _ \<Rightarrow>
          (case Coding_from_name name of
             None \<Rightarrow> None
           | Some c \<Rightarrow> (case collect (rs_body r) of Some b \<Rightarrow> decode c b | None \<Rightarrow> None)))"

lemma from_name: "Coding_from_name (Coding_name c) = Some c"
  by (induction c) code_simp+

definition codec_laws :: "encoders \<Rightarrow> (Coding \<Rightarrow> string \<Rightarrow> string option) \<Rightarrow> bool" where
  "codec_laws E decode \<longleftrightarrow> (\<forall>c lv data out. encode E c lv data = Some out \<longrightarrow> decode c out = Some data)"

lemma vary_mark_sel:
  "rs_status (mark_varies_by_encoding H lv r) = rs_status r" "rs_body (mark_varies_by_encoding H lv r) = rs_body r"
  by (simp_all add: mark_varies_by_encoding_def split: option.splits)

lemma vary_mark_keeps: "header_laws H \<Longrightarrow> k \<noteq> ''vary'' \<Longrightarrow>
    get_all H (rs_headers (mark_varies_by_encoding H lv r)) k = get_all H (rs_headers r) k"
  using append_vary_keeps[of H k] by (simp add: mark_varies_by_encoding_def split: option.splits)

text \<open>A size hint that is exact is right, and a body without an exact size has no upper bound either: the bodies this server
  builds are held whole, spooled with their length, or streams of unknown length.\<close>

definition well_sized :: "body \<Rightarrow> bool" where
  "well_sized b \<longleftrightarrow> size_exact b = size_upper b \<and> (\<forall>n bytes. size_exact b = Some n \<longrightarrow> collect b = Some bytes \<longrightarrow> length bytes = n)"

definition encoding_ok :: "(Coding \<Rightarrow> string \<Rightarrow> string option) \<Rightarrow> 'h headers \<Rightarrow> Levels \<Rightarrow> Acceptable \<Rightarrow> 'h response \<Rightarrow> 'h response \<Rightarrow> bool" where
  "encoding_ok decode H lv acc r r' \<longleftrightarrow>
     rs_status r' = rs_status r \<and> read_body decode H r' = collect (rs_body r) \<and>
     (case get_all H (rs_headers r') ''content-encoding'' of
        [] \<Rightarrow> collect (rs_body r') = collect (rs_body r)
      | name # _ \<Rightarrow> \<exists>c b. name = Coding_name c \<and> level lv c > 0 \<and> acc c > 0 \<and> (\<forall>c'. acc c' \<le> acc c) \<and>
          rs_body r' = Full b \<and> get_all H (rs_headers r') ''content-length'' = [show_nat (length b)] \<and>
          get_all H (rs_headers r') ''accept-ranges'' = [] \<and>
          (\<forall>tag. header_str H (rs_headers r') ''etag'' = Some tag \<longrightarrow> starts_with tag ''W/'')) \<and>
     (\<forall>k. k \<notin> {''content-encoding'', ''etag'', ''accept-ranges'', ''content-length'', ''vary''} \<longrightarrow>
       get_all H (rs_headers r') k = get_all H (rs_headers r) k)"

lemma encode_response_cases:
  assumes H: "header_laws H" and acc: "acc = Acceptable_from_headers H h lv" and w: "well_sized (rs_body r)"
  obtains (plain) b where "encode_response E H lv acc r = mark_varies_by_encoding H lv (r\<lparr>rs_body := b\<rparr>)"
      "collect b = collect (rs_body r)" "collect (rs_body r) = None \<or> size_exact b = size_exact (rs_body r) \<or> size_exact (rs_body r) = None"
  | (coded) coding bytes c where "encode_response E H lv acc r = mark_encoded H coding (r\<lparr>rs_body := Full c\<rparr>)"
      "acc coding > 0" "\<forall>c'. acc c' \<le> acc coding" "level lv coding > 0" "Levels_any lv"
      "rs_status r \<noteq> 206" "is_compressible (content_type_of H r)" "get_all H (rs_headers r) ''content-encoding'' = []"
      "collect (rs_body r) = Some bytes" "encode E coding (level lv coding) bytes = Some c" "in_window (length bytes)"
      "size_exact (rs_body r) = Some (length bytes)"
proof (cases "per_request acc")
  case None
  then show ?thesis using plain[of "rs_body r"] by (simp add: encode_response_def)
next
  case (Some coding)
  have p: "acc coding > 0" "\<forall>c'. acc c' \<le> acc coding" using per_request_max[of acc] Some by simp_all
  then have l: "level lv coding > 0" using acceptable_offered acc by metis
  show ?thesis
  proof (cases rule: maybe_compress_cases[of E H r coding "level lv coding"])
    case (kept b)
    have "collect (rs_body r) = None \<or> size_exact b = size_exact (rs_body r) \<or> size_exact (rs_body r) = None"
      using kept(3) w by (auto simp: well_sized_def)
    then show ?thesis using plain[of b] kept Some by (simp add: encode_response_def)
  next
    case (encoded bytes c)
    have "size_exact (rs_body r) = Some (length bytes)" using encoded(5,8) w by (auto simp: well_sized_def)
    moreover have "encode E coding (level lv coding) bytes = Some c"
      using encoded(6) by (auto simp: compress_def split: option.splits if_splits)
    moreover have "encode_response E H lv acc r = mark_encoded H coding (r\<lparr>rs_body := Full c\<rparr>)"
      using Some encoded(1) mark_encoded_headers(1)[OF H, where r = "r\<lparr>rs_body := Full c\<rparr>" and b = c and c = coding]
      by (simp add: encode_response_def mark_varies_by_encoding_def)
    ultimately show ?thesis using coded[of coding c bytes] p l level_any[OF l] encoded by blast
  qed
qed

lemma encode_response_ok:
  assumes H: "header_laws H" and C: "codec_laws E decode" and acc: "acc = Acceptable_from_headers H h lv"
    and w: "well_sized (rs_body r)" and ce: "get_all H (rs_headers r) ''content-encoding'' = []"
  shows "encoding_ok decode H lv acc r (encode_response E H lv acc r)"
proof (cases rule: encode_response_cases[OF H acc w, of E])
  case (1 b)
  then show ?thesis using ce vary_mark_keeps[OF H, of _ lv "r\<lparr>rs_body := b\<rparr>"] vary_mark_sel[of H lv "r\<lparr>rs_body := b\<rparr>"]
    by (simp add: encoding_ok_def read_body_def)
next
  case (2 coding bytes c)
  note m = mark_encoded_headers[OF H, where r = "r\<lparr>rs_body := Full c\<rparr>" and b = c and c = coding]
  have "decode coding c = Some bytes" using C 2(10) by (auto simp: codec_laws_def)
  then show ?thesis using 2 m unfolding encoding_ok_def read_body_def by (auto simp: from_name)
qed

lemma coded_varies:
  assumes H: "header_laws H" and acc: "acc = Acceptable_from_headers H h lv" and w: "well_sized (rs_body r)"
    and c: "rs_status r \<noteq> 206" "is_compressible (content_type_of H r)" "get_all H (rs_headers r) ''content-encoding'' = []"
      "collect (rs_body r) = Some bytes" "in_window (length bytes)" "size_exact (rs_body r) = Some (length bytes)" "Levels_any lv"
  shows "already_varies H (encode_response E H lv acc r)"
proof (cases rule: encode_response_cases[OF H acc w, of E])
  case (1 b)
  then have "mark_varies_by_encoding H lv (r\<lparr>rs_body := b\<rparr>) = append_vary H (r\<lparr>rs_body := b\<rparr>)"
    using c by (auto simp: mark_varies_by_encoding_def would_compress_def content_type_of_def)
  then show ?thesis using 1(1) append_vary_varies[OF H] by simp
next
  case (2 coding bytes c)
  then show ?thesis using mark_encoded_headers(4)[OF H, where r = "r\<lparr>rs_body := Full c\<rparr>" and b = c and c = coding] by simp
qed

lemma bytes_differ_varies:
  assumes H: "header_laws H" and acc: "acc = Acceptable_from_headers H h lv" "acc' = Acceptable_from_headers H h' lv"
    and w: "well_sized (rs_body r)"
    and d: "collect (rs_body (encode_response E H lv acc r)) \<noteq> collect (rs_body (encode_response E H lv acc' r))"
  shows "already_varies H (encode_response E H lv acc r)" "already_varies H (encode_response E H lv acc' r)"
proof -
  have same: "collect (rs_body (encode_response E H lv a r)) = collect (rs_body r) \<or>
      (\<exists>bytes. rs_status r \<noteq> 206 \<and> is_compressible (content_type_of H r) \<and> get_all H (rs_headers r) ''content-encoding'' = [] \<and>
      collect (rs_body r) = Some bytes \<and> in_window (length bytes) \<and> size_exact (rs_body r) = Some (length bytes) \<and> Levels_any lv)"
    if "a = Acceptable_from_headers H g lv" for a g
    by (cases rule: encode_response_cases[OF H that w, of E]) (auto simp: vary_mark_sel)
  obtain bytes where c: "rs_status r \<noteq> 206" "is_compressible (content_type_of H r)" "get_all H (rs_headers r) ''content-encoding'' = []"
      "collect (rs_body r) = Some bytes" "in_window (length bytes)" "size_exact (rs_body r) = Some (length bytes)" "Levels_any lv"
    using d same[OF acc(1)] same[OF acc(2)] by metis
  show "already_varies H (encode_response E H lv acc r)" by (rule coded_varies[OF H acc(1) w c])
  show "already_varies H (encode_response E H lv acc' r)" by (rule coded_varies[OF H acc(2) w c])
qed

text \<open>C29. A response that carries no coding yet says the same to every client: whatever codings a client accepts,
  decoding what it is sent gives the bytes the response was built with.  A coding is used only when the
  server offers it and the client's weights rank it first; an encoded response states its own length, has
  no byte ranges and only a weak tag; and when two clients are sent different bytes both responses
  declare that they vary by \<^verbatim>\<open>Accept-Encoding\<close>, so no cache can mix them up.\<close>

theorem compression_transparent:
  assumes "header_laws H" "codec_laws E decode" "well_sized (rs_body r)"
    "get_all H (rs_headers r) ''content-encoding'' = []"
    "acc = Acceptable_from_headers H h lv" "acc' = Acceptable_from_headers H h' lv"
  shows "encoding_ok decode H lv acc r (encode_response E H lv acc r) \<and>
    (collect (rs_body (encode_response E H lv acc r)) = collect (rs_body (encode_response E H lv acc' r)) \<or>
     already_varies H (encode_response E H lv acc r) \<and> already_varies H (encode_response E H lv acc' r))"
  using encode_response_ok[OF assms(1,2,5,3,4)] bytes_differ_varies[OF assms(1,5,6,3)] by blast

text \<open>A stand-in for a codec: it packs one page.\<close>

definition page_bytes :: string where
  "page_bytes = replicate 300 (CHR ''a'')"

definition demo_encoders :: encoders where
  "demo_encoders = \<lparr>encode = \<lambda>_ _ data. if data = page_bytes then Some ''packed'' else None, offloaded = \<lambda>_ _. True\<rparr>"

definition demo_decode :: "Coding \<Rightarrow> string \<Rightarrow> string option" where
  "demo_decode c out = (if out = ''packed'' then Some page_bytes else None)"

definition demo_levels :: Levels where
  "demo_levels = \<lparr>lv_brotli = 5, lv_gzip = 6, lv_zstd = 0\<rparr>"

definition demo_page :: "(string \<times> string) list response" where
  "demo_page = \<lparr>rs_status = 200, rs_headers = [(''content-type'', ''text/html''), (''etag'', ''x1'')], rs_body = Full page_bytes\<rparr>"

lemma demo_codec: "codec_laws demo_encoders demo_decode"
  by (simp add: codec_laws_def demo_encoders_def demo_decode_def)

theorem compression_transparent_witness:
  "encoding_ok demo_decode list_headers demo_levels
     (Acceptable_from_headers list_headers [(''accept-encoding'', ''gzip;q=0.5, br'')] demo_levels) demo_page
     (encode_response demo_encoders list_headers demo_levels
       (Acceptable_from_headers list_headers [(''accept-encoding'', ''gzip;q=0.5, br'')] demo_levels) demo_page) \<and>
   (collect (rs_body (encode_response demo_encoders list_headers demo_levels
       (Acceptable_from_headers list_headers [(''accept-encoding'', ''gzip;q=0.5, br'')] demo_levels) demo_page)) =
    collect (rs_body (encode_response demo_encoders list_headers demo_levels
       (Acceptable_from_headers list_headers [] demo_levels) demo_page)) \<or>
    already_varies list_headers (encode_response demo_encoders list_headers demo_levels
       (Acceptable_from_headers list_headers [(''accept-encoding'', ''gzip;q=0.5, br'')] demo_levels) demo_page) \<and>
    already_varies list_headers (encode_response demo_encoders list_headers demo_levels
       (Acceptable_from_headers list_headers [] demo_levels) demo_page))"
proof -
  have w: "well_sized (rs_body demo_page)" by (simp add: well_sized_def demo_page_def)
  have c: "get_all list_headers (rs_headers demo_page) ''content-encoding'' = []"
    by (simp add: demo_page_def list_headers_def)
  show ?thesis
    by (rule compression_transparent[OF list_headers_laws demo_codec w c refl refl])
qed

text \<open>The page is sent packed to the first of these clients and as it is to the second.\<close>

lemma demo_page_packed:
  "get_all list_headers (rs_headers (encode_response demo_encoders list_headers demo_levels
     (Acceptable_from_headers list_headers [(''accept-encoding'', ''gzip;q=0.5, br'')] demo_levels) demo_page)) ''content-encoding'' =
     [''br'']"
  by code_simp

end
