(* ===== verification/Metrics.thy ===== *)
theory Metrics
  imports Ox_Words
begin

text \<open>
  The server's counters (\<^verbatim>\<open>src/metrics.rs\<close>).  Every counter is a 64-bit word that wraps, as the
  atomics do; arrays are lists of the source's length.  Readings taken off live objects when the metrics are
  rendered (uptime, queue, registry) are arguments of the rendering.
\<close>

section \<open>Histograms\<close>

definition DURATION_BUCKET_BOUNDS :: "u64 list" where
  "DURATION_BUCKET_BOUNDS = [100, 250, 500, 1000, 2500, 5000, 10000, 25000, 50000]"

definition REQUEST_DURATION_BUCKET_BOUNDS :: "u64 list" where
  "REQUEST_DURATION_BUCKET_BOUNDS =
     [100, 500, 1000, 2500, 5000, 10000, 25000, 50000, 100000, 250000, 500000, 1000000]"

definition QUEUE_WAIT_BUCKET_BOUNDS :: "u64 list" where
  "QUEUE_WAIT_BUCKET_BOUNDS =
     [50, 100, 250, 500, 1000, 2500, 5000, 10000, 50000, 100000, 250000, 500000, 1000000]"

definition bump :: "nat \<Rightarrow> u64 list \<Rightarrow> u64 list" where
  "bump i cs = cs[i := cs ! i + 1]"

fun bucket_of :: "u64 list \<Rightarrow> u64 \<Rightarrow> nat" where
  "bucket_of [] v = 0"
| "bucket_of (b # bs) v = (if v \<le> b then 0 else Suc (bucket_of bs v))"

definition record_histogram :: "u64 list \<Rightarrow> u64 list \<Rightarrow> u64 \<Rightarrow> u64 list" where
  "record_histogram buckets bounds v = bump (bucket_of bounds v) buckets"

text \<open>The running sums of the rendering, one per bound and one for \<^verbatim>\<open>+Inf\<close>.\<close>

fun cumulative :: "u64 \<Rightarrow> u64 list \<Rightarrow> u64 list" where
  "cumulative acc [] = []"
| "cumulative acc (c # cs) = (acc + c) # cumulative (acc + c) cs"

section \<open>Worker mode\<close>

record WorkerMetrics =
  wm_handled :: u64
  wm_recycles :: u64
  wm_recycles_scheduled :: u64
  wm_recycles_max_memory :: u64
  wm_recycles_error :: u64
  wm_soft_resets :: u64
  wm_buckets :: "u64 list"
  wm_sum :: u64
  wm_count :: u64

definition WorkerMetrics_new :: WorkerMetrics where
  "WorkerMetrics_new =
     \<lparr>wm_handled = 0, wm_recycles = 0, wm_recycles_scheduled = 0, wm_recycles_max_memory = 0, wm_recycles_error = 0,
      wm_soft_resets = 0, wm_buckets = replicate 10 0, wm_sum = 0, wm_count = 0\<rparr>"

definition record_duration :: "u64 \<Rightarrow> WorkerMetrics \<Rightarrow> WorkerMetrics" where
  "record_duration us wm =
     wm\<lparr>wm_buckets := bump (bucket_of DURATION_BUCKET_BOUNDS us) (wm_buckets wm),
        wm_sum := wm_sum wm + us, wm_count := wm_count wm + 1\<rparr>"

definition record_recycle :: "nat \<Rightarrow> WorkerMetrics \<Rightarrow> WorkerMetrics" where
  "record_recycle exit_reason wm =
     (let wm1 = wm\<lparr>wm_recycles := wm_recycles wm + 1\<rparr> in
      if exit_reason = 1 then wm1\<lparr>wm_recycles_scheduled := wm_recycles_scheduled wm1 + 1\<rparr>
      else if exit_reason = 2 then wm1\<lparr>wm_recycles_max_memory := wm_recycles_max_memory wm1 + 1\<rparr>
      else if exit_reason = 3 then wm1\<lparr>wm_recycles_error := wm_recycles_error wm1 + 1\<rparr>
      else wm1)"

section \<open>The server's counters\<close>

datatype stuck_kind = Io | CCall | Cpu

record Metrics =
  mt_total :: u64
  mt_connections :: u64
  mt_accept_stalled :: u64
  mt_accept_stalls :: u64
  mt_pool_stalled :: u64
  mt_pending :: u64
  mt_dropped :: u64
  mt_refusals :: "u64 list"
  mt_wasted :: u64
  mt_by_method :: "u64 list"
  mt_by_status :: "u64 list"
  mt_time_us :: u64
  mt_workers :: u64
  mt_spawned :: u64
  mt_retired :: u64
  mt_duration :: "u64 list"
  mt_request_bytes :: u64
  mt_response_bytes :: u64
  mt_wait :: "u64 list"
  mt_wait_sum :: u64
  mt_wait_count :: u64
  mt_rate_limited :: u64
  mt_php_deny :: u64
  mt_path_deny :: u64
  mt_hits :: u64
  mt_misses :: u64
  mt_compressed :: u64
  mt_saved :: u64
  mt_ages :: "u64 list"
  mt_long_running :: "u64 list"
  mt_stuck_io :: "u64 list"
  mt_stuck_c_call :: "u64 list"
  mt_stuck_cpu :: "u64 list"
  mt_client_abort :: u64
  mt_timeout :: u64
  mt_shutdown :: u64

definition Metrics_new_with_workers :: "nat \<Rightarrow> Metrics" where
  "Metrics_new_with_workers n =
     \<lparr>mt_total = 0, mt_connections = 0, mt_accept_stalled = 0, mt_accept_stalls = 0, mt_pool_stalled = 0, mt_pending = 0,
      mt_dropped = 0, mt_refusals = replicate 6 0, mt_wasted = 0, mt_by_method = replicate 10 0,
      mt_by_status = replicate 5 0, mt_time_us = 0, mt_workers = 0, mt_spawned = 0, mt_retired = 0,
      mt_duration = replicate 13 0, mt_request_bytes = 0, mt_response_bytes = 0,
      mt_wait = replicate (length QUEUE_WAIT_BUCKET_BOUNDS + 1) 0, mt_wait_sum = 0, mt_wait_count = 0,
      mt_rate_limited = 0, mt_php_deny = 0, mt_path_deny = 0, mt_hits = 0, mt_misses = 0, mt_compressed = 0,
      mt_saved = 0, mt_ages = replicate n 0, mt_long_running = replicate n 0, mt_stuck_io = replicate n 0,
      mt_stuck_c_call = replicate n 0, mt_stuck_cpu = replicate n 0, mt_client_abort = 0, mt_timeout = 0,
      mt_shutdown = 0\<rparr>"

definition METHOD_LABELS :: "string list" where
  "METHOD_LABELS =
     [''GET'', ''POST'', ''PUT'', ''DELETE'', ''PATCH'', ''HEAD'', ''OPTIONS'', ''CONNECT'', ''QUERY'', ''OTHER'']"

definition method_index :: "string \<Rightarrow> nat" where
  "method_index m =
     (if m = ''GET'' then 0 else if m = ''POST'' then 1 else if m = ''PUT'' then 2 else if m = ''DELETE'' then 3
      else if m = ''PATCH'' then 4 else if m = ''HEAD'' then 5 else if m = ''OPTIONS'' then 6
      else if m = ''CONNECT'' then 7 else if m = ''QUERY'' then 8 else 9)"

definition status_class_index :: "nat \<Rightarrow> nat" where
  "status_class_index status = (let class = status div 100 in if 1 \<le> class \<and> class \<le> 5 then class - 1 else 4)"

definition at_worker :: "nat \<Rightarrow> (u64 \<Rightarrow> u64) \<Rightarrow> u64 list \<Rightarrow> u64 list" where
  "at_worker i f cs = (if i < length cs then cs[i := f (cs ! i)] else cs)"

definition observe_age :: "nat \<Rightarrow> u64 \<Rightarrow> Metrics \<Rightarrow> Metrics" where
  "observe_age worker age m = m\<lparr>mt_ages := at_worker worker (\<lambda>_. age) (mt_ages m)\<rparr>"

definition observe_long_running :: "nat \<Rightarrow> Metrics \<Rightarrow> Metrics" where
  "observe_long_running worker m = m\<lparr>mt_long_running := at_worker worker (\<lambda>c. c + 1) (mt_long_running m)\<rparr>"

fun observe_stuck :: "nat \<Rightarrow> stuck_kind \<Rightarrow> Metrics \<Rightarrow> Metrics" where
  "observe_stuck worker Io m = m\<lparr>mt_stuck_io := at_worker worker (\<lambda>c. c + 1) (mt_stuck_io m)\<rparr>"
| "observe_stuck worker CCall m = m\<lparr>mt_stuck_c_call := at_worker worker (\<lambda>c. c + 1) (mt_stuck_c_call m)\<rparr>"
| "observe_stuck worker Cpu m = m\<lparr>mt_stuck_cpu := at_worker worker (\<lambda>c. c + 1) (mt_stuck_cpu m)\<rparr>"

definition observe_cancelled :: "nat \<Rightarrow> Metrics \<Rightarrow> Metrics" where
  "observe_cancelled reason m =
     (if reason = 1 then m\<lparr>mt_client_abort := mt_client_abort m + 1\<rparr>
      else if reason = 2 then m\<lparr>mt_timeout := mt_timeout m + 1\<rparr>
      else if reason = 3 then m\<lparr>mt_shutdown := mt_shutdown m + 1\<rparr>
      else m)"

definition record_request :: "string \<Rightarrow> Metrics \<Rightarrow> Metrics" where
  "record_request meth m =
     m\<lparr>mt_total := mt_total m + 1, mt_by_method := bump (method_index meth) (mt_by_method m)\<rparr>"

definition record_response :: "nat \<Rightarrow> u64 \<Rightarrow> u64 \<Rightarrow> u64 \<Rightarrow> Metrics \<Rightarrow> Metrics" where
  "record_response status duration_us request_size response_size m =
     m\<lparr>mt_by_status := bump (status_class_index status) (mt_by_status m),
       mt_time_us := mt_time_us m + duration_us,
       mt_duration := record_histogram (mt_duration m) REQUEST_DURATION_BUCKET_BOUNDS duration_us,
       mt_request_bytes := mt_request_bytes m + request_size,
       mt_response_bytes := mt_response_bytes m + response_size\<rparr>"

definition connection_opened :: "Metrics \<Rightarrow> Metrics" where
  "connection_opened m = m\<lparr>mt_connections := mt_connections m + 1\<rparr>"

definition connection_closed :: "Metrics \<Rightarrow> Metrics" where
  "connection_closed m = m\<lparr>mt_connections := mt_connections m - 1\<rparr>"

definition accept_stall_begin :: "Metrics \<Rightarrow> Metrics" where
  "accept_stall_begin m = m\<lparr>mt_accept_stalls := mt_accept_stalls m + 1, mt_accept_stalled := 1\<rparr>"

definition accept_stall_end :: "Metrics \<Rightarrow> Metrics" where
  "accept_stall_end m = m\<lparr>mt_accept_stalled := 0\<rparr>"

definition set_pool_stalled :: "bool \<Rightarrow> Metrics \<Rightarrow> Metrics" where
  "set_pool_stalled stalled m = m\<lparr>mt_pool_stalled := (if stalled then 1 else 0)\<rparr>"

definition pool_stalled :: "Metrics \<Rightarrow> bool" where
  "pool_stalled m = (mt_pool_stalled m \<noteq> 0)"

definition request_queued :: "Metrics \<Rightarrow> Metrics" where
  "request_queued m = m\<lparr>mt_pending := mt_pending m + 1\<rparr>"

definition drop_pending_guard :: "Metrics \<Rightarrow> Metrics" where
  "drop_pending_guard m = m\<lparr>mt_pending := mt_pending m - 1\<rparr>"

definition request_dropped :: "Metrics \<Rightarrow> Metrics" where
  "request_dropped m = m\<lparr>mt_dropped := mt_dropped m + 1\<rparr>"

definition admission_wait_wasted :: "Metrics \<Rightarrow> Metrics" where
  "admission_wait_wasted m = m\<lparr>mt_wasted := mt_wasted m + 1\<rparr>"

definition set_workers_current :: "u64 \<Rightarrow> Metrics \<Rightarrow> Metrics" where
  "set_workers_current n m = m\<lparr>mt_workers := n\<rparr>"

definition worker_spawned :: "Metrics \<Rightarrow> Metrics" where
  "worker_spawned m = m\<lparr>mt_spawned := mt_spawned m + 1\<rparr>"

definition worker_retired :: "Metrics \<Rightarrow> Metrics" where
  "worker_retired m = m\<lparr>mt_retired := mt_retired m + 1\<rparr>"

definition record_queue_wait :: "u64 \<Rightarrow> Metrics \<Rightarrow> Metrics" where
  "record_queue_wait us m =
     m\<lparr>mt_wait := record_histogram (mt_wait m) QUEUE_WAIT_BUCKET_BOUNDS us,
       mt_wait_sum := mt_wait_sum m + us, mt_wait_count := mt_wait_count m + 1\<rparr>"

definition rate_limited :: "Metrics \<Rightarrow> Metrics" where
  "rate_limited m = m\<lparr>mt_rate_limited := mt_rate_limited m + 1\<rparr>"

definition denied :: "bool \<Rightarrow> Metrics \<Rightarrow> Metrics" where
  "denied by_deny_file m =
     (if by_deny_file then m\<lparr>mt_path_deny := mt_path_deny m + 1\<rparr> else m\<lparr>mt_php_deny := mt_php_deny m + 1\<rparr>)"

definition static_cache_hit :: "Metrics \<Rightarrow> Metrics" where
  "static_cache_hit m = m\<lparr>mt_hits := mt_hits m + 1\<rparr>"

definition static_cache_miss :: "Metrics \<Rightarrow> Metrics" where
  "static_cache_miss m = m\<lparr>mt_misses := mt_misses m + 1\<rparr>"

definition record_compression :: "u64 \<Rightarrow> Metrics \<Rightarrow> Metrics" where
  "record_compression saved m = m\<lparr>mt_compressed := mt_compressed m + 1, mt_saved := mt_saved m + saved\<rparr>"

section \<open>Refusals for overload\<close>

record OverloadRefusals =
  or_queue_full :: u64
  or_wait_timeout :: u64
  or_waiting_full :: u64
  or_waiting_bytes :: u64

definition OverloadRefusals_total :: "OverloadRefusals \<Rightarrow> u64" where
  "OverloadRefusals_total r = or_queue_full r + or_wait_timeout r + or_waiting_full r + or_waiting_bytes r"

definition OverloadRefusals_since :: "OverloadRefusals \<Rightarrow> OverloadRefusals \<Rightarrow> OverloadRefusals" where
  "OverloadRefusals_since now earlier =
     \<lparr>or_queue_full = sat_sub (or_queue_full now) (or_queue_full earlier),
      or_wait_timeout = sat_sub (or_wait_timeout now) (or_wait_timeout earlier),
      or_waiting_full = sat_sub (or_waiting_full now) (or_waiting_full earlier),
      or_waiting_bytes = sat_sub (or_waiting_bytes now) (or_waiting_bytes earlier)\<rparr>"

definition OverloadRefusals_add :: "OverloadRefusals \<Rightarrow> OverloadRefusals \<Rightarrow> OverloadRefusals" where
  "OverloadRefusals_add a b =
     \<lparr>or_queue_full = or_queue_full a + or_queue_full b, or_wait_timeout = or_wait_timeout a + or_wait_timeout b,
      or_waiting_full = or_waiting_full a + or_waiting_full b, or_waiting_bytes = or_waiting_bytes a + or_waiting_bytes b\<rparr>"

definition admission_refused_overload :: "Metrics \<Rightarrow> OverloadRefusals" where
  "admission_refused_overload m =
     \<lparr>or_queue_full = mt_refusals m ! 0, or_wait_timeout = mt_refusals m ! 1, or_waiting_full = mt_refusals m ! 2,
      or_waiting_bytes = mt_refusals m ! 3\<rparr>"

section \<open>Rendering\<close>

text \<open>The sample lines of the request series, as names with their values; the comment lines around them are fixed.\<close>

definition show_u64 :: "u64 \<Rightarrow> string" where
  "show_u64 w = show_nat (unat w)"

definition labelled :: "string \<Rightarrow> string \<Rightarrow> string \<Rightarrow> string" where
  "labelled name key v = name @ ''{'' @ key @ ''='' @ [CHR 0x22] @ v @ [CHR 0x22] @ ''}''"

definition present :: "string \<Rightarrow> string \<Rightarrow> string list \<Rightarrow> u64 list \<Rightarrow> (string \<times> u64) list" where
  "present name key labels counts =
     map (\<lambda>(l, c). (labelled name key l, c)) (filter (\<lambda>(l, c). c > 0) (zip labels counts))"

definition histogram_lines :: "string \<Rightarrow> u64 list \<Rightarrow> u64 list \<Rightarrow> u64 \<Rightarrow> u64 \<Rightarrow> (string \<times> u64) list" where
  "histogram_lines name bounds buckets tot cnt =
     zip (map (labelled (name @ ''_bucket'') ''le'') (map show_u64 bounds @ [''+Inf''])) (cumulative 0 buckets) @
     [(name @ ''_sum'', tot), (name @ ''_count'', cnt)]"

definition request_series :: "Metrics \<Rightarrow> (string \<times> u64) list" where
  "request_series m =
     [(''oxphp_requests_total'', mt_total m)] @
     present ''oxphp_requests_by_method_total'' ''method'' METHOD_LABELS (mt_by_method m) @
     present ''oxphp_responses_by_status_total'' ''status'' [''1xx'', ''2xx'', ''3xx'', ''4xx'', ''5xx''] (mt_by_status m)"

definition duration_series :: "Metrics \<Rightarrow> (string \<times> u64) list" where
  "duration_series m =
     histogram_lines ''oxphp_request_duration_us'' REQUEST_DURATION_BUCKET_BOUNDS (mt_duration m) (mt_time_us m)
       (sum_list (mt_by_status m))"

definition wait_series :: "Metrics \<Rightarrow> (string \<times> u64) list" where
  "wait_series m =
     histogram_lines ''oxphp_queue_wait_us'' QUEUE_WAIT_BUCKET_BOUNDS (mt_wait m) (mt_wait_sum m) (mt_wait_count m)"

definition worker_duration_series :: "WorkerMetrics \<Rightarrow> (string \<times> u64) list" where
  "worker_duration_series wm =
     histogram_lines ''oxphp_worker_request_duration_us'' DURATION_BUCKET_BOUNDS (wm_buckets wm) (wm_sum wm) (wm_count wm)"


section \<open>What a histogram says\<close>

lemma length_bumped [simp]: "length (bump i cs) = length cs"
  by (simp add: bump_def)

lemma sum_list_bump: "i < length cs \<Longrightarrow> sum_list (bump i cs) = sum_list cs + 1"
  by (induction cs arbitrary: i) (auto simp: bump_def nth_Cons split: nat.splits)

lemma length_cumulative [simp]: "length (cumulative a cs) = length cs"
  by (induction cs arbitrary: a) auto

lemma cumulative_nth: "i < length cs \<Longrightarrow> cumulative a cs ! i = a + sum_list (take (Suc i) cs)"
  by (induction cs arbitrary: a i) (auto simp: nth_Cons add.assoc split: nat.splits)

lemma cumulative_bump:
  assumes "i < length cs" "k < length cs"
  shows "cumulative 0 (bump k cs) ! i = cumulative 0 cs ! i + (if k \<le> i then 1 else 0)"
proof -
  have "take (Suc i) (bump k cs) = (if k \<le> i then bump k (take (Suc i) cs) else take (Suc i) cs)"
    by (auto simp: bump_def take_update_swap list_update_beyond)
  then show ?thesis using assms by (simp add: cumulative_nth sum_list_bump)
qed

lemma bucket_of_le: "bucket_of bs v \<le> length bs"
  by (induction bs) auto

definition recorded :: "u64 list \<Rightarrow> u64 list \<Rightarrow> u64 list" where
  "recorded bounds vs = foldl (\<lambda>b v. record_histogram b bounds v) (replicate (Suc (length bounds)) 0) vs"

lemma recorded_snoc: "recorded bounds (vs @ [v]) = record_histogram (recorded bounds vs) bounds v"
  by (simp add: recorded_def)

lemma length_recorded [simp]: "length (recorded bounds vs) = Suc (length bounds)"
  by (induction vs rule: rev_induct) (simp_all add: recorded_snoc record_histogram_def, simp add: recorded_def)

lemma cumulative_zeros: "cumulative 0 (replicate n 0) = replicate n 0"
  by (induction n) auto

locale bounded_histogram =
  fixes bounds :: "u64 list"
  assumes ascending: "sorted bounds"
begin

lemma bucket_of_iff: "i < length bounds \<Longrightarrow> bucket_of bounds v \<le> i \<longleftrightarrow> v \<le> bounds ! i"
  using ascending
proof (induction bounds arbitrary: i)
  case (Cons b bs)
  show ?case
  proof (cases i)
    case (Suc j)
    then have "b \<le> bs ! j" using Cons.prems by simp
    then have "v \<le> bs ! j" if "v \<le> b" using that by (rule order_trans[rotated])
    then show ?thesis using Cons Suc by auto
  qed simp
qed simp

text \<open>Each line counts the values up to its bound, and the last one all of them.\<close>

lemma cumulative_recorded:
  "cumulative 0 (recorded bounds vs) = map (\<lambda>b. of_nat (length (filter (\<lambda>v. v \<le> b) vs))) bounds @ [of_nat (length vs)]"
proof (rule nth_equalityI)
  fix i
  assume "i < length (cumulative 0 (recorded bounds vs))"
  then have i: "i \<le> length bounds" by simp
  show "cumulative 0 (recorded bounds vs) ! i =
      (map (\<lambda>b. of_nat (length (filter (\<lambda>v. v \<le> b) vs))) bounds @ [of_nat (length vs)]) ! i"
    using i
  proof (induction vs rule: rev_induct)
    case Nil
    then show ?case by (auto simp: recorded_def cumulative_zeros nth_append simp del: replicate.simps)
  next
    case (snoc v vs)
    have "cumulative 0 (recorded bounds (vs @ [v])) ! i =
        cumulative 0 (recorded bounds vs) ! i + (if bucket_of bounds v \<le> i then 1 else 0)"
      unfolding recorded_snoc record_histogram_def
      using i bucket_of_le[of bounds v] by (intro cumulative_bump) simp_all
    then show ?case
      using snoc i bucket_of_iff[of i v] bucket_of_le[of bounds v]
      by (cases "i = length bounds") (auto simp: nth_append)
  qed
qed simp

end

interpretation rd: bounded_histogram REQUEST_DURATION_BUCKET_BOUNDS
  by unfold_locales (simp add: REQUEST_DURATION_BUCKET_BOUNDS_def)

interpretation qw: bounded_histogram QUEUE_WAIT_BUCKET_BOUNDS
  by unfold_locales (simp add: QUEUE_WAIT_BUCKET_BOUNDS_def)

interpretation wd: bounded_histogram DURATION_BUCKET_BOUNDS
  by unfold_locales (simp add: DURATION_BUCKET_BOUNDS_def)

section \<open>The books of the server\<close>

datatype call =
    Request string
  | Response nat u64 u64 u64
  | QueueWait u64

fun apply_call :: "Metrics \<Rightarrow> call \<Rightarrow> Metrics" where
  "apply_call m (Request meth) = record_request meth m"
| "apply_call m (Response status us rq rs) = record_response status us rq rs m"
| "apply_call m (QueueWait us) = record_queue_wait us m"

definition after_calls :: "nat \<Rightarrow> call list \<Rightarrow> Metrics" where
  "after_calls n cs = foldl apply_call (Metrics_new_with_workers n) cs"

definition durations :: "call list \<Rightarrow> u64 list" where
  "durations cs = List.map_filter (\<lambda>c. case c of Response _ us _ _ \<Rightarrow> Some us | _ \<Rightarrow> None) cs"

definition waits :: "call list \<Rightarrow> u64 list" where
  "waits cs = List.map_filter (\<lambda>c. case c of QueueWait us \<Rightarrow> Some us | _ \<Rightarrow> None) cs"

definition requests :: "call list \<Rightarrow> nat" where
  "requests cs = length (filter (\<lambda>c. case c of Request _ \<Rightarrow> True | _ \<Rightarrow> False) cs)"

lemma method_index_less: "method_index m < 10"
  by (simp add: method_index_def)

lemma status_class_less: "status_class_index s < 5"
  by (auto simp: status_class_index_def Let_def)

lemma map_filter_snoc: "List.map_filter f (xs @ [x]) = List.map_filter f xs @ (case f x of Some y \<Rightarrow> [y] | None \<Rightarrow> [])"
  by (simp add: List.map_filter_def split: option.splits)

lemma books:
  "mt_duration (after_calls n cs) = recorded REQUEST_DURATION_BUCKET_BOUNDS (durations cs) \<and> mt_wait (after_calls n cs) = recorded QUEUE_WAIT_BUCKET_BOUNDS (waits cs) \<and>
   mt_time_us (after_calls n cs) = sum_list (durations cs) \<and> mt_wait_sum (after_calls n cs) = sum_list (waits cs) \<and>
   mt_wait_count (after_calls n cs) = of_nat (length (waits cs)) \<and>
   length (mt_by_status (after_calls n cs)) = 5 \<and> length (mt_by_method (after_calls n cs)) = 10 \<and>
   sum_list (mt_by_status (after_calls n cs)) = of_nat (length (durations cs)) \<and>
   sum_list (mt_by_method (after_calls n cs)) = of_nat (requests cs) \<and> mt_total (after_calls n cs) = of_nat (requests cs)"
proof (induction cs rule: rev_induct)
  case Nil
  then show ?case
    by (simp add: after_calls_def Metrics_new_with_workers_def durations_def waits_def requests_def recorded_def List.map_filter_def REQUEST_DURATION_BUCKET_BOUNDS_def sum_list_replicate numeral_eq_Suc)
next
  case (snoc c cs)
  have s: "after_calls n (cs @ [c]) = apply_call (after_calls n cs) c" by (simp add: after_calls_def)
  show ?case
    using snoc method_index_less status_class_less unfolding s
    by (cases c)
       (auto simp: record_request_def record_response_def record_queue_wait_def durations_def waits_def requests_def
          map_filter_snoc recorded_snoc sum_list_bump)
qed

lemma map_snd_zip_lines: "length bs = length cs \<Longrightarrow> map snd (zip (map f bs) cs) = cs"
  by (simp add: map_snd_zip)

text \<open>The two request histograms and the request counter say exactly what happened, modulo the width of the
  counters: each bucket line is the number of values up to its bound, \<^verbatim>\<open>+Inf\<close> and \<^verbatim>\<open>_count\<close> agree, and
  requests by method add up to the total.\<close>

lemma rendered_exactly:
  "map snd (duration_series (after_calls n cs)) =
     map (\<lambda>b. of_nat (length (filter (\<lambda>v. v \<le> b) (durations cs)))) REQUEST_DURATION_BUCKET_BOUNDS @
     [of_nat (length (durations cs)), sum_list (durations cs), of_nat (length (durations cs))] \<and>
   map snd (wait_series (after_calls n cs)) =
     map (\<lambda>b. of_nat (length (filter (\<lambda>v. v \<le> b) (waits cs)))) QUEUE_WAIT_BUCKET_BOUNDS @
     [of_nat (length (waits cs)), sum_list (waits cs), of_nat (length (waits cs))] \<and>
   sum_list (mt_by_method (after_calls n cs)) = mt_total (after_calls n cs) \<and>
   mt_total (after_calls n cs) = of_nat (requests cs)"
  using books[of n cs]
  by (auto simp: duration_series_def wait_series_def histogram_lines_def map_snd_zip rd.cumulative_recorded
      qw.cumulative_recorded)

end
