(* ===== verification/Request_Events.thy ===== *)
theory Request_Events
  imports Rate_Limit Trace_Context Plugin_Cookies Compression Metrics
begin

text \<open>
  A request from its arrival to its response, as \<^verbatim>\<open>handle_request\<close> in
  \<^verbatim>\<open>src/server/connection.rs\<close> takes it: the event dispatcher (\<^verbatim>\<open>src/events/dispatcher.rs\<close>),
  the handlers \<^verbatim>\<open>main.rs\<close> registers (\<^verbatim>\<open>src/handlers\<close>) and the order their priorities put
  them in.

  The handlers share one state: the limiter, the metrics and the cached clock.  What happens
  between the first two events, routing and execution, is an argument.  Handlers of plugins are
  not registered, and the access log, which only writes a line, is left out; so is the request for
  a stored encoding of a static file, which changes nothing of this response.
\<close>

section \<open>The dispatcher\<close>

datatype Propagation = Continue | Stop

type_synonym ('e, 's) handler = "'e \<times> 's \<Rightarrow> Propagation \<times> 'e \<times> 's"

record ('e, 's) EventDispatcher =
  handlers :: "(int \<times> ('e, 's) handler) list"
  frozen :: bool

definition EventDispatcher_new :: "('e, 's) EventDispatcher" where
  "EventDispatcher_new = \<lparr>handlers = [], frozen = False\<rparr>"

text \<open>Registering after the freeze panics: \<open>None\<close>.\<close>

definition on :: "int \<Rightarrow> ('e, 's) handler \<Rightarrow> ('e, 's) EventDispatcher \<Rightarrow> ('e, 's) EventDispatcher option" where
  "on priority f d = (if frozen d then None else Some (d\<lparr>handlers := handlers d @ [(priority, f)]\<rparr>))"

definition freeze :: "('e, 's) EventDispatcher \<Rightarrow> ('e, 's) EventDispatcher" where
  "freeze d = d\<lparr>handlers := sort_key fst (handlers d), frozen := True\<rparr>"

fun dispatch_to :: "(int \<times> ('e, 's) handler) list \<Rightarrow> 'e \<times> 's \<Rightarrow> Propagation \<times> 'e \<times> 's" where
  "dispatch_to [] es = (Continue, es)"
| "dispatch_to ((_, f) # hs) es =
     (case f es of (Stop, es') \<Rightarrow> (Stop, es') | (Continue, es') \<Rightarrow> dispatch_to hs es')"

definition event_dispatch :: "('e, 's) EventDispatcher \<Rightarrow> 'e \<times> 's \<Rightarrow> Propagation \<times> 'e \<times> 's" where
  "event_dispatch d es = dispatch_to (handlers d) es"

fun on_all :: "(int \<times> ('e, 's) handler) list \<Rightarrow> ('e, 's) EventDispatcher \<Rightarrow> ('e, 's) EventDispatcher option" where
  "on_all [] d = Some d"
| "on_all ((p, f) # hs) d = (case on p f d of None \<Rightarrow> None | Some d' \<Rightarrow> on_all hs d')"

text \<open>What the outside world supplies for one request: the clocks, the process and the random bytes.\<close>

record moment =
  mo_now :: nat
  mo_epoch :: nat
  mo_pid :: nat
  mo_raw16 :: "nat list"
  mo_raw8 :: "nat list"
  mo_elapsed_us :: u64

record pstate =
  ps_limiter :: RateLimiter
  ps_counter :: u64
  ps_epoch :: u32
  ps_metrics :: Metrics

section \<open>Handlers of an arriving request\<close>

subsection \<open>Request ids\<close>

definition is_valid_request_id :: "string \<Rightarrow> bool" where
  "is_valid_request_id s =
     (length s \<le> 64 \<and> s \<noteq> [] \<and>
      list_all (\<lambda>c. is_alnum_byte c \<or> c = CHR ''-'' \<or> c = CHR ''_'' \<or> c = CHR ''.'') s)"

fun hex_digits :: "nat \<Rightarrow> nat \<Rightarrow> string" where
  "hex_digits 0 n = []"
| "hex_digits (Suc k) n = hex_digits k (n div 16) @ [HEX_CHARS ! (n mod 16)]"

text \<open>\<^verbatim>\<open>{ts:08x}{pid:04x}{counter:08x}\<close>; each value is of the width of its field.\<close>

definition generate_request_id :: "moment \<Rightarrow> pstate \<Rightarrow> string \<times> pstate" where
  "generate_request_id mo st =
     (let counter = ucast (ps_counter st) :: u32;
          st1 = st\<lparr>ps_counter := ps_counter st + 1\<rparr>;
          st2 = (if unat counter mod 256 = 0 then st1\<lparr>ps_epoch := of_nat (mo_epoch mo)\<rparr> else st1)
      in (hex_digits 8 (unat (ps_epoch st2)) @ hex_digits 4 (mo_pid mo mod 65536) @ hex_digits 8 (unat counter), st2))"

definition RequestId_handle :: "'h headers \<Rightarrow> moment \<Rightarrow> ('h received, pstate) handler" where
  "RequestId_handle H mo = (\<lambda>(ev, st).
     (case (case header_str H (rq_headers ev) ''x-request-id'' of
              Some s \<Rightarrow> if is_valid_request_id s then Some s else None
            | None \<Rightarrow> None) of
        Some s \<Rightarrow> (Continue, ev\<lparr>rq_id := s\<rparr>, st)
      | None \<Rightarrow> (case generate_request_id mo st of (s, st') \<Rightarrow> (Continue, ev\<lparr>rq_id := s\<rparr>, st'))))"

subsection \<open>Trace context, client address, limit and metrics\<close>

definition TraceContextRequest_handle :: "bool \<Rightarrow> 'h headers \<Rightarrow> moment \<Rightarrow> ('h received, pstate) handler" where
  "TraceContextRequest_handle enabled H mo = (\<lambda>(ev, st).
     if \<not> enabled then (Continue, ev, st)
     else
       let ctx = TraceContext_from_headers H (mo_raw16 mo) (mo_raw8 mo) (rq_headers ev) in
       (Continue,
        ev\<lparr>rq_meta := rq_meta ev @
             [(''traceparent'', traceparent_cache ctx), (''trace_id'', trace_id ctx), (''span_id'', span_id ctx),
              (''parent_span_id'', case parent_span_id ctx of Some p \<Rightarrow> p | None \<Rightarrow> []),
              (''trace_flags'', trace_flags_hex ctx)] @
             (case tracestate ctx of Some ts \<Rightarrow> [(''tracestate'', ts)] | None \<Rightarrow> [])\<rparr>, st))"

definition TrustedProxy_handler ::
    "'n ipnet \<Rightarrow> 'h headers \<Rightarrow> 'n TrustedProxyConfig \<Rightarrow> ('h received, pstate) handler" where
  "TrustedProxy_handler N H cfg = (\<lambda>(ev, st). (Continue, TrustedProxy_handle N H cfg ev, st))"

definition RateLimit_handle :: "'h headers \<Rightarrow> moment \<Rightarrow> ('h received, pstate) handler" where
  "RateLimit_handle H mo = (\<lambda>(ev, st).
     (case check_rate_limited H (mo_now mo) (rq_ip ev) (rq_id ev) (ps_limiter st) of
        (Some resp, rl) \<Rightarrow>
          (Continue, ev\<lparr>rq_early := Some resp\<rparr>, st\<lparr>ps_limiter := rl, ps_metrics := rate_limited (ps_metrics st)\<rparr>)
      | (None, rl) \<Rightarrow> (Continue, ev, st\<lparr>ps_limiter := rl\<rparr>)))"

definition MetricsRequest_handle :: "('h received, pstate) handler" where
  "MetricsRequest_handle =
     (\<lambda>(ev, st). (Continue, ev, st\<lparr>ps_metrics := record_request (rq_method ev) (ps_metrics st)\<rparr>))"

section \<open>Handlers of a response\<close>

record 'h building =
  bd_id :: string
  bd_response :: "'h response"
  bd_meta :: "(string \<times> string) list"

definition set_header :: "'h headers \<Rightarrow> string \<Rightarrow> string \<Rightarrow> 'h building \<Rightarrow> 'h building" where
  "set_header H k v b =
     b\<lparr>bd_response := (bd_response b)\<lparr>rs_headers := hset H (rs_headers (bd_response b)) k v\<rparr>\<rparr>"

definition has_header :: "'h headers \<Rightarrow> string \<Rightarrow> 'h building \<Rightarrow> bool" where
  "has_header H k b = (get_all H (rs_headers (bd_response b)) k \<noteq> [])"

definition set_header_text :: "'h headers \<Rightarrow> string \<Rightarrow> string \<Rightarrow> 'h building \<Rightarrow> 'h building" where
  "set_header_text H k s b = (case from_str H s of Some v \<Rightarrow> set_header H k v b | None \<Rightarrow> b)"

definition TraceContextResponse_handle :: "bool \<Rightarrow> 'h headers \<Rightarrow> ('h building, pstate) handler" where
  "TraceContextResponse_handle enabled H = (\<lambda>(b, st).
     if \<not> enabled then (Continue, b, st)
     else (case map_of (bd_meta b) ''traceparent'' of
             None \<Rightarrow> (Continue, b, st)
           | Some tp \<Rightarrow>
               let b1 = set_header_text H ''traceparent'' tp b in
               (Continue,
                case map_of (bd_meta b) ''tracestate'' of
                  Some ts \<Rightarrow> set_header_text H ''tracestate'' ts b1
                | None \<Rightarrow> b1, st)))"

definition ErrorPages_handle :: "'h headers \<Rightarrow> (nat \<Rightarrow> string option) \<Rightarrow> ('h building, pstate) handler" where
  "ErrorPages_handle H pages = (\<lambda>(b, st).
     (let r = bd_response b in
      if rs_status r \<ge> 400
      then (case pages (rs_status r) of
              None \<Rightarrow> (Continue, b, st)
            | Some page \<Rightarrow>
                let h1 = hremove H (hremove H (hremove H (rs_headers r) ''content-encoding'') ''etag'') ''last-modified'';
                    h2 = hset H h1 ''content-type'' ''text/html; charset=utf-8'';
                    h3 = hset H h2 ''content-length'' (show_nat (length page))
                in (Continue, b\<lparr>bd_response := r\<lparr>rs_headers := h3, rs_body := Full page\<rparr>\<rparr>, st))
      else (Continue, b, st)))"

definition ServerHeader_handle :: "'h headers \<Rightarrow> string \<Rightarrow> ('h building, pstate) handler" where
  "ServerHeader_handle H date = (\<lambda>(b, st).
     (Continue,
      set_header_text H ''x-request-id'' (bd_id b) (set_header H ''date'' date (set_header H ''server'' ''OxPHP'' b)), st))"

definition upper_byte :: "char \<Rightarrow> char" where
  "upper_byte c = (if is_lower_byte c then char_of ((of_char c :: nat) - 32) else c)"

text \<open>The frame policy of \<^verbatim>\<open>FRAME_OPTIONS\<close>, a value of ASCII characters.\<close>

definition SecurityHeaders_new :: "string \<Rightarrow> (string \<times> string) option" where
  "SecurityHeaders_new raw =
     (let up = map upper_byte raw in
      if up = ''DENY'' then Some (''DENY'', ''frame-ancestors '' @ [CHR 0x27] @ ''none'' @ [CHR 0x27])
      else if up = ''OFF'' then None
      else Some (''SAMEORIGIN'', ''frame-ancestors '' @ [CHR 0x27] @ ''self'' @ [CHR 0x27]))"

definition ascii_space :: "char \<Rightarrow> bool" where
  "ascii_space c = (of_char c \<in> {9, 10, 12, 13, 32 :: nat})"

definition has_frame_ancestors_directive :: "string \<Rightarrow> bool" where
  "has_frame_ancestors_directive value =
     list_ex (\<lambda>segment.
        eq_ignore_case (takeWhile (\<lambda>c. \<not> ascii_space c) (dropWhile ascii_space segment)) ''frame-ancestors'')
       (split_on (CHR '';'') value)"

definition SecurityHeaders_handle :: "'h headers \<Rightarrow> (string \<times> string) option \<Rightarrow> ('h building, pstate) handler" where
  "SecurityHeaders_handle H policy = (\<lambda>(b, st).
     (let app_xfo = has_header H ''x-frame-options'' b;
          app_csp = has_header H ''content-security-policy'' b;
          app_fa = list_ex has_frame_ancestors_directive
                     (get_all H (rs_headers (bd_response b)) ''content-security-policy'');
          b1 = (if has_header H ''x-content-type-options'' b then b
                else set_header H ''x-content-type-options'' ''nosniff'' b);
          b2 = (case policy of
                  Some (fo, _) \<Rightarrow> if \<not> app_xfo \<and> \<not> app_fa then set_header H ''x-frame-options'' fo b1 else b1
                | None \<Rightarrow> b1);
          b3 = (case policy of
                  Some (_, fa) \<Rightarrow> if \<not> app_csp \<and> \<not> app_xfo then set_header H ''content-security-policy'' fa b2 else b2
                | None \<Rightarrow> b2)
      in (Continue, b3, st)))"

section \<open>The end of a request\<close>

record completion =
  cp_status :: nat
  cp_duration_us :: u64
  cp_request_size :: nat
  cp_response_size :: nat

definition MetricsResponse_handle :: "(completion, pstate) handler" where
  "MetricsResponse_handle = (\<lambda>(ev, st).
     (Continue, ev,
      st\<lparr>ps_metrics := record_response (cp_status ev) (cp_duration_us ev) (of_nat (cp_request_size ev))
           (of_nat (cp_response_size ev)) (ps_metrics st)\<rparr>))"

section \<open>The server's dispatchers\<close>

text \<open>Dispatchers are by event type; what is optional in the configuration is an option here.\<close>

record 'n options =
  su_limited :: bool
  su_trace :: bool
  su_proxies :: "'n TrustedProxyConfig option"
  su_pages :: "(nat \<Rightarrow> string option) option"
  su_frame :: string
  su_levels :: Levels

definition received_handlers ::
    "'n ipnet \<Rightarrow> 'h headers \<Rightarrow> 'n options \<Rightarrow> moment \<Rightarrow> (int \<times> ('h received, pstate) handler) list" where
  "received_handlers N H su mo =
     [(-100, RequestId_handle H mo), (0, MetricsRequest_handle)] @
     (if su_limited su then [(-50, RateLimit_handle H mo)] else []) @
     [(-95, TraceContextRequest_handle (su_trace su) H mo)] @
     (case su_proxies su of Some cfg \<Rightarrow> [(-80, TrustedProxy_handler N H cfg)] | None \<Rightarrow> [])"

definition building_handlers ::
    "'h headers \<Rightarrow> 'n options \<Rightarrow> string \<Rightarrow> (int \<times> ('h building, pstate) handler) list" where
  "building_handlers H su date =
     [(100, ServerHeader_handle H date), (100, SecurityHeaders_handle H (SecurityHeaders_new (su_frame su)))] @
     (case su_pages su of Some pages \<Rightarrow> [(60, ErrorPages_handle H pages)] | None \<Rightarrow> []) @
     [(-95, TraceContextResponse_handle (su_trace su) H)]"

text \<open>Built-in handlers are registered on a dispatcher that is not yet frozen.\<close>

definition frozen_dispatcher :: "(int \<times> ('e, 's) handler) list \<Rightarrow> ('e, 's) EventDispatcher option" where
  "frozen_dispatcher hs = map_option freeze (on_all hs EventDispatcher_new)"

section \<open>A request\<close>

text \<open>What routing and execution come back with: a response and the size of the request body, or a failure;
  and the reason the request's abort guard reports, \<open>0\<close> when there is none.\<close>

record 'h outcome =
  oc_answer :: "('h response \<times> nat) option"
  oc_cancel_reason :: nat

definition internal_error :: "'h headers \<Rightarrow> 'h response" where
  "internal_error H =
     \<lparr>rs_status = 500, rs_headers = happend H (hempty H) ''content-type'' ''text/plain; charset=utf-8'',
      rs_body = Full ''500 Internal Server Error''\<rparr>"

definition body_size :: "'h response \<Rightarrow> nat" where
  "body_size r = (case size_exact (rs_body r) of Some n \<Rightarrow> n | None \<Rightarrow> 0)"

definition completed :: "moment \<Rightarrow> 'h response \<Rightarrow> nat \<Rightarrow> completion" where
  "completed mo r request_size =
     \<lparr>cp_status = rs_status r, cp_duration_us = mo_elapsed_us mo, cp_request_size = request_size,
      cp_response_size = body_size r\<rparr>"

definition count_compression :: "Acceptable \<Rightarrow> 'h response \<Rightarrow> 'h response \<Rightarrow> Metrics \<Rightarrow> Metrics" where
  "count_compression acc before after m =
     (if per_request acc \<noteq> None \<and> body_size after < body_size before
      then record_compression (of_nat (body_size before - body_size after)) m else m)"

text \<open>\<open>None\<close> is a panic while registering.\<close>

definition handle_request ::
    "encoders \<Rightarrow> 'n ipnet \<Rightarrow> 'h headers \<Rightarrow> 'n options \<Rightarrow> moment \<Rightarrow> string \<Rightarrow> ('h received \<Rightarrow> 'w \<Rightarrow> 'h outcome \<times> 'w) \<Rightarrow>
     'h \<Rightarrow> string \<Rightarrow> IpAddr \<Rightarrow> nat \<Rightarrow> pstate \<times> 'w \<Rightarrow> ('h response \<times> pstate \<times> 'w) option" where
  "handle_request E N H su mo date inner h meth peer port = (\<lambda>(st, w).
     (case (frozen_dispatcher (received_handlers N H su mo), frozen_dispatcher (building_handlers H su date),
            frozen_dispatcher [(0, MetricsResponse_handle)]) of
        (Some received, Some building, Some complete) \<Rightarrow>
          (let h1 = join_cookie_field_lines H h;
               accepted = Acceptable_from_headers H h1 (su_levels su);
               ev = \<lparr>rq_headers = h1, rq_method = meth, rq_ip = peer, rq_port = port, rq_id = [], rq_early = None,
                     rq_meta = []\<rparr>
           in case event_dispatch received (ev, st) of
                (_, ev1, st1) \<Rightarrow>
                  (case rq_early ev1 of
                     Some early \<Rightarrow>
                       (case event_dispatch complete (completed mo early 0, st1) of (_, _, st2) \<Rightarrow> Some (early, st2, w))
                   | None \<Rightarrow>
                       (case inner (ev1\<lparr>rq_headers := strip_plugin_cookies H (rq_headers ev1)\<rparr>) w of
                          (out, w1) \<Rightarrow>
                            (let st2 = st1\<lparr>ps_metrics := observe_cancelled (oc_cancel_reason out) (ps_metrics st1)\<rparr>;
                                 (resp, request_size) =
                                   (case oc_answer out of Some a \<Rightarrow> a | None \<Rightarrow> (internal_error H, 0))
                             in case event_dispatch building
                                       (\<lparr>bd_id = rq_id ev1, bd_response = resp, bd_meta = rq_meta ev1\<rparr>, st2) of
                                  (_, b, st3) \<Rightarrow>
                                    (let r = encode_response E H (su_levels su) accepted (bd_response b);
                                         st4 = st3\<lparr>ps_metrics :=
                                                 count_compression accepted (bd_response b) r (ps_metrics st3)\<rparr>
                                     in case event_dispatch complete (completed mo r request_size, st4) of
                                          (_, _, st5) \<Rightarrow> Some (r, st5, w1))))))
      | _ \<Rightarrow> None))"


section \<open>Dispatching\<close>

text \<open>No built-in handler stops an event.  A handler that goes on hands the event to the next one.\<close>

locale continuing =
  fixes f :: "('e, 's) handler"
  assumes goes_on: "fst (f es) = Continue"
begin

lemma dispatch_on: "dispatch_to ((p, f) # hs) es = dispatch_to hs (snd (f es))"
  using goes_on[of es] by (cases "f es") simp

end

interpretation rid: continuing "RequestId_handle H mo" for H :: "'h headers" and mo
  by unfold_locales (auto simp: RequestId_handle_def split: prod.splits option.splits)

interpretation trq: continuing "TraceContextRequest_handle b H mo" for b and H :: "'h headers" and mo
  by unfold_locales (auto simp: TraceContextRequest_handle_def Let_def)

interpretation tpr: continuing "TrustedProxy_handler N H cfg" for N :: "'n ipnet" and H :: "'h headers" and cfg
  by unfold_locales (auto simp: TrustedProxy_handler_def)

interpretation lim: continuing "RateLimit_handle H mo" for H :: "'h headers" and mo
  by unfold_locales (auto simp: RateLimit_handle_def split: prod.splits option.splits)

interpretation met: continuing "MetricsRequest_handle :: ('h received, pstate) handler"
  by unfold_locales (auto simp: MetricsRequest_handle_def)

interpretation trs: continuing "TraceContextResponse_handle b H" for b and H :: "'h headers"
  by unfold_locales (auto simp: TraceContextResponse_handle_def Let_def split: option.splits)

interpretation err: continuing "ErrorPages_handle H pages" for H :: "'h headers" and pages
  by unfold_locales (auto simp: ErrorPages_handle_def Let_def split: option.splits)

interpretation srv: continuing "ServerHeader_handle H date" for H :: "'h headers" and date
  by unfold_locales (auto simp: ServerHeader_handle_def)

interpretation sec: continuing "SecurityHeaders_handle H policy" for H :: "'h headers" and policy
  by unfold_locales (auto simp: SecurityHeaders_handle_def Let_def)

interpretation mrs: continuing MetricsResponse_handle
  by unfold_locales (auto simp: MetricsResponse_handle_def)

lemmas dispatch_ons =
  rid.dispatch_on trq.dispatch_on tpr.dispatch_on lim.dispatch_on met.dispatch_on
  trs.dispatch_on err.dispatch_on srv.dispatch_on sec.dispatch_on mrs.dispatch_on

lemma on_all_open: "\<not> frozen d \<Longrightarrow> on_all hs d = Some (d\<lparr>handlers := handlers d @ hs\<rparr>)"
  by (induction hs arbitrary: d) (auto simp: on_def)

lemma frozen_dispatcher_sorted:
  "frozen_dispatcher hs = Some \<lparr>handlers = sort_key fst hs, frozen = True\<rparr>"
  by (simp add: frozen_dispatcher_def on_all_open EventDispatcher_new_def freeze_def)

text \<open>Priorities, not registration order, decide who sees the event first; equal priorities keep the order of
  registration.\<close>

lemma received_order:
  assumes "su_limited su" "su_proxies su = Some cfg"
  shows "sort_key fst (received_handlers N H su mo) =
    [(-100, RequestId_handle H mo), (-95, TraceContextRequest_handle (su_trace su) H mo),
     (-80, TrustedProxy_handler N H cfg), (-50, RateLimit_handle H mo), (0, MetricsRequest_handle)]"
  using assms by (simp add: received_handlers_def)

lemma building_order:
  "sort_key fst (building_handlers H su date) =
    [(-95, TraceContextResponse_handle (su_trace su) H)] @
    (case su_pages su of Some pages \<Rightarrow> [(60, ErrorPages_handle H pages)] | None \<Rightarrow> []) @
    [(100, ServerHeader_handle H date), (100, SecurityHeaders_handle H (SecurityHeaders_new (su_frame su)))]"
  by (simp add: building_handlers_def split: option.splits)

lemma late_registration_panics: "on p f (freeze d) = None"
  by (simp add: on_def freeze_def)

section \<open>Request ids\<close>

lemma hex_char_alnum: "d < 16 \<Longrightarrow> is_alnum_byte (HEX_CHARS ! d)"
  by (drule less_16_cases) (auto simp: HEX_CHARS_def is_alnum_byte_def is_digit_byte_def is_lower_byte_def)

lemma hex_digits_ok: "length (hex_digits k n) = k \<and> list_all is_alnum_byte (hex_digits k n)"
  by (induction k n rule: hex_digits.induct) (auto simp: hex_char_alnum)

lemma hex_digits_Nil: "hex_digits k n = [] \<longleftrightarrow> k = 0"
  using hex_digits_ok[of k n] by auto

lemma generated_id_ok:
  "generate_request_id mo st = (s, st') \<Longrightarrow>
     is_valid_request_id s \<and> length s = 20 \<and> ps_limiter st' = ps_limiter st \<and> ps_metrics st' = ps_metrics st"
  using hex_digits_ok[of 8] hex_digits_ok[of 4]
  by (auto simp: generate_request_id_def Let_def is_valid_request_id_def list_all_iff hex_digits_Nil split: if_splits)

lemma RequestId_ok:
  obtains s st' where "snd (RequestId_handle H mo (ev, st)) = (ev\<lparr>rq_id := s\<rparr>, st')" "is_valid_request_id s"
    "ps_limiter st' = ps_limiter st" "ps_metrics st' = ps_metrics st"
proof (cases "case header_str H (rq_headers ev) ''x-request-id'' of
              Some s \<Rightarrow> if is_valid_request_id s then Some s else None
            | None \<Rightarrow> None")
  case None
  obtain s st' where "generate_request_id mo st = (s, st')" by fastforce
  then show ?thesis using None generated_id_ok that by (simp add: RequestId_handle_def)
next
  case (Some s)
  then have "is_valid_request_id s" by (auto split: option.splits if_splits)
  then show ?thesis using Some that by (simp add: RequestId_handle_def)
qed

lemma valid_id_visible: "is_valid_request_id s \<Longrightarrow> list_all visible s"
  by (auto simp: is_valid_request_id_def list_all_iff visible_def is_alnum_byte_def is_digit_byte_def is_lower_byte_def
      is_upper_byte_def)

section \<open>From arrival to answer\<close>

definition arrival :: "'h \<Rightarrow> string \<Rightarrow> IpAddr \<Rightarrow> nat \<Rightarrow> 'h received" where
  "arrival h meth peer port =
     \<lparr>rq_headers = h, rq_method = meth, rq_ip = peer, rq_port = port, rq_id = [], rq_early = None, rq_meta = []\<rparr>"

lemma push_meta_frames [simp]:
  "rq_id (push_meta k v ev) = rq_id ev" "rq_early (push_meta k v ev) = rq_early ev"
  "rq_headers (push_meta k v ev) = rq_headers ev" "rq_method (push_meta k v ev) = rq_method ev"
  by (simp_all add: push_meta_def split: option.splits)

lemma read_frames:
  "rq_id (snd (read_forwarded H ev fwd)) = rq_id ev" "rq_early (snd (read_forwarded H ev fwd)) = rq_early ev"
  "rq_headers (snd (read_forwarded H ev fwd)) = rq_headers ev" "rq_ip (snd (read_forwarded H ev fwd)) = rq_ip ev"
  "rq_id (snd (read_x_forwarded H ev)) = rq_id ev" "rq_early (snd (read_x_forwarded H ev)) = rq_early ev"
  "rq_headers (snd (read_x_forwarded H ev)) = rq_headers ev" "rq_method (snd (read_forwarded H ev fwd)) = rq_method ev"
  "rq_method (snd (read_x_forwarded H ev)) = rq_method ev"
  unfolding read_forwarded_def read_x_forwarded_def Let_def snd_conv push_meta_frames push_meta_addr by (rule refl)+

definition chain_read :: "'h headers \<Rightarrow> 'h received \<Rightarrow> hop list \<times> 'h received" where
  "chain_read H ev =
     (case forwarded_combined H (rq_headers ev) of Some fwd \<Rightarrow> read_forwarded H ev fwd | None \<Rightarrow> read_x_forwarded H ev)"

lemma TrustedProxy_handle_unfold:
  "TrustedProxy_handle N H cfg ev =
     (if \<not> is_trusted N cfg (rq_ip ev) then ev
      else (case resolve_client N H cfg (rq_ip ev) (rq_headers ev) (fst (chain_read H ev)) of
              Some (ip, port) \<Rightarrow>
                (snd (chain_read H ev))\<lparr>rq_ip := ip, rq_port := (case port of Some p \<Rightarrow> p | None \<Rightarrow> 0)\<rparr>
            | None \<Rightarrow> snd (chain_read H ev)))"
  by (simp only: TrustedProxy_handle_def Let_def chain_read_def[symmetric] case_prod_beta)

lemma chain_read_frames [simp]:
  "rq_id (snd (chain_read H ev)) = rq_id ev" "rq_early (snd (chain_read H ev)) = rq_early ev"
  "rq_headers (snd (chain_read H ev)) = rq_headers ev" "rq_ip (snd (chain_read H ev)) = rq_ip ev"
  "rq_method (snd (chain_read H ev)) = rq_method ev"
  by (simp_all add: chain_read_def read_frames read_x_forwarded_addr split: option.splits)

lemma chain_read_cong: "rq_headers ev = rq_headers ev' \<Longrightarrow> fst (chain_read H ev) = fst (chain_read H ev')"
  unfolding chain_read_def read_forwarded_def read_x_forwarded_def Let_def by (simp split: option.splits)

lemma TrustedProxy_frames:
  "rq_id (TrustedProxy_handle N H cfg ev) = rq_id ev" "rq_early (TrustedProxy_handle N H cfg ev) = rq_early ev"
  "rq_headers (TrustedProxy_handle N H cfg ev) = rq_headers ev" "rq_method (TrustedProxy_handle N H cfg ev) = rq_method ev"
  unfolding TrustedProxy_handle_unfold by (simp_all split: option.splits prod.splits)

lemma TrustedProxy_address_cong:
  assumes "rq_headers ev = rq_headers ev'" "rq_ip ev = rq_ip ev'"
  shows "rq_ip (TrustedProxy_handle N H cfg ev) = rq_ip (TrustedProxy_handle N H cfg ev')"
  unfolding TrustedProxy_handle_unfold using assms chain_read_cong[OF assms(1)]
  by (simp split: option.splits prod.splits)


lemma received_dispatch:
  assumes "su_limited su" "su_proxies su = Some cfg"
  obtains s ev' st' where
    "dispatch_to (sort_key fst (received_handlers N H su mo)) (arrival h meth peer port, st) = (Continue, ev', st')"
    "is_valid_request_id s" "rq_id ev' = s" "rq_headers ev' = h"
    "rq_ip ev' = rq_ip (TrustedProxy_handle N H cfg (arrival h meth peer port))"
    "rq_early ev' = fst (check_rate_limited H (mo_now mo) (rq_ip ev') s (ps_limiter st))"
    "ps_limiter st' = snd (check_rate_limited H (mo_now mo) (rq_ip ev') s (ps_limiter st))"
    "ps_metrics st' = record_request meth (if rq_early ev' = None then ps_metrics st else rate_limited (ps_metrics st))"
proof -
  let ?a = "arrival h meth peer port"
  obtain s st1 where r: "snd (RequestId_handle H mo (?a, st)) = (?a\<lparr>rq_id := s\<rparr>, st1)" "is_valid_request_id s"
    "ps_limiter st1 = ps_limiter st" "ps_metrics st1 = ps_metrics st"
    by (rule RequestId_ok)
  obtain m where m: "snd (TraceContextRequest_handle (su_trace su) H mo (?a\<lparr>rq_id := s\<rparr>, st1)) =
      (?a\<lparr>rq_id := s, rq_meta := m\<rparr>, st1)"
    by (cases "su_trace su") (force simp: TraceContextRequest_handle_def Let_def arrival_def)+
  define ev where "ev = TrustedProxy_handle N H cfg (?a\<lparr>rq_id := s, rq_meta := m\<rparr>)"
  have e: "rq_id ev = s" "rq_headers ev = h" "rq_early ev = None" "rq_method ev = meth"
    unfolding ev_def TrustedProxy_frames by (simp_all add: arrival_def)
  have i: "rq_ip ev = rq_ip (TrustedProxy_handle N H cfg ?a)"
    unfolding ev_def by (rule TrustedProxy_address_cong) simp_all
  obtain lr rl where c: "check_rate_limited H (mo_now mo) (rq_ip ev) s (ps_limiter st) = (lr, rl)" by fastforce
  define ev' where "ev' = (case lr of Some x \<Rightarrow> ev\<lparr>rq_early := Some x\<rparr> | None \<Rightarrow> ev)"
  define st' where "st' = (case lr of Some _ \<Rightarrow> st1\<lparr>ps_limiter := rl, ps_metrics := rate_limited (ps_metrics st1)\<rparr>
      | None \<Rightarrow> st1\<lparr>ps_limiter := rl\<rparr>)"
  have l: "snd (RateLimit_handle H mo (ev, st1)) = (ev', st')"
    using c e(1) r(3) by (simp add: RateLimit_handle_def ev'_def st'_def split: option.splits)
  have "dispatch_to (sort_key fst (received_handlers N H su mo)) (?a, st) =
      (Continue, ev', st'\<lparr>ps_metrics := record_request (rq_method ev') (ps_metrics st')\<rparr>)"
    unfolding received_order[OF assms] dispatch_ons r(1) m
    by (simp add: dispatch_ons TrustedProxy_handler_def ev_def[symmetric] l MetricsRequest_handle_def)
  then show ?thesis
    by (rule that[of _ _ s]) (use r e i c in \<open>simp_all add: ev'_def st'_def split: option.splits\<close>)
qed

lemma set_header_sel [simp]:
  "bd_id (set_header H k v b) = bd_id b" "bd_meta (set_header H k v b) = bd_meta b"
  "rs_status (bd_response (set_header H k v b)) = rs_status (bd_response b)"
  "rs_headers (bd_response (set_header H k v b)) = hset H (rs_headers (bd_response b)) k v"
  by (simp_all add: set_header_def)

lemma set_header_text_sel [simp]:
  "bd_id (set_header_text H k v b) = bd_id b" "bd_meta (set_header_text H k v b) = bd_meta b"
  "rs_status (bd_response (set_header_text H k v b)) = rs_status (bd_response b)"
  by (simp_all add: set_header_text_def split: option.splits)

text \<open>The handlers before the last two keep the id and the status.\<close>

lemma trace_response_keeps:
  "snd (TraceContextResponse_handle en H (b, st)) = (b', st') \<Longrightarrow>
     bd_id b' = bd_id b \<and> rs_status (bd_response b') = rs_status (bd_response b) \<and> st' = st"
  by (auto simp: TraceContextResponse_handle_def Let_def split: if_splits option.splits)

lemma error_pages_keeps:
  "snd (ErrorPages_handle H pages (b, st)) = (b', st') \<Longrightarrow>
     bd_id b' = bd_id b \<and> rs_status (bd_response b') = rs_status (bd_response b) \<and> st' = st"
  by (auto simp: ErrorPages_handle_def Let_def split: if_splits option.splits)

lemma early_handlers_keep:
  obtains b' where
    "dispatch_to (sort_key fst (building_handlers H su date)) (b, st) =
       dispatch_to [(100, ServerHeader_handle H date), (100, SecurityHeaders_handle H (SecurityHeaders_new (su_frame su)))] (b', st)"
    "bd_id b' = bd_id b" "rs_status (bd_response b') = rs_status (bd_response b)"
proof -
  obtain b1 st1 where t: "snd (TraceContextResponse_handle (su_trace su) H (b, st)) = (b1, st1)" by fastforce
  note k1 = trace_response_keeps[OF t]
  show ?thesis
  proof (cases "su_pages su")
    case None
    show ?thesis
      by (rule that[of b1]) (use None k1 t in \<open>simp_all add: building_order trs.dispatch_on del: dispatch_to.simps\<close>)
  next
    case (Some pages)
    obtain b2 st2 where e: "snd (ErrorPages_handle H pages (b1, st1)) = (b2, st2)" by fastforce
    note k2 = error_pages_keeps[OF e]
    show ?thesis
      by (rule that[of b2]) (use Some k1 k2 t e in \<open>simp_all add: building_order trs.dispatch_on err.dispatch_on del: dispatch_to.simps\<close>)
  qed
qed

text \<open>Server, date and request id are on every response that is built, and no response goes without a
  \<^verbatim>\<open>X-Content-Type-Options\<close>.\<close>

definition dressed :: "'h headers \<Rightarrow> string \<Rightarrow> string \<Rightarrow> 'h response \<Rightarrow> bool" where
  "dressed H rid date r \<longleftrightarrow>
     get_all H (rs_headers r) ''server'' = [''OxPHP''] \<and> get_all H (rs_headers r) ''date'' = [date] \<and>
     get_all H (rs_headers r) ''x-request-id'' = [rid] \<and> get_all H (rs_headers r) ''x-content-type-options'' \<noteq> []"


lemma set_header_if:
  assumes "header_laws H"
  shows "get_all H (rs_headers (bd_response (if c then set_header H k v b else b))) k' =
      (if c \<and> k' = k then [v] else get_all H (rs_headers (bd_response b)) k')"
    "rs_status (bd_response (if c then set_header H k v b else b)) = rs_status (bd_response b)"
  by (simp_all add: header_lookup[OF assms])

lemma security_headers_keep:
  assumes "header_laws H" "snd (SecurityHeaders_handle H policy (b, st)) = (b', st')"
  shows "st' = st" "rs_status (bd_response b') = rs_status (bd_response b)"
    "get_all H (rs_headers (bd_response b')) ''server'' = get_all H (rs_headers (bd_response b)) ''server''"
    "get_all H (rs_headers (bd_response b')) ''date'' = get_all H (rs_headers (bd_response b)) ''date''"
    "get_all H (rs_headers (bd_response b')) ''x-request-id'' = get_all H (rs_headers (bd_response b)) ''x-request-id''"
    "get_all H (rs_headers (bd_response b')) ''x-content-type-options'' \<noteq> []"
proof -
  let ?x = "''x-content-type-options''" and ?f = "''x-frame-options''" and ?c = "''content-security-policy''"
  define b1 where "b1 = (if \<not> has_header H ?x b then set_header H ?x ''nosniff'' b else b)"
  obtain c2 c3 fo fa where b': "b' = (if c3 then set_header H ?c fa (if c2 then set_header H ?f fo b1 else b1)
      else (if c2 then set_header H ?f fo b1 else b1))" and st: "st' = st"
  proof (cases policy)
    case None
    then have "b' = b1" "st' = st"
      using assms(2) by (auto simp: SecurityHeaders_handle_def Let_def b1_def)
    then show ?thesis using that[of False _ False] by simp
  next
    case (Some p)
    obtain fo fa where "p = (fo, fa)" by fastforce
    then show ?thesis
      using assms(2) Some that[of "\<not> has_header H ?c b \<and> \<not> has_header H ?f b" fa
          "\<not> has_header H ?f b \<and> \<not> list_ex has_frame_ancestors_directive (get_all H (rs_headers (bd_response b)) ?c)" fo]
      by (auto simp: SecurityHeaders_handle_def Let_def b1_def)
  qed
  note g = set_header_if[OF assms(1)]
  show "st' = st" by (rule st)
  show "rs_status (bd_response b') = rs_status (bd_response b)" unfolding b' g b1_def by (rule refl)
  have k: "get_all H (rs_headers (bd_response b')) k = get_all H (rs_headers (bd_response b)) k"
    if "k \<noteq> ?x" "k \<noteq> ?f" "k \<noteq> ?c" for k
    unfolding b' g b1_def using that by simp
  show "get_all H (rs_headers (bd_response b')) ''server'' = get_all H (rs_headers (bd_response b)) ''server''"
    "get_all H (rs_headers (bd_response b')) ''date'' = get_all H (rs_headers (bd_response b)) ''date''"
    "get_all H (rs_headers (bd_response b')) ''x-request-id'' = get_all H (rs_headers (bd_response b)) ''x-request-id''"
    by (rule k; simp)+
  show "get_all H (rs_headers (bd_response b')) ?x \<noteq> []"
    unfolding b' g b1_def by (simp add: has_header_def)
qed

lemma server_headers_dressed:
  assumes "header_laws H" "is_valid_request_id (bd_id b)" "snd (ServerHeader_handle H date (b, st)) = (b1, st1)"
    "snd (SecurityHeaders_handle H policy (b1, st1)) = (b2, st2)"
  shows "dressed H (bd_id b) date (bd_response b2) \<and> rs_status (bd_response b2) = rs_status (bd_response b) \<and> st2 = st"
proof -
  have "from_str H (bd_id b) = Some (bd_id b)"
    using assms(1) valid_id_visible[OF assms(2)] by (simp add: header_laws_def)
  then have b1: "st1 = st" "bd_id b1 = bd_id b" "rs_status (bd_response b1) = rs_status (bd_response b)"
    "get_all H (rs_headers (bd_response b1)) ''server'' = [''OxPHP'']"
    "get_all H (rs_headers (bd_response b1)) ''date'' = [date]"
    "get_all H (rs_headers (bd_response b1)) ''x-request-id'' = [bd_id b]"
    using assms(3) by (auto simp: ServerHeader_handle_def set_header_text_def header_lookup[OF assms(1)])
  note s = security_headers_keep[OF assms(1,4)]
  show ?thesis unfolding dressed_def using b1 s by simp
qed

lemma building_dispatch:
  assumes "header_laws H" "is_valid_request_id (bd_id b)"
  obtains b' where "dispatch_to (sort_key fst (building_handlers H su date)) (b, st) = (Continue, b', st)"
    "dressed H (bd_id b) date (bd_response b')" "rs_status (bd_response b') = rs_status (bd_response b)"
proof -
  obtain b0 where b0: "dispatch_to (sort_key fst (building_handlers H su date)) (b, st) =
       dispatch_to [(100, ServerHeader_handle H date), (100, SecurityHeaders_handle H (SecurityHeaders_new (su_frame su)))] (b0, st)"
    "bd_id b0 = bd_id b" "rs_status (bd_response b0) = rs_status (bd_response b)"
    by (rule early_handlers_keep)
  obtain b1 st1 where s: "snd (ServerHeader_handle H date (b0, st)) = (b1, st1)" by fastforce
  obtain b2 st2 where q: "snd (SecurityHeaders_handle H (SecurityHeaders_new (su_frame su)) (b1, st1)) = (b2, st2)"
    by fastforce
  note d = server_headers_dressed[OF assms(1) _ s q]
  have "dispatch_to (sort_key fst (building_handlers H su date)) (b, st) = (Continue, b2, st2)"
    unfolding b0(1) srv.dispatch_on sec.dispatch_on s q by simp
  then show ?thesis using that[of b2] d assms(2) b0(2,3) by simp
qed

text \<open>Encoding the response keeps the headers the handlers set.\<close>

lemma encode_response_keeps:
  assumes H: "header_laws H" and k: "k \<notin> {''content-encoding'', ''etag'', ''accept-ranges'', ''content-length'', ''vary''}"
  shows "get_all H (rs_headers (encode_response E H lv acc r)) k = get_all H (rs_headers r) k"
    "rs_status (encode_response E H lv acc r) = rs_status r"
proof -
  have m: "get_all H (rs_headers (maybe_compress E H r c l)) k = get_all H (rs_headers r) k \<and>
      rs_status (maybe_compress E H r c l) = rs_status r" for c l
  proof (cases rule: maybe_compress_cases[of E H r c l])
    case (encoded bytes out)
    then show ?thesis using mark_encoded_headers(5)[OF H _ k, where r = "r\<lparr>rs_body := Full out\<rparr>" and b = out and c = c] by simp
  qed simp
  show "get_all H (rs_headers (encode_response E H lv acc r)) k = get_all H (rs_headers r) k"
    using k m vary_mark_keeps[OF H, of k] by (auto simp: encode_response_def split: option.splits)
  show "rs_status (encode_response E H lv acc r) = rs_status r"
    using m by (auto simp: encode_response_def vary_mark_sel split: option.splits)
qed

lemma encode_dressed: "header_laws H \<Longrightarrow> dressed H rid date r \<Longrightarrow> dressed H rid date (encode_response E H lv acc r)"
  unfolding dressed_def by (simp add: encode_response_keeps)

lemma metrics_frames [simp]:
  "mt_by_status (record_request meth m) = mt_by_status m" "mt_by_status (rate_limited m) = mt_by_status m"
  "mt_by_status (observe_cancelled reason m) = mt_by_status m" "mt_by_status (count_compression acc b a m) = mt_by_status m"
  "mt_total (record_request meth m) = mt_total m + 1" "mt_total (rate_limited m) = mt_total m"
  "mt_total (observe_cancelled reason m) = mt_total m" "mt_total (count_compression acc b a m) = mt_total m"
  "mt_total (record_response st us rq rs m) = mt_total m"
  "mt_by_status (record_response st us rq rs m) = bump (status_class_index st) (mt_by_status m)"
  "mt_rate_limited (record_request meth m) = mt_rate_limited m" "mt_rate_limited (rate_limited m) = mt_rate_limited m + 1"
  "mt_rate_limited (observe_cancelled reason m) = mt_rate_limited m"
  "mt_rate_limited (count_compression acc b a m) = mt_rate_limited m"
  "mt_rate_limited (record_response st us rq rs m) = mt_rate_limited m"
  by (simp_all add: record_request_def rate_limited_def observe_cancelled_def count_compression_def record_compression_def
      record_response_def)

text \<open>The counters after a request: one more request, one more response under the class of its status.\<close>

definition counted :: "pstate \<Rightarrow> pstate \<Rightarrow> 'h response \<Rightarrow> bool" where
  "counted st st' r \<longleftrightarrow> mt_total (ps_metrics st') = mt_total (ps_metrics st) + 1 \<and>
     mt_by_status (ps_metrics st') = bump (status_class_index (rs_status r)) (mt_by_status (ps_metrics st))"

lemma complete_dispatch:
  "event_dispatch \<lparr>handlers = sort_key fst [(0, MetricsResponse_handle)], frozen = True\<rparr> (ev, st) =
   (Continue, ev, st\<lparr>ps_metrics := record_response (cp_status ev) (cp_duration_us ev) (of_nat (cp_request_size ev))
      (of_nat (cp_response_size ev)) (ps_metrics st)\<rparr>)"
  by (simp add: event_dispatch_def MetricsResponse_handle_def)


definition no_codings :: Levels where
  "no_codings = \<lparr>lv_brotli = 0, lv_gzip = 0, lv_zstd = 0\<rparr>"

definition no_encoders :: encoders where
  "no_encoders = \<lparr>encode = \<lambda>_ _ _. None, offloaded = \<lambda>_ _. True\<rparr>"

definition demo_options :: "IpAddr options" where
  "demo_options = \<lparr>su_limited = True, su_trace = False, su_proxies = Some one_proxy, su_pages = None, su_frame = ''DENY'',
     su_levels = no_codings\<rparr>"

definition demo_moment :: moment where
  "demo_moment = \<lparr>mo_now = 5, mo_epoch = 17, mo_pid = 77, mo_raw16 = [], mo_raw8 = [], mo_elapsed_us = 120\<rparr>"

definition demo_state :: pstate where
  "demo_state = \<lparr>ps_limiter = RateLimiter_new 2 60, ps_counter = 0, ps_epoch = 0, ps_metrics = Metrics_new_with_workers 0\<rparr>"

definition demo_inner :: "(string \<times> string) list received \<Rightarrow> nat \<Rightarrow> (string \<times> string) list outcome \<times> nat" where
  "demo_inner ev w =
     (\<lparr>oc_answer = Some (\<lparr>rs_status = 200, rs_headers = [], rs_body = Full ''hi''\<rparr>, 0), oc_cancel_reason = 0\<rparr>, Suc w)"

definition demo_headers :: "(string \<times> string) list" where
  "demo_headers = [(''x-forwarded-for'', ''203.0.113.9''), (''cookie'', ''a=1; __oxp_p_t=2''), (''cookie'', ''b=3''),
     (''x-request-id'', ''r1'')]"


text \<open>A refused request skips the second event, so its response goes out without the headers the other handlers
  add to every response.\<close>

lemma early_response_undressed:
  "case handle_request no_encoders host_nets list_headers demo_options demo_moment ''now'' demo_inner demo_headers ''GET''
     (V4 [10, 0, 0, 1]) 4711 (demo_state\<lparr>ps_limiter := RateLimiter_new 0 60\<rparr>, 0) of
   Some (r, _, n) \<Rightarrow>
     rs_status r = 429 \<and> n = 0 \<and> map_of (rs_headers r) ''server'' = None \<and>
     map_of (rs_headers r) ''x-content-type-options'' = None
   | None \<Rightarrow> False"
  by code_simp

text \<open>A body that cannot be read back goes out as a failing stream, without a coding, and yet is counted as a
  response saved by compression.\<close>

lemma failed_body_counted_as_compressed:
  "let r = \<lparr>rs_status = 200, rs_headers = [(''content-type'', ''text/html'')], rs_body = Streamed 300 (Some 300) None\<rparr>;
       acc = (\<lambda>_. 1000);
       r' = encode_response no_encoders list_headers demo_levels acc r
   in get_all list_headers (rs_headers r') ''content-encoding'' = [] \<and> collect (rs_body r') = None \<and>
      mt_compressed (count_compression acc r r' m) = mt_compressed m + 1 \<and> mt_saved (count_compression acc r r' m) = mt_saved m + 300"
proof -
  let ?r = "\<lparr>rs_status = 200, rs_headers = [(''content-type'', ''text/html'')], rs_body = Streamed 300 (Some 300) None\<rparr>"
  have "encode_response no_encoders list_headers demo_levels (\<lambda>_. 1000) ?r = ?r\<lparr>rs_body := Streamed 0 None None\<rparr>"
    "per_request (\<lambda>_. 1000) \<noteq> None"
    by code_simp+
  then show ?thesis
    by (simp add: Let_def count_compression_def body_size_def record_compression_def list_headers_def)
qed

end
