(* ===== verification/Packed_Pairs.thy ===== *)
theory Packed_Pairs
  imports Ox_Words
begin

text \<open>
  The buffers a worker keeps from one request to the next (\<^verbatim>\<open>src/php/request_buffers.rs\<close>):
  name/value strings laid end to end in one byte buffer and addressed by offsets, C strings, and the output
  buffer; and the prefix matcher that removes response headers (\<^verbatim>\<open>src/php/header_match.rs\<close>).

  \<open>pack\<close> is the abstract specification, a list of pairs; every operation on the buffers refines the
  list operation it stands for.  Capacities, which only decide when memory is given back, are not modelled.
\<close>

section \<open>The buffers\<close>

record PackedPair =
  pp_start :: nat
  pp_name_len :: nat
  pp_value_len :: nat

record PackedPairs =
  pk_bytes :: string
  pk_pairs :: "PackedPair list"

abbreviation NUL :: char where
  "NUL \<equiv> CHR 0x00"

definition slice_of :: "nat \<Rightarrow> nat \<Rightarrow> 'a list \<Rightarrow> 'a list" where
  "slice_of start len bytes = take len (drop start bytes)"

definition in_buffer :: "PackedPair \<Rightarrow> string \<Rightarrow> string \<times> string" where
  "in_buffer p bytes =
     (slice_of (pp_start p) (pp_name_len p) bytes,
      slice_of (pp_start p + pp_name_len p + 1) (pp_value_len p) bytes)"

definition PackedPairs_default :: PackedPairs where
  "PackedPairs_default = \<lparr>pk_bytes = [], pk_pairs = []\<rparr>"

definition pk_len :: "PackedPairs \<Rightarrow> nat" where
  "pk_len p = length (pk_pairs p)"

definition pk_clear :: "PackedPairs \<Rightarrow> PackedPairs" where
  "pk_clear p = p\<lparr>pk_bytes := [], pk_pairs := []\<rparr>"

definition push_with :: "string \<Rightarrow> string \<Rightarrow> PackedPairs \<Rightarrow> PackedPairs" where
  "push_with name val p =
     (let start = length (pk_bytes p);
          b1 = pk_bytes p @ name;
          name_len = length b1 - start;
          b2 = b1 @ [NUL];
          value_start = length b2;
          b3 = b2 @ val;
          value_len = length b3 - value_start
      in \<lparr>pk_bytes = b3 @ [NUL],
          pk_pairs = pk_pairs p @ [\<lparr>pp_start = start, pp_name_len = name_len, pp_value_len = value_len\<rparr>]\<rparr>)"

definition push_c_with :: "string \<Rightarrow> string \<Rightarrow> PackedPairs \<Rightarrow> PackedPairs" where
  "push_c_with name val p =
     (let p1 = push_with name val p in
      case rev (pk_pairs p1) of
        [] \<Rightarrow> p1
      | newest # earlier \<Rightarrow>
          (case in_buffer newest (pk_bytes p1) of
             (n, v) \<Rightarrow>
               if NUL \<in> set n \<or> NUL \<in> set v
               then \<lparr>pk_bytes = take (pp_start newest) (pk_bytes p1), pk_pairs = rev earlier\<rparr>
               else p1))"

definition pk_iter :: "PackedPairs \<Rightarrow> (string \<times> string) list" where
  "pk_iter p = map (\<lambda>pair. in_buffer pair (pk_bytes p)) (pk_pairs p)"

text \<open>\<^verbatim>\<open>iter_shared_values\<close>: the values are slices of one copy of the buffer.\<close>

definition iter_shared_values :: "PackedPairs \<Rightarrow> (string \<times> string) list" where
  "iter_shared_values p =
     (let shared = pk_bytes p in
      map (\<lambda>pair.
             let value_start = pp_start pair + pp_name_len pair + 1 in
             (slice_of (pp_start pair) (pp_name_len pair) (pk_bytes p), slice_of value_start (pp_value_len pair) shared))
          (pk_pairs p))"

text \<open>\<^verbatim>\<open>copy_within(start..start + len, dest)\<close>.\<close>

definition copy_within :: "nat \<Rightarrow> nat \<Rightarrow> nat \<Rightarrow> 'a list \<Rightarrow> 'a list" where
  "copy_within start len dest bytes = take dest bytes @ slice_of start len bytes @ drop (dest + len) bytes"

fun retain_loop :: "(string \<Rightarrow> string \<Rightarrow> bool) \<Rightarrow> string \<Rightarrow> nat \<Rightarrow> PackedPair list \<Rightarrow> string \<times> nat \<times> PackedPair list" where
  "retain_loop keep bytes kept_end [] = (bytes, kept_end, [])"
| "retain_loop keep bytes kept_end (pair # pairs) =
     (case in_buffer pair bytes of
        (name, val) \<Rightarrow>
          if \<not> keep name val then retain_loop keep bytes kept_end pairs
          else
            let len = pp_name_len pair + pp_value_len pair + 2;
                moved = (pp_start pair \<noteq> kept_end);
                bytes1 = (if moved then copy_within (pp_start pair) len kept_end bytes else bytes);
                pair1 = (if moved then pair\<lparr>pp_start := kept_end\<rparr> else pair)
            in case retain_loop keep bytes1 (kept_end + len) pairs of
                 (bytes2, kept_end2, rest) \<Rightarrow> (bytes2, kept_end2, pair1 # rest))"

definition pk_retain :: "(string \<Rightarrow> string \<Rightarrow> bool) \<Rightarrow> PackedPairs \<Rightarrow> PackedPairs" where
  "pk_retain keep p =
     (case retain_loop keep (pk_bytes p) 0 (pk_pairs p) of
        (bytes, kept_end, pairs) \<Rightarrow> \<lparr>pk_bytes = take kept_end bytes, pk_pairs = pairs\<rparr>)"

section \<open>C strings and the output\<close>

type_synonym ReusedCStr = string

definition cstr_set :: "string \<Rightarrow> ReusedCStr" where
  "cstr_set s = (if NUL \<notin> set s then s @ [NUL] else [])"

definition cstr_to_bytes :: "ReusedCStr \<Rightarrow> string option" where
  "cstr_to_bytes c = (if c = [] then None else Some (butlast c))"

definition RETAINED_OUTPUT_BYTES :: nat where
  "RETAINED_OUTPUT_BYTES = 64 * 1024"

text \<open>Either the buffer is handed over or it is copied; both leave it empty.\<close>

definition take_output :: "string \<Rightarrow> string \<times> string" where
  "take_output output = (if length output > RETAINED_OUTPUT_BYTES then (output, []) else (output, []))"

section \<open>Removing headers by prefix\<close>

text \<open>Walks the prefix across the three chunks of the line: what is left of it, or a mismatch.\<close>

fun match_chunk :: "string \<Rightarrow> string \<Rightarrow> string option" where
  "match_chunk [] pfx = Some pfx"
| "match_chunk (b # bs) [] = Some []"
| "match_chunk (b # bs) (p # ps) = (if lower_byte p = lower_byte b then match_chunk bs ps else None)"

fun match_chunks :: "string list \<Rightarrow> string \<Rightarrow> bool" where
  "match_chunks [] pfx = (pfx = [])"
| "match_chunks (c # cs) pfx =
     (case match_chunk c pfx of None \<Rightarrow> False | Some rest \<Rightarrow> match_chunks cs rest)"

definition header_line_starts_with_prefix_ci :: "string \<Rightarrow> string \<Rightarrow> string \<Rightarrow> bool" where
  "header_line_starts_with_prefix_ci name val pfx = match_chunks [name, '': '', val] pfx"

definition delete_headers_with_prefix :: "string \<Rightarrow> PackedPairs \<Rightarrow> PackedPairs" where
  "delete_headers_with_prefix pfx headers =
     pk_retain (\<lambda>n v. \<not> header_line_starts_with_prefix_ci n v pfx) headers"

section \<open>Lists of pairs refined\<close>

definition cell :: "string \<times> string \<Rightarrow> string" where
  "cell kv = fst kv @ [NUL] @ snd kv @ [NUL]"

fun offsets :: "nat \<Rightarrow> (string \<times> string) list \<Rightarrow> PackedPair list" where
  "offsets at [] = []"
| "offsets at ((n, v) # kvs) =
     \<lparr>pp_start = at, pp_name_len = length n, pp_value_len = length v\<rparr> # offsets (at + length n + length v + 2) kvs"

definition pack :: "(string \<times> string) list \<Rightarrow> PackedPairs" where
  "pack kvs = \<lparr>pk_bytes = concat (map cell kvs), pk_pairs = offsets 0 kvs\<rparr>"

lemma length_cell [simp]: "length (cell (n, v)) = length n + length v + 2"
  by (simp add: cell_def)

lemma length_offsets [simp]: "length (offsets a kvs) = length kvs"
  by (induction a kvs rule: offsets.induct) auto

lemma offsets_append: "offsets a (xs @ ys) = offsets a xs @ offsets (a + length (concat (map cell xs))) ys"
  by (induction a xs rule: offsets.induct) (auto simp: add.assoc)

lemma in_buffer_cell:
  "in_buffer \<lparr>pp_start = length a, pp_name_len = length n, pp_value_len = length v\<rparr> (a @ cell (n, v) @ b) = (n, v)"
  by (simp add: in_buffer_def slice_of_def cell_def)

lemma in_buffer_cell_at:
  "at = length a \<Longrightarrow>
   in_buffer \<lparr>pp_start = at, pp_name_len = length n, pp_value_len = length v\<rparr> (a @ cell (n, v) @ b) = (n, v)"
  using in_buffer_cell by simp

lemma iter_at: "map (\<lambda>p. in_buffer p (a @ concat (map cell kvs) @ b)) (offsets (length a) kvs) = kvs"
proof (induction kvs arbitrary: a)
  case (Cons kv kvs)
  obtain n v where kv: "kv = (n, v)" by fastforce
  show ?case
    using Cons[of "a @ cell kv"] in_buffer_cell[of a n v "concat (map cell kvs) @ b"] by (simp add: kv add.assoc)
qed simp

lemma iter_pack [simp]: "pk_iter (pack kvs) = kvs"
  using iter_at[of "[]" kvs "[]"] by (simp add: pk_iter_def pack_def)

lemma shared_values_iter: "iter_shared_values p = pk_iter p"
  by (simp add: iter_shared_values_def pk_iter_def in_buffer_def Let_def)

lemma push_pack: "push_with n v (pack kvs) = pack (kvs @ [(n, v)])"
  by (simp add: push_with_def pack_def Let_def offsets_append cell_def)

lemma pop_pack: "\<lparr>pk_bytes = take (length (concat (map cell kvs))) (pk_bytes (pack (kvs @ [kv]))), pk_pairs = butlast (pk_pairs (pack (kvs @ [kv])))\<rparr> = pack kvs"
  by (cases kv) (simp add: pack_def offsets_append butlast_append)

lemma push_c_pack:
  "push_c_with n v (pack kvs) = (if NUL \<in> set n \<or> NUL \<in> set v then pack kvs else pack (kvs @ [(n, v)]))"
proof -
  let ?p = "pack (kvs @ [(n, v)])"
  have "rev (pk_pairs ?p) = \<lparr>pp_start = length (concat (map cell kvs)), pp_name_len = length n, pp_value_len = length v\<rparr> #
      rev (offsets 0 kvs)"
    by (simp add: pack_def offsets_append)
  moreover have "in_buffer \<lparr>pp_start = length (concat (map cell kvs)), pp_name_len = length n, pp_value_len = length v\<rparr>
      (pk_bytes ?p) = (n, v)"
    using in_buffer_cell[of "concat (map cell kvs)" n v "[]"] by (simp add: pack_def)
  ultimately show ?thesis
    by (simp add: push_c_with_def push_pack Let_def) (simp add: pack_def)
qed

text \<open>Closing the gaps: \<open>A\<close> is what is kept, \<open>G\<close> the gap before the rest.\<close>

lemma copy_down:
  assumes "length C = len"
  shows "copy_within (length A + length G) len (length A) (A @ G @ C @ R) = A @ C @ drop len (G @ C) @ R"
  using assms by (simp add: copy_within_def slice_of_def)

lemma retain_loop_pack:
  "\<exists>b. retain_loop keep (A @ G @ concat (map cell kvs)) (length A) (offsets (length A + length G) kvs) =
      (b, length A + length (concat (map cell (filter (\<lambda>(n, v). keep n v) kvs))), offsets (length A) (filter (\<lambda>(n, v). keep n v) kvs)) \<and>
    take (length A + length (concat (map cell (filter (\<lambda>(n, v). keep n v) kvs)))) b =
      A @ concat (map cell (filter (\<lambda>(n, v). keep n v) kvs))"
proof (induction kvs arbitrary: A G)
  case Nil
  then show ?case by simp
next
  case (Cons kv kvs)
  obtain n v where kv: "kv = (n, v)" by fastforce
  let ?C = "cell (n, v)" and ?R = "concat (map cell kvs)" and ?l = "length n + length v + 2"
  let ?K = "filter (\<lambda>(n, v). keep n v) kvs"
  have r: "in_buffer \<lparr>pp_start = length A + length G, pp_name_len = length n, pp_value_len = length v\<rparr> (A @ G @ ?C @ ?R) = (n, v)"
    using in_buffer_cell[of "A @ G" n v ?R] by simp
  show ?case
  proof (cases "keep n v")
    case False
    then show ?thesis using Cons.IH[of A "G @ ?C"] r by (simp add: kv add.assoc)
  next
    case True
    define G' where "G' = drop ?l (G @ ?C)"
    have g: "length G' = length G" by (simp add: G'_def)
    have b1: "(if length A + length G \<noteq> length A then copy_within (length A + length G) ?l (length A) (A @ G @ ?C @ ?R)
        else A @ G @ ?C @ ?R) = (A @ ?C) @ G' @ ?R"
      using copy_down[of ?C ?l A G ?R] by (cases "G = []") (auto simp: G'_def)
    obtain b where b: "retain_loop keep ((A @ ?C) @ G' @ ?R) (length (A @ ?C)) (offsets (length (A @ ?C) + length G') kvs) =
        (b, length (A @ ?C) + length (concat (map cell ?K)), offsets (length (A @ ?C)) ?K)"
      "take (length (A @ ?C) + length (concat (map cell ?K))) b = (A @ ?C) @ concat (map cell ?K)"
      using Cons.IH[of "A @ ?C" G'] by blast
    have "retain_loop keep (A @ G @ ?C @ ?R) (length A)
        (\<lparr>pp_start = length A + length G, pp_name_len = length n, pp_value_len = length v\<rparr> #
          offsets (length A + length G + ?l) kvs) =
        (b, length (A @ ?C) + length (concat (map cell ?K)),
         \<lparr>pp_start = length A, pp_name_len = length n, pp_value_len = length v\<rparr> # offsets (length (A @ ?C)) ?K)"
    proof -
      have o: "offsets (length A + length G + ?l) kvs = offsets (length (A @ ?C) + length G') kvs"
        by (rule arg_cong[of _ _ "\<lambda>a. offsets a kvs"]) (simp add: g)
      have k: "length A + (length n + length v + 2) = length (A @ ?C)" by simp
      show ?thesis
        unfolding retain_loop.simps r prod.case o Let_def PackedPair.simps b1 k b(1)
        using True by (auto simp: add.assoc)
    qed
    then show ?thesis
      using b(2) True by (simp add: kv add.assoc)
  qed
qed

lemma retain_pack: "pk_retain keep (pack kvs) = pack (filter (\<lambda>(n, v). keep n v) kvs)"
  using retain_loop_pack[of keep "[]" "[]" kvs] by (auto simp: pk_retain_def pack_def)

section \<open>The contract of a buffer of pairs\<close>

definition packed_ok :: "PackedPairs \<Rightarrow> bool" where
  "packed_ok p \<longleftrightarrow> p = pack (pk_iter p)"

definition c_pair :: "string \<times> string \<Rightarrow> bool" where
  "c_pair kv \<longleftrightarrow> NUL \<notin> set (fst kv) \<and> NUL \<notin> set (snd kv)"

locale pair_buffer =
  fixes ok :: "'b \<Rightarrow> bool" and empty :: 'b and iter :: "'b \<Rightarrow> (string \<times> string) list"
    and push :: "string \<Rightarrow> string \<Rightarrow> 'b \<Rightarrow> 'b" and push_c :: "string \<Rightarrow> string \<Rightarrow> 'b \<Rightarrow> 'b"
    and retain :: "(string \<Rightarrow> string \<Rightarrow> bool) \<Rightarrow> 'b \<Rightarrow> 'b"
  assumes empty: "ok empty" "iter empty = []"
    and push: "ok b \<Longrightarrow> ok (push n v b)" "ok b \<Longrightarrow> iter (push n v b) = iter b @ [(n, v)]"
    and push_c: "ok b \<Longrightarrow> ok (push_c n v b)" "ok b \<Longrightarrow> iter (push_c n v b) = iter b @ filter c_pair [(n, v)]"
    and retain: "ok b \<Longrightarrow> ok (retain keep b)" "ok b \<Longrightarrow> iter (retain keep b) = filter (\<lambda>(n, v). keep n v) (iter b)"
begin

lemma push_c_all:
  "ok b \<Longrightarrow> ok (foldl (\<lambda>b (n, v). push_c n v b) b kvs) \<and> iter (foldl (\<lambda>b (n, v). push_c n v b) b kvs) = iter b @ filter c_pair kvs"
proof (induction kvs arbitrary: b)
  case (Cons kv kvs)
  obtain n v where kv: "kv = (n, v)" by fastforce
  show ?case using Cons.IH[of "push_c n v b"] push_c[OF Cons.prems, of n v] by (simp add: kv)
qed simp

lemma push_all:
  "ok b \<Longrightarrow> ok (foldl (\<lambda>b (n, v). push n v b) b kvs) \<and> iter (foldl (\<lambda>b (n, v). push n v b) b kvs) = iter b @ kvs"
proof (induction kvs arbitrary: b)
  case (Cons kv kvs)
  obtain n v where kv: "kv = (n, v)" by fastforce
  show ?case using Cons.IH[of "push n v b"] push[OF Cons.prems, of n v] by (simp add: kv)
qed simp

end

lemma packed_cases:
  assumes "packed_ok p"
  obtains kvs where "p = pack kvs" "pk_iter p = kvs"
  using assms by (auto simp: packed_ok_def)

lemma packed_ok_pack [simp]: "packed_ok (pack kvs)"
  by (simp add: packed_ok_def)

interpretation pk: pair_buffer packed_ok PackedPairs_default pk_iter push_with push_c_with pk_retain
proof unfold_locales
  have d: "PackedPairs_default = pack []" by (simp add: PackedPairs_default_def pack_def)
  show "packed_ok PackedPairs_default" "pk_iter PackedPairs_default = []" by (simp_all add: d)
qed (auto elim!: packed_cases simp: push_pack push_c_pack retain_pack c_pair_def)

section \<open>Headers by prefix\<close>

lemma match_chunk_spec:
  "match_chunk c pfx = (if starts_with (lower_str c) (lower_str pfx) then Some []
     else map_option (\<lambda>_. drop (length c) pfx) (strip_prefix (lower_str pfx) (lower_str c)))"
  by (induction c pfx rule: match_chunk.induct)
     (auto simp: starts_with_def strip_prefix_def lower_str_def)

lemma match_chunks_spec: "match_chunks cs pfx \<longleftrightarrow> starts_with (lower_str (concat cs)) (lower_str pfx)"
proof (induction cs arbitrary: pfx)
  case Nil
  then show ?case by (auto simp: starts_with_iff lower_str_def)
next
  case (Cons c cs)
  have l: "lower_str (drop k pfx) = drop k (lower_str pfx)" for k by (simp add: lower_str_def drop_map)
  show ?case
  proof (cases "starts_with (lower_str c) (lower_str pfx)")
    case True
    then have "starts_with (lower_str (c @ concat cs)) (lower_str pfx)" by (auto simp: starts_with_iff)
    moreover have "starts_with (lower_str (concat cs)) (lower_str [])" by (simp add: starts_with_iff lower_str_def)
    ultimately show ?thesis using True Cons.IH[of "[]"] by (simp add: match_chunk_spec)
  next
    case no: False
    show ?thesis
    proof (cases "strip_prefix (lower_str pfx) (lower_str c)")
      case None
      then have "\<not> starts_with (lower_str (c @ concat cs)) (lower_str pfx)"
        using no by (auto simp: starts_with_iff strip_prefix_def append_eq_append_conv2 eq_commute split: if_splits)
      then show ?thesis using no None by (simp add: match_chunk_spec)
    next
      case (Some r)
      then have r: "lower_str pfx = lower_str c @ r" by (simp add: strip_prefix_Some)
      then have "lower_str (drop (length c) pfx) = r" by (simp add: l)
      then show ?thesis using no Some r Cons.IH[of "drop (length c) pfx"]
        by (auto simp: match_chunk_spec starts_with_iff)
    qed
  qed
qed

text \<open>Deleting by prefix removes exactly the headers whose line starts with it, letter case aside, and keeps
  the order and the bytes of the others.\<close>

lemma delete_headers_exact:
  assumes "packed_ok p"
  shows "packed_ok (delete_headers_with_prefix pfx p) \<and>
    pk_iter (delete_headers_with_prefix pfx p) =
      filter (\<lambda>(n, v). \<not> starts_with (lower_str (n @ '': '' @ v)) (lower_str pfx)) (pk_iter p)"
  using pk.retain[OF assms]
  by (simp add: delete_headers_with_prefix_def header_line_starts_with_prefix_ci_def match_chunks_spec)

lemma cstr_roundtrip: "cstr_to_bytes (cstr_set s) = (if NUL \<in> set s then None else Some s)"
  by (simp add: cstr_set_def cstr_to_bytes_def)

end
