(* ===== verification/Php_Request.thy ===== *)
theory Php_Request
  imports Php_Deny Plugin_Cookies Packed_Pairs
begin

text \<open>
  What PHP is told of a request (\<^verbatim>\<open>fill_request_data\<close> and its readers in
  \<^verbatim>\<open>src/php/sapi.rs\<close>, and \<^verbatim>\<open>src/php/request_decode.rs\<close>): the variables of
  \<^verbatim>\<open>$_SERVER\<close>, the cookies and query pairs of the object API, and the body PHP reads.

  Percent-decoding is the \<^verbatim>\<open>percent_encoding\<close> crate's and a parameter.  The printed address and
  the printed request time are part of the request.
\<close>

section \<open>Decoding\<close>

definition MAX_QUERY_PAIRS :: nat where
  "MAX_QUERY_PAIRS = 1000"

definition url_decode :: "(string \<Rightarrow> string) \<Rightarrow> string \<Rightarrow> bool \<Rightarrow> string" where
  "url_decode pct s plus_as_space =
     (if \<not> plus_as_space then pct s
      else (case split_on (CHR ''+'') s of
              [] \<Rightarrow> []
            | part # parts \<Rightarrow> pct part @ concat (map (\<lambda>p. CHR '' '' # pct p) parts)))"

fun query_loop :: "(string \<Rightarrow> string) \<Rightarrow> string list \<Rightarrow> PackedPairs \<Rightarrow> PackedPairs" where
  "query_loop pct [] out = out"
| "query_loop pct (pair # pairs) out =
     (if pair = [] then query_loop pct pairs out
      else if pk_len out \<ge> MAX_QUERY_PAIRS then out
      else query_loop pct pairs
             (case split_once (CHR ''='') pair of
                Some (name, val) \<Rightarrow> push_with (url_decode pct name True) (url_decode pct val True) out
              | None \<Rightarrow> push_with (url_decode pct pair True) [] out))"

definition parse_query_pairs :: "(string \<Rightarrow> string) \<Rightarrow> string \<Rightarrow> PackedPairs \<Rightarrow> PackedPairs" where
  "parse_query_pairs pct query out = query_loop pct (split_on (CHR ''&'') query) out"

fun join_lines :: "'h headers \<Rightarrow> string \<Rightarrow> string list \<Rightarrow> string option" where
  "join_lines H acc [] = Some acc"
| "join_lines H acc (line # lines) =
     (case to_str H line of None \<Rightarrow> None | Some s \<Rightarrow> join_lines H (acc @ '', '' @ s) lines)"

definition header_field_value :: "'h headers \<Rightarrow> 'h \<Rightarrow> string \<Rightarrow> string option" where
  "header_field_value H h name =
     (case get_all H h name of
        [] \<Rightarrow> None
      | line # lines \<Rightarrow>
          (case to_str H line of
             None \<Rightarrow> None
           | Some s \<Rightarrow>
               if name = ''content-type'' \<or> name = ''host'' \<or> name = ''content-length'' then Some s
               else join_lines H s lines))"

section \<open>The request\<close>

datatype http_version = HTTP_09 | HTTP_10 | HTTP_11 | HTTP_2 | HTTP_3 | OtherVersion

record 'h ScriptRequest =
  sr_id :: string
  sr_script_path :: string
  sr_method :: string
  sr_path_and_query :: "string option"
  sr_path :: string
  sr_query :: "string option"
  sr_headers :: 'h
  sr_body :: string
  sr_remote_ip :: string
  sr_remote_port :: nat
  sr_document_root :: string
  sr_trace_id :: string
  sr_span_id :: string
  sr_parent_span_id :: string
  sr_is_tls :: bool
  sr_version :: http_version
  sr_path_info :: "string option"
  sr_forwarded_proto :: "string option"
  sr_forwarded_host :: "string option"
  sr_forwarded_port :: "nat option"
  sr_denied_meta :: "DeniedMeta option"
  sr_time :: "(string \<times> string) option"

definition sr_query_string :: "'h ScriptRequest \<Rightarrow> string" where
  "sr_query_string req = (case sr_query req of Some q \<Rightarrow> q | None \<Rightarrow> [])"

record RequestData =
  rd_server_vars :: PackedPairs
  rd_cookie_string :: ReusedCStr
  rd_method_cstr :: ReusedCStr
  rd_query_string :: ReusedCStr
  rd_content_type :: ReusedCStr
  rd_content_length :: int
  rd_request_id :: ReusedCStr
  rd_body :: string
  rd_body_offset :: nat
  rd_active :: bool
  rd_sg_enabled :: bool
  rd_method_str :: string
  rd_path_str :: string
  rd_full_uri_str :: string
  rd_scheme_str :: string
  rd_host_str :: string
  rd_port_val :: nat
  rd_query_string_raw :: string
  rd_remote_addr_str :: string
  rd_protocol_version :: string
  rd_is_secure :: bool
  rd_headers_raw :: PackedPairs
  rd_cookies_parsed :: PackedPairs
  rd_query_parsed :: PackedPairs

definition RequestData_new :: RequestData where
  "RequestData_new =
     \<lparr>rd_server_vars = PackedPairs_default, rd_cookie_string = [], rd_method_cstr = [], rd_query_string = [],
      rd_content_type = [], rd_content_length = 0, rd_request_id = [], rd_body = [], rd_body_offset = 0,
      rd_active = False, rd_sg_enabled = True, rd_method_str = [], rd_path_str = [], rd_full_uri_str = [],
      rd_scheme_str = [], rd_host_str = [], rd_port_val = 0, rd_query_string_raw = [], rd_remote_addr_str = [],
      rd_protocol_version = [], rd_is_secure = False, rd_headers_raw = PackedPairs_default,
      rd_cookies_parsed = PackedPairs_default, rd_query_parsed = PackedPairs_default\<rparr>"

section \<open>The variables of \<open>$_SERVER\<close>\<close>

text \<open>Positions of a character from the left and from the right.\<close>

fun find_char :: "char \<Rightarrow> string \<Rightarrow> nat option" where
  "find_char c [] = None"
| "find_char c (x # xs) = (if x = c then Some 0 else map_option Suc (find_char c xs))"

definition rfind_char :: "char \<Rightarrow> string \<Rightarrow> nat option" where
  "rfind_char c s = map_option (\<lambda>i. length s - 1 - i) (find_char c (rev s))"

definition parse_host :: "string \<Rightarrow> string \<Rightarrow> string \<times> string" where
  "parse_host host default_port =
     (if starts_with host ''['' then
        (case find_char (CHR '']'') host of
           Some e \<Rightarrow>
             if take 1 (drop (e + 1) host) = '':'' then (take (e + 1) host, drop (e + 2) host) else (host, default_port)
         | None \<Rightarrow> (host, default_port))
      else
        (case rfind_char (CHR '':'') host of
           Some c \<Rightarrow> (take c host, drop (c + 1) host)
         | None \<Rightarrow> (host, default_port)))"

fun server_protocol :: "http_version \<Rightarrow> string" where
  "server_protocol HTTP_10 = ''HTTP/1.0''"
| "server_protocol HTTP_11 = ''HTTP/1.1''"
| "server_protocol HTTP_2 = ''HTTP/2''"
| "server_protocol HTTP_3 = ''HTTP/3''"
| "server_protocol _ = ''HTTP/1.1''"

definition request_line_vars :: "'h ScriptRequest \<Rightarrow> (string \<times> string) list" where
  "request_line_vars req =
     [(''REQUEST_METHOD'', sr_method req),
      (''REQUEST_URI'', case sr_path_and_query req of Some pq \<Rightarrow> pq | None \<Rightarrow> ''/''),
      (''QUERY_STRING'', sr_query_string req),
      (''SERVER_PROTOCOL'', server_protocol (sr_version req))]"

definition script_name_of :: "'h ScriptRequest \<Rightarrow> string" where
  "script_name_of req =
     (case path_strip_prefix (sr_script_path req) (sr_document_root req) of
        Some rel \<Rightarrow> rel
      | None \<Rightarrow> (case path_file_name (sr_script_path req) of Some f \<Rightarrow> f | None \<Rightarrow> []))"

definition script_vars :: "'h ScriptRequest \<Rightarrow> (string \<times> string) list" where
  "script_vars req =
     (case sr_denied_meta req of
        Some meta \<Rightarrow>
          (let script_name = dm_fallback_script_uri meta;
               original_path = ''/'' @ dm_path meta
           in [(''SCRIPT_NAME'', script_name), (''PHP_SELF'', script_name @ original_path),
               (''DOCUMENT_URI'', script_name), (''PATH_INFO'', original_path),
               (''OXPHP_DENIED_PATH'', original_path), (''OXPHP_DENIED_PATTERN'', dm_pattern meta)])
      | None \<Rightarrow>
          (let script_name = script_name_of req in
           [(''SCRIPT_NAME'', ''/'' @ script_name), (''DOCUMENT_URI'', ''/'' @ script_name)] @
           (case sr_path_info req of
              Some path_info \<Rightarrow> [(''PHP_SELF'', ''/'' @ script_name @ path_info), (''PATH_INFO'', path_info)]
            | None \<Rightarrow> [(''PHP_SELF'', ''/'' @ script_name)])))"

definition effective_tls :: "'h ScriptRequest \<Rightarrow> bool" where
  "effective_tls req =
     (case sr_forwarded_proto req of Some p \<Rightarrow> eq_ignore_case p ''https'' | None \<Rightarrow> sr_is_tls req)"

definition name_port_vars :: "'h headers \<Rightarrow> 'h ScriptRequest \<Rightarrow> (string \<times> string) list" where
  "name_port_vars H req =
     (let default_port = (if effective_tls req then ''443'' else ''80'');
          fwd_port = map_option show_nat (sr_forwarded_port req);
          with_port = (\<lambda>host. case parse_host host default_port of
             (name, port) \<Rightarrow> [(''SERVER_NAME'', name), (''SERVER_PORT'', case fwd_port of Some p \<Rightarrow> p | None \<Rightarrow> port)])
      in case sr_forwarded_host req of
           Some fwd_host \<Rightarrow> with_port fwd_host
         | None \<Rightarrow>
             (case get H (sr_headers req) ''host'' of
                Some host \<Rightarrow> (case to_str H host of Some s \<Rightarrow> with_port s | None \<Rightarrow> [])
              | None \<Rightarrow> [(''SERVER_NAME'', ''localhost''),
                         (''SERVER_PORT'', case fwd_port of Some p \<Rightarrow> p | None \<Rightarrow> default_port)]))"

definition connection_vars :: "'h headers \<Rightarrow> string \<Rightarrow> 'h ScriptRequest \<Rightarrow> (string \<times> string) list" where
  "connection_vars H software req =
     [(''SCRIPT_FILENAME'', sr_script_path req), (''DOCUMENT_ROOT'', sr_document_root req),
      (''SERVER_SOFTWARE'', software), (''GATEWAY_INTERFACE'', ''CGI/1.1''),
      (''REMOTE_ADDR'', sr_remote_ip req), (''REMOTE_PORT'', show_nat (sr_remote_port req))] @
     (if effective_tls req then [(''HTTPS'', ''on'')] else []) @
     [(''REQUEST_SCHEME'', if effective_tls req then ''https'' else ''http'')] @
     name_port_vars H req"

definition content_vars :: "'h headers \<Rightarrow> 'h ScriptRequest \<Rightarrow> (string \<times> string) list" where
  "content_vars H req =
     (case header_field_value H (sr_headers req) ''content-type'' of Some ct \<Rightarrow> [(''CONTENT_TYPE'', ct)] | None \<Rightarrow> []) @
     (case header_str H (sr_headers req) ''content-length'' of Some cl \<Rightarrow> [(''CONTENT_LENGTH'', cl)] | None \<Rightarrow> [])"

definition upper_ascii :: "char \<Rightarrow> char" where
  "upper_ascii c = (if is_lower_byte c then char_of (of_char c - 32 :: nat) else c)"

definition cgi_name :: "string \<Rightarrow> string" where
  "cgi_name name = map (\<lambda>b. if b = CHR ''-'' then CHR ''_'' else upper_ascii b) name"

definition header_var :: "'h headers \<Rightarrow> 'h \<Rightarrow> string \<Rightarrow> (string \<times> string) option" where
  "header_var H h name =
     (if name = ''content-type'' \<or> name = ''content-length'' then None
      else if list_ex (\<lambda>b. b = CHR ''_'' \<or> b = CHR ''.'') name then None
      else map_option (\<lambda>v. (''HTTP_'' @ cgi_name name, v)) (header_field_value H h name))"

definition header_vars :: "'h headers \<Rightarrow> 'h ScriptRequest \<Rightarrow> (string \<times> string) list" where
  "header_vars H req = List.map_filter (header_var H (sr_headers req)) (hkeys H (sr_headers req))"

definition time_trace_vars :: "'h ScriptRequest \<Rightarrow> (string \<times> string) list" where
  "time_trace_vars req =
     (case sr_time req of
        Some (secs, float) \<Rightarrow> [(''REQUEST_TIME'', secs), (''REQUEST_TIME_FLOAT'', float)]
      | None \<Rightarrow> []) @
     (if sr_trace_id req \<noteq> []
      then [(''OXPHP_TRACE_ID'', sr_trace_id req), (''OXPHP_SPAN_ID'', sr_span_id req),
            (''OXPHP_PARENT_SPAN_ID'', sr_parent_span_id req)]
      else [])"

definition server_var_list :: "'h headers \<Rightarrow> string \<Rightarrow> 'h ScriptRequest \<Rightarrow> (string \<times> string) list" where
  "server_var_list H software req =
     request_line_vars req @ script_vars req @ connection_vars H software req @ content_vars H req @
     header_vars H req @ time_trace_vars req"

definition push_server_vars :: "(string \<times> string) list \<Rightarrow> PackedPairs \<Rightarrow> PackedPairs" where
  "push_server_vars kvs vars = foldl (\<lambda>p (k, v). push_c_with k v p) vars kvs"

section \<open>The object API\<close>

fun protocol_version :: "http_version \<Rightarrow> string" where
  "protocol_version HTTP_09 = ''0.9''"
| "protocol_version HTTP_10 = ''1.0''"
| "protocol_version HTTP_11 = ''1.1''"
| "protocol_version HTTP_2 = ''2''"
| "protocol_version HTTP_3 = ''3''"
| "protocol_version OtherVersion = ''1.1''"

definition host_and_port :: "'h headers \<Rightarrow> 'h ScriptRequest \<Rightarrow> string \<times> nat" where
  "host_and_port H req =
     (let default_port = (if effective_tls req then 443 else 80);
          source = (case sr_forwarded_host req of Some s \<Rightarrow> Some s | None \<Rightarrow> header_str H (sr_headers req) ''host'');
          (host, port) =
            (case source of
               None \<Rightarrow> ([], default_port)
             | Some s \<Rightarrow>
                 (case find_char (CHR '']'') s of
                    Some e \<Rightarrow>
                      (take (e + 1) s,
                       case (if e + 2 \<le> length s then parse_uint 65535 (drop (e + 2) s) else None) of
                         Some p \<Rightarrow> p | None \<Rightarrow> default_port)
                  | None \<Rightarrow>
                      (case rfind_char (CHR '':'') s of
                         Some c \<Rightarrow>
                           (take c s, case parse_uint 65535 (drop (c + 1) s) of Some p \<Rightarrow> p | None \<Rightarrow> default_port)
                       | None \<Rightarrow> (s, default_port))))
      in (host, case sr_forwarded_port req of Some p \<Rightarrow> p | None \<Rightarrow> port))"

definition full_uri :: "'h headers \<Rightarrow> 'h ScriptRequest \<Rightarrow> string" where
  "full_uri H req =
     (let scheme = (if effective_tls req then ''https'' else ''http'');
          (host, port) = host_and_port H req;
          default_port = (if effective_tls req then 443 else 80)
      in scheme @ ''://'' @ host @ (if port \<noteq> default_port then '':'' @ show_nat port else []) @ sr_path req @
         (if sr_query_string req \<noteq> [] then ''?'' @ sr_query_string req else []))"

definition raw_header_list :: "'h headers \<Rightarrow> 'h \<Rightarrow> (string \<times> string) list" where
  "raw_header_list H h = List.map_filter (\<lambda>n. map_option (\<lambda>v. (n, v)) (header_field_value H h n)) (hkeys H h)"

definition cookie_pair :: "(string \<Rightarrow> string) \<Rightarrow> string \<Rightarrow> (string \<times> string) option" where
  "cookie_pair pct pair = map_option (\<lambda>(n, v). (n, url_decode pct v False)) (split_once (CHR ''='') (str_trim pair))"

definition cookie_list :: "(string \<Rightarrow> string) \<Rightarrow> 'h headers \<Rightarrow> 'h \<Rightarrow> (string \<times> string) list" where
  "cookie_list pct H h =
     (case header_str H h ''cookie'' of
        Some s \<Rightarrow> List.map_filter (cookie_pair pct) (split_on (CHR '';'') s)
      | None \<Rightarrow> [])"

definition push_pairs :: "(string \<times> string) list \<Rightarrow> PackedPairs \<Rightarrow> PackedPairs" where
  "push_pairs kvs p = foldl (\<lambda>p (k, v). push_with k v p) p kvs"

text \<open>\<^verbatim>\<open>str::parse\<close> for a signed 64-bit integer.\<close>

definition parse_i64 :: "string \<Rightarrow> int option" where
  "parse_i64 s =
     (case strip_prefix s ''-'' of
        Some d \<Rightarrow> if strip_prefix d ''+'' \<noteq> None then None else map_option (\<lambda>n. - int n) (parse_uint (2 ^ 63) d)
      | None \<Rightarrow> map_option int (parse_uint (2 ^ 63 - 1) s))"

definition fill_request_data ::
    "(string \<Rightarrow> string) \<Rightarrow> 'h headers \<Rightarrow> string \<Rightarrow> bool \<Rightarrow> 'h ScriptRequest \<Rightarrow> RequestData \<Rightarrow> RequestData" where
  "fill_request_data pct H software sg_enabled req old =
     \<lparr>rd_server_vars =
        (if sg_enabled then push_server_vars (server_var_list H software req) (pk_clear (rd_server_vars old))
         else pk_clear (rd_server_vars old)),
      rd_cookie_string = (case header_str H (sr_headers req) ''cookie'' of Some c \<Rightarrow> cstr_set c | None \<Rightarrow> []),
      rd_method_cstr = cstr_set (sr_method req),
      rd_query_string = (if sr_query_string req \<noteq> [] then cstr_set (sr_query_string req) else []),
      rd_content_type =
        (case header_field_value H (sr_headers req) ''content-type'' of Some ct \<Rightarrow> cstr_set ct | None \<Rightarrow> []),
      rd_content_length =
        (case header_str H (sr_headers req) ''content-length'' of
           Some s \<Rightarrow> (case parse_i64 s of Some n \<Rightarrow> n | None \<Rightarrow> 0)
         | None \<Rightarrow> 0),
      rd_request_id = cstr_set (sr_id req),
      rd_body = sr_body req,
      rd_body_offset = 0,
      rd_active = True,
      rd_sg_enabled = sg_enabled,
      rd_method_str = sr_method req,
      rd_path_str = sr_path req,
      rd_full_uri_str = full_uri H req,
      rd_scheme_str = (if effective_tls req then ''https'' else ''http''),
      rd_host_str = fst (host_and_port H req),
      rd_port_val = snd (host_and_port H req),
      rd_query_string_raw = sr_query_string req,
      rd_remote_addr_str = sr_remote_ip req,
      rd_protocol_version = protocol_version (sr_version req),
      rd_is_secure = effective_tls req,
      rd_headers_raw = push_pairs (raw_header_list H (sr_headers req)) (pk_clear (rd_headers_raw old)),
      rd_cookies_parsed = push_pairs (cookie_list pct H (sr_headers req)) (pk_clear (rd_cookies_parsed old)),
      rd_query_parsed = parse_query_pairs pct (sr_query_string req) (pk_clear (rd_query_parsed old))\<rparr>"

definition clear_request_data :: "RequestData \<Rightarrow> RequestData" where
  "clear_request_data old =
     RequestData_new\<lparr>rd_server_vars := pk_clear (rd_server_vars old), rd_headers_raw := pk_clear (rd_headers_raw old),
       rd_cookies_parsed := pk_clear (rd_cookies_parsed old), rd_query_parsed := pk_clear (rd_query_parsed old)\<rparr>"

definition set_boot_server_vars :: "string \<Rightarrow> string \<Rightarrow> string \<Rightarrow> RequestData \<Rightarrow> RequestData" where
  "set_boot_server_vars software script_path document_root old =
     old\<lparr>rd_server_vars :=
           push_server_vars
             [(''SCRIPT_FILENAME'', script_path), (''DOCUMENT_ROOT'', document_root), (''SERVER_SOFTWARE'', software),
              (''SERVER_PROTOCOL'', ''HTTP/1.1''), (''REQUEST_METHOD'', ''GET''), (''REQUEST_URI'', ''/''),
              (''SCRIPT_NAME'', ''/''), (''PHP_SELF'', ''/''), (''SERVER_NAME'', ''localhost''), (''SERVER_PORT'', ''80''),
              (''REMOTE_ADDR'', ''127.0.0.1''), (''REMOTE_PORT'', ''0''), (''QUERY_STRING'', []),
              (''GATEWAY_INTERFACE'', ''CGI/1.1'')] (pk_clear (rd_server_vars old)),
         rd_active := True\<rparr>"

definition set_cli_request_data :: "bool \<Rightarrow> string \<Rightarrow> string \<Rightarrow> RequestData \<Rightarrow> RequestData" where
  "set_cli_request_data sg_enabled php_self script_filename old =
     old\<lparr>rd_server_vars :=
           push_server_vars
             [(''PHP_SELF'', php_self), (''SCRIPT_NAME'', php_self), (''SCRIPT_FILENAME'', script_filename),
              (''PATH_TRANSLATED'', script_filename), (''DOCUMENT_ROOT'', [])] (pk_clear (rd_server_vars old)),
         rd_sg_enabled := sg_enabled, rd_active := True\<rparr>"

section \<open>What PHP reads back\<close>

text \<open>The variables registered, in order: a later one of the same name replaces an earlier.\<close>

definition register_server_variables :: "(string \<times> string) list \<Rightarrow> RequestData \<Rightarrow> (string \<times> string) list" where
  "register_server_variables env rd =
     (if rd_active rd then (if rd_sg_enabled rd then env else []) @ pk_iter (rd_server_vars rd) else [])"

definition read_cookies :: "RequestData \<Rightarrow> string option" where
  "read_cookies rd = (if rd_active rd then cstr_to_bytes (rd_cookie_string rd) else None)"

definition read_post :: "nat \<Rightarrow> RequestData \<Rightarrow> string \<times> RequestData" where
  "read_post count_bytes rd =
     (if \<not> rd_active rd then ([], rd)
      else
        (let remaining = length (rd_body rd) - rd_body_offset rd in
         if remaining = 0 then ([], rd)
         else
           (let to_copy = min remaining count_bytes in
            (take to_copy (drop (rd_body_offset rd) (rd_body rd)),
             rd\<lparr>rd_body_offset := rd_body_offset rd + to_copy\<rparr>))))"

definition req_header :: "string \<Rightarrow> RequestData \<Rightarrow> string option" where
  "req_header key rd =
     (if \<not> rd_active rd then None
      else find_map (\<lambda>(k, v). if eq_ignore_case k key then Some v else None) (pk_iter (rd_headers_raw rd)))"

definition req_cookie :: "string \<Rightarrow> RequestData \<Rightarrow> string option" where
  "req_cookie key rd =
     (if \<not> rd_active rd then None
      else find_map (\<lambda>(k, v). if k = key then Some v else None) (pk_iter (rd_cookies_parsed rd)))"

definition req_query_param :: "string \<Rightarrow> RequestData \<Rightarrow> string option" where
  "req_query_param key rd =
     (if \<not> rd_active rd then None
      else find_map (\<lambda>(k, v). if k = key then Some v else None) (pk_iter (rd_query_parsed rd)))"

text \<open>What \<^verbatim>\<open>SG(request_info)\<close> is pointed at: the query string only with superglobals on.\<close>

definition request_info_ptrs :: "RequestData \<Rightarrow> string option \<times> string option \<times> string option \<times> int" where
  "request_info_ptrs rd =
     (cstr_to_bytes (rd_method_cstr rd),
      if rd_sg_enabled rd then cstr_to_bytes (rd_query_string rd) else None,
      cstr_to_bytes (rd_content_type rd), rd_content_length rd)"

text \<open>A parked request takes its data along and leaves a fresh slot.\<close>

definition take_request_data :: "RequestData \<Rightarrow> RequestData \<times> RequestData" where
  "take_request_data slot = (slot, RequestData_new)"

definition req_str :: "(RequestData \<Rightarrow> string) \<Rightarrow> RequestData \<Rightarrow> string option" where
  "req_str field rd = (if rd_active rd then Some (field rd) else None)"

definition req_port :: "RequestData \<Rightarrow> nat" where
  "req_port rd = (if rd_active rd then rd_port_val rd else 0)"

definition req_content_type :: "RequestData \<Rightarrow> string option" where
  "req_content_type rd =
     (if \<not> rd_active rd then None
      else find_map (\<lambda>(k, v). if k = ''content-type'' then Some v else None) (pk_iter (rd_headers_raw rd)))"

definition visit_request_pairs :: "(RequestData \<Rightarrow> PackedPairs) \<Rightarrow> RequestData \<Rightarrow> (string \<times> string) list" where
  "visit_request_pairs project rd = (if rd_active rd then pk_iter (project rd) else [])"

definition req_body :: "RequestData \<Rightarrow> string option" where
  "req_body rd = (if \<not> rd_active rd \<or> rd_body rd = [] then None else Some (rd_body rd))"

section \<open>The lists as PHP sees them\<close>

lemma pk_clear_pack: "pk_clear p = pack []"
  by (simp add: pk_clear_def pack_def)

lemma push_pairs_pack: "push_pairs kvs (pack done) = pack (done @ kvs)"
  by (induction kvs arbitrary: "done") (auto simp: push_pairs_def push_pack)

lemma push_server_vars_pack:
  "push_server_vars kvs (pack done) = pack (done @ filter (\<lambda>(k, v). NUL \<notin> set k \<and> NUL \<notin> set v) kvs)"
  by (induction kvs arbitrary: "done") (auto simp: push_server_vars_def push_c_pack)

definition decode_pair :: "(string \<Rightarrow> string) \<Rightarrow> string \<Rightarrow> string \<times> string" where
  "decode_pair pct pair =
     (case split_once (CHR ''='') pair of
        Some (name, val) \<Rightarrow> (url_decode pct name True, url_decode pct val True)
      | None \<Rightarrow> (url_decode pct pair True, []))"

lemma pk_len_pack [simp]: "pk_len (pack kvs) = length kvs"
  by (simp add: pk_len_def pack_def)

lemma query_loop_step:
  "query_loop pct (a # as) (pack done) =
     (if a = [] then query_loop pct as (pack done)
      else if length done \<ge> MAX_QUERY_PAIRS then pack done
      else query_loop pct as (pack (done @ [decode_pair pct a])))"
  by (simp add: decode_pair_def push_pack split: option.splits)

lemma query_loop_pack:
  "query_loop pct pairs (pack done) =
   pack (done @ map (decode_pair pct) (take (MAX_QUERY_PAIRS - length done) (filter (\<lambda>p. p \<noteq> []) pairs)))"
proof (induction pairs arbitrary: "done")
  case (Cons a as)
  show ?case
  proof (cases "MAX_QUERY_PAIRS - length done")
    case 0
    then show ?thesis using Cons.IH[of "done"] unfolding query_loop_step by simp
  next
    case (Suc k)
    then have "MAX_QUERY_PAIRS - length (done @ [decode_pair pct a]) = k" "\<not> MAX_QUERY_PAIRS \<le> length done" by simp_all
    then show ?thesis
      unfolding query_loop_step Cons.IH Suc by simp
  qed
qed simp

lemma query_pairs_exact:
  "pk_iter (rd_query_parsed (fill_request_data pct H software sg req old)) =
   map (decode_pair pct) (take MAX_QUERY_PAIRS (filter (\<lambda>p. p \<noteq> []) (split_on (CHR ''&'') (sr_query_string req))))"
  by (simp add: fill_request_data_def parse_query_pairs_def pk_clear_pack query_loop_pack)

section \<open>Header variables\<close>

text \<open>
  A field name as the crate keeps it: the bytes of a token, in lower case.  The names whose variable
  is clear are those without the two bytes PHP would fold into the same key, and not the two that have a
  variable of their own.
\<close>

definition field_name :: "string \<Rightarrow> bool" where
  "field_name n =
     (n \<noteq> [] \<and> list_all (\<lambda>c. is_lower_byte c \<or> is_digit_byte c \<or> c \<in> set ''!#$%&*+-.^_`|~'' \<or> c = CHR 0x27) n)"

definition clear_name :: "string \<Rightarrow> bool" where
  "clear_name n = (n \<noteq> ''content-type'' \<and> n \<noteq> ''content-length'' \<and> CHR ''_'' \<notin> set n \<and> CHR ''.'' \<notin> set n)"

lemma header_var_clear:
  "header_var H h n = (if clear_name n then map_option (\<lambda>v. (''HTTP_'' @ cgi_name n, v)) (header_field_value H h n) else None)"
  by (auto simp: header_var_def clear_name_def list_ex_iff)

lemma join_lines_visible:
  "header_laws H \<Longrightarrow> join_lines H acc ls = Some v \<Longrightarrow> list_all visible acc \<Longrightarrow> list_all visible v"
  by (induction ls arbitrary: acc) (auto simp: header_values visible_def[of "CHR '',''"] visible_def[of "CHR '' ''"] split: if_splits)

lemma header_field_visible: "header_laws H \<Longrightarrow> header_field_value H h n = Some v \<Longrightarrow> list_all visible v"
  by (auto simp: header_field_value_def header_values split: list.splits if_splits intro: join_lines_visible)

lemma visible_no_nul: "list_all visible v \<Longrightarrow> NUL \<notin> set v"
proof
  assume "list_all visible v" "NUL \<in> set v"
  then have "visible NUL" unfolding list_all_iff by blast
  then show False by (simp add: visible_def)
qed

lemma field_char:
  assumes "field_name n" "c \<in> set n"
  shows "c \<noteq> NUL \<and> \<not> is_upper_byte c"
proof -
  have "is_lower_byte c \<or> is_digit_byte c \<or> c \<in> set ''!#$%&*+-.^_`|~'' \<or> c = CHR 0x27"
    using assms unfolding field_name_def list_all_iff by blast
  then show ?thesis by (elim disjE) (auto simp: is_lower_byte_def is_digit_byte_def is_upper_byte_def)
qed

abbreviation cgi_byte :: "char \<Rightarrow> char" where
  "cgi_byte b \<equiv> (if b = CHR ''-'' then CHR ''_'' else upper_ascii b)"

text \<open>The mapping of name bytes can be undone on what a clear name holds.\<close>

definition uncgi :: "char \<Rightarrow> char" where
  "uncgi b = (if b = CHR ''_'' then CHR ''-'' else lower_byte b)"

lemma lower_upper: "\<not> is_upper_byte c \<Longrightarrow> lower_byte (upper_ascii c) = c"
  by (auto simp: lower_byte_def upper_ascii_def is_upper_byte_def is_lower_byte_def)

lemma upper_special: "upper_ascii c = CHR ''_'' \<Longrightarrow> c = CHR ''_''" "upper_ascii c = NUL \<Longrightarrow> c = NUL"
  by (auto simp: upper_ascii_def is_lower_byte_def split: if_splits dest: arg_cong[of _ _ "of_char :: char \<Rightarrow> nat"])

lemma uncgi_cgi: "\<not> is_upper_byte c \<Longrightarrow> c \<noteq> CHR ''_'' \<Longrightarrow> uncgi (cgi_byte c) = c"
  using upper_special(1)[of c] lower_upper[of c] by (auto simp: uncgi_def)

lemma cgi_name_back:
  assumes "field_name n" "CHR ''_'' \<notin> set n"
  shows "map uncgi (cgi_name n) = n"
  unfolding cgi_name_def map_map o_def
  by (rule map_idI) (metis (no_types, lifting) assms field_char uncgi_cgi)

lemma cgi_name_inj:
  "field_name n \<Longrightarrow> field_name m \<Longrightarrow> clear_name n \<Longrightarrow> clear_name m \<Longrightarrow> cgi_name n = cgi_name m \<Longrightarrow> n = m"
  by (metis cgi_name_back clear_name_def)

lemma cgi_name_no_nul:
  assumes "field_name n"
  shows "NUL \<notin> set (cgi_name n)"
proof
  assume "NUL \<in> set (cgi_name n)"
  then obtain c where c: "c \<in> set n" "cgi_byte c = NUL" unfolding cgi_name_def by force
  then have "c = NUL" using upper_special(2)[of c] by (simp split: if_splits)
  then show False using field_char[OF assms c(1)] by simp
qed

abbreviation http_key :: "string \<times> string \<Rightarrow> bool" where
  "http_key kv \<equiv> starts_with (fst kv) ''HTTP_''"

lemma no_http_keys:
  "\<not> list_ex http_key (request_line_vars req)" "\<not> list_ex http_key (script_vars req)"
  "\<not> list_ex http_key (connection_vars H software req)" "\<not> list_ex http_key (content_vars H req)"
  "\<not> list_ex http_key (time_trace_vars req)"
  by (simp_all add: request_line_vars_def script_vars_def connection_vars_def name_port_vars_def content_vars_def
        time_trace_vars_def Let_def starts_with_def split: option.splits prod.splits)

lemma filter_none: "\<not> list_ex P xs \<Longrightarrow> filter (\<lambda>x. Q x \<and> P x) xs = []"
  by (auto simp: list_ex_iff filter_empty_conv)

lemma in_map_filter: "y \<in> set (List.map_filter f xs) \<longleftrightarrow> (\<exists>x \<in> set xs. f x = Some y)"
  by (force simp: List.map_filter_def)

lemma map_filter_keys:
  assumes "distinct ns" "inj_on g (set ns \<inter> {n. f n \<noteq> None})"
  shows "distinct (map fst (List.map_filter (\<lambda>n. map_option (Pair (g n)) (f n)) ns))"
  using assms
proof (induction ns)
  case (Cons n ns)
  have "g n \<noteq> g m" if "m \<in> set ns" "f m \<noteq> None" "f n \<noteq> None" for m
    using Cons.prems that by (auto simp: inj_on_def)
  moreover have "inj_on g (set ns \<inter> {n. f n \<noteq> None})" using Cons.prems(2) by (auto simp: inj_on_def)
  ultimately show ?case
    using Cons.IH Cons.prems(1) by (fastforce simp: map_filter_simps in_map_filter split: option.splits)
qed (simp add: map_filter_simps)

lemma header_vars_http: "kv \<in> set (header_vars H req) \<Longrightarrow> http_key kv"
  by (auto simp: header_vars_def in_map_filter header_var_clear starts_with_def split: if_splits)

lemma header_vars_set:
  assumes "header_laws H"
  shows "(k, v) \<in> set (header_vars H req) \<longleftrightarrow>
    (\<exists>n. k = ''HTTP_'' @ cgi_name n \<and> clear_name n \<and> header_field_value H (sr_headers req) n = Some v)"
proof -
  have "n \<in> set (hkeys H (sr_headers req))" if "header_field_value H (sr_headers req) n = Some v" for n v
    using that by (auto simp: header_keys[OF assms] header_field_value_def split: list.splits)
  then show ?thesis
    by (auto simp: header_vars_def in_map_filter header_var_clear split: if_splits)
qed

lemma header_vars_distinct:
  assumes H: "header_laws H" and names: "list_all field_name (hkeys H (sr_headers req))"
  shows "distinct (map fst (header_vars H req))"
proof -
  let ?h = "sr_headers req"
  let ?f = "\<lambda>n. if clear_name n then header_field_value H ?h n else None"
  have f: "header_var H ?h = (\<lambda>n. map_option (Pair (''HTTP_'' @ cgi_name n)) (?f n))"
    by (rule ext) (simp add: header_var_clear)
  have inj: "inj_on (\<lambda>n. ''HTTP_'' @ cgi_name n) (set (hkeys H ?h) \<inter> {n. ?f n \<noteq> None})"
  proof (rule inj_onI)
    fix n m
    assume n: "n \<in> set (hkeys H ?h) \<inter> {n. ?f n \<noteq> None}" and m: "m \<in> set (hkeys H ?h) \<inter> {n. ?f n \<noteq> None}"
      and eq: "''HTTP_'' @ cgi_name n = ''HTTP_'' @ cgi_name m"
    have "clear_name n" "clear_name m" using n m by (auto split: if_splits)
    moreover have "field_name n" "field_name m" using n m names by (auto simp: list_all_iff)
    ultimately show "n = m" using eq by (simp add: cgi_name_inj)
  qed
  show ?thesis
    unfolding header_vars_def f by (rule map_filter_keys[OF header_keys(1)[OF H] inj])
qed

lemma header_vars_no_nul:
  assumes H: "header_laws H" and names: "list_all field_name (hkeys H (sr_headers req))"
    and kv: "(k, v) \<in> set (header_vars H req)"
  shows "NUL \<notin> set k \<and> NUL \<notin> set v"
proof -
  obtain n where n: "n \<in> set (hkeys H (sr_headers req))" "k = ''HTTP_'' @ cgi_name n"
    "header_field_value H (sr_headers req) n = Some v"
    using kv by (auto simp: header_vars_def in_map_filter header_var_clear split: if_splits)
  then have "field_name n" using names by (simp add: list_all_iff)
  then show ?thesis
    using n cgi_name_no_nul visible_no_nul[OF header_field_visible[OF H n(3)]] by simp
qed

definition http_variables :: "RequestData \<Rightarrow> (string \<times> string) list" where
  "http_variables rd = filter http_key (register_server_variables [] rd)"

lemma http_vars_kept:
  assumes "header_laws H" "list_all field_name (hkeys H (sr_headers req))"
  shows "http_variables (fill_request_data pct H software True req old) = header_vars H req"
proof -
  have "filter http_key (header_vars H req) = header_vars H req"
    using header_vars_http by (auto simp: filter_id_conv)
  moreover have "filter (\<lambda>(k, v). NUL \<notin> set k \<and> NUL \<notin> set v) (header_vars H req) = header_vars H req"
    using header_vars_no_nul[OF assms] by (auto simp: filter_id_conv)
  ultimately show ?thesis
    unfolding http_variables_def register_server_variables_def fill_request_data_def
    by (simp add: pk_clear_pack push_server_vars_pack server_var_list_def filter_none[OF no_http_keys(1)]
        filter_none[OF no_http_keys(2)] filter_none[OF no_http_keys(3)] filter_none[OF no_http_keys(4)]
        filter_none[OF no_http_keys(5)])
qed


section \<open>Cookies\<close>

lemma cookie_list_pairs:
  "cookie_list pct H h =
   List.map_filter (\<lambda>p. map_option (\<lambda>(n, v). (n, url_decode pct v False)) (split_once (CHR ''='') p)) (cookie_pairs H h)"
  by (simp add: cookie_list_def cookie_pairs_def cookie_pair_def List.map_filter_def filter_map o_def split: option.splits)

definition cookie_value :: "(string \<Rightarrow> string) \<Rightarrow> string \<Rightarrow> string \<Rightarrow> string option" where
  "cookie_value pct key pair =
     (case split_once (CHR ''='') pair of
        Some (n, v) \<Rightarrow> if n = key then Some (url_decode pct v False) else None
      | None \<Rightarrow> None)"

lemma req_cookie_pairs:
  "req_cookie key (fill_request_data pct H software sg req old) = find_map (cookie_value pct key) (cookie_pairs H (sr_headers req))"
proof -
  have "find_map (\<lambda>(k, v). if k = key then Some v else None)
      (List.map_filter (\<lambda>p. map_option (\<lambda>(n, v). (n, url_decode pct v False)) (split_once (CHR ''='') p)) ps) =
    find_map (cookie_value pct key) ps" for ps
    by (induction ps) (auto simp: find_map_def map_filter_simps cookie_value_def split: option.splits)
  then show ?thesis
    by (simp add: req_cookie_def fill_request_data_def pk_clear_pack push_pairs_pack cookie_list_pairs)
qed

lemma split_once_Some: "split_once c s = Some (n, v) \<longleftrightarrow> s = n @ c # v \<and> c \<notin> set n"
proof
  assume "split_once c s = Some (n, v)"
  then show "s = n @ c # v \<and> c \<notin> set n"
    unfolding split_once_def
    by (auto split: list.splits dest: set_takeWhileD)
       (metis (mono_tags, lifting) dropWhile_eq_Cons_conv takeWhile_dropWhile_id)
next
  assume s: "s = n @ c # v \<and> c \<notin> set n"
  then have "\<And>x. x \<in> set n \<Longrightarrow> x \<noteq> c" by auto
  then have "dropWhile (\<lambda>x. x \<noteq> c) (n @ c # v) = c # v" "takeWhile (\<lambda>x. x \<noteq> c) (n @ c # v) = n"
    by (simp_all add: dropWhile_append2 takeWhile_append2)
  then show "split_once c s = Some (n, v)"
    unfolding split_once_def using s by simp
qed

lemma cookie_value_plugin:
  assumes "cookie_value pct key p \<noteq> None"
  shows "plugin_pair p = plugin_pair key"
proof -
  obtain n v where s: "split_once (CHR ''='') p = Some (n, v)" and n: "n = key"
    using assms by (auto simp: cookie_value_def split: option.splits if_splits)
  have p: "p = key @ CHR ''='' # v" using s n by (simp add: split_once_Some)
  show ?thesis
  proof
    let ?k = "length ''__oxp_''"
    assume "plugin_pair p"
    then have t: "take ?k (key @ CHR ''='' # v) = ''__oxp_''" unfolding starts_with_def p .
    have "?k \<le> length key"
    proof (rule ccontr)
      assume "\<not> ?k \<le> length key"
      then have "CHR ''='' \<in> set (take ?k (key @ CHR ''='' # v))"
        by (cases "?k - length key") auto
      then show False unfolding t by simp
    qed
    then show "plugin_pair key" using t unfolding starts_with_def by simp
  qed (auto simp: starts_with_iff p)
qed

lemma find_map_filter:
  assumes "\<And>x. x \<in> set xs \<Longrightarrow> f x \<noteq> None \<Longrightarrow> P x = b"
  shows "find_map f (filter P xs) = (if b then find_map f xs else None)"
  using assms by (induction xs) (fastforce simp: find_map_def split: option.splits)+


section \<open>The body\<close>

text \<open>PHP calls \<^verbatim>\<open>read_post\<close> again and again, with a buffer of some size each time.\<close>

fun read_posts :: "nat list \<Rightarrow> RequestData \<Rightarrow> string" where
  "read_posts [] rd = []"
| "read_posts (n # ns) rd = (case read_post n rd of (chunk, rd') \<Rightarrow> chunk @ read_posts ns rd')"

lemma read_posts_take:
  "rd_active rd \<Longrightarrow> read_posts ns rd = take (sum_list ns) (drop (rd_body_offset rd) (rd_body rd))"
proof (induction ns arbitrary: rd)
  case (Cons n ns)
  let ?r = "length (rd_body rd) - rd_body_offset rd"
  show ?case
  proof (cases "?r = 0")
    case True
    then show ?thesis using Cons by (simp add: read_post_def Let_def)
  next
    case False
    then have "read_post n rd = (take (min ?r n) (drop (rd_body_offset rd) (rd_body rd)), rd\<lparr>rd_body_offset := rd_body_offset rd + min ?r n\<rparr>)"
      using Cons.prems by (simp add: read_post_def Let_def)
    then show ?thesis
      using Cons by (simp add: take_add add.commute[of "rd_body_offset rd"] min_def)
  qed
qed simp

lemma body_read_back:
  assumes "length (sr_body req) \<le> sum_list ns"
  shows "read_posts ns (fill_request_data pct H software sg req old) = sr_body req"
  using assms by (subst read_posts_take) (simp_all add: fill_request_data_def)

section \<open>Denied requests\<close>

text \<open>Whatever path was asked for, a request answered by the deny fallback names the fallback as its script.\<close>

lemma denied_names_fallback:
  assumes "sr_denied_meta req = Some meta" "NUL \<notin> set (dm_fallback_script_uri meta)"
  shows "filter (\<lambda>(k, v). k = ''SCRIPT_NAME'') (pk_iter (rd_server_vars (fill_request_data pct H software True req old))) =
    [(''SCRIPT_NAME'', dm_fallback_script_uri meta)]"
proof -
  let ?P = "\<lambda>kv :: string \<times> string. fst kv = ''SCRIPT_NAME''"
  have "\<not> list_ex ?P (header_vars H req)"
    using header_vars_http[of _ H req] by (fastforce simp: list_ex_iff starts_with_def)
  moreover have "\<not> list_ex ?P (request_line_vars req)" "\<not> list_ex ?P (connection_vars H software req)"
    "\<not> list_ex ?P (content_vars H req)" "\<not> list_ex ?P (time_trace_vars req)"
    by (simp_all add: request_line_vars_def connection_vars_def name_port_vars_def content_vars_def
          time_trace_vars_def Let_def split: option.splits prod.splits)
  moreover have "filter (\<lambda>x. (case x of (k, v) \<Rightarrow> NUL \<notin> set k \<and> NUL \<notin> set v) \<and> ?P x) (script_vars req) =
      [(''SCRIPT_NAME'', dm_fallback_script_uri meta)]"
    using assms by (simp add: script_vars_def Let_def)
  ultimately show ?thesis
    by (simp add: fill_request_data_def pk_clear_pack push_server_vars_pack server_var_list_def case_prod_unfold
        filter_none[where P = ?P and Q = "\<lambda>x. NUL \<notin> set (fst x) \<and> NUL \<notin> set (snd x)", unfolded conj_assoc])
qed

section \<open>Witnesses\<close>

definition demo_request :: "(string \<times> string) list \<Rightarrow> (string \<times> string) list ScriptRequest" where
  "demo_request hs =
     \<lparr>sr_id = ''r1'', sr_script_path = ''/w/index.php'', sr_method = ''GET'', sr_path_and_query = Some ''/?a=1'', sr_path = ''/'',
      sr_query = Some ''a=1'', sr_headers = hs, sr_body = ''body'', sr_remote_ip = ''10.0.0.1'', sr_remote_port = 7,
      sr_document_root = ''/w'', sr_trace_id = [], sr_span_id = [], sr_parent_span_id = [], sr_is_tls = False,
      sr_version = HTTP_11, sr_path_info = None, sr_forwarded_proto = None, sr_forwarded_host = None,
      sr_forwarded_port = None, sr_denied_meta = None, sr_time = None\<rparr>"

lemma demo_header: "header_field_value list_headers [(''x_a'', ''forged''), (''x-a'', ''1''), (''x-a'', ''2'')] ''x-a'' = Some ''1, 2''"
  by code_simp



end
