(* ===== verification/Response_Spool.thy ===== *)
theory Response_Spool
  imports Http_Headers
begin

text \<open>
  Spooling of buffered response bodies (\<^verbatim>\<open>src/php/response_spool.rs\<close>).  The file system is a
  parameter: what opening a new file, unlinking it and writing to it answer.  A write that succeeds puts all
  its bytes at the end of the file, so the model keeps a spool file as its bytes.

  The theorems: output that is not refused reaches the client whole and in order, and the bytes reserved of
  the shared budget are at every moment those of the live spool files, and never more than the budget.
\<close>

section \<open>The budget\<close>

datatype create_result = Opened | AlreadyExists | OpenFailed

record 'd disk_ops =
  open_new :: "string \<Rightarrow> 'd \<Rightarrow> create_result \<times> 'd"
  remove_file :: "string \<Rightarrow> 'd \<Rightarrow> bool \<times> 'd"
  write_all :: "string \<Rightarrow> 'd \<Rightarrow> bool \<times> 'd"

record SpoolConfig =
  buffer_bytes :: nat
  sc_dir :: string
  sc_max :: nat
  sc_pid :: nat

record 'd spool_world =
  in_use :: nat
  seq_no :: nat
  disk :: 'd

definition spool_reserve :: "SpoolConfig \<Rightarrow> nat \<Rightarrow> 'd spool_world \<Rightarrow> bool \<times> 'd spool_world" where
  "spool_reserve C bytes w =
     (let tot = in_use w + bytes in
      if tot < 2 ^ 64 \<and> tot \<le> sc_max C then (True, w\<lparr>in_use := tot\<rparr>) else (False, w))"

text \<open>\<^verbatim>\<open>fetch_sub\<close>, which wraps.\<close>

definition spool_release :: "nat \<Rightarrow> 'd spool_world \<Rightarrow> 'd spool_world" where
  "spool_release bytes w =
     w\<lparr>in_use := if bytes \<le> in_use w then in_use w - bytes else in_use w + 2 ^ 64 - bytes\<rparr>"

definition spool_dir :: "string option \<Rightarrow> string" where
  "spool_dir tmpdir = (case tmpdir of Some dir \<Rightarrow> if dir \<noteq> [] then dir else ''/tmp'' | None \<Rightarrow> ''/tmp'')"

section \<open>Spool files\<close>

definition spool_path :: "SpoolConfig \<Rightarrow> nat \<Rightarrow> string" where
  "spool_path C seq = sc_dir C @ ''/oxphp-response-'' @ show_nat (sc_pid C) @ ''-'' @ show_nat seq"

fun create_unlinked_loop :: "nat \<Rightarrow> 'd disk_ops \<Rightarrow> SpoolConfig \<Rightarrow> 'd spool_world \<Rightarrow> bool \<times> 'd spool_world" where
  "create_unlinked_loop 0 D C w = (False, w)"
| "create_unlinked_loop (Suc n) D C w =
     (let path = spool_path C (seq_no w);
          w1 = w\<lparr>seq_no := (seq_no w + 1) mod 2 ^ 64\<rparr>
      in case open_new D path (disk w1) of
           (Opened, d) \<Rightarrow> (case remove_file D path d of (ok, d') \<Rightarrow> (ok, w1\<lparr>disk := d'\<rparr>))
         | (AlreadyExists, d) \<Rightarrow> create_unlinked_loop n D C (w1\<lparr>disk := d\<rparr>)
         | (OpenFailed, d) \<Rightarrow> (False, w1\<lparr>disk := d\<rparr>))"

definition create_unlinked :: "'d disk_ops \<Rightarrow> SpoolConfig \<Rightarrow> 'd spool_world \<Rightarrow> bool \<times> 'd spool_world" where
  "create_unlinked = create_unlinked_loop 8"

record Spool =
  sp_file :: string
  sp_bytes :: nat

definition Spool_create :: "'d disk_ops \<Rightarrow> SpoolConfig \<Rightarrow> 'd spool_world \<Rightarrow> Spool option \<times> 'd spool_world" where
  "Spool_create D C w =
     (case create_unlinked D C w of (ok, w') \<Rightarrow> (if ok then Some \<lparr>sp_file = [], sp_bytes = 0\<rparr> else None, w'))"

datatype SpillError = SpillFull | SpillIo

definition Spool_write ::
    "'d disk_ops \<Rightarrow> SpoolConfig \<Rightarrow> string \<Rightarrow> string \<Rightarrow> Spool \<Rightarrow> 'd spool_world \<Rightarrow> SpillError option \<times> Spool \<times> 'd spool_world"
where
  "Spool_write D C head data sp w =
     (let bytes = length head + length data in
      case spool_reserve C bytes w of
        (False, w1) \<Rightarrow> (Some SpillFull, sp, w1)
      | (True, w1) \<Rightarrow>
          (let sp1 = sp\<lparr>sp_bytes := sp_bytes sp + bytes\<rparr> in
           case write_all D head (disk w1) of
             (False, d) \<Rightarrow> (Some SpillIo, sp1, w1\<lparr>disk := d\<rparr>)
           | (True, d) \<Rightarrow>
               (case write_all D data d of
                  (False, d') \<Rightarrow> (Some SpillIo, sp1\<lparr>sp_file := sp_file sp @ head\<rparr>, w1\<lparr>disk := d'\<rparr>)
                | (True, d') \<Rightarrow> (None, sp1\<lparr>sp_file := sp_file sp @ head @ data\<rparr>, w1\<lparr>disk := d'\<rparr>))))"

section \<open>The output of a response\<close>

datatype Spooled = InMemory | Spooling Spool | Refused

definition spill ::
    "'d disk_ops \<Rightarrow> SpoolConfig \<Rightarrow> string \<Rightarrow> string \<Rightarrow> Spooled \<Rightarrow> 'd spool_world \<Rightarrow> SpillError option \<times> Spooled \<times> 'd spool_world"
where
  "spill D C output data self w =
     (let write = (\<lambda>sp w. case Spool_write D C output data sp w of (e, sp', w') \<Rightarrow> (e, Spooling sp', w')) in
      case self of
        InMemory \<Rightarrow>
          (case Spool_create D C w of
             (None, w1) \<Rightarrow> (Some SpillIo, InMemory, w1)
           | (Some sp, w1) \<Rightarrow> write sp w1)
      | Spooling sp \<Rightarrow> write sp w
      | Refused \<Rightarrow> (None, Refused, w))"

text \<open>Replacing the value drops the file it held, and with it its share of the budget.\<close>

definition held :: "Spooled \<Rightarrow> nat" where
  "held self = (case self of Spooling sp \<Rightarrow> sp_bytes sp | _ \<Rightarrow> 0)"

definition spill_or_refuse ::
    "'d disk_ops \<Rightarrow> SpoolConfig \<Rightarrow> string \<Rightarrow> string \<Rightarrow> Spooled \<Rightarrow> 'd spool_world \<Rightarrow> Spooled \<times> string \<times> 'd spool_world"
where
  "spill_or_refuse D C output data self w =
     (case spill D C output data self w of
        (Some _, self', w') \<Rightarrow> (Refused, [], spool_release (held self') w')
      | (None, self', w') \<Rightarrow> (self', [], w'))"

definition spool_append ::
    "'d disk_ops \<Rightarrow> SpoolConfig \<Rightarrow> bool \<Rightarrow> string \<Rightarrow> Spooled \<times> string \<times> 'd spool_world \<Rightarrow> Spooled \<times> string \<times> 'd spool_world"
where
  "spool_append D C spoolable data r =
     (case r of (self, output, w) \<Rightarrow>
        if self = Refused then r
        else if length output + length data \<le> buffer_bytes C \<or> \<not> spoolable then (self, output @ data, w)
        else spill_or_refuse D C output data self w)"

definition spool_take ::
    "'d disk_ops \<Rightarrow> SpoolConfig \<Rightarrow> Spooled \<times> string \<times> 'd spool_world \<Rightarrow> Spool option \<times> Spooled \<times> string \<times> 'd spool_world"
where
  "spool_take D C r =
     (case r of (self, output, w) \<Rightarrow>
        (case (case self of
                 Spooling sp \<Rightarrow> if output \<noteq> [] then spill_or_refuse D C output [] self w else r
               | _ \<Rightarrow> r) of
           (Spooling sp, output', w') \<Rightarrow> (Some sp, InMemory, output', w')
         | (Refused, output', w') \<Rightarrow> (None, Refused, output', w')
         | (InMemory, output', w') \<Rightarrow> (None, InMemory, output', w')))"

definition refusal :: "string \<times> (string \<times> string) list \<times> nat" where
  "refusal = (''503 Service Unavailable'',
     [(''content-type'', ''text/plain; charset=utf-8''), (''retry-after'', ''5'')], 503)"

text \<open>
  The body sent: the spool file, what is in memory, and the chunks of a stream.  \<open>read_back\<close> is what
  reading the file gives, at most as many bytes as it was reserved.
\<close>

definition spool_body :: "(string \<Rightarrow> string option) \<Rightarrow> Spool option \<Rightarrow> string \<Rightarrow> string list option \<Rightarrow> body" where
  "spool_body read_back spool tail rx =
     (case spool of
        None \<Rightarrow>
          (case rx of
             None \<Rightarrow> Full tail
           | Some chunks \<Rightarrow> Streamed 0 None (Some (tail @ concat chunks)))
      | Some sp \<Rightarrow>
          (let content = map_option (\<lambda>f. take (sp_bytes sp) f @ tail @ concat (case rx of Some cs \<Rightarrow> cs | None \<Rightarrow> []))
                                    (read_back (sp_file sp)) in
           case rx of
             None \<Rightarrow> Streamed (sp_bytes sp + length tail) (Some (sp_bytes sp + length tail)) content
           | Some _ \<Rightarrow> Streamed 0 None content))"

section \<open>Every operation keeps the books and the bytes\<close>

definition spool_ok :: "Spooled \<Rightarrow> bool" where
  "spool_ok self = (case self of Spooling sp \<Rightarrow> length (sp_file sp) = sp_bytes sp | _ \<Rightarrow> True)"

definition contents :: "Spooled \<Rightarrow> string \<Rightarrow> string" where
  "contents self output = (case self of Spooling sp \<Rightarrow> sp_file sp @ output | _ \<Rightarrow> output)"

lemma create_unlinked_in_use: "create_unlinked_loop n D C w = (ok, w') \<Longrightarrow> in_use w' = in_use w"
proof (induction n D C w rule: create_unlinked_loop.induct)
  case (2 n D C w)
  then show ?case by (auto simp: Let_def split: prod.splits create_result.splits)
qed simp

lemma Spool_create_in_use: "Spool_create D C w = (s, w') \<Longrightarrow> in_use w' = in_use w"
  by (auto simp: Spool_create_def create_unlinked_def dest: create_unlinked_in_use split: prod.splits)

lemma Spool_write_books:
  assumes "Spool_write D C head data sp w = (e, sp', w')" "in_use w \<le> sc_max C"
  shows "in_use w' + sp_bytes sp = in_use w + sp_bytes sp' \<and> in_use w' \<le> sc_max C"
  using assms by (auto simp: Spool_write_def spool_reserve_def Let_def split: if_splits prod.splits bool.splits)

lemma Spool_write_file:
  assumes "Spool_write D C head data sp w = (None, sp', w')" "length (sp_file sp) = sp_bytes sp"
  shows "sp_file sp' = sp_file sp @ head @ data \<and> length (sp_file sp') = sp_bytes sp'"
  using assms by (auto simp: Spool_write_def Let_def split: prod.splits bool.splits)

lemma spill_cases:
  assumes "spill D C output data self w = (e, self', w')"
  obtains (failed) "self = InMemory" "self' = InMemory" "e = Some SpillIo" "in_use w' = in_use w"
    | (kept) "self = Refused" "self' = Refused" "w' = w" "e = None"
    | (wrote) sp sp' w1 where "Spool_write D C output data sp w1 = (e, sp', w')" "self' = Spooling sp'" "in_use w1 = in_use w"
        "self = Spooling sp \<or> self = InMemory \<and> sp = \<lparr>sp_file = [], sp_bytes = 0\<rparr>"
proof (cases self)
  case InMemory
  obtain s w1 where c: "Spool_create D C w = (s, w1)" by fastforce
  have i: "in_use w1 = in_use w" using c by (rule Spool_create_in_use)
  have s: "s = None \<or> s = Some \<lparr>sp_file = [], sp_bytes = 0\<rparr>"
    using c by (auto simp: Spool_create_def split: prod.splits if_splits)
  show ?thesis
  proof (cases s)
    case None
    then show ?thesis using assms InMemory c i failed by (simp add: spill_def)
  next
    case (Some sp)
    then show ?thesis using assms InMemory c i s wrote[of sp w1]
      by (auto simp: spill_def split: prod.splits)
  qed
next
  case (Spooling sp)
  then show ?thesis using assms wrote[of sp w] by (auto simp: spill_def split: prod.splits)
next
  case Refused
  then show ?thesis using assms kept by (simp add: spill_def)
qed

lemma spill_books:
  assumes "spill D C output data self w = (e, self', w')" "in_use w \<le> sc_max C"
  shows "in_use w' + held self = in_use w + held self' \<and> in_use w' \<le> sc_max C"
  using assms(1)
proof (cases rule: spill_cases)
  case (wrote sp sp' w1)
  then show ?thesis using Spool_write_books[of D C "output" data sp w1 e sp' w'] assms(2) by (auto simp: held_def)
qed (use assms in \<open>auto simp: held_def\<close>)

lemma spill_or_refuse_books:
  assumes "spill_or_refuse D C output data self w = (self', output', w')" "in_use w \<le> sc_max C" "held self \<le> in_use w"
  shows "in_use w' + held self = in_use w + held self' \<and> in_use w' \<le> sc_max C"
proof -
  obtain e s1 w1 where sp: "spill D C output data self w = (e, s1, w1)" by (metis prod_cases3)
  show ?thesis
    using spill_books[OF sp assms(2)] assms(1,3) sp
    by (auto simp: spill_or_refuse_def spool_release_def held_def[of Refused] split: option.splits)
qed

lemma spill_or_refuse_contents:
  assumes "spill_or_refuse D C output data self w = (self', output', w')" "spool_ok self" "self \<noteq> Refused"
  shows "output' = [] \<and> spool_ok self' \<and> (self' = Refused \<or> contents self' [] = contents self output @ data)"
proof -
  obtain e s1 w1 where sp: "spill D C output data self w = (e, s1, w1)" by (metis prod_cases3)
  show ?thesis
  proof (cases e)
    case None
    from sp show ?thesis
    proof (cases rule: spill_cases)
      case (wrote s s' w0)
      have "length (sp_file s) = sp_bytes s" using wrote(4) assms(2) by (auto simp: spool_ok_def)
      then have "sp_file s' = sp_file s @ output @ data \<and> length (sp_file s') = sp_bytes s'"
        using Spool_write_file[of D C "output" data s w0 s' w1] wrote(1) None by blast
      then show ?thesis
        using wrote(2,4) assms(1) sp None by (auto simp: spill_or_refuse_def spool_ok_def contents_def)
    qed (use assms None in auto)
  next
    case (Some x)
    then show ?thesis using assms(1) sp by (simp add: spill_or_refuse_def spool_ok_def)
  qed
qed

lemma append_books:
  assumes "spool_append D C spoolable data (self, output, w) = (self', output', w')" "in_use w \<le> sc_max C" "held self \<le> in_use w"
  shows "in_use w' + held self = in_use w + held self' \<and> in_use w' \<le> sc_max C"
  using assms spill_or_refuse_books[of D C "output" data self w self' output' w']
  by (auto simp: spool_append_def split: if_splits)

lemma append_contents:
  assumes "spool_append D C spoolable data (self, output, w) = (self', output', w')" "spool_ok self"
  shows "spool_ok self' \<and> (self' = Refused \<or> self \<noteq> Refused \<and> contents self' output' = contents self output @ data)"
proof -
  consider "self = Refused" | "self \<noteq> Refused" "length output + length data \<le> buffer_bytes C \<or> \<not> spoolable"
    | "self \<noteq> Refused" "spill_or_refuse D C output data self w = (self', output', w')"
    using assms(1) by (fastforce simp: spool_append_def split: if_splits)
  then show ?thesis
  proof cases
    case 2
    then show ?thesis using assms by (cases self) (auto simp: spool_append_def spool_ok_def contents_def)
  next
    case 3
    then show ?thesis using spill_or_refuse_contents[OF 3(2) assms(2) 3(1)] by auto
  qed (use assms in \<open>auto simp: spool_append_def\<close>)
qed

lemma take_cases:
  assumes "spool_take D C (self, output, w) = (spool, self', output', w')"
  obtains s1 where "(s1, output', w') = (self, output, w) \<and> (\<forall>sp. self = Spooling sp \<longrightarrow> output = []) \<or>
      self \<noteq> Refused \<and> spill_or_refuse D C output [] self w = (s1, output', w')"
    "spool = (case s1 of Spooling sp \<Rightarrow> Some sp | _ \<Rightarrow> None)"
    "self' = (if s1 = Refused then Refused else InMemory)"
proof -
  let ?r = "case self of Spooling sp \<Rightarrow> if output \<noteq> [] then spill_or_refuse D C output [] self w else (self, output, w)
      | _ \<Rightarrow> (self, output, w)"
  obtain s1 o1 w1 where r: "?r = (s1, o1, w1)" by (metis prod_cases3)
  have "output' = o1 \<and> w' = w1 \<and> spool = (case s1 of Spooling sp \<Rightarrow> Some sp | _ \<Rightarrow> None) \<and>
      self' = (if s1 = Refused then Refused else InMemory)"
    using assms unfolding spool_take_def prod.case r by (cases s1) auto
  moreover have "(s1, o1, w1) = (self, output, w) \<and> (\<forall>sp. self = Spooling sp \<longrightarrow> output = []) \<or>
      self \<noteq> Refused \<and> spill_or_refuse D C output [] self w = (s1, o1, w1)"
    using r by (cases self) (auto split: if_splits)
  ultimately show ?thesis using that by blast
qed

lemma take_books:
  assumes "spool_take D C (self, output, w) = (spool, self', output', w')" "in_use w \<le> sc_max C" "held self \<le> in_use w"
  shows "in_use w' + held self = in_use w + (case spool of Some sp \<Rightarrow> sp_bytes sp | None \<Rightarrow> 0) + held self' \<and> in_use w' \<le> sc_max C"
proof -
  obtain s1 where s1: "(s1, output', w') = (self, output, w) \<and> (\<forall>sp. self = Spooling sp \<longrightarrow> output = []) \<or>
      self \<noteq> Refused \<and> spill_or_refuse D C output [] self w = (s1, output', w')"
    "spool = (case s1 of Spooling sp \<Rightarrow> Some sp | _ \<Rightarrow> None)" "self' = (if s1 = Refused then Refused else InMemory)"
    using assms(1) by (rule take_cases)
  have "in_use w' + held self = in_use w + held s1 \<and> in_use w' \<le> sc_max C"
    using s1(1) spill_or_refuse_books[of D C "output" "[]" self w s1 output' w'] assms(2,3) by auto
  then show ?thesis using s1(2,3) by (cases s1) (auto simp: held_def)
qed

text \<open>What was written comes out: the file then the memory, unless the response was refused.\<close>

lemma take_contents:
  assumes "spool_take D C (self, output, w) = (spool, self', output', w')" "spool_ok self"
  shows "self' = Refused \<or>
    spool = None \<and> output' = contents self output \<or>
    (\<exists>sp. spool = Some sp \<and> output' = [] \<and> sp_file sp = contents self output \<and> length (sp_file sp) = sp_bytes sp)"
proof -
  obtain s1 where s1: "(s1, output', w') = (self, output, w) \<and> (\<forall>sp. self = Spooling sp \<longrightarrow> output = []) \<or>
      self \<noteq> Refused \<and> spill_or_refuse D C output [] self w = (s1, output', w')"
    "spool = (case s1 of Spooling sp \<Rightarrow> Some sp | _ \<Rightarrow> None)" "self' = (if s1 = Refused then Refused else InMemory)"
    using assms(1) by (rule take_cases)
  from s1(1) show ?thesis
  proof
    assume "(s1, output', w') = (self, output, w) \<and> (\<forall>sp. self = Spooling sp \<longrightarrow> output = [])"
    then show ?thesis using s1(2,3) assms(2) by (cases self) (auto simp: contents_def spool_ok_def)
  next
    assume a: "self \<noteq> Refused \<and> spill_or_refuse D C output [] self w = (s1, output', w')"
    then have "output' = []" "spool_ok s1" "s1 = Refused \<or> contents s1 [] = contents self output"
      using spill_or_refuse_contents[of D C "output" "[]" self w s1 output' w'] assms(2) by auto
    then show ?thesis using s1(2,3) by (cases s1) (auto simp: contents_def spool_ok_def)
  qed
qed

fun spool_run ::
    "'d disk_ops \<Rightarrow> SpoolConfig \<Rightarrow> (bool \<times> string) list \<Rightarrow> Spooled \<times> string \<times> 'd spool_world \<Rightarrow> Spooled \<times> string \<times> 'd spool_world"
where
  "spool_run D C [] r = r"
| "spool_run D C ((spoolable, data) # ws) r = spool_run D C ws (spool_append D C spoolable data r)"

lemma run_contents:
  "spool_run D C ws (self, output, w) = (self', output', w') \<Longrightarrow> spool_ok self \<Longrightarrow>
   spool_ok self' \<and> (self' = Refused \<or> self \<noteq> Refused \<and> contents self' output' = contents self output @ concat (map snd ws))"
proof (induction ws arbitrary: self "output" w)
  case (Cons a ws)
  obtain b d where a: "a = (b, d)" by fastforce
  obtain s1 o1 w1 where r: "spool_append D C b d (self, output, w) = (s1, o1, w1)" by (metis prod_cases3)
  have "spool_ok s1 \<and> (s1 = Refused \<or> self \<noteq> Refused \<and> contents s1 o1 = contents self output @ d)"
    using append_contents[OF r] Cons.prems by blast
  then show ?case using Cons.IH[of s1 o1 w1] Cons.prems(1) r a by auto
qed simp


section \<open>The shared budget\<close>

text \<open>
  Every response of the process: the ones being written, each with the output in its worker's memory, and
  the spool files that are bodies clients are reading.
\<close>

record 'd spool_sys =
  ss_world :: "'d spool_world"
  ss_writing :: "(Spooled \<times> string) list"
  ss_bodies :: "Spool list"

inductive spool_step :: "'d disk_ops \<Rightarrow> SpoolConfig \<Rightarrow> 'd spool_sys \<Rightarrow> 'd spool_sys \<Rightarrow> bool"
  for D C where
  started: "spool_step D C s (s\<lparr>ss_writing := ss_writing s @ [(InMemory, [])]\<rparr>)"
| wrote: "i < length (ss_writing s) \<Longrightarrow> ss_writing s ! i = (self, output) \<Longrightarrow>
    spool_append D C spoolable data (self, output, ss_world s) = (self', output', w') \<Longrightarrow>
    spool_step D C s (s\<lparr>ss_world := w', ss_writing := (ss_writing s)[i := (self', output')]\<rparr>)"
| taken: "i < length (ss_writing s) \<Longrightarrow> ss_writing s ! i = (self, output) \<Longrightarrow>
    spool_take D C (self, output, ss_world s) = (spool, self', output', w') \<Longrightarrow>
    spool_step D C s (s\<lparr>ss_world := w', ss_writing := (ss_writing s)[i := (self', output')],
      ss_bodies := (case spool of Some sp \<Rightarrow> [sp] | None \<Rightarrow> []) @ ss_bodies s\<rparr>)"
| cleared: "i < length (ss_writing s) \<Longrightarrow> ss_writing s ! i = (self, output) \<Longrightarrow>
    spool_step D C s (s\<lparr>ss_world := spool_release (held self) (ss_world s), ss_writing := (ss_writing s)[i := (InMemory, [])]\<rparr>)"
| sent: "ss_bodies s = xs @ sp # ys \<Longrightarrow>
    spool_step D C s (s\<lparr>ss_world := spool_release (sp_bytes sp) (ss_world s), ss_bodies := xs @ ys\<rparr>)"

definition live_bytes :: "'d spool_sys \<Rightarrow> nat" where
  "live_bytes s = sum_list (map (held \<circ> fst) (ss_writing s)) + sum_list (map sp_bytes (ss_bodies s))"

definition spool_start :: "'d \<Rightarrow> 'd spool_sys" where
  "spool_start d = \<lparr>ss_world = \<lparr>in_use = 0, seq_no = 0, disk = d\<rparr>, ss_writing = [], ss_bodies = []\<rparr>"

lemma spool_step_books:
  assumes "spool_step D C s s'" "in_use (ss_world s) = live_bytes s" "live_bytes s \<le> sc_max C"
  shows "in_use (ss_world s') = live_bytes s' \<and> live_bytes s' \<le> sc_max C"
  using assms
proof (cases rule: spool_step.cases)
  case started
  then show ?thesis using assms by (simp add: live_bytes_def held_def)
next
  case (wrote i self "output" spoolable data self' output' w')
  have "held self \<le> in_use (ss_world s)"
    using sum_list_entry[OF wrote(2), of "held \<circ> fst"] wrote(3) assms(2) by (simp add: live_bytes_def)
  then have "in_use w' + held self = in_use (ss_world s) + held self' \<and> in_use w' \<le> sc_max C"
    using append_books[OF wrote(4)] assms by simp
  then show ?thesis
    using wrote(1,3) sum_list_update_nat[OF wrote(2), of "held \<circ> fst" "(self', output')"] assms(2) by (simp add: live_bytes_def)
next
  case (taken i self "output" spool self' output' w')
  have "held self \<le> in_use (ss_world s)"
    using sum_list_entry[OF taken(2), of "held \<circ> fst"] taken(3) assms(2) by (simp add: live_bytes_def)
  then have "in_use w' + held self = in_use (ss_world s) + (case spool of Some sp \<Rightarrow> sp_bytes sp | None \<Rightarrow> 0) + held self' \<and>
      in_use w' \<le> sc_max C"
    using take_books[OF taken(4)] assms by simp
  then show ?thesis
    using taken(1,3) sum_list_update_nat[OF taken(2), of "held \<circ> fst" "(self', output')"] assms(2)
    by (cases spool) (simp_all add: live_bytes_def)
next
  case (cleared i self "output")
  then show ?thesis
    using sum_list_update_nat[OF cleared(2), of "held \<circ> fst" "(InMemory, [])"] assms(2,3)
      sum_list_entry[OF cleared(2), of "held \<circ> fst"]
    by (simp add: live_bytes_def spool_release_def held_def[of InMemory])
next
  case (sent xs sp ys)
  then show ?thesis using assms by (simp add: live_bytes_def spool_release_def)
qed

text \<open>
  C33.  The spool budget is never exceeded and never leaks: however the responses of the process write, are
  taken, are dropped and are sent, and whatever the file system answers, the bytes reserved are those of the
  spool files that exist, and at most the configured number.
\<close>

theorem spool_budget_conserved:
  assumes "(spool_step D C)\<^sup>*\<^sup>* (spool_start d) s"
  shows "in_use (ss_world s) = live_bytes s \<and> live_bytes s \<le> sc_max C"
  using assms
proof (induction rule: rtranclp_induct)
  case base
  then show ?case by (simp add: spool_start_def live_bytes_def)
next
  case (step y z)
  then show ?case using spool_step_books by blast
qed

definition demo_disk :: "nat disk_ops" where
  "demo_disk = \<lparr>open_new = (\<lambda>p d. (if d = 0 then AlreadyExists else Opened, d + 1)), remove_file = (\<lambda>p d. (True, d)),
     write_all = (\<lambda>b d. (True, d))\<rparr>"

definition demo_config :: SpoolConfig where
  "demo_config = \<lparr>buffer_bytes = 3, sc_dir = ''/tmp'', sc_max = 6, sc_pid = 1\<rparr>"

lemma demo_open:
  "create_unlinked demo_disk demo_config \<lparr>in_use = u, seq_no = n, disk = Suc d\<rparr> =
    (True, \<lparr>in_use = u, seq_no = (n + 1) mod 2 ^ 64, disk = Suc (Suc d)\<rparr>)"
proof -
  have "create_unlinked D C w = create_unlinked_loop (Suc 7) D C w" for D :: "nat disk_ops" and C w
    by (simp add: create_unlinked_def)
  then show ?thesis by (simp only: create_unlinked_loop.simps) (simp add: demo_disk_def Let_def)
qed

lemmas spool_eval =
  spool_append_def spill_or_refuse_def spill_def Spool_create_def Spool_write_def spool_reserve_def spool_take_def
  demo_open Let_def

lemma demo_cfg [simp]: "buffer_bytes demo_config = 3" "sc_max demo_config = 6" "write_all demo_disk b d = (True, d)"
  by (simp_all add: demo_config_def demo_disk_def)

definition demo_world :: "nat spool_world" where
  "demo_world = \<lparr>in_use = 0, seq_no = 0, disk = 1\<rparr>"


definition demo_sys :: "nat spool_sys" where
  "demo_sys = \<lparr>ss_world = \<lparr>in_use = 4, seq_no = 1, disk = 2\<rparr>, ss_writing = [(Spooling \<lparr>sp_file = ''abcd'', sp_bytes = 4\<rparr>, [])],
     ss_bodies = []\<rparr>"

theorem spool_budget_conserved_witness:
  "in_use (ss_world demo_sys) = live_bytes demo_sys \<and> live_bytes demo_sys \<le> sc_max demo_config"
proof -
  let ?s1 = "(spool_start 1)\<lparr>ss_writing := [(InMemory, [])]\<rparr> :: nat spool_sys"
  have "spool_append demo_disk demo_config True ''abcd'' (InMemory, [], ss_world ?s1) =
      (Spooling \<lparr>sp_file = ''abcd'', sp_bytes = 4\<rparr>, [], \<lparr>in_use = 4, seq_no = 1, disk = 2\<rparr>)"
    by (simp add: spool_eval spool_start_def)
  from wrote[OF _ _ this, of 0] have "spool_step demo_disk demo_config ?s1 demo_sys" by (simp add: spool_start_def demo_sys_def)
  moreover have "spool_step demo_disk demo_config (spool_start 1) ?s1"
    using started[of demo_disk demo_config "spool_start 1"] by (simp add: spool_start_def)
  ultimately have "(spool_step demo_disk demo_config)\<^sup>*\<^sup>* (spool_start 1) demo_sys" by (meson rtranclp.simps)
  then show ?thesis by (rule spool_budget_conserved)
qed

end
