(* ===== verification/Php_Response.thy ===== *)
theory Php_Response
  imports Response_Spool Packed_Pairs
begin

text \<open>
  The response side of a PHP thread (\<^verbatim>\<open>src/php/sapi.rs\<close>): what a script writes and the headers it
  sets, the early answer of \<^verbatim>\<open>oxphp_finish_request()\<close>, streaming over a bounded queue, the
  status a failed or cancelled request gets, and the end of a worker request.

  The thread-locals and the flags of the C bridge are one record.  The request's answer channel takes one
  answer; \<open>sa_sent\<close> lists what went into it.  A stream is the chunks its queue accepted, how many of
  them the client has taken, and whether the client is there.
\<close>

section \<open>Text from bytes\<close>

text \<open>\<^verbatim>\<open>String::from_utf8_lossy\<close>: every maximal ill-formed part becomes U+FFFD.\<close>

definition replacement :: string where
  "replacement = [CHR 0xEF, CHR 0xBF, CHR 0xBD]"

definition low2 :: "char \<Rightarrow> nat" where
  "low2 a = (if in_range a 0xE0 0xE0 then 0xA0 else if in_range a 0xF0 0xF0 then 0x90 else 0x80)"

definition high2 :: "char \<Rightarrow> nat" where
  "high2 a = (if in_range a 0xED 0xED then 0x9F else if in_range a 0xF4 0xF4 then 0x8F else 0xBF)"

fun utf8_lossy :: "string \<Rightarrow> string" where
  "utf8_lossy [] = []"
| "utf8_lossy (a # s) =
     (if in_range a 0 0x7F then a # utf8_lossy s
      else if in_range a 0xC2 0xDF then
        (case s of
           b # r \<Rightarrow> if cont b then a # b # utf8_lossy r else replacement @ utf8_lossy s
         | [] \<Rightarrow> replacement)
      else if in_range a 0xE0 0xEF then
        (case s of
           [] \<Rightarrow> replacement
         | b # r \<Rightarrow>
             if \<not> in_range b (low2 a) (high2 a) then replacement @ utf8_lossy s
             else (case r of
                     [] \<Rightarrow> replacement
                   | c # r' \<Rightarrow> if cont c then a # b # c # utf8_lossy r' else replacement @ utf8_lossy r))
      else if in_range a 0xF0 0xF4 then
        (case s of
           [] \<Rightarrow> replacement
         | b # r \<Rightarrow>
             if \<not> in_range b (low2 a) (high2 a) then replacement @ utf8_lossy s
             else (case r of
                     [] \<Rightarrow> replacement
                   | c # r' \<Rightarrow>
                       if \<not> cont c then replacement @ utf8_lossy r
                       else (case r' of
                               [] \<Rightarrow> replacement
                             | d # r'' \<Rightarrow> if cont d then a # b # c # d # utf8_lossy r'' else replacement @ utf8_lossy r')))
      else replacement @ utf8_lossy s)"

section \<open>The state of a thread\<close>

record php_error =
  pe_level :: string
  pe_type :: string
  pe_message :: string
  pe_file :: string
  pe_line :: nat
  pe_class :: "string option"

record stream =
  st_chunks :: "string list"
  st_read :: nat
  st_gone :: bool
  st_late :: "string list"

record 'h answer =
  an_status :: nat
  an_headers :: 'h
  an_body :: string
  an_spool :: "Spool option"
  an_stream :: bool
  an_errors :: "php_error list"
  an_cancel :: nat

record ('d, 'h) sapi =
  sa_output :: string
  sa_headers :: PackedPairs
  sa_status :: nat
  sa_spooled :: Spooled
  sa_world :: "'d spool_world"
  sa_early :: bool
  sa_early_gone :: bool
  sa_stream_tx :: bool
  sa_chan :: stream
  sa_errors :: "php_error list"
  sa_finished :: bool
  sa_streaming :: bool
  sa_headers_sent :: bool
  sa_cell :: "nat option"
  sa_interrupt :: bool
  sa_draining :: bool
  sa_sg_code :: int
  sa_async :: bool
  sa_thrown :: "string option"
  sa_captured :: "string option"
  sa_sent :: "'h answer list"
  sa_abandoned :: nat

text \<open>What the thread is given: the file system, the spool's configuration, and the \<^verbatim>\<open>http\<close> crate's header
  maps and names, with the names a map still takes.\<close>

record ('d, 'h) sapi_env =
  se_disk :: "'d disk_ops"
  se_config :: SpoolConfig
  se_headers :: "'h headers"
  se_name :: "string \<Rightarrow> string option"
  se_takes :: "'h \<Rightarrow> string \<Rightarrow> bool"

section \<open>The cancellation cell\<close>

definition get_cancel_reason :: "('d, 'h) sapi \<Rightarrow> nat" where
  "get_cancel_reason s = (case sa_cell s of None \<Rightarrow> 0 | Some r \<Rightarrow> r)"

definition set_cancel_reason :: "nat \<Rightarrow> ('d, 'h) sapi \<Rightarrow> ('d, 'h) sapi" where
  "set_cancel_reason reason s =
     (if sa_cell s = Some 0 \<and> reason \<noteq> 0 then s\<lparr>sa_cell := Some reason\<rparr> else s)"

definition request_interrupt :: "('d, 'h) sapi \<Rightarrow> ('d, 'h) sapi" where
  "request_interrupt s = s\<lparr>sa_interrupt := True\<rparr>"

definition check_client_disconnected :: "('d, 'h) sapi \<Rightarrow> ('d, 'h) sapi" where
  "check_client_disconnected s =
     (if get_cancel_reason s \<noteq> 0 then s
      else if sa_early s \<and> sa_early_gone s \<or> sa_stream_tx s \<and> st_gone (sa_chan s)
      then request_interrupt (set_cancel_reason 1 s)
      else s)"

section \<open>Output and headers\<close>

definition ub_write :: "('d, 'h) sapi_env \<Rightarrow> string \<Rightarrow> ('d, 'h) sapi \<Rightarrow> nat \<times> ('d, 'h) sapi" where
  "ub_write E str s =
     (if str = [] then (0, s)
      else if sa_finished s \<and> \<not> sa_early s then (length str, s)
      else
        (case spool_append (se_disk E) (se_config E) (\<not> sa_streaming s \<and> \<not> sa_async s) str (sa_spooled s, sa_output s, sa_world s) of
           (sp, out, w) \<Rightarrow> (length str, s\<lparr>sa_spooled := sp, sa_output := out, sa_world := w\<rparr>)))"

datatype header_op = DeleteAll | SetStatus nat | Delete string | Replace string | Add string | DeletePrefix string

text \<open>Answers whether PHP is to add the header to its own list.\<close>

definition store_header :: "bool \<Rightarrow> string \<Rightarrow> ('d, 'h) sapi \<Rightarrow> bool \<times> ('d, 'h) sapi" where
  "store_header replacing line s =
     (case split_once (CHR '':'') (utf8_lossy line) of
        None \<Rightarrow> (False, s)
      | Some (n, v) \<Rightarrow>
          (let name = str_trim n;
               val = str_trim v;
               s1 = (if eq_ignore_case name ''content-type'' \<and> contains val ''text/event-stream''
                     then s\<lparr>sa_streaming := True\<rparr> else s);
               hs = (if replacing then pk_retain (\<lambda>n _. \<not> eq_ignore_case n name) (sa_headers s1) else sa_headers s1)
           in (True, s1\<lparr>sa_headers := push_with name val hs\<rparr>)))"

definition header_handler :: "header_op \<Rightarrow> ('d, 'h) sapi \<Rightarrow> bool \<times> ('d, 'h) sapi" where
  "header_handler op s =
     (case op of
        DeleteAll \<Rightarrow> (False, s\<lparr>sa_headers := pk_clear (sa_headers s)\<rparr>)
      | SetStatus n \<Rightarrow>
          (let code = n mod 65536 in
           (False, if 100 \<le> code \<and> code < 600 then s\<lparr>sa_status := code\<rparr> else s))
      | Delete line \<Rightarrow>
          if line = [] then (False, s)
          else (let name = str_trim (utf8_lossy line) in
                (False, s\<lparr>sa_headers := pk_retain (\<lambda>n _. \<not> eq_ignore_case n name) (sa_headers s)\<rparr>))
      | Replace line \<Rightarrow> if line = [] then (False, s) else store_header True line s
      | Add line \<Rightarrow> if line = [] then (False, s) else store_header False line s
      | DeletePrefix line \<Rightarrow>
          if line = [] then (False, s)
          else (False, s\<lparr>sa_headers := delete_headers_with_prefix line (sa_headers s)\<rparr>))"

definition parse_raw_headers :: "('d, 'h) sapi_env \<Rightarrow> PackedPairs \<Rightarrow> 'h" where
  "parse_raw_headers E raw =
     (let H = se_headers E in
      foldl (\<lambda>h (name, val).
               case (if eq_ignore_case name ''x-powered-by'' then Some ''x-powered-by'' else se_name E name) of
                 None \<Rightarrow> h
               | Some n \<Rightarrow>
                   (case from_bytes H val of
                      Some v \<Rightarrow> if se_takes E h n then happend H h n v else h
                    | None \<Rightarrow> h))
            (hempty H) (iter_shared_values raw))"

definition activate :: "('d, 'h) sapi \<Rightarrow> ('d, 'h) sapi" where
  "activate s = s\<lparr>sa_headers := pk_clear (sa_headers s), sa_status := 200\<rparr>"

section \<open>The status\<close>

definition resolve_collected_status :: "int \<Rightarrow> nat \<Rightarrow> nat option" where
  "resolve_collected_status sg_code cancel_reason =
     (if cancel_reason \<noteq> 0 then None
      else if sg_code > 0 \<and> sg_code \<noteq> 200 then Some (nat (sg_code mod 65536)) else None)"

definition collect_response_code :: "('d, 'h) sapi \<Rightarrow> ('d, 'h) sapi" where
  "collect_response_code s =
     (case resolve_collected_status (sa_sg_code s) (get_cancel_reason s) of
        Some status \<Rightarrow> s\<lparr>sa_status := status\<rparr>
      | None \<Rightarrow> s)"

definition set_fatal_error_status_if_default :: "('d, 'h) sapi \<Rightarrow> ('d, 'h) sapi" where
  "set_fatal_error_status_if_default s =
     (if sa_status s \<noteq> 200 then s
      else
        s\<lparr>sa_status := (let r = get_cancel_reason s in
                         if r = 1 then 499 else if r = 2 then 504 else if r = 3 then 503 else 500)\<rparr>)"

definition take_response :: "('d, 'h) sapi_env \<Rightarrow> ('d, 'h) sapi \<Rightarrow> (string \<times> 'h \<times> nat \<times> Spool option) \<times> ('d, 'h) sapi" where
  "take_response E s =
     (case spool_take (se_disk E) (se_config E) (sa_spooled s, sa_output s, sa_world s) of
        (spool, sp, out, w) \<Rightarrow>
          (case take_output out of
             (taken, out') \<Rightarrow>
               (let hs = parse_raw_headers E (sa_headers s);
                    s1 = s\<lparr>sa_spooled := sp, sa_output := out', sa_world := w, sa_headers := pk_clear (sa_headers s), sa_status := 200\<rparr>
                in if sp = Refused
                   then (case refusal of
                           (body, rhs, status) \<Rightarrow>
                             ((body, foldl (\<lambda>h (k, v). happend (se_headers E) h k v) (hempty (se_headers E)) rhs, status, None), s1))
                   else ((taken, hs, sa_status s, spool), s1))))"

definition clear_response_output :: "('d, 'h) sapi \<Rightarrow> nat \<times> ('d, 'h) sapi" where
  "clear_response_output s = (length (sa_output s), s\<lparr>sa_output := []\<rparr>)"

text \<open>Dropping the spool file gives its bytes back to the budget.\<close>

definition clear_buffers :: "('d, 'h) sapi \<Rightarrow> ('d, 'h) sapi" where
  "clear_buffers s =
     s\<lparr>sa_output := [], sa_headers := pk_clear (sa_headers s), sa_status := 200,
       sa_world := spool_release (held (sa_spooled s)) (sa_world s), sa_spooled := InMemory,
       sa_early := False, sa_stream_tx := False, sa_errors := []\<rparr>"

section \<open>Errors\<close>

definition error_type_str :: "int \<Rightarrow> string \<times> string" where
  "error_type_str t =
     (let e = take_bit 15 t in
      if e = 1 then (''error'', ''E_ERROR'')
      else if e = 2 then (''warn'', ''E_WARNING'')
      else if e = 4 then (''error'', ''E_PARSE'')
      else if e = 8 then (''info'', ''E_NOTICE'')
      else if e = 16 then (''error'', ''E_CORE_ERROR'')
      else if e = 32 then (''warn'', ''E_CORE_WARNING'')
      else if e = 64 then (''error'', ''E_COMPILE_ERROR'')
      else if e = 128 then (''warn'', ''E_COMPILE_WARNING'')
      else if e = 256 then (''error'', ''E_USER_ERROR'')
      else if e = 512 then (''warn'', ''E_USER_WARNING'')
      else if e = 1024 then (''info'', ''E_USER_NOTICE'')
      else if e = 2048 then (''info'', ''E_STRICT'')
      else if e = 4096 then (''error'', ''E_RECOVERABLE_ERROR'')
      else if e = 8192 then (''info'', ''E_DEPRECATED'')
      else if e = 16384 then (''info'', ''E_USER_DEPRECATED'')
      else (''warn'', ''E_UNKNOWN''))"

definition error_cb :: "int \<Rightarrow> string option \<Rightarrow> nat \<Rightarrow> string option \<Rightarrow> ('d, 'h) sapi \<Rightarrow> ('d, 'h) sapi" where
  "error_cb etype error_filename error_lineno message s =
     (let file = (case error_filename of None \<Rightarrow> ''unknown'' | Some f \<Rightarrow> utf8_lossy f);
          msg = (case message of None \<Rightarrow> ''(no message)'' | Some m \<Rightarrow> utf8_lossy m);
          (level, type_name) = error_type_str etype;
          s1 = (if level = ''error'' then
                  (let a = (if starts_with msg ''Maximum execution time of'' then set_cancel_reason 2 s else s);
                       b = set_fatal_error_status_if_default a
                   in if sa_async b \<and> message \<noteq> None then b\<lparr>sa_captured := message\<rparr> else b)
                else s);
          uncaught = (type_name = ''E_ERROR'' \<and> starts_with msg ''Uncaught '');
          cls = (if uncaught then (case sa_thrown s1 of Some c \<Rightarrow> if c \<noteq> [] then Some (utf8_lossy c) else None | None \<Rightarrow> None) else None);
          s2 = (if uncaught then s1\<lparr>sa_thrown := None\<rparr> else s1)
      in s2\<lparr>sa_errors := sa_errors s2 @
             [\<lparr>pe_level = level, pe_type = type_name, pe_message = msg, pe_file = file, pe_line = error_lineno, pe_class = cls\<rparr>]\<rparr>)"

definition log_message :: "int \<Rightarrow> ('d, 'h) sapi \<Rightarrow> ('d, 'h) sapi" where
  "log_message syslog_type s = (if syslog_type = 1 then set_fatal_error_status_if_default s else s)"

section \<open>Streaming\<close>

definition STREAM_QUEUE :: nat where
  "STREAM_QUEUE = 64"

datatype no_room = Closed | Stopped | FullQueue

definition has_room :: "stream \<Rightarrow> bool" where
  "has_room c = (length (st_chunks c) - st_read c < STREAM_QUEUE)"

definition cancel_stream_for_drain :: "('d, 'h) sapi \<Rightarrow> bool \<times> ('d, 'h) sapi" where
  "cancel_stream_for_drain s =
     (if sa_draining s \<and> get_cancel_reason s = 0 \<and> \<not> sa_finished s
      then (True, request_interrupt (set_cancel_reason 3 s))
      else (False, s))"

definition mark_stream_client_gone :: "('d, 'h) sapi \<Rightarrow> ('d, 'h) sapi" where
  "mark_stream_client_gone s = (if get_cancel_reason s = 0 then request_interrupt (set_cancel_reason 1 s) else s)"

text \<open>What happens around a thread that waits: the client takes chunks or leaves, the request is to end, the
  server begins to drain.\<close>

record happening =
  ev_reads :: nat
  ev_leaves :: bool
  ev_end_pending :: bool
  ev_drains :: bool

definition happens :: "happening \<Rightarrow> ('d, 'h) sapi \<Rightarrow> ('d, 'h) sapi" where
  "happens ev s =
     (let c = sa_chan s in
      s\<lparr>sa_chan := c\<lparr>st_read := min (length (st_chunks c)) (st_read c + ev_reads ev), st_gone := st_gone c \<or> ev_leaves ev\<rparr>,
        sa_draining := sa_draining s \<or> ev_drains ev\<rparr>)"

definition stream_wait_should_stop :: "bool \<Rightarrow> ('d, 'h) sapi \<Rightarrow> bool \<times> ('d, 'h) sapi" where
  "stream_wait_should_stop end_pending s = (if end_pending then (True, s) else cancel_stream_for_drain s)"

text \<open>\<^verbatim>\<open>wait_for_room\<close>: a poll, the question whether to stop, and a park that something ends.  The result is
  \<^const>\<open>None\<close> while it still waits.\<close>

fun wait_here :: "happening list \<Rightarrow> ('d, 'h) sapi \<Rightarrow> (no_room option \<times> ('d, 'h) sapi) option" where
  "wait_here evs s =
     (if st_gone (sa_chan s) then Some (Some Closed, s)
      else if has_room (sa_chan s) then Some (None, s)
      else
        (case evs of
           [] \<Rightarrow> None
         | ev # evs' \<Rightarrow>
             (case stream_wait_should_stop (ev_end_pending ev) s of
                (True, s') \<Rightarrow> Some (Some Stopped, s')
              | (False, s') \<Rightarrow> wait_here evs' (happens ev s'))))"

declare wait_here.simps [simp del]

definition try_room :: "('d, 'h) sapi \<Rightarrow> no_room option" where
  "try_room s =
     (if st_gone (sa_chan s) then Some Closed else if has_room (sa_chan s) then None else Some FullQueue)"

text \<open>True when the output is kept for want of room.\<close>

definition flush_stream_chunk :: "bool \<Rightarrow> happening list \<Rightarrow> ('d, 'h) sapi \<Rightarrow> (bool \<times> ('d, 'h) sapi) option" where
  "flush_stream_chunk waiting evs s =
     (if \<not> sa_stream_tx s then Some (False, s)
      else if sa_output s = [] then Some (False, snd (cancel_stream_for_drain s))
      else
        (case (if waiting then wait_here evs s else Some (try_room s, s)) of
           None \<Rightarrow> None
         | Some (Some Closed, s1) \<Rightarrow> Some (False, mark_stream_client_gone (s1\<lparr>sa_output := []\<rparr>))
         | Some (Some FullQueue, s1) \<Rightarrow> Some (True, s1)
         | Some (Some Stopped, s1) \<Rightarrow> Some (True, s1)
         | Some (None, s1) \<Rightarrow>
             (case take_output (sa_output s1) of
                (chunk, rest) \<Rightarrow>
                  (let c = sa_chan s1 in
                   Some (False, snd (cancel_stream_for_drain (s1\<lparr>sa_output := rest, sa_chan := c\<lparr>st_chunks := st_chunks c @ [chunk]\<rparr>\<rparr>)))))))"

definition close_stream :: "('d, 'h) sapi \<Rightarrow> ('d, 'h) sapi" where
  "close_stream s = s\<lparr>sa_stream_tx := False\<rparr>"

text \<open>A last chunk that finds no room is handed to a task, which sends it when there is some.\<close>

definition finish_stream :: "('d, 'h) sapi \<Rightarrow> ('d, 'h) sapi" where
  "finish_stream s =
     (case flush_stream_chunk False [] s of
        Some (True, s1) \<Rightarrow>
          (case take_output (sa_output s1) of
             (chunk, rest) \<Rightarrow>
               (let c = sa_chan s1;
                    s2 = s1\<lparr>sa_output := rest\<rparr>
                in close_stream (if sa_stream_tx s1 then s2\<lparr>sa_chan := c\<lparr>st_late := st_late c @ [chunk]\<rparr>\<rparr> else s2)))
      | Some (False, s1) \<Rightarrow> close_stream s1
      | None \<Rightarrow> s)"

definition take_request_errors :: "('d, 'h) sapi \<Rightarrow> php_error list \<times> ('d, 'h) sapi" where
  "take_request_errors s = (sa_errors s, s\<lparr>sa_errors := []\<rparr>)"

definition try_early_send :: "('d, 'h) sapi_env \<Rightarrow> ('d, 'h) sapi \<Rightarrow> bool \<times> ('d, 'h) sapi" where
  "try_early_send E s =
     (if \<not> sa_finished s then (False, s)
      else if sa_streaming s then (True, finish_stream s)
      else if sa_early s then
        (case take_response E (s\<lparr>sa_early := False\<rparr>) of
           ((body, headers, status, spool), s1) \<Rightarrow>
             (case take_request_errors s1 of
                (errors, s2) \<Rightarrow>
                  (True, s2\<lparr>sa_sent := sa_sent s2 @
                     [\<lparr>an_status = status, an_headers = headers, an_body = body, an_spool = spool, an_stream = False,
                       an_errors = errors, an_cancel = get_cancel_reason s2\<rparr>]\<rparr>)))
      else (False, s))"

definition send_streaming_headers :: "('d, 'h) sapi_env \<Rightarrow> ('d, 'h) sapi \<Rightarrow> bool \<times> ('d, 'h) sapi" where
  "send_streaming_headers E s =
     (if sa_early s then
        (let s1 = s\<lparr>sa_early := False, sa_stream_tx := True,
                    sa_chan := \<lparr>st_chunks = [], st_read = 0, st_gone = sa_early_gone s, st_late = []\<rparr>\<rparr>;
             s2 = collect_response_code s1
         in case take_response E s2 of
              ((body, headers, status, spool), s3) \<Rightarrow>
                (True, s3\<lparr>sa_sent := sa_sent s3 @
                   [\<lparr>an_status = status, an_headers = headers, an_body = body, an_spool = spool, an_stream = True,
                     an_errors = [], an_cancel = 0\<rparr>]\<rparr>))
      else (False, s))"

definition sapi_flush :: "('d, 'h) sapi_env \<Rightarrow> bool \<Rightarrow> happening list \<Rightarrow> ('d, 'h) sapi \<Rightarrow> (bool \<times> ('d, 'h) sapi) option" where
  "sapi_flush E waiting evs s =
     (let s1 = check_client_disconnected s in
      if sa_streaming s1 then
        flush_stream_chunk waiting evs
          (if \<not> sa_headers_sent s1 then (snd (send_streaming_headers E s1))\<lparr>sa_headers_sent := True\<rparr> else s1)
      else Some (False, snd (try_early_send E s1)))"

section \<open>The life of a worker request\<close>

text \<open>\<^verbatim>\<open>oxphp_bridge_reset_request_ctx\<close>.\<close>

definition reset_request_ctx :: "('d, 'h) sapi \<Rightarrow> ('d, 'h) sapi" where
  "reset_request_ctx s =
     s\<lparr>sa_cell := None, sa_streaming := False, sa_headers_sent := False, sa_finished := False, sa_thrown := None\<rparr>"

definition closed_answer :: "('d, 'h) sapi_env \<Rightarrow> 'h answer" where
  "closed_answer E =
     \<lparr>an_status = 499, an_headers = hempty (se_headers E), an_body = [], an_spool = None, an_stream = False,
      an_errors = [], an_cancel = 1\<rparr>"

definition setup_request_tls :: "('d, 'h) sapi_env \<Rightarrow> nat \<Rightarrow> ('d, 'h) sapi \<Rightarrow> ('d, 'h) sapi" where
  "setup_request_tls E reason s =
     (let s1 = (reset_request_ctx (clear_buffers s))\<lparr>sa_cell := Some reason, sa_sg_code := 200, sa_sent := []\<rparr> in
      if reason \<noteq> 0 then s1\<lparr>sa_sent := [closed_answer E]\<rparr> else s1\<lparr>sa_early := True, sa_early_gone := False\<rparr>)"

definition worker_request_teardown :: "('d, 'h) sapi \<Rightarrow> ('d, 'h) sapi" where
  "worker_request_teardown s = (clear_buffers s)\<lparr>sa_cell := None\<rparr>"

text \<open>The status the script left, then the exception its handler ended with.\<close>

definition worker_status :: "php_error option \<Rightarrow> ('d, 'h) sapi \<Rightarrow> ('d, 'h) sapi" where
  "worker_status exc s =
     (let s1 = collect_response_code s in
      case exc of
        Some e \<Rightarrow> set_fatal_error_status_if_default (s1\<lparr>sa_errors := e # sa_errors s1\<rparr>)
      | None \<Rightarrow> s1)"

definition worker_answer :: "('d, 'h) sapi_env \<Rightarrow> ('d, 'h) sapi \<Rightarrow> ('d, 'h) sapi" where
  "worker_answer E s =
     (case take_response E s of
        ((body, headers, status, spool), s1) \<Rightarrow>
          (let reason = get_cancel_reason s1;
               s2 = (if reason = 1 then s1\<lparr>sa_abandoned := sa_abandoned s1 + 1\<rparr> else s1)
           in case take_request_errors s2 of
                (errors, s3) \<Rightarrow>
                  s3\<lparr>sa_early := False, sa_sent := sa_sent s3 @
                     [\<lparr>an_status = status, an_headers = headers, an_body = body, an_spool = spool, an_stream = False,
                       an_errors = errors, an_cancel = reason\<rparr>]\<rparr>))"

definition worker_send :: "('d, 'h) sapi_env \<Rightarrow> php_error option \<Rightarrow> ('d, 'h) sapi \<Rightarrow> ('d, 'h) sapi" where
  "worker_send E exc s =
     (let s1 = worker_status exc s;
          s2 = (if sa_streaming s1 then finish_stream s1 else s1)
      in worker_request_teardown (if \<not> sa_early s2 then s2 else worker_answer E s2))"

section \<open>What a request does\<close>

text \<open>
  The script and the world around it act in any order.  The second component is what the script has written
  that is not discarded: everything up to the early answer.
\<close>

inductive sapi_step ::
    "('d, 'h) sapi_env \<Rightarrow> ('d, 'h) sapi \<times> string \<Rightarrow> ('d, 'h) sapi \<times> string \<Rightarrow> bool"
  for E where
  writes: "ub_write E str s = (n, s') \<Longrightarrow>
    sapi_step E (s, w) (s', if sa_finished s \<and> \<not> sa_early s then w else w @ str)"
| header: "header_handler op s = (added, s') \<Longrightarrow> sapi_step E (s, w) (s', w)"
| flushes: "sapi_flush E waiting evs s = Some (kept, s') \<Longrightarrow> sapi_step E (s, w) (s', w)"
| finish: "sapi_step E (s, w) (s\<lparr>sa_finished := True\<rparr>, w)"
| stream_mode: "sapi_step E (s, w) (s\<lparr>sa_streaming := True\<rparr>, w)"
| response_code: "sapi_step E (s, w) (s\<lparr>sa_sg_code := code\<rparr>, w)"
| error: "sapi_step E (s, w) (error_cb t file line msg s, w)"
| logs: "sapi_step E (s, w) (log_message t s, w)"
| thrown: "sapi_step E (s, w) (s\<lparr>sa_thrown := c\<rparr>, w)"
| cancels: "sapi_step E (s, w) (set_cancel_reason r s, w)"
| early_leaves: "sapi_step E (s, w) (s\<lparr>sa_early_gone := True\<rparr>, w)"
| around: "sapi_step E (s, w) (happens ev s, w)"

definition answer_content :: "'h answer \<Rightarrow> string" where
  "answer_content a = (case an_spool a of Some sp \<Rightarrow> sp_file sp | None \<Rightarrow> []) @ an_body a"

definition refused_answer :: "'h answer \<Rightarrow> bool" where
  "refused_answer a = (an_status a = 503 \<and> an_body a = fst refusal \<and> an_spool a = None)"

definition sapi_inv :: "('d, 'h) sapi \<Rightarrow> string \<Rightarrow> bool" where
  "sapi_inv s w =
     (spool_ok (sa_spooled s) \<and>
      (if sa_early s
       then sa_sent s = [] \<and> \<not> sa_stream_tx s \<and> (sa_spooled s = Refused \<or> contents (sa_spooled s) (sa_output s) = w)
       else
         (\<exists>a. sa_sent s = [a] \<and>
            (refused_answer a \<or>
             (if an_stream a
              then sa_streaming s \<and> sa_stream_tx s \<and> st_late (sa_chan s) = [] \<and> sa_spooled s = InMemory \<and>
                   (st_gone (sa_chan s) \<or> answer_content a @ concat (st_chunks (sa_chan s)) @ sa_output s = w)
              else sa_finished s \<and> answer_content a = w)))))"

text \<open>The fields the invariant reads; most operations leave them alone.\<close>

definition view where
  "view s = (sa_early s, sa_stream_tx s, sa_chan s, sa_finished s, sa_streaming s, sa_sent s, sa_spooled s, sa_output s)"

lemma view_inv: "view s' = view s \<Longrightarrow> sapi_inv s' w = sapi_inv s w"
  by (simp add: view_def sapi_inv_def)

lemma view_ops [simp]:
  "view (set_cancel_reason r s) = view s" "view (request_interrupt s) = view s"
  "view (check_client_disconnected s) = view s" "view (collect_response_code s) = view s"
  "view (set_fatal_error_status_if_default s) = view s" "view (snd (cancel_stream_for_drain s)) = view s"
  "view (mark_stream_client_gone s) = view s" "view (log_message t s) = view s"
  by (simp_all add: view_def set_cancel_reason_def request_interrupt_def check_client_disconnected_def collect_response_code_def
        set_fatal_error_status_if_default_def cancel_stream_for_drain_def mark_stream_client_gone_def log_message_def
        split: option.splits)

lemma view_upd [simp]:
  "view (s\<lparr>sa_errors := es\<rparr>) = view s" "view (s\<lparr>sa_thrown := c\<rparr>) = view s" "view (s\<lparr>sa_captured := m\<rparr>) = view s"
  "view (s\<lparr>sa_sg_code := k\<rparr>) = view s" "view (s\<lparr>sa_early_gone := g\<rparr>) = view s" "view (s\<lparr>sa_headers := hs\<rparr>) = view s"
  "view (s\<lparr>sa_status := n\<rparr>) = view s" "view (s\<lparr>sa_headers_sent := b\<rparr>) = view s" "view (s\<lparr>sa_cell := r\<rparr>) = view s"
  by (simp_all add: view_def)

lemma view_error [simp]: "view (error_cb t file line msg s) = view s"
  by (simp add: error_cb_def Let_def case_prod_unfold)

lemma take_output_all [simp]: "take_output out = (out, [])"
  by (simp add: take_output_def)

lemma take_response_spec:
  assumes "take_response E s = ((body, headers, status, spool), s1)" "spool_ok (sa_spooled s)"
  shows "sa_output s1 = [] \<and>
    (sa_early s1, sa_stream_tx s1, sa_chan s1, sa_finished s1, sa_streaming s1, sa_sent s1, sa_cell s1, sa_errors s1) =
      (sa_early s, sa_stream_tx s, sa_chan s, sa_finished s, sa_streaming s, sa_sent s, sa_cell s, sa_errors s) \<and>
    (sa_spooled s1 = Refused \<and> status = 503 \<and> body = fst refusal \<and> spool = None \<or>
     sa_spooled s1 = InMemory \<and> status = sa_status s \<and>
     (case spool of Some sp \<Rightarrow> sp_file sp | None \<Rightarrow> []) @ body = contents (sa_spooled s) (sa_output s))"
proof -
  obtain sp0 sp out w where t: "spool_take (se_disk E) (se_config E) (sa_spooled s, sa_output s, sa_world s) = (sp0, sp, out, w)"
    by (metis prod_cases4)
  have "sp = Refused \<or> sp = InMemory" using t by (auto elim: take_cases split: if_splits)
  then show ?thesis
    using assms(1) take_contents[OF t assms(2)] unfolding take_response_def t
    by (elim disjE exE conjE) (auto simp: refusal_def Let_def)
qed

section \<open>The invariant is kept\<close>

lemma inv_write:
  assumes "ub_write E str s = (n, s')" "sapi_inv s w"
  shows "sapi_inv s' (if sa_finished s \<and> \<not> sa_early s then w else w @ str)"
proof (cases "str = [] \<or> sa_finished s \<and> \<not> sa_early s")
  case True
  then have "s' = s" using assms(1) by (auto simp: ub_write_def split: if_splits)
  then show ?thesis using True assms(2) by auto
next
  case False
  obtain sp out wd where a: "spool_append (se_disk E) (se_config E) (\<not> sa_streaming s \<and> \<not> sa_async s) str
      (sa_spooled s, sa_output s, sa_world s) = (sp, out, wd)" by (metis prod_cases3)
  have s': "s' = s\<lparr>sa_spooled := sp, sa_output := out, sa_world := wd\<rparr>"
    using assms(1) False a by (auto simp: ub_write_def)
  have ok: "spool_ok sp" "sp = Refused \<or> sa_spooled s \<noteq> Refused \<and> contents sp out = contents (sa_spooled s) (sa_output s) @ str"
    using append_contents[OF a] assms(2) by (auto simp: sapi_inv_def)
  show ?thesis
  proof (cases "sa_early s")
    case True
    then show ?thesis using ok assms(2) by (auto simp: s' sapi_inv_def)
  next
    case early: False
    then obtain ans where ans: "sa_sent s = [ans]" using assms(2) by (auto simp: sapi_inv_def)
    show ?thesis
    proof (cases "refused_answer ans")
      case True
      then show ?thesis using early ans ok(1) by (simp add: s' sapi_inv_def)
    next
      case nr: False
      then have st: "an_stream ans" using assms(2) False early ans by (auto simp: sapi_inv_def split: if_splits)
      then have mem: "sa_streaming s" "sa_spooled s = InMemory"
        using assms(2) False early ans nr by (auto simp: sapi_inv_def)
      then have "sp = InMemory \<and> out = sa_output s @ str" using a by (simp add: spool_append_def)
      then show ?thesis using assms(2) False early ans nr st mem by (simp add: s' sapi_inv_def)
    qed
  qed
qed

lemma header_handler_view:
  assumes "header_handler op s = (b, s')"
  shows "view s' = view s \<or> view s' = view (s\<lparr>sa_streaming := True\<rparr>)"
proof -
  have sh: "view (snd (store_header r line s)) = view s \<or> view (snd (store_header r line s)) = view (s\<lparr>sa_streaming := True\<rparr>)" for r line
    by (simp add: store_header_def Let_def case_prod_unfold split: option.splits)
  have "s' = snd (header_handler op s)" using assms by simp
  then show ?thesis using sh by (cases op) (auto simp: header_handler_def Let_def)
qed

lemma inv_streaming: "sapi_inv s w \<Longrightarrow> sapi_inv (s\<lparr>sa_streaming := True\<rparr>) w"
  by (auto simp: sapi_inv_def split: if_splits)

lemma inv_finished: "sapi_inv s w \<Longrightarrow> sapi_inv (s\<lparr>sa_finished := True\<rparr>) w"
  by (auto simp: sapi_inv_def split: if_splits)

lemma inv_happens: "sapi_inv s w \<Longrightarrow> sapi_inv (happens ev s) w"
  by (auto simp: sapi_inv_def happens_def Let_def split: if_splits)

lemma stop_view: "stream_wait_should_stop e s = (b, s1) \<Longrightarrow> view s1 = view s"
  by (auto simp: stream_wait_should_stop_def cancel_stream_for_drain_def split: if_splits)

lemma wait_step:
  "wait_here evs s = Some (r, s') \<Longrightarrow>
   s' = s \<and> (r = Some Closed \<and> st_gone (sa_chan s) \<or> r = None \<and> \<not> st_gone (sa_chan s)) \<or>
   r = Some Stopped \<and> view s' = view s \<or>
   (\<exists>ev evs' s1. evs = ev # evs' \<and> view s1 = view s \<and> wait_here evs' (happens ev s1) = Some (r, s'))"
  by (subst (asm) wait_here.simps)
     (auto split: if_splits list.splits prod.splits bool.splits dest: stop_view)

lemma inv_wait:
  "wait_here evs s = Some (r, s') \<Longrightarrow> sapi_inv s w \<Longrightarrow>
   sapi_inv s' w \<and> sa_stream_tx s' = sa_stream_tx s \<and> sa_early s' = sa_early s \<and> (r = Some Closed \<longrightarrow> st_gone (sa_chan s'))"
proof (induction evs arbitrary: s)
  case Nil
  then show ?case using wait_step[OF Nil(1)] view_inv[of s' s w] by (auto simp: view_def)
next
  case (Cons ev evs)
  from wait_step[OF Cons.prems(1)] show ?case
  proof (elim disjE exE conjE)
    fix ev' evs' s1
    assume e: "ev # evs = ev' # evs'" "view s1 = view s" "wait_here evs' (happens ev' s1) = Some (r, s')"
    have "sapi_inv (happens ev' s1) w" using inv_happens view_inv[OF e(2)] Cons.prems(2) by blast
    then show ?thesis using Cons.IH[of "happens ev' s1"] e by (simp add: happens_def Let_def view_def)
  qed (use Cons.prems(2) view_inv[of s' s w] in \<open>auto simp: view_def\<close>)
qed

lemma inv_flush_chunk:
  assumes "flush_stream_chunk waiting evs s = Some (kept, s')" "sapi_inv s w"
  shows "sapi_inv s' w"
proof (cases "\<not> sa_stream_tx s \<or> sa_output s = []")
  case True
  then have "view s' = view s" using assms(1) by (auto simp: flush_stream_chunk_def split: if_splits)
  then show ?thesis using assms(2) view_inv by blast
next
  case False
  then obtain r s1 where r: "(if waiting then wait_here evs s else Some (try_room s, s)) = Some (r, s1)"
    using assms(1) by (auto simp: flush_stream_chunk_def split: if_splits option.splits prod.splits)
  have s1: "sapi_inv s1 w" "sa_stream_tx s1" "r = Some Closed \<Longrightarrow> st_gone (sa_chan s1)" "sa_early s1 = sa_early s"
    using r inv_wait[of evs s r s1 w] assms(2) False by (auto simp: try_room_def split: if_splits)
  consider "r = Some Closed" "s' = mark_stream_client_gone (s1\<lparr>sa_output := []\<rparr>)" | "s' = s1"
    | "r = None" "view s' = view (s1\<lparr>sa_output := [], sa_chan := (sa_chan s1)\<lparr>st_chunks := st_chunks (sa_chan s1) @ [sa_output s1]\<rparr>\<rparr>)"
    using assms(1) False r by (cases r) (auto simp: flush_stream_chunk_def Let_def split: no_room.splits)
  then show ?thesis
  proof cases
    case 1
    have "sapi_inv (s1\<lparr>sa_output := []\<rparr>) w"
      using s1 1(1) by (auto simp: sapi_inv_def split: if_splits)
    then show ?thesis unfolding 1(2) using view_inv view_ops(7) by blast
  next
    case 3
    have "sapi_inv (s1\<lparr>sa_output := [], sa_chan := (sa_chan s1)\<lparr>st_chunks := st_chunks (sa_chan s1) @ [sa_output s1]\<rparr>\<rparr>) w"
      using s1 by (auto simp: sapi_inv_def split: if_splits)
    then show ?thesis using view_inv[OF 3(2)] by blast
  qed (use s1 in blast)
qed

lemma take_refused: "take_response E s = (r, s1) \<Longrightarrow> sa_spooled s = Refused \<Longrightarrow> sa_spooled s1 = Refused"
  by (auto simp: take_response_def spool_take_def Let_def refusal_def split: if_splits)

lemma inv_early_send:
  assumes "try_early_send E s = (b, s')" "sapi_inv s w" "\<not> sa_streaming s"
  shows "sapi_inv s' w"
proof (cases "sa_finished s \<and> sa_early s")
  case False
  then show ?thesis using assms by (auto simp: try_early_send_def split: if_splits)
next
  case True
  let ?s0 = "s\<lparr>sa_early := False\<rparr>"
  obtain body hs status spool s1 where t: "take_response E ?s0 = ((body, hs, status, spool), s1)" by (metis prod.exhaust)
  have ok: "spool_ok (sa_spooled ?s0)" using assms(2) by (simp add: sapi_inv_def)
  have sent: "sa_sent s = []" "sa_spooled s = Refused \<or> contents (sa_spooled s) (sa_output s) = w"
    using assms(2) True by (auto simp: sapi_inv_def)
  have ref: "sa_spooled s = Refused \<Longrightarrow> sa_spooled s1 = Refused" using take_refused[OF t] by simp
  show ?thesis
    using take_response_spec[OF t ok] assms(1,3) True sent t ref
    by (auto simp: try_early_send_def take_request_errors_def sapi_inv_def spool_ok_def refused_answer_def answer_content_def)
qed

lemma inv_stream_headers:
  assumes "send_streaming_headers E s = (b, s')" "sapi_inv s w" "sa_streaming s"
  shows "sapi_inv s' w"
proof (cases "sa_early s")
  case False
  then show ?thesis using assms by (simp add: send_streaming_headers_def)
next
  case True
  let ?s1 = "s\<lparr>sa_early := False, sa_stream_tx := True,
      sa_chan := \<lparr>st_chunks = [], st_read = 0, st_gone = sa_early_gone s, st_late = []\<rparr>\<rparr>"
  let ?s2 = "collect_response_code ?s1"
  obtain body hs status spool s3 where t: "take_response E ?s2 = ((body, hs, status, spool), s3)" by (metis prod.exhaust)
  have v: "view ?s2 = view ?s1" by simp
  have ok: "spool_ok (sa_spooled ?s2)" using v assms(2) by (simp add: view_def sapi_inv_def del: view_ops)
  have sent: "sa_sent s = []" "sa_spooled s = Refused \<or> contents (sa_spooled s) (sa_output s) = w"
    using assms(2) True by (auto simp: sapi_inv_def)
  have ref: "sa_spooled s = Refused \<Longrightarrow> sa_spooled s3 = Refused"
    using take_refused[OF t] v by (simp add: view_def del: view_ops)
  have s': "s' = s3\<lparr>sa_sent := sa_sent s3 @ [\<lparr>an_status = status, an_headers = hs, an_body = body, an_spool = spool,
      an_stream = True, an_errors = [], an_cancel = 0\<rparr>]\<rparr>"
    using assms(1) True t by (simp add: send_streaming_headers_def Let_def)
  show ?thesis
    using take_response_spec[OF t ok] v sent ref assms(3) unfolding s'
    by (auto simp: view_def sapi_inv_def spool_ok_def refused_answer_def answer_content_def simp del: view_ops)
qed

lemma inv_flush:
  assumes "sapi_flush E waiting evs s = Some (kept, s')" "sapi_inv s w"
  shows "sapi_inv s' w"
proof -
  let ?s1 = "check_client_disconnected s"
  have i1: "sapi_inv ?s1 w" using assms(2) view_inv[OF view_ops(3)] by blast
  show ?thesis
  proof (cases "sa_streaming ?s1")
    case False
    then show ?thesis
      using assms(1) inv_early_send[of E ?s1 _ s' w] i1 by (auto simp: sapi_flush_def Let_def prod_eq_iff)
  next
    case True
    let ?s2 = "if \<not> sa_headers_sent ?s1 then (snd (send_streaming_headers E ?s1))\<lparr>sa_headers_sent := True\<rparr> else ?s1"
    have "sapi_inv (snd (send_streaming_headers E ?s1)) w"
      using inv_stream_headers[of E ?s1 _ _ w] i1 True by (metis prod.collapse)
    then have "sapi_inv ?s2 w" using i1 by (simp add: view_inv[OF view_upd(8)])
    moreover have "flush_stream_chunk waiting evs ?s2 = Some (kept, s')"
      using assms(1) True by (simp add: sapi_flush_def Let_def)
    ultimately show ?thesis by (rule inv_flush_chunk[rotated])
  qed
qed

lemma inv_step: "sapi_step E x y \<Longrightarrow> sapi_inv (fst x) (snd x) \<Longrightarrow> sapi_inv (fst y) (snd y)"
proof (induction rule: sapi_step.induct)
  case (writes str s n s' w)
  then show ?case using inv_write by (metis fst_conv snd_conv)
next
  case (header op s added s' w)
  then show ?case using header_handler_view[OF header(1)] view_inv inv_streaming by (metis fst_conv snd_conv)
next
  case (flushes waiting evs s kept s' w)
  then show ?case using inv_flush by (metis fst_conv snd_conv)
qed (auto intro: inv_finished inv_streaming inv_happens view_inv[THEN iffD2, rotated])

lemma inv_setup: "sapi_inv (setup_request_tls E 0 s) []"
  by (simp add: setup_request_tls_def sapi_inv_def clear_buffers_def reset_request_ctx_def spool_ok_def contents_def Let_def)

lemma inv_steps: "(sapi_step E)\<^sup>*\<^sup>* (setup_request_tls E 0 s0, []) (s, w) \<Longrightarrow> sapi_inv s w"
proof (induction rule: rtranclp_induct2)
  case refl
  then show ?case by (rule inv_setup)
next
  case (step s w s' w')
  then show ?case using inv_step[OF step(2)] by simp
qed

section \<open>The end of a request\<close>

definition delivered :: "('d, 'h) sapi \<Rightarrow> 'h answer \<Rightarrow> string" where
  "delivered s a =
     answer_content a @ (if an_stream a then concat (st_chunks (sa_chan s) @ st_late (sa_chan s)) else [])"

definition answer_settled :: "('d, 'h) sapi \<Rightarrow> string \<Rightarrow> 'h answer \<Rightarrow> bool" where
  "answer_settled s w a = (refused_answer a \<or> an_stream a \<and> st_gone (sa_chan s) \<or> delivered s a = w)"

lemma close_view: "view x = view y \<Longrightarrow> view (close_stream x) = view (y\<lparr>sa_stream_tx := False\<rparr>)"
  by (simp add: view_def close_stream_def)

lemmas close_views = close_view[OF view_ops(6)] close_view[OF view_ops(7)]

lemma finish_stream_cases:
  assumes "sa_stream_tx s"
  shows "sa_output s = [] \<and> view (finish_stream s) = view (s\<lparr>sa_stream_tx := False\<rparr>) \<or>
    st_gone (sa_chan s) \<and> view (finish_stream s) = view (s\<lparr>sa_output := [], sa_stream_tx := False\<rparr>) \<or>
    view (finish_stream s) = view (s\<lparr>sa_output := [], sa_stream_tx := False,
      sa_chan := (sa_chan s)\<lparr>st_chunks := st_chunks (sa_chan s) @ [sa_output s]\<rparr>\<rparr>) \<or>
    view (finish_stream s) = view (s\<lparr>sa_output := [], sa_stream_tx := False,
      sa_chan := (sa_chan s)\<lparr>st_late := st_late (sa_chan s) @ [sa_output s]\<rparr>\<rparr>)"
proof (cases "sa_output s = []")
  case True
  then show ?thesis using assms by (simp add: finish_stream_def flush_stream_chunk_def close_views)
next
  case False
  consider "st_gone (sa_chan s)" | "\<not> st_gone (sa_chan s)" "has_room (sa_chan s)" | "\<not> st_gone (sa_chan s)" "\<not> has_room (sa_chan s)"
    by blast
  then show ?thesis
  proof cases
    case 3
    then show ?thesis using False assms
      by (simp add: finish_stream_def flush_stream_chunk_def try_room_def Let_def close_stream_def view_def)
  next
    case 2
    then show ?thesis using False assms
      by (simp add: finish_stream_def flush_stream_chunk_def try_room_def Let_def close_views) (simp add: view_def)
  qed (use False assms in \<open>simp add: finish_stream_def flush_stream_chunk_def try_room_def close_views\<close>)
qed

lemma finish_stream_settles:
  assumes "sapi_inv s w"
  shows "sa_early s \<Longrightarrow> sapi_inv (finish_stream s) w \<and> sa_early (finish_stream s)"
    and "\<not> sa_early s \<Longrightarrow> \<not> sa_early (finish_stream s) \<and> (\<exists>a. sa_sent (finish_stream s) = [a] \<and> answer_settled (finish_stream s) w a)"
proof -
  assume e: "sa_early s"
  then have "\<not> sa_stream_tx s" using assms by (simp add: sapi_inv_def)
  then have "finish_stream s = s" by (simp add: finish_stream_def flush_stream_chunk_def close_stream_def)
  then show "sapi_inv (finish_stream s) w \<and> sa_early (finish_stream s)" using assms e by simp
next
  assume e: "\<not> sa_early s"
  then obtain a where a: "sa_sent s = [a]" "refused_answer a \<or>
      (if an_stream a
       then sa_streaming s \<and> sa_stream_tx s \<and> st_late (sa_chan s) = [] \<and> sa_spooled s = InMemory \<and>
         (st_gone (sa_chan s) \<or> answer_content a @ concat (st_chunks (sa_chan s)) @ sa_output s = w)
       else sa_finished s \<and> answer_content a = w)"
    using assms by (auto simp: sapi_inv_def)
  have keep: "\<not> sa_stream_tx s \<Longrightarrow> finish_stream s = s\<lparr>sa_stream_tx := False\<rparr>"
    by (simp add: finish_stream_def flush_stream_chunk_def close_stream_def)
  have v: "sa_early (finish_stream s) = sa_early s \<and> sa_sent (finish_stream s) = sa_sent s"
    using finish_stream_cases[of s] keep by (cases "sa_stream_tx s") (auto simp: view_def)
  have "answer_settled (finish_stream s) w a"
  proof (cases "refused_answer a \<or> \<not> an_stream a")
    case True
    then show ?thesis using a(2) by (auto simp: answer_settled_def delivered_def)
  next
    case False
    then show ?thesis using a(2) finish_stream_cases[of s] by (auto simp: answer_settled_def delivered_def view_def)
  qed
  then show "\<not> sa_early (finish_stream s) \<and> (\<exists>a. sa_sent (finish_stream s) = [a] \<and> answer_settled (finish_stream s) w a)"
    using v e a(1) by simp
qed

lemma inv_settled: "sapi_inv s w \<Longrightarrow> \<not> sa_early s \<Longrightarrow> \<not> sa_streaming s \<Longrightarrow> \<exists>a. sa_sent s = [a] \<and> answer_settled s w a"
  by (auto simp: sapi_inv_def answer_settled_def delivered_def split: if_splits)

lemma teardown_keeps [simp]:
  "sa_sent (worker_request_teardown s) = sa_sent s" "sa_chan (worker_request_teardown s) = sa_chan s"
  by (simp_all add: worker_request_teardown_def clear_buffers_def)

lemma settled_chan: "sa_chan s' = sa_chan s \<Longrightarrow> answer_settled s' w a = answer_settled s w a"
  by (simp add: answer_settled_def delivered_def)

lemma view_status: "view (worker_status exc s) = view s"
  by (simp add: worker_status_def Let_def split: option.split)

lemma worker_answer_settles:
  assumes "sapi_inv s w" "sa_early s"
  shows "\<exists>a. sa_sent (worker_answer E s) = [a] \<and> answer_settled (worker_answer E s) w a"
proof -
  obtain body hs status spool s4 where t: "take_response E s = ((body, hs, status, spool), s4)" by (metis prod.exhaust)
  have sp: "spool_ok (sa_spooled s)" "sa_sent s = []" "sa_spooled s = Refused \<or> contents (sa_spooled s) (sa_output s) = w"
    using assms by (auto simp: sapi_inv_def)
  let ?a = "\<lparr>an_status = status, an_headers = hs, an_body = body, an_spool = spool, an_stream = False,
      an_errors = sa_errors s4, an_cancel = get_cancel_reason s4\<rparr>"
  have "refused_answer ?a \<or> answer_content ?a = w"
    using take_response_spec[OF t sp(1)] take_refused[OF t] sp(3) by (auto simp: refused_answer_def answer_content_def)
  moreover have "sa_sent s4 = []" using take_response_spec[OF t sp(1)] sp(2) by simp
  ultimately show ?thesis
    using t by (auto simp: worker_answer_def Let_def take_request_errors_def answer_settled_def delivered_def)
qed


section \<open>The status sent\<close>

text \<open>
  A cancelled request answers with its cancellation: once the cell holds a reason, whatever code PHP
  has and whatever it was set to before, a request that fails or is ended with the status still at its
  default is answered 499, 504, 503 or 500 by that reason, and the code PHP holds changes nothing.
\<close>

lemma cancelled_status:
  assumes "get_cancel_reason s \<noteq> 0" "sa_status s = 200"
  shows "sa_status (worker_status (Some e) s) =
      (if get_cancel_reason s = 1 then 499 else if get_cancel_reason s = 2 then 504 else if get_cancel_reason s = 3 then 503 else 500)
    \<and> sa_status (worker_status None (set_fatal_error_status_if_default s)) = sa_status (worker_status (Some e) s)"
  using assms by (auto simp: worker_status_def collect_response_code_def resolve_collected_status_def
      set_fatal_error_status_if_default_def get_cancel_reason_def Let_def split: option.splits)

text \<open>A code the script set reaches the client at the end of the request and at the first flush of a stream,
  but not with the early answer: \<^verbatim>\<open>try_early_send\<close> sends the status as it stands without asking PHP for
  it.\<close>

definition demo_env :: "(nat, (string \<times> string) list) sapi_env" where
  "demo_env = \<lparr>se_disk = demo_disk, se_config = demo_config, se_headers = list_headers, se_name = Some, se_takes = (\<lambda>_ _. True)\<rparr>"

definition demo_sapi :: "(nat, (string \<times> string) list) sapi" where
  "demo_sapi =
     \<lparr>sa_output = [], sa_headers = PackedPairs_default, sa_status = 200, sa_spooled = InMemory, sa_world = demo_world,
      sa_early = False, sa_early_gone = False, sa_stream_tx = False,
      sa_chan = \<lparr>st_chunks = [], st_read = 0, st_gone = False, st_late = []\<rparr>, sa_errors = [], sa_finished = False,
      sa_streaming = False, sa_headers_sent = False, sa_cell = None, sa_interrupt = False, sa_draining = False,
      sa_sg_code = 200, sa_async = False, sa_thrown = None, sa_captured = None, sa_sent = [], sa_abandoned = 0\<rparr>"

definition demo_started :: "(nat, (string \<times> string) list) sapi" where
  "demo_started = (setup_request_tls demo_env 0 demo_sapi)\<lparr>sa_sg_code := 202\<rparr>"

lemma early_answer_forgets_the_code:
  "map an_status (sa_sent (worker_send demo_env None demo_started)) = [202]"
  "map an_status (sa_sent (snd (try_early_send demo_env (demo_started\<lparr>sa_finished := True\<rparr>)))) = [200]"
  by code_simp+

text \<open>Ending a request that streams does not end its stream: the flush of \<^verbatim>\<open>oxphp_finish_request()\<close> takes
  the streaming branch, which never reaches the one that closes the stream.\<close>

lemma tx_kept [simp]:
  "sa_stream_tx (snd (cancel_stream_for_drain x)) = sa_stream_tx x" "sa_stream_tx (mark_stream_client_gone x) = sa_stream_tx x"
  by (simp_all add: cancel_stream_for_drain_def mark_stream_client_gone_def request_interrupt_def set_cancel_reason_def)

lemma flush_keeps_tx: "flush_stream_chunk False evs s = Some (k, s') \<Longrightarrow> sa_stream_tx s' = sa_stream_tx s"
  by (auto simp: flush_stream_chunk_def try_room_def Let_def split: if_splits)

lemma finish_keeps_stream_open:
  assumes "sa_streaming s" "sa_stream_tx s" "sa_headers_sent s" "sapi_flush E False [] (s\<lparr>sa_finished := True\<rparr>) = Some (kept, s')"
  shows "sa_stream_tx s'"
proof -
  let ?s = "check_client_disconnected (s\<lparr>sa_finished := True\<rparr>)"
  have c: "sa_streaming ?s" "sa_stream_tx ?s" "sa_headers_sent ?s"
    using assms(1,2,3) by (simp_all add: check_client_disconnected_def request_interrupt_def set_cancel_reason_def)
  then have "flush_stream_chunk False [] ?s = Some (kept, s')" using assms(4) by (simp add: sapi_flush_def Let_def)
  then show ?thesis using flush_keeps_tx c(2) by blast
qed

section \<open>Witnesses\<close>


lemma cancelled_status_witness:
  "sa_status (worker_status (Some \<lparr>pe_level = ''error'', pe_type = ''E_ERROR'', pe_message = [], pe_file = [], pe_line = 1, pe_class = None\<rparr>)
      (demo_sapi\<lparr>sa_cell := Some 2, sa_sg_code := 206\<rparr>)) = 504"
proof -
  have "get_cancel_reason (demo_sapi\<lparr>sa_cell := Some 2, sa_sg_code := 206\<rparr>) = 2"
    "sa_status (demo_sapi\<lparr>sa_cell := Some 2, sa_sg_code := 206\<rparr>) = 200" by code_simp+
  then show ?thesis using cancelled_status[of "demo_sapi\<lparr>sa_cell := Some 2, sa_sg_code := 206\<rparr>"] by simp
qed

end
