(* ===== verification/Static_Range.thy ===== *)
theory Static_Range
  imports Compression
begin

text \<open>
  Validators, conditional requests and byte ranges of static files
  (\<^verbatim>\<open>src/server/response/static_file.rs\<close>).  A file time is its nanoseconds since the epoch.  HTTP dates
  are the \<^verbatim>\<open>httpdate\<close> crate's and parameters.
\<close>

section \<open>Validators\<close>

type_synonym time = int

record http_dates =
  parse_http_date :: "string \<Rightarrow> time option"
  fmt_http_date :: "time \<Rightarrow> string"

definition secs_since_epoch :: "time \<Rightarrow> nat" where
  "secs_since_epoch t = nat (t div 10 ^ 9)"

definition hex_digit :: "nat \<Rightarrow> char" where
  "hex_digit d = (if d < 10 then char_of (48 + d) else char_of (87 + d))"

fun show_hex :: "nat \<Rightarrow> string" where
  "show_hex n = (if n < 16 then [hex_digit n] else show_hex (n div 16) @ [hex_digit (n mod 16)])"

declare show_hex.simps [simp del]

definition generate_etag :: "nat \<Rightarrow> time \<Rightarrow> string" where
  "generate_etag sz modified =
     [CHR 0x22] @ show_nat sz @ ''-'' @ show_hex (secs_since_epoch modified) @ [CHR 0x22]"

definition etag_opaque :: "string \<Rightarrow> string" where
  "etag_opaque t = (case strip_prefix t ''W/'' of Some r \<Rightarrow> r | None \<Rightarrow> t)"

definition etag_weak_eq :: "string \<Rightarrow> string \<Rightarrow> bool" where
  "etag_weak_eq a b = (etag_opaque a = etag_opaque b)"

definition check_not_modified :: "http_dates \<Rightarrow> 'h headers \<Rightarrow> 'h \<Rightarrow> string \<Rightarrow> time \<Rightarrow> bool" where
  "check_not_modified D H headers etag modified =
     (case header_str H headers ''if-none-match'' of
        Some val \<Rightarrow> list_ex (\<lambda>tag. let t = str_trim tag in t = ''*'' \<or> etag_weak_eq t etag) (split_on (CHR '','') val)
      | None \<Rightarrow>
          (case header_str H headers ''if-modified-since'' of
             Some val \<Rightarrow>
               (case parse_http_date D val of
                  Some ims_time \<Rightarrow> secs_since_epoch modified \<le> secs_since_epoch ims_time
                | None \<Rightarrow> False)
           | None \<Rightarrow> False))"

definition client_tag_is_weak :: "'h headers \<Rightarrow> 'h \<Rightarrow> string \<Rightarrow> bool" where
  "client_tag_is_weak H headers etag =
     (case header_str H headers ''if-none-match'' of
        Some val \<Rightarrow> list_ex (\<lambda>tag. let t = str_trim tag in starts_with t ''W/'' \<and> etag_weak_eq t etag) (split_on (CHR '','') val)
      | None \<Rightarrow> False)"

section \<open>Ranges\<close>

datatype RangePlan = FullRange | Partial nat nat | NotSatisfiable

definition parse_range_pos :: "string \<Rightarrow> nat option" where
  "parse_range_pos s = (if s = [] \<or> \<not> list_all is_digit_byte s then None else parse_uint (2 ^ 64 - 1) s)"

definition range_bounds :: "string \<Rightarrow> nat \<Rightarrow> RangePlan option" where
  "range_bounds spec sz =
     (case split_once (CHR ''-'') spec of
        None \<Rightarrow> None
      | Some (first, lst) \<Rightarrow>
          (case parse_range_pos first of
             None \<Rightarrow> None
           | Some start \<Rightarrow>
               (case (if lst = [] then Some None else map_option Some (parse_range_pos lst)) of
                  None \<Rightarrow> None
                | Some last_pos \<Rightarrow>
                    if (case last_pos of Some l \<Rightarrow> l < start | None \<Rightarrow> False) then None
                    else if start \<ge> sz then Some NotSatisfiable
                    else Some (Partial start (case last_pos of Some l \<Rightarrow> min l (sz - 1) | None \<Rightarrow> sz - 1)))))"

definition parse_range :: "string \<Rightarrow> nat \<Rightarrow> RangePlan option" where
  "parse_range val sz =
     (if sz = 0 then None
      else
        (case split_once (CHR ''='') val of
           None \<Rightarrow> None
         | Some (unit, rest) \<Rightarrow>
             if \<not> eq_ignore_case (str_trim unit) ''bytes'' then None
             else
               (let spec = str_trim rest in
                if CHR '','' \<in> set spec then None
                else
                  (case strip_prefix spec ''-'' of
                     Some sfx \<Rightarrow>
                       (case parse_range_pos sfx of
                          None \<Rightarrow> None
                        | Some n \<Rightarrow> if n = 0 then Some NotSatisfiable else Some (Partial (sz - n) (sz - 1)))
                   | None \<Rightarrow> range_bounds spec sz))))"

definition if_range_matches :: "http_dates \<Rightarrow> 'h headers \<Rightarrow> time \<Rightarrow> 'h \<Rightarrow> string \<Rightarrow> time \<Rightarrow> bool" where
  "if_range_matches D H now headers etag modified =
     (case get H headers ''if-range'' of
        None \<Rightarrow> True
      | Some if_range \<Rightarrow>
          (case to_str H if_range of
             None \<Rightarrow> False
           | Some raw \<Rightarrow>
               (let val = str_trim raw in
                if starts_with val ''W/'' then False
                else if starts_with val [CHR 0x22] then val = etag
                else
                  (case parse_http_date D val of
                     Some t \<Rightarrow>
                       secs_since_epoch modified = secs_since_epoch t \<and> secs_since_epoch modified < secs_since_epoch now
                   | None \<Rightarrow> False))))"

definition plan_range :: "http_dates \<Rightarrow> 'h headers \<Rightarrow> time \<Rightarrow> string \<Rightarrow> 'h \<Rightarrow> nat \<Rightarrow> string \<Rightarrow> time \<Rightarrow> RangePlan" where
  "plan_range D H now meth headers sz etag modified =
     (if meth \<noteq> ''GET'' \<and> meth \<noteq> ''HEAD'' then FullRange
      else
        (case get_all H headers ''range'' of
           [line] \<Rightarrow>
             (case to_str H line of
                None \<Rightarrow> FullRange
              | Some range_line \<Rightarrow>
                  if \<not> if_range_matches D H now headers etag modified then FullRange
                  else (case parse_range range_line sz of Some plan \<Rightarrow> plan | None \<Rightarrow> FullRange))
         | _ \<Rightarrow> FullRange))"

section \<open>Responses\<close>

record ContentHeaders =
  ch_content_type :: string
  ch_content_length :: string
  ch_etag :: string
  ch_weak_etag :: string
  ch_last_modified :: string

definition ContentHeaders_new :: "'h headers \<Rightarrow> string \<Rightarrow> nat \<Rightarrow> string \<Rightarrow> string \<Rightarrow> ContentHeaders option" where
  "ContentHeaders_new H mime_type sz etag last_modified =
     (case (from_str H mime_type, from_str H etag, from_str H (''W/'' @ etag), from_str H last_modified) of
        (Some ct, Some tag, Some weak, Some lm) \<Rightarrow>
          Some \<lparr>ch_content_type = ct, ch_content_length = show_nat sz, ch_etag = tag, ch_weak_etag = weak, ch_last_modified = lm\<rparr>
      | _ \<Rightarrow> None)"

definition with_headers :: "'h headers \<Rightarrow> (string \<times> string) list \<Rightarrow> 'h \<Rightarrow> 'h" where
  "with_headers H kvs h = foldl (\<lambda>h (k, v). hset H h k v) h kvs"

definition built_with :: "'h headers \<Rightarrow> (string \<times> string) list \<Rightarrow> 'h" where
  "built_with H kvs = foldl (\<lambda>h (k, v). happend H h k v) (hempty H) kvs"

definition build_416 :: "'h headers \<Rightarrow> nat \<Rightarrow> 'h response" where
  "build_416 H sz =
     \<lparr>rs_status = 416,
      rs_headers = built_with H [(''content-range'', ''bytes */'' @ show_nat sz), (''content-type'', ''text/plain; charset=utf-8'')],
      rs_body = Full ''416 Range Not Satisfiable''\<rparr>"

definition build_304 :: "'h headers \<Rightarrow> string \<Rightarrow> string \<Rightarrow> string \<Rightarrow> 'h response" where
  "build_304 H etag last_modified cache_control =
     \<lparr>rs_status = 304,
      rs_headers = built_with H [(''etag'', etag), (''last-modified'', last_modified), (''cache-control'', cache_control)],
      rs_body = Full []\<rparr>"

definition add_cache_headers :: "'h headers \<Rightarrow> string \<Rightarrow> string \<Rightarrow> string \<Rightarrow> 'h \<Rightarrow> 'h" where
  "add_cache_headers H etag last_modified cache_control h =
     with_headers H [(''etag'', etag), (''last-modified'', last_modified), (''cache-control'', cache_control)] h"

definition ranges_allowed :: "bool \<Rightarrow> Levels \<Rightarrow> string \<Rightarrow> nat \<Rightarrow> bool" where
  "ranges_allowed will_encode levels mime_type sz = (\<not> (will_encode \<and> would_compress levels mime_type sz))"

definition vary_by_encoding :: "'h headers \<Rightarrow> bool \<Rightarrow> 'h response \<Rightarrow> 'h response" where
  "vary_by_encoding H varies r =
     (if varies then r\<lparr>rs_headers := hset H (rs_headers r) ''vary'' ''Accept-Encoding''\<rparr> else r)"

definition static_headers ::
    "'h headers \<Rightarrow> ContentHeaders \<Rightarrow> string \<Rightarrow> bool \<Rightarrow> bool \<Rightarrow> string option \<Rightarrow> string option \<Rightarrow> 'h"
where
  "static_headers H headers len allow_ranges varies content_range cache_control =
     (let h = with_headers H
                ([(''content-type'', ch_content_type headers), (''content-length'', len)] @
                 (if allow_ranges then [(''accept-ranges'', ''bytes'')] else []) @
                 (if varies then [(''vary'', ''Accept-Encoding'')] else []) @
                 (case content_range of Some cr \<Rightarrow> [(''content-range'', cr)] | None \<Rightarrow> []))
                (hempty H)
      in case cache_control of
           Some cc \<Rightarrow> add_cache_headers H (ch_etag headers) (ch_last_modified headers) cc h
         | None \<Rightarrow> h)"

definition respond_bytes ::
    "http_dates \<Rightarrow> 'h headers \<Rightarrow> time \<Rightarrow> string \<Rightarrow> ContentHeaders \<Rightarrow> string \<Rightarrow> string \<Rightarrow> time \<Rightarrow> string option \<Rightarrow>
     string \<Rightarrow> 'h \<Rightarrow> bool \<Rightarrow> Levels \<Rightarrow> 'h response"
where
  "respond_bytes D H now bytes headers mime_type etag modified cache_control meth request_headers allow_ranges levels =
     (let sz = length bytes;
          varies = would_compress levels mime_type sz;
          plan = (if allow_ranges then plan_range D H now meth request_headers sz etag modified else FullRange);
          rest = (\<lambda>status body len content_range.
            \<lparr>rs_status = status,
             rs_headers = static_headers H headers len allow_ranges varies content_range cache_control,
             rs_body = Full body\<rparr>)
      in case plan of
           FullRange \<Rightarrow> rest 200 bytes (ch_content_length headers) None
         | Partial start e \<Rightarrow>
             rest 206 (take (e + 1 - start) (drop start bytes)) (show_nat (e - start + 1))
               (Some (''bytes '' @ show_nat start @ ''-'' @ show_nat e @ ''/'' @ show_nat sz))
         | NotSatisfiable \<Rightarrow> vary_by_encoding H varies (build_416 H sz))"

section \<open>What the ranges mean\<close>

lemma split_once_app:
  assumes "c \<notin> set a"
  shows "split_once c (a @ c # b) = Some (a, b)"
proof -
  have "takeWhile (\<lambda>x. x \<noteq> c) (a @ c # b) = a" "dropWhile (\<lambda>x. x \<noteq> c) (a @ c # b) = c # b"
    using assms by (auto simp: takeWhile_append dropWhile_append)
  then show ?thesis by (simp add: split_once_def)
qed

lemma digit_not_dash:
  assumes "list_all is_digit_byte s" "\<not> is_digit_byte c"
  shows "c \<notin> set s"
  using assms unfolding list_all_iff by blast

lemma parse_range_pos_show:
  assumes "n < 2 ^ 64"
  shows "parse_range_pos (show_nat n) = Some n"
  using assms show_nat_digits[of n] parse_show[of n "2 ^ 64 - 1"] by (simp add: parse_range_pos_def)

lemma parse_range_bounds:
  assumes "parse_range val sz = Some (Partial s e)"
  shows "s \<le> e \<and> e < sz"
  using assms
  by (auto simp: parse_range_def range_bounds_def Let_def split: if_splits option.splits prod.splits)

lemma plan_range_bounds:
  assumes "plan_range D H now meth headers sz etag modified = Partial s e"
  shows "s \<le> e \<and> e < sz"
  using assms
  by (auto simp: plan_range_def split: if_splits option.splits list.splits dest: parse_range_bounds)

text \<open>Text without blanks survives trimming.\<close>

definition solid :: "char \<Rightarrow> bool" where
  "solid c = (visible c \<and> \<not> blank c)"

lemma solid_visible: "list_all solid s \<Longrightarrow> list_all visible s"
  by (erule list.pred_mono_strong) (simp add: solid_def)

lemma solid_trim:
  assumes "list_all solid s"
  shows "str_trim s = s"
proof -
  have "dropWhile blank s = s" if "list_all solid s" for s
    using that by (cases s) (auto simp: solid_def)
  moreover have "list_all solid (rev s)" using assms by simp
  ultimately show ?thesis using assms by (simp add: str_trim_visible solid_visible)
qed

lemma digit_solid: "is_digit_byte c \<Longrightarrow> solid c"
  by (auto simp: solid_def visible_def blank_def is_digit_byte_def)

lemma digits_solid: "list_all is_digit_byte s \<Longrightarrow> list_all solid s"
  by (erule list.pred_mono_strong) (rule digit_solid)

lemma show_nat_solid [simp]: "list_all solid (show_nat n)"
  using show_nat_digits digits_solid by blast

lemma solid_chars [simp]: "solid (CHR ''-'')" "solid (CHR 0x22)" "solid (CHR ''/'')"
  by (simp_all add: solid_def visible_def blank_def)

lemma hex_digit_solid [simp]: "d < 16 \<Longrightarrow> solid (hex_digit d) \<and> hex_digit d \<noteq> CHR ''-'' \<and> hex_digit d \<noteq> CHR '',''"
proof -
  assume "d < 16"
  then have "d \<in> set [0 ..< 16]" by simp
  moreover have "list_all (\<lambda>d. solid (hex_digit d) \<and> hex_digit d \<noteq> CHR ''-'' \<and> hex_digit d \<noteq> CHR '','') [0 ..< 16]"
    by code_simp
  ultimately show ?thesis unfolding list_all_iff by blast
qed

lemma show_hex_solid: "list_all (\<lambda>c. solid c \<and> c \<noteq> CHR ''-'' \<and> c \<noteq> CHR '','') (show_hex n) \<and> show_hex n \<noteq> []"
proof (induction n rule: show_hex.induct)
  case (1 n)
  then show ?case by (subst (1 2) show_hex.simps) auto
qed

lemma hex_digit_inj: "d < 16 \<Longrightarrow> e < 16 \<Longrightarrow> hex_digit d = hex_digit e \<longleftrightarrow> d = e"
proof -
  assume "d < 16" "e < 16"
  then have "d \<in> set [0 ..< 16]" "e \<in> set [0 ..< 16]" by simp_all
  moreover have "list_all (\<lambda>d. list_all (\<lambda>e. (hex_digit d = hex_digit e) = (d = e)) [0 ..< 16]) [0 ..< 16]"
    by code_simp
  ultimately show ?thesis unfolding list_all_iff by blast
qed

lemma show_hex_inj: "show_hex a = show_hex b \<Longrightarrow> a = b"
proof (induction a arbitrary: b rule: show_hex.induct)
  case (1 a)
  have ne: "show_hex n \<noteq> []" "[] \<noteq> show_hex n" for n using show_hex_solid[of n] by auto
  consider "a < 16" "b < 16" | "a < 16" "16 \<le> b" | "16 \<le> a" "b < 16" | "16 \<le> a" "16 \<le> b" by linarith
  then show ?case
  proof cases
    case 4
    then have "show_hex (a div 16) = show_hex (b div 16)" "hex_digit (a mod 16) = hex_digit (b mod 16)"
      using "1.prems" by (simp_all add: show_hex.simps[of a] show_hex.simps[of b])
    then have "a div 16 = b div 16" "a mod 16 = b mod 16"
      using "1.IH" 4 by (auto simp: hex_digit_inj)
    then show ?thesis by (metis div_mult_mod_eq)
  qed (use "1.prems" ne in \<open>simp_all add: show_hex.simps[of a] show_hex.simps[of b] hex_digit_inj\<close>)
qed

lemma etag_solid: "list_all solid (generate_etag sz m)"
proof -
  have "list_all solid (show_hex n)" for n
    using show_hex_solid[of n] by (auto elim: list.pred_mono_strong)
  then show ?thesis by (simp add: generate_etag_def)
qed

lemma etag_identifies:
  assumes "generate_etag a m = generate_etag b m'"
  shows "a = b \<and> secs_since_epoch m = secs_since_epoch m'"
proof -
  have eq: "show_nat a @ CHR ''-'' # show_hex (secs_since_epoch m) = show_nat b @ CHR ''-'' # show_hex (secs_since_epoch m')"
    using assms by (simp add: generate_etag_def)
  have nd: "CHR ''-'' \<notin> set (show_nat n)" for n
    using show_nat_digits[of n] by (intro digit_not_dash) (auto simp: is_digit_byte_def)
  have "split_once (CHR ''-'') (show_nat a @ CHR ''-'' # show_hex (secs_since_epoch m))
    = split_once (CHR ''-'') (show_nat b @ CHR ''-'' # show_hex (secs_since_epoch m'))"
    by (simp only: eq)
  then have "show_nat a = show_nat b" "show_hex (secs_since_epoch m) = show_hex (secs_since_epoch m')"
    by (simp_all only: split_once_app[OF nd] option.inject prod.inject)
  then show ?thesis using show_hex_inj digits_val_show by metis
qed

lemma parse_printed_range:
  assumes "s \<le> e" "e < sz" "sz < 2 ^ 64"
  shows "parse_range (''bytes='' @ show_nat s @ ''-'' @ show_nat e) sz = Some (Partial s e)"
    "parse_range (''bytes='' @ show_nat s @ ''-'') sz = Some (Partial s (sz - 1))"
proof -
  have nd: "CHR ''-'' \<notin> set (show_nat n)" "CHR '','' \<notin> set (show_nat n)" for n
    using show_nat_digits[of n] by (simp_all add: digit_not_dash is_digit_byte_def)
  obtain c r where cr: "show_nat s = c # r" "c \<noteq> CHR ''-''"
    using show_nat_digits[of s] nd(1)[of s] by (cases "show_nat s") auto
  have pos: "parse_range_pos (show_nat s) = Some s" "parse_range_pos (show_nat e) = Some e"
    using assms by (simp_all add: parse_range_pos_show)
  have val: "parse_range (''bytes='' @ show_nat s @ ''-'' @ x) sz = range_bounds (show_nat s @ CHR ''-'' # x) sz"
    if x: "list_all solid x" "CHR '','' \<notin> set x" for x
  proof -
    have u: "split_once (CHR ''='') (''bytes='' @ show_nat s @ ''-'' @ x) = Some (''bytes'', show_nat s @ CHR ''-'' # x)"
      using split_once_app[of "CHR ''=''" "''bytes''"] by simp
    have t: "str_trim (show_nat s @ CHR ''-'' # x) = show_nat s @ CHR ''-'' # x"
      using x by (intro solid_trim) simp
    have b: "eq_ignore_case (str_trim ''bytes'') ''bytes''" by code_simp
    have "strip_prefix (show_nat s @ CHR ''-'' # x) ''-'' = None"
      using cr by (simp add: strip_prefix_def starts_with_def)
    then show ?thesis
      using x nd assms unfolding parse_range_def u t Let_def option.case prod.case by (simp add: b t)
  qed
  have sp: "split_once (CHR ''-'') (show_nat s @ CHR ''-'' # x) = Some (show_nat s, x)" for x
    by (rule split_once_app[OF nd(1)])
  show "parse_range (''bytes='' @ show_nat s @ ''-'' @ show_nat e) sz = Some (Partial s e)"
    unfolding val[OF show_nat_solid nd(2)] range_bounds_def sp
    using assms show_nat_digits[of e] by (simp add: pos min_def)
  show "parse_range (''bytes='' @ show_nat s @ ''-'') sz = Some (Partial s (sz - 1))"
    using val[of "[]"] assms by (simp add: range_bounds_def sp pos)
qed

text \<open>Every header a response is built with, read back.\<close>

lemma with_headers_get:
  assumes H: "header_laws H"
  shows "get_all H (with_headers H kvs h) k =
    (case map_of (rev kvs) k of Some v \<Rightarrow> [v] | None \<Rightarrow> get_all H h k)"
proof (induction kvs arbitrary: h)
  case Nil
  then show ?case by (simp add: with_headers_def)
next
  case (Cons kv kvs)
  have "with_headers H (kv # kvs) h = with_headers H kvs (hset H h (fst kv) (snd kv))"
    by (simp add: with_headers_def case_prod_beta)
  then show ?case
    by (cases kv) (simp add: Cons.IH header_lookup[OF H] map_add_def map_of_append split: option.splits)
qed

lemma add_cache_headers_get:
  assumes "header_laws H" "k \<notin> {''etag'', ''last-modified'', ''cache-control''}"
  shows "get_all H (add_cache_headers H etag lm cc h) k = get_all H h k"
  using assms by (auto simp: add_cache_headers_def with_headers_get)

lemma static_headers_get:
  assumes H: "header_laws H"
  shows "get_all H (static_headers H hs len ar varies cr cc) ''content-length'' = [len]"
    "get_all H (static_headers H hs len ar varies cr cc) ''content-type'' = [ch_content_type hs]"
    "get_all H (static_headers H hs len ar varies cr cc) ''content-range'' = (case cr of Some c \<Rightarrow> [c] | None \<Rightarrow> [])"
    "get_all H (static_headers H hs len ar varies cr cc) ''accept-ranges'' = (if ar then [''bytes''] else [])"
    "get_all H (static_headers H hs len ar varies cr cc) ''vary'' = (if varies then [''Accept-Encoding''] else [])"
    "get_all H (static_headers H hs len ar varies cr (Some tag)) ''etag'' = [ch_etag hs]"
  by (auto simp: static_headers_def Let_def add_cache_headers_get[OF H] with_headers_get[OF H] header_lookup[OF H]
        add_cache_headers_def split: option.split)

lemma respond_cases:
  obtains (whole) "respond_bytes D H now bytes hs mime etag m cc meth h ar lv =
      \<lparr>rs_status = 200, rs_headers = static_headers H hs (ch_content_length hs) ar (would_compress lv mime (length bytes)) None cc,
       rs_body = Full bytes\<rparr>"
      "ar \<longrightarrow> plan_range D H now meth h (length bytes) etag m = FullRange"
  | (part) s e where "respond_bytes D H now bytes hs mime etag m cc meth h ar lv =
      \<lparr>rs_status = 206,
       rs_headers = static_headers H hs (show_nat (e - s + 1)) ar (would_compress lv mime (length bytes))
         (Some (''bytes '' @ show_nat s @ ''-'' @ show_nat e @ ''/'' @ show_nat (length bytes))) cc,
       rs_body = Full (take (e + 1 - s) (drop s bytes))\<rparr>"
      "ar" "plan_range D H now meth h (length bytes) etag m = Partial s e"
  | (unsat) "respond_bytes D H now bytes hs mime etag m cc meth h ar lv =
      vary_by_encoding H (would_compress lv mime (length bytes)) (build_416 H (length bytes))"
      "ar" "plan_range D H now meth h (length bytes) etag m = NotSatisfiable"
  unfolding respond_bytes_def Let_def
  by (cases "if ar then plan_range D H now meth h (length bytes) etag m else FullRange")
     (auto split: if_splits)

text \<open>Whatever a request asks for, the length it is told is the length it gets, and a part is named exactly.\<close>

lemma respond_bytes_exact:
  assumes H: "header_laws H" and hs: "ch_content_length hs = show_nat (length bytes)"
    and r: "r = respond_bytes D H now bytes hs mime etag m cc meth h ar lv"
  obtains (whole) "rs_status r = 200" "rs_body r = Full bytes"
      "get_all H (rs_headers r) ''content-length'' = [show_nat (length bytes)]" "get_all H (rs_headers r) ''content-range'' = []"
  | (part) s e where "rs_status r = 206" "rs_body r = Full (take (e + 1 - s) (drop s bytes))" "s \<le> e" "e < length bytes"
      "get_all H (rs_headers r) ''content-length'' = [show_nat (length (take (e + 1 - s) (drop s bytes)))]"
      "get_all H (rs_headers r) ''content-range'' =
         [''bytes '' @ show_nat s @ ''-'' @ show_nat e @ ''/'' @ show_nat (length bytes)]"
  | (unsat) "rs_status r = 416"
proof (cases rule: respond_cases[of D H now bytes hs mime etag m cc meth h ar lv])
  case whole
  have "rs_status r = 200" "rs_body r = Full bytes" by (simp_all add: r whole(1))
  moreover have "get_all H (rs_headers r) ''content-length'' = [show_nat (length bytes)]"
    by (simp add: r whole(1) hs static_headers_get(1)[OF H])
  moreover have "get_all H (rs_headers r) ''content-range'' = []"
    by (simp add: r whole(1) static_headers_get(3)[OF H])
  ultimately show ?thesis by (rule that(1))
next
  case (part s e)
  have b: "s \<le> e" "e < length bytes" using plan_range_bounds[OF part(3)] by simp_all
  then have len: "length (take (e + 1 - s) (drop s bytes)) = e - s + 1" by auto
  have "rs_status r = 206" "rs_body r = Full (take (e + 1 - s) (drop s bytes))"
    by (simp_all add: r part(1))
  moreover have "get_all H (rs_headers r) ''content-length'' = [show_nat (length (take (e + 1 - s) (drop s bytes)))]"
    "get_all H (rs_headers r) ''content-range'' =
         [''bytes '' @ show_nat s @ ''-'' @ show_nat e @ ''/'' @ show_nat (length bytes)]"
    unfolding len by (simp_all add: r part(1) static_headers_get[OF H])
  ultimately show ?thesis using that(2) b by blast
next
  case unsat
  then have "rs_status r = 416" by (simp add: r vary_by_encoding_def build_416_def)
  then show ?thesis by (rule that(3))
qed

lemma if_range_etag:
  assumes H: "header_laws H" and h: "get_all H h ''if-range'' = [generate_etag sz m]"
  shows "if_range_matches D H now h etag m' \<longleftrightarrow> generate_etag sz m = etag"
proof -
  have v: "list_all visible (generate_etag sz m)" using etag_solid solid_visible by blast
  have s: "\<not> starts_with (generate_etag sz m) ''W/''" "starts_with (generate_etag sz m) [CHR 0x22]"
    by (simp_all add: generate_etag_def starts_with_def)
  show ?thesis
    by (simp add: if_range_matches_def get_def h header_values[OF H] v solid_trim[OF etag_solid] s)
qed

text \<open>What a client that asked for the rest of what it holds ends with.\<close>

definition resumed :: "string \<Rightarrow> 'h response \<Rightarrow> string option" where
  "resumed held r =
     (case rs_body r of Full b \<Rightarrow> Some (if rs_status r = 206 then held @ b else b) | Streamed _ _ c \<Rightarrow> c)"


definition demo_dates :: http_dates where
  "demo_dates = \<lparr>parse_http_date = \<lambda>_. None, fmt_http_date = \<lambda>_. ''date''\<rparr>"

definition demo_content_headers :: ContentHeaders where
  "demo_content_headers =
     \<lparr>ch_content_type = ''text/plain'', ch_content_length = ''4'', ch_etag = ''e'', ch_weak_etag = ''W/e'', ch_last_modified = ''d''\<rparr>"

definition resume_request :: "(string \<times> string) list" where
  "resume_request = [(''range'', ''bytes='' @ show_nat 2 @ ''-''), (''if-range'', generate_etag 4 5200000000)]"

lemma resume_request_headers:
  "get_all list_headers resume_request ''range'' = [''bytes='' @ show_nat 2 @ ''-'']"
  "get_all list_headers resume_request ''if-range'' = [generate_etag 4 5200000000]"
  by (simp_all add: resume_request_def list_headers_def)

lemma demo_lengths: "length ''abcd'' = 4" "length ''vwxyz'' = 5"
  by simp_all


text \<open>
  The entity tag counts seconds, so the premise can fail: a file rewritten with as many bytes within one second keeps its tag,
  and the download is spliced from the two versions.  The date form of \<^verbatim>\<open>If-Range\<close> guards against this, the tag form does not.
\<close>

lemma same_second_rewrite_spliced:
  "resumed (take 2 ''abcd'')
     (respond_bytes demo_dates list_headers now ''wxyz'' demo_content_headers ''text/plain'' (generate_etag 4 5700000000)
       5700000000 None ''GET'' resume_request True \<lparr>lv_brotli = 0, lv_gzip = 0, lv_zstd = 0\<rparr>) = Some ''abyz''"
proof -
  have "if_range_matches demo_dates list_headers now resume_request (generate_etag 4 5700000000) 5700000000"
    using if_range_etag[OF list_headers_laws resume_request_headers(2)] by (simp add: generate_etag_def secs_since_epoch_def)
  moreover have "parse_range (''bytes='' @ show_nat 2 @ ''-'') 4 = Some (Partial 2 3)"
    using parse_printed_range(2)[of 2 2 4] by simp
  moreover have "to_str list_headers (''bytes='' @ show_nat 2 @ ''-'') = Some (''bytes='' @ show_nat 2 @ ''-'')"
    by code_simp
  ultimately have "plan_range demo_dates list_headers now ''GET'' resume_request 4 (generate_etag 4 5700000000) 5700000000 = Partial 2 3"
    by (simp add: plan_range_def resume_request_headers(1))
  moreover have "length ''wxyz'' = 4" by simp
  ultimately show ?thesis unfolding respond_bytes_def Let_def by (simp only: if_True RangePlan.case) (simp add: resumed_def)
qed

text \<open>A client that sends back the tag it was given, strong or weakened by a coding, is told whether the file is still that version.\<close>

lemma returned_tag_decides:
  assumes H: "header_laws H"
    and h: "get_all H h ''if-none-match'' = [p @ generate_etag sz m]" and p: "p = [] \<or> p = ''W/''"
  shows "check_not_modified D H h (generate_etag sz' m') m' \<longleftrightarrow> generate_etag sz m = generate_etag sz' m'"
    "client_tag_is_weak H h (generate_etag sz m) \<longleftrightarrow> p = ''W/''"
proof -
  have s: "list_all solid (p @ generate_etag sz m)"
    using p etag_solid[of sz m] by (auto simp: solid_def visible_def blank_def)
  then have v: "to_str H (p @ generate_etag sz m) = Some (p @ generate_etag sz m)"
    using solid_visible[OF s] by (simp only: header_values[OF H] if_True)
  have "CHR '','' \<notin> set (generate_etag sz m)"
  proof -
    have "CHR '','' \<notin> set (show_nat sz)"
      using show_nat_digits[of sz] by (simp add: digit_not_dash is_digit_byte_def)
    moreover have "CHR '','' \<notin> set (show_hex n)" for n
      using show_hex_solid[of n] unfolding list_all_iff by blast
    ultimately show ?thesis by (simp add: generate_etag_def)
  qed
  then have one: "split_on (CHR '','') (p @ generate_etag sz m) = [p @ generate_etag sz m]"
    using p by (intro split_on_no_sep) auto
  have o: "etag_opaque (p @ generate_etag sz m) = generate_etag sz m" "etag_opaque (generate_etag sz' m') = generate_etag sz' m'"
    "p @ generate_etag sz m \<noteq> ''*''"
    using p by (auto simp: etag_opaque_def strip_prefix_def starts_with_def generate_etag_def)
  have w: "starts_with (p @ generate_etag sz m) ''W/'' \<longleftrightarrow> p = ''W/''" "etag_opaque (generate_etag sz m) = generate_etag sz m"
    using p by (auto simp: etag_opaque_def strip_prefix_def starts_with_def generate_etag_def)
  show "check_not_modified D H h (generate_etag sz' m') m' \<longleftrightarrow> generate_etag sz m = generate_etag sz' m'"
    unfolding check_not_modified_def header_str_def get_def h list.case option.case v one
    by (simp add: solid_trim[OF s] etag_weak_eq_def o)
  show "client_tag_is_weak H h (generate_etag sz m) \<longleftrightarrow> p = ''W/''"
    unfolding client_tag_is_weak_def header_str_def get_def h list.case option.case v one
    by (simp add: Let_def solid_trim[OF s] etag_weak_eq_def o w)
qed

end
