(* ===== verification/Content_Cache.thy ===== *)
theory Content_Cache
  imports Static_Range "HOL-Library.AList"
begin

text \<open>
  The content cache of \<^verbatim>\<open>src/server/response/static_file.rs\<close>: file bytes and their encoded copies under one byte
  budget, with revalidation, and the background jobs of \<^verbatim>\<open>src/server/connection.rs\<close> that build the encoded copies.
  The \<^verbatim>\<open>lru\<close> crate's unbounded map is a parameter with its documented behaviour.  What runs under one lock
  is one definition, so that sections of concurrent requests may interleave.  The running total is an integer: a subtraction too
  many would show.
\<close>

section \<open>An unbounded LRU map\<close>

record ('l, 'v) ulru =
  ul_new :: 'l
  ul_items :: "'l \<Rightarrow> (string \<times> 'v) list"
  ul_peek :: "'l \<Rightarrow> string \<Rightarrow> 'v option"
  ul_get :: "'l \<Rightarrow> string \<Rightarrow> 'l"
  ul_update :: "'l \<Rightarrow> string \<Rightarrow> ('v \<Rightarrow> 'v) \<Rightarrow> 'l"
  ul_put :: "'l \<Rightarrow> string \<Rightarrow> 'v \<Rightarrow> 'l"
  ul_pop :: "'l \<Rightarrow> string \<Rightarrow> 'l"
  ul_pop_lru :: "'l \<Rightarrow> ((string \<times> 'v) \<times> 'l) option"

text \<open>
  \<open>ul_items\<close> lists the entries, the most recently used first.  \<open>ul_get\<close> and \<open>ul_update\<close> are \<^verbatim>\<open>get\<close> and
  a change through \<^verbatim>\<open>get_mut\<close>: both promote the entry; \<open>ul_peek\<close> does not.
\<close>

definition ulru_laws :: "('l, 'v) ulru \<Rightarrow> bool" where
  "ulru_laws U \<longleftrightarrow>
     ul_items U (ul_new U) = [] \<and>
     (\<forall>l. distinct (map fst (ul_items U l))) \<and>
     (\<forall>l k. ul_peek U l k = map_of (ul_items U l) k) \<and>
     (\<forall>l k f. ul_items U (ul_update U l k f) =
        (case map_of (ul_items U l) k of Some v \<Rightarrow> (k, f v) # AList.delete k (ul_items U l) | None \<Rightarrow> ul_items U l)) \<and>
     (\<forall>l k. ul_items U (ul_get U l k) =
        (case map_of (ul_items U l) k of Some v \<Rightarrow> (k, v) # AList.delete k (ul_items U l) | None \<Rightarrow> ul_items U l)) \<and>
     (\<forall>l k v. ul_items U (ul_put U l k v) = (k, v) # AList.delete k (ul_items U l)) \<and>
     (\<forall>l k. ul_items U (ul_pop U l k) = AList.delete k (ul_items U l)) \<and>
     (\<forall>l. case ul_pop_lru U l of
        None \<Rightarrow> ul_items U l = []
      | Some (kv, l') \<Rightarrow> ul_items U l = ul_items U l' @ [kv])"

section \<open>Entries\<close>

definition MAX_CACHE_FILE_SIZE :: nat where
  "MAX_CACHE_FILE_SIZE = 1048576"

definition MAX_CACHE_TOTAL_BYTES :: int where
  "MAX_CACHE_TOTAL_BYTES = 67108864"

definition STATIC_REVALIDATE_TTL :: time where
  "STATIC_REVALIDATE_TTL = 3 * 10 ^ 9"

datatype ArtifactState = Absent | Ready string | Rejected

record ContentEntry =
  ce_bytes :: string
  ce_mime_type :: string
  ce_modified :: time
  ce_etag :: string
  ce_headers :: ContentHeaders
  ce_last_checked :: time
  ce_artifacts :: "Coding \<Rightarrow> ArtifactState"

fun artifact_len :: "ArtifactState \<Rightarrow> nat" where
  "artifact_len (Ready b) = length b"
| "artifact_len Absent = 0"
| "artifact_len Rejected = 0"

definition footprint :: "ContentEntry \<Rightarrow> nat" where
  "footprint e = length (ce_bytes e) + sum_list (map (\<lambda>c. artifact_len (ce_artifacts e c)) Coding_ALL)"

datatype Lookup =
  NotModified string ContentHeaders
| Content string string time string ContentHeaders ArtifactState

record ArtifactWanted =
  aw_key :: string
  aw_coding :: Coding
  aw_bytes :: string
  aw_modified :: time

record 'l FileCache =
  fc_entries :: 'l
  fc_total_bytes :: int
  fc_in_flight :: "(string \<times> Coding) set"

type_synonym 'l content_lru = "('l, ContentEntry) ulru"

definition FileCache_new :: "'l content_lru \<Rightarrow> 'l FileCache" where
  "FileCache_new U = \<lparr>fc_entries = ul_new U, fc_total_bytes = 0, fc_in_flight = {}\<rparr>"

definition revalidate_ttl_of :: "bool \<Rightarrow> time option" where
  "revalidate_ttl_of validate = (if validate then Some STATIC_REVALIDATE_TTL else None)"

section \<open>Lookups\<close>

definition build_lookup :: "http_dates \<Rightarrow> 'h headers \<Rightarrow> ContentEntry \<Rightarrow> 'h \<Rightarrow> bool \<Rightarrow> Coding option \<Rightarrow> Lookup" where
  "build_lookup D H e headers try_304 coding =
     (if try_304 \<and> check_not_modified D H headers (ce_etag e) (ce_modified e) then NotModified (ce_etag e) (ce_headers e)
      else Content (ce_bytes e) (ce_mime_type e) (ce_modified e) (ce_etag e) (ce_headers e)
             (case coding of None \<Rightarrow> Absent | Some c \<Rightarrow> ce_artifacts e c))"

definition window_elapsed :: "time option \<Rightarrow> time \<Rightarrow> ContentEntry \<Rightarrow> bool" where
  "window_elapsed ttl now e = (case ttl of Some t \<Rightarrow> t \<le> now - ce_last_checked e | None \<Rightarrow> False)"

text \<open>The section under the write lock: who finds the window elapsed restarts it, and is told the time to compare with.\<close>

definition lookup_claim ::
    "'l content_lru \<Rightarrow> http_dates \<Rightarrow> 'h headers \<Rightarrow> time option \<Rightarrow> time \<Rightarrow> 'l FileCache \<Rightarrow> string \<Rightarrow> 'h \<Rightarrow> bool \<Rightarrow> Coding option \<Rightarrow>
     (Lookup option + time) \<times> 'l FileCache"
where
  "lookup_claim U D H ttl now fc key headers try_304 coding =
     (case ul_peek U (fc_entries fc) key of
        None \<Rightarrow> (Inl None, fc)
      | Some e \<Rightarrow>
          if window_elapsed ttl now e
          then (Inr (ce_modified e), fc\<lparr>fc_entries := ul_update U (fc_entries fc) key (\<lambda>e. e\<lparr>ce_last_checked := now\<rparr>)\<rparr>)
          else (Inl (Some (build_lookup D H e headers try_304 coding)), fc\<lparr>fc_entries := ul_get U (fc_entries fc) key\<rparr>))"

text \<open>The section after the \<^verbatim>\<open>stat\<close>.\<close>

definition lookup_settle ::
    "'l content_lru \<Rightarrow> http_dates \<Rightarrow> 'h headers \<Rightarrow> 'l FileCache \<Rightarrow> string \<Rightarrow> 'h \<Rightarrow> bool \<Rightarrow> Coding option \<Rightarrow> time \<Rightarrow> time option \<Rightarrow>
     Lookup option \<times> 'l FileCache"
where
  "lookup_settle U D H fc key headers try_304 coding modified disk_mtime =
     (if disk_mtime = Some modified
      then (map_option (\<lambda>e. build_lookup D H e headers try_304 coding) (ul_peek U (fc_entries fc) key), fc)
      else
        (None,
         case ul_peek U (fc_entries fc) key of
           Some e \<Rightarrow>
             if ce_modified e = modified
             then fc\<lparr>fc_entries := ul_pop U (fc_entries fc) key, fc_total_bytes := fc_total_bytes fc - int (footprint e)\<rparr>
             else fc
         | None \<Rightarrow> fc))"

definition content_lookup ::
    "'l content_lru \<Rightarrow> http_dates \<Rightarrow> 'h headers \<Rightarrow> time option \<Rightarrow> time \<Rightarrow> time \<Rightarrow> (string \<Rightarrow> time option) \<Rightarrow> 'l FileCache \<Rightarrow> string \<Rightarrow> 'h \<Rightarrow>
     bool \<Rightarrow> Coding option \<Rightarrow> Lookup option \<times> 'l FileCache"
where
  "content_lookup U D H ttl now now' stat fc key headers try_304 coding =
     (case ul_peek U (fc_entries fc) key of
        None \<Rightarrow> (None, fc)
      | Some e \<Rightarrow>
          if \<not> window_elapsed ttl now e then (Some (build_lookup D H e headers try_304 coding), fc)
          else
            (case lookup_claim U D H ttl now' fc key headers try_304 coding of
               (Inl found, fc') \<Rightarrow> (found, fc')
             | (Inr modified, fc') \<Rightarrow> lookup_settle U D H fc' key headers try_304 coding modified (stat key)))"

section \<open>Changes\<close>

text \<open>
  The eviction loops: entries leave, least recently used first, until \<open>need\<close> bytes fit.  In \<^verbatim>\<open>insert_artifact\<close> the loop
  stops when \<open>keep\<close> itself is evicted; the boolean tells.  Every round shrinks the map, so its size is fuel enough.
\<close>

fun make_room :: "nat \<Rightarrow> 'l content_lru \<Rightarrow> string option \<Rightarrow> nat \<Rightarrow> 'l FileCache \<Rightarrow> bool \<times> 'l FileCache" where
  "make_room 0 U keep need fc = (True, fc)"
| "make_room (Suc n) U keep need fc =
     (if fc_total_bytes fc + int need > MAX_CACHE_TOTAL_BYTES
      then (case ul_pop_lru U (fc_entries fc) of
              None \<Rightarrow> (True, fc)
            | Some ((k, e), l) \<Rightarrow>
                (let fc' = fc\<lparr>fc_entries := l, fc_total_bytes := fc_total_bytes fc - int (footprint e)\<rparr>
                 in if keep = Some k then (False, fc') else make_room n U keep need fc'))
      else (True, fc))"

definition room_fuel :: "'l content_lru \<Rightarrow> 'l FileCache \<Rightarrow> nat" where
  "room_fuel U fc = Suc (length (ul_items U (fc_entries fc)))"

definition content_insert ::
    "'l content_lru \<Rightarrow> time \<Rightarrow> string \<Rightarrow> string \<Rightarrow> string \<Rightarrow> time \<Rightarrow> string \<Rightarrow> ContentHeaders \<Rightarrow> 'l FileCache \<Rightarrow> 'l FileCache"
where
  "content_insert U now key bytes mime_type modified etag headers fc =
     (if length bytes > MAX_CACHE_FILE_SIZE then fc
      else
        (let fc1 = snd (make_room (room_fuel U fc) U None (length bytes) fc);
             fc2 = (case ul_peek U (fc_entries fc1) key of
                      Some old \<Rightarrow>
                        fc1\<lparr>fc_entries := ul_pop U (fc_entries fc1) key, fc_total_bytes := fc_total_bytes fc1 - int (footprint old)\<rparr>
                    | None \<Rightarrow> fc1)
         in fc2\<lparr>fc_total_bytes := fc_total_bytes fc2 + int (length bytes),
                fc_entries := ul_put U (fc_entries fc2) key
                  \<lparr>ce_bytes = bytes, ce_mime_type = mime_type, ce_modified = modified, ce_etag = etag, ce_headers = headers,
                   ce_last_checked = now, ce_artifacts = \<lambda>_. Absent\<rparr>\<rparr>))"

definition claim_artifact :: "string \<Rightarrow> Coding \<Rightarrow> 'l FileCache \<Rightarrow> bool \<times> 'l FileCache" where
  "claim_artifact key coding fc =
     (if (key, coding) \<in> fc_in_flight fc then (False, fc)
      else (True, fc\<lparr>fc_in_flight := insert (key, coding) (fc_in_flight fc)\<rparr>))"

definition drop_claim :: "string \<Rightarrow> Coding \<Rightarrow> 'l FileCache \<Rightarrow> 'l FileCache" where
  "drop_claim key coding fc = fc\<lparr>fc_in_flight := fc_in_flight fc - {(key, coding)}\<rparr>"

definition wants_artifact :: "Coding \<Rightarrow> time \<Rightarrow> ContentEntry \<Rightarrow> bool" where
  "wants_artifact coding modified e = (ce_modified e = modified \<and> ce_artifacts e coding = Absent)"

definition insert_artifact :: "'l content_lru \<Rightarrow> string \<Rightarrow> Coding \<Rightarrow> time \<Rightarrow> string \<Rightarrow> 'l FileCache \<Rightarrow> 'l FileCache" where
  "insert_artifact U key coding modified art fc =
     (let fc1 = fc\<lparr>fc_entries := ul_get U (fc_entries fc) key\<rparr>
      in case ul_peek U (fc_entries fc) key of
           Some e \<Rightarrow>
             if wants_artifact coding modified e
             then (case make_room (room_fuel U fc1) U (Some key) (length art) fc1 of
                     (False, fc2) \<Rightarrow> fc2
                   | (True, fc2) \<Rightarrow>
                       (case ul_peek U (fc_entries fc2) key of
                          Some _ \<Rightarrow>
                            fc2\<lparr>fc_entries := ul_update U (fc_entries fc2) key
                                  (\<lambda>e. e\<lparr>ce_artifacts := (ce_artifacts e)(coding := Ready art)\<rparr>),
                                fc_total_bytes := fc_total_bytes fc2 + int (length art)\<rparr>
                        | None \<Rightarrow> fc2))
             else fc1
         | None \<Rightarrow> fc1)"

definition reject_artifact :: "'l content_lru \<Rightarrow> string \<Rightarrow> Coding \<Rightarrow> time \<Rightarrow> 'l FileCache \<Rightarrow> 'l FileCache" where
  "reject_artifact U key coding modified fc =
     fc\<lparr>fc_entries := ul_update U (fc_entries fc) key
          (\<lambda>e. if wants_artifact coding modified e then e\<lparr>ce_artifacts := (ce_artifacts e)(coding := Rejected)\<rparr> else e)\<rparr>"

section \<open>Building encoded copies in the background\<close>

record 'l cache_world =
  cw_cache :: "'l FileCache"
  cw_wanted :: "ArtifactWanted list"
  cw_jobs :: "ArtifactWanted list"
  cw_permits :: nat

definition ARTIFACT_BUILDS :: "nat option \<Rightarrow> nat" where
  "ARTIFACT_BUILDS cpus = max ((case cpus of Some n \<Rightarrow> n | None \<Rightarrow> 4) div 4) 1"

definition cache_start :: "'l content_lru \<Rightarrow> nat option \<Rightarrow> 'l cache_world" where
  "cache_start U cpus = \<lparr>cw_cache = FileCache_new U, cw_wanted = [], cw_jobs = [], cw_permits = ARTIFACT_BUILDS cpus\<rparr>"

definition schedule_artifact :: "ArtifactWanted \<Rightarrow> 'l cache_world \<Rightarrow> 'l cache_world" where
  "schedule_artifact wanted w =
     (if cw_permits w = 0 then w
      else
        (case claim_artifact (aw_key wanted) (aw_coding wanted) (cw_cache w) of
           (False, _) \<Rightarrow> w
         | (True, fc) \<Rightarrow> w\<lparr>cw_cache := fc, cw_permits := cw_permits w - 1, cw_jobs := wanted # cw_jobs w\<rparr>))"

definition run_job :: "encoders \<Rightarrow> 'l content_lru \<Rightarrow> ArtifactWanted \<Rightarrow> 'l FileCache \<Rightarrow> 'l FileCache" where
  "run_job E U wanted fc =
     (case compress_artifact E (aw_bytes wanted) (aw_coding wanted) of
        Some art \<Rightarrow> insert_artifact U (aw_key wanted) (aw_coding wanted) (aw_modified wanted) art fc
      | None \<Rightarrow> reject_artifact U (aw_key wanted) (aw_coding wanted) (aw_modified wanted) fc)"

definition end_job :: "ArtifactWanted \<Rightarrow> 'l cache_world \<Rightarrow> 'l cache_world" where
  "end_job wanted w =
     w\<lparr>cw_cache := drop_claim (aw_key wanted) (aw_coding wanted) (cw_cache w), cw_permits := Suc (cw_permits w),
       cw_jobs := remove1 wanted (cw_jobs w)\<rparr>"

text \<open>
  Any interleaving of requests and jobs.  \<open>disk key t\<close> is what the file \<open>key\<close> held when \<open>t\<close> was its modification
  time: a miss reads that, from the descriptor it took the time from.  A job may end without having stored anything.
\<close>

inductive cache_step ::
    "encoders \<Rightarrow> 'l content_lru \<Rightarrow> http_dates \<Rightarrow> 'h headers \<Rightarrow> time option \<Rightarrow> (string \<Rightarrow> time \<Rightarrow> string) \<Rightarrow>
     'l cache_world \<Rightarrow> 'l cache_world \<Rightarrow> bool"
  for E U D H ttl disk
where
  insert:
    "bytes = disk key modified \<Longrightarrow> etag = generate_etag (length bytes) modified \<Longrightarrow>
     ContentHeaders_new H mime (length bytes) etag (fmt_http_date D modified) = Some hs \<Longrightarrow>
     cache_step E U D H ttl disk w (w\<lparr>cw_cache := content_insert U now key bytes mime modified etag hs (cw_cache w)\<rparr>)"
| claim:
    "lookup_claim U D H ttl now (cw_cache w) key headers try_304 coding = (res, fc) \<Longrightarrow>
     cache_step E U D H ttl disk w (w\<lparr>cw_cache := fc\<rparr>)"
| settle:
    "lookup_settle U D H (cw_cache w) key headers try_304 coding modified disk_mtime = (found, fc) \<Longrightarrow>
     cache_step E U D H ttl disk w (w\<lparr>cw_cache := fc\<rparr>)"
| want:
    "ul_peek U (fc_entries (cw_cache w)) key = Some e \<Longrightarrow>
     cache_step E U D H ttl disk w
       (w\<lparr>cw_wanted := \<lparr>aw_key = key, aw_coding = coding, aw_bytes = ce_bytes e, aw_modified = ce_modified e\<rparr> # cw_wanted w\<rparr>)"
| schedule:
    "wanted \<in> set (cw_wanted w) \<Longrightarrow>
     cache_step E U D H ttl disk w (schedule_artifact wanted (w\<lparr>cw_wanted := remove1 wanted (cw_wanted w)\<rparr>))"
| store:
    "wanted \<in> set (cw_jobs w) \<Longrightarrow> cache_step E U D H ttl disk w (w\<lparr>cw_cache := run_job E U wanted (cw_cache w)\<rparr>)"
| finish:
    "wanted \<in> set (cw_jobs w) \<Longrightarrow> cache_step E U D H ttl disk w (end_job wanted w)"

section \<open>The books of the cache\<close>

lemma ulru_facts:
  assumes "ulru_laws U"
  shows "ul_items U (ul_new U) = []" "distinct (map fst (ul_items U l))" "ul_peek U l k = map_of (ul_items U l) k"
    "ul_items U (ul_update U l k f) =
       (case map_of (ul_items U l) k of Some v \<Rightarrow> (k, f v) # AList.delete k (ul_items U l) | None \<Rightarrow> ul_items U l)"
    "ul_items U (ul_get U l k) =
       (case map_of (ul_items U l) k of Some v \<Rightarrow> (k, v) # AList.delete k (ul_items U l) | None \<Rightarrow> ul_items U l)"
    "ul_items U (ul_put U l k v) = (k, v) # AList.delete k (ul_items U l)"
    "ul_items U (ul_pop U l k) = AList.delete k (ul_items U l)"
    "ul_pop_lru U l = None \<Longrightarrow> ul_items U l = []"
    "ul_pop_lru U l = Some (kv, l') \<Longrightarrow> ul_items U l = ul_items U l' @ [kv]"
proof -
  note laws = assms[unfolded ulru_laws_def]
  show "ul_items U (ul_new U) = []" by (rule laws[THEN conjunct1])
  show "distinct (map fst (ul_items U l))" by (rule laws[THEN conjunct2, THEN conjunct1, rule_format])
  show "ul_peek U l k = map_of (ul_items U l) k" by (rule laws[THEN conjunct2, THEN conjunct2, THEN conjunct1, rule_format])
  note rest = laws[THEN conjunct2, THEN conjunct2, THEN conjunct2]
  show "ul_items U (ul_update U l k f) =
       (case map_of (ul_items U l) k of Some v \<Rightarrow> (k, f v) # AList.delete k (ul_items U l) | None \<Rightarrow> ul_items U l)"
    by (rule rest[THEN conjunct1, rule_format])
  note rest = rest[THEN conjunct2]
  show "ul_items U (ul_get U l k) =
       (case map_of (ul_items U l) k of Some v \<Rightarrow> (k, v) # AList.delete k (ul_items U l) | None \<Rightarrow> ul_items U l)"
    by (rule rest[THEN conjunct1, rule_format])
  note rest = rest[THEN conjunct2]
  show "ul_items U (ul_put U l k v) = (k, v) # AList.delete k (ul_items U l)"
    by (rule rest[THEN conjunct1, rule_format])
  note rest = rest[THEN conjunct2]
  show "ul_items U (ul_pop U l k) = AList.delete k (ul_items U l)"
    by (rule rest[THEN conjunct1, rule_format])
  note lru = rest[THEN conjunct2, rule_format, of l]
  show "ul_items U l = []" if "ul_pop_lru U l = None" using lru that by simp
  show "ul_items U l = ul_items U l' @ [kv]" if "ul_pop_lru U l = Some (kv, l')" using lru that by simp
qed

definition charge :: "(string \<times> ContentEntry) list \<Rightarrow> int" where
  "charge items = sum_list (map (\<lambda>(k, e). int (footprint e)) items)"

lemma charge_simps [simp]: "charge [] = 0" "charge ((k, e) # r) = int (footprint e) + charge r"
  "charge (a @ b) = charge a + charge b"
  by (simp_all add: charge_def)

lemma charge_nonneg: "0 \<le> charge items"
  by (induction items) (auto simp: charge_def)

lemma charge_delete:
  assumes "distinct (map fst items)" "map_of items k = Some e"
  shows "charge (AList.delete k items) = charge items - int (footprint e)"
  using assms
proof (induction items)
  case (Cons x r)
  obtain k' e' where x: "x = (k', e')" by (cases x)
  show ?case
  proof (cases "k' = k")
    case True
    then have "map_of r k = None" using Cons.prems x by (auto simp: map_of_eq_None_iff)
    then show ?thesis using True Cons.prems x by (simp add: AList.delete_id)
  next
    case False
    then show ?thesis using Cons x by simp
  qed
qed simp

definition books_ok :: "'l content_lru \<Rightarrow> 'l FileCache \<Rightarrow> bool" where
  "books_ok U fc \<longleftrightarrow> fc_total_bytes fc = charge (ul_items U (fc_entries fc)) \<and> fc_total_bytes fc \<le> MAX_CACHE_TOTAL_BYTES"

lemma make_room_spec:
  assumes U: "ulru_laws U" and mr: "make_room n U keep need fc = (kept, fc')"
    and tot: "fc_total_bytes fc = charge (ul_items U (fc_entries fc))"
  shows "fc_total_bytes fc' = charge (ul_items U (fc_entries fc'))"
    "set (ul_items U (fc_entries fc')) \<subseteq> set (ul_items U (fc_entries fc))"
    "fc_in_flight fc' = fc_in_flight fc" "fc_total_bytes fc' \<le> fc_total_bytes fc"
    "kept \<Longrightarrow> length (ul_items U (fc_entries fc)) < n \<Longrightarrow>
       fc_total_bytes fc' + int need \<le> MAX_CACHE_TOTAL_BYTES \<or> ul_items U (fc_entries fc') = []"
proof -
  have "fc_total_bytes fc' = charge (ul_items U (fc_entries fc')) \<and>
    set (ul_items U (fc_entries fc')) \<subseteq> set (ul_items U (fc_entries fc)) \<and> fc_in_flight fc' = fc_in_flight fc \<and>
    fc_total_bytes fc' \<le> fc_total_bytes fc \<and>
    (kept \<longrightarrow> length (ul_items U (fc_entries fc)) < n \<longrightarrow>
       fc_total_bytes fc' + int need \<le> MAX_CACHE_TOTAL_BYTES \<or> ul_items U (fc_entries fc') = [])"
    using mr tot
  proof (induction n arbitrary: fc)
    case (Suc n)
    show ?case
    proof (cases "fc_total_bytes fc + int need > MAX_CACHE_TOTAL_BYTES")
      case False
      then show ?thesis using Suc.prems by auto
    next
      case over: True
      show ?thesis
      proof (cases "ul_pop_lru U (fc_entries fc)")
        case None
        then show ?thesis using Suc.prems over ulru_facts(8)[OF U None] by auto
      next
        case (Some x)
        obtain k e l where x: "x = ((k, e), l)" by (cases x) auto
        let ?fc = "fc\<lparr>fc_entries := l, fc_total_bytes := fc_total_bytes fc - int (footprint e)\<rparr>"
        have items: "ul_items U (fc_entries fc) = ul_items U l @ [(k, e)]" using ulru_facts(9)[OF U] Some x by blast
        then have tot: "fc_total_bytes ?fc = charge (ul_items U (fc_entries ?fc))" using Suc.prems(2) by simp
        show ?thesis
        proof (cases "keep = Some k")
          case True
          then have "kept = False" "fc' = ?fc" using Suc.prems(1) over Some x by (simp_all add: Let_def)
          then show ?thesis using tot items by auto
        next
          case False
          then have "make_room n U keep need ?fc = (kept, fc')" using Suc.prems(1) over Some x by (simp add: Let_def)
          from Suc.IH[OF this tot] show ?thesis using items by auto
        qed
      qed
    qed
  qed simp
  then show "fc_total_bytes fc' = charge (ul_items U (fc_entries fc'))"
    "set (ul_items U (fc_entries fc')) \<subseteq> set (ul_items U (fc_entries fc))"
    "fc_in_flight fc' = fc_in_flight fc" "fc_total_bytes fc' \<le> fc_total_bytes fc"
    "kept \<Longrightarrow> length (ul_items U (fc_entries fc)) < n \<Longrightarrow>
       fc_total_bytes fc' + int need \<le> MAX_CACHE_TOTAL_BYTES \<or> ul_items U (fc_entries fc') = []"
    by auto
qed

lemma make_room_kept: "make_room n U None need fc = (kept, fc') \<Longrightarrow> kept"
  by (induction n arbitrary: fc) (auto simp: Let_def split: if_splits option.splits prod.splits)

lemma update_charge:
  assumes U: "ulru_laws U" and e: "ul_peek U l k = Some e"
  shows "charge (ul_items U (ul_update U l k f)) = charge (ul_items U l) - int (footprint e) + int (footprint (f e))"
  using e charge_delete[OF ulru_facts(2)[OF U]] by (simp add: ulru_facts(3,4)[OF U])

text \<open>What holds of an entry: its bytes are those of the version it names, and an encoded copy is the coding of those bytes.\<close>

definition artifact_ok :: "encoders \<Rightarrow> string \<Rightarrow> Coding \<Rightarrow> ArtifactState \<Rightarrow> bool" where
  "artifact_ok E bytes c a =
     (case a of Absent \<Rightarrow> True | Ready art \<Rightarrow> compress_artifact E bytes c = Some art | Rejected \<Rightarrow> compress_artifact E bytes c = None)"

definition entry_ok ::
    "encoders \<Rightarrow> http_dates \<Rightarrow> 'h headers \<Rightarrow> (string \<Rightarrow> time \<Rightarrow> string) \<Rightarrow> string \<times> ContentEntry \<Rightarrow> bool"
where
  "entry_ok E D H disk = (\<lambda>(k, e).
     ce_bytes e = disk k (ce_modified e) \<and> length (ce_bytes e) \<le> MAX_CACHE_FILE_SIZE \<and>
     ce_etag e = generate_etag (length (ce_bytes e)) (ce_modified e) \<and>
     ContentHeaders_new H (ce_mime_type e) (length (ce_bytes e)) (ce_etag e) (fmt_http_date D (ce_modified e)) = Some (ce_headers e) \<and>
     (\<forall>c. artifact_ok E (ce_bytes e) c (ce_artifacts e c)))"

definition entries_ok ::
    "encoders \<Rightarrow> 'l content_lru \<Rightarrow> http_dates \<Rightarrow> 'h headers \<Rightarrow> (string \<Rightarrow> time \<Rightarrow> string) \<Rightarrow> 'l FileCache \<Rightarrow> bool"
where
  "entries_ok E U D H disk fc \<longleftrightarrow> (\<forall>x \<in> set (ul_items U (fc_entries fc)). entry_ok E D H disk x)"

lemma entries_okI:
  assumes "entries_ok E U D H disk fc"
    and "set (ul_items U (fc_entries fc')) \<subseteq> insert x (set (ul_items U (fc_entries fc)))" "entry_ok E D H disk x"
  shows "entries_ok E U D H disk fc'"
  using assms unfolding entries_ok_def by blast

lemma entries_ok_subset:
  assumes "entries_ok E U D H disk fc" "set (ul_items U (fc_entries fc')) \<subseteq> set (ul_items U (fc_entries fc))"
  shows "entries_ok E U D H disk fc'"
  using assms unfolding entries_ok_def by blast

lemma delete_subset: "set (AList.delete k xs) \<subseteq> set xs"
  by (simp add: AList.delete_eq)

lemma update_ok:
  assumes U: "ulru_laws U" and ok: "entries_ok E U D H disk fc"
    and f: "\<And>e. entry_ok E D H disk (k, e) \<Longrightarrow> entry_ok E D H disk (k, f e)"
  shows "entries_ok E U D H disk (fc\<lparr>fc_entries := ul_update U (fc_entries fc) k f, fc_total_bytes := n\<rparr>)"
proof (cases "map_of (ul_items U (fc_entries fc)) k")
  case None
  then show ?thesis using ok by (simp add: entries_ok_def ulru_facts(4)[OF U])
next
  case (Some e)
  then have "entry_ok E D H disk (k, f e)" using ok f map_of_SomeD unfolding entries_ok_def by fastforce
  then show ?thesis
    using Some delete_subset[of k "ul_items U (fc_entries fc)"]
    by (intro entries_okI[OF ok, where x = "(k, f e)"]) (auto simp: ulru_facts(4)[OF U])
qed

lemma set_delete_insert:
  assumes "distinct (map fst xs)" "map_of xs k = Some e"
  shows "set xs = insert (k, e) (set (AList.delete k xs))"
  using assms
proof (induction xs)
  case (Cons x xs)
  show ?case
  proof (cases "fst x = k")
    case True
    then have "k \<notin> fst ` set xs" "x = (k, e)" using Cons.prems by (cases x; auto)+
    then show ?thesis by simp
  next
    case False
    then have "distinct (map fst xs)" "map_of xs k = Some e" using Cons.prems by (cases x; simp)+
    then have "set xs = insert (k, e) (set (AList.delete k xs))" by (rule Cons.IH)
    moreover have "AList.delete k (x # xs) = x # AList.delete k xs" using False by (cases x) simp
    ultimately show ?thesis by (simp only: list.set insert_commute)
  qed
qed simp

lemma promote_ok:
  assumes U: "ulru_laws U" and ok: "entries_ok E U D H disk fc" and b: "books_ok U fc"
  shows "entries_ok E U D H disk (fc\<lparr>fc_entries := ul_get U (fc_entries fc) k\<rparr>)"
    "books_ok U (fc\<lparr>fc_entries := ul_get U (fc_entries fc) k\<rparr>)"
    "set (ul_items U (ul_get U (fc_entries fc) k)) = set (ul_items U (fc_entries fc))"
proof -
  show s: "set (ul_items U (ul_get U (fc_entries fc) k)) = set (ul_items U (fc_entries fc))"
  proof (cases "map_of (ul_items U (fc_entries fc)) k")
    case (Some e)
    then have "set (ul_items U (fc_entries fc)) = insert (k, e) (set (AList.delete k (ul_items U (fc_entries fc))))"
      by (rule set_delete_insert[OF ulru_facts(2)[OF U]])
    then show ?thesis by (simp only: ulru_facts(5)[OF U] Some option.case list.set)
  qed (simp add: ulru_facts(5)[OF U])
  show "entries_ok E U D H disk (fc\<lparr>fc_entries := ul_get U (fc_entries fc) k\<rparr>)"
    using ok s by (simp add: entries_ok_def)
  show "books_ok U (fc\<lparr>fc_entries := ul_get U (fc_entries fc) k\<rparr>)"
    using b charge_delete[OF ulru_facts(2)[OF U]] unfolding books_ok_def
    by (auto simp: ulru_facts(5)[OF U] split: option.split)
qed

lemma pop_ok:
  assumes U: "ulru_laws U" and tot: "fc_total_bytes fc = charge (ul_items U (fc_entries fc))"
    and e: "ul_peek U (fc_entries fc) k = Some e"
  shows "fc_total_bytes fc - int (footprint e) = charge (ul_items U (ul_pop U (fc_entries fc) k))"
    "set (ul_items U (ul_pop U (fc_entries fc) k)) \<subseteq> set (ul_items U (fc_entries fc))"
  using tot e charge_delete[OF ulru_facts(2)[OF U]] delete_subset[of k "ul_items U (fc_entries fc)"]
  by (simp_all add: ulru_facts(3,7)[OF U])

lemma claim_ok:
  assumes U: "ulru_laws U" and ok: "entries_ok E U D H disk fc" "books_ok U fc"
    and c: "lookup_claim U D H ttl now fc key headers try_304 coding = (res, fc')"
  shows "entries_ok E U D H disk fc'" "books_ok U fc'" "fc_in_flight fc' = fc_in_flight fc"
proof -
  let ?f = "\<lambda>e. e\<lparr>ce_last_checked := now\<rparr>"
  consider "fc' = fc" | "fc' = fc\<lparr>fc_entries := ul_get U (fc_entries fc) key\<rparr>"
    | e where "ul_peek U (fc_entries fc) key = Some e" "fc' = fc\<lparr>fc_entries := ul_update U (fc_entries fc) key ?f\<rparr>"
    using c by (auto simp: lookup_claim_def split: option.splits if_splits)
  then have "entries_ok E U D H disk fc' \<and> books_ok U fc' \<and> fc_in_flight fc' = fc_in_flight fc"
  proof cases
    case 1
    then show ?thesis using ok by simp
  next
    case 2
    then show ?thesis using promote_ok(1,2)[OF U ok] by simp
  next
    case (3 e)
    have fp: "footprint (?f e) = footprint e" by (simp add: footprint_def)
    have "entry_ok E D H disk (key, e) \<Longrightarrow> entry_ok E D H disk (key, ?f e)" for e
      by (auto simp: entry_ok_def)
    then have "entries_ok E U D H disk fc'"
      using update_ok[OF U ok(1), where k = key and f = ?f and n = "fc_total_bytes fc"] by (simp add: 3(2))
    moreover have "books_ok U fc'" using ok(2) update_charge[OF U 3(1), of ?f] by (simp only: 3(2) books_ok_def fp) simp
    ultimately show ?thesis by (simp add: 3(2))
  qed
  then show "entries_ok E U D H disk fc'" "books_ok U fc'" "fc_in_flight fc' = fc_in_flight fc" by auto
qed

lemma settle_ok:
  assumes U: "ulru_laws U" and ok: "entries_ok E U D H disk fc" "books_ok U fc"
    and s: "lookup_settle U D H fc key headers try_304 coding m d = (found, fc')"
  shows "entries_ok E U D H disk fc'" "books_ok U fc'" "fc_in_flight fc' = fc_in_flight fc"
proof -
  consider "fc' = fc" | e where "ul_peek U (fc_entries fc) key = Some e"
    "fc' = fc\<lparr>fc_entries := ul_pop U (fc_entries fc) key, fc_total_bytes := fc_total_bytes fc - int (footprint e)\<rparr>"
    using s by (auto simp: lookup_settle_def split: option.splits if_splits)
  then have "entries_ok E U D H disk fc' \<and> books_ok U fc' \<and> fc_in_flight fc' = fc_in_flight fc"
  proof cases
    case 2
    note pop = pop_ok[OF U _ 2(1)]
    have "entries_ok E U D H disk fc'"
      using pop(2) ok(2) by (intro entries_ok_subset[OF ok(1)]) (simp add: 2(2) books_ok_def)
    moreover have "books_ok U fc'" using pop(1) ok(2) by (simp add: 2(2) books_ok_def)
    ultimately show ?thesis by (simp add: 2(2))
  qed (use ok in simp)
  then show "entries_ok E U D H disk fc'" "books_ok U fc'" "fc_in_flight fc' = fc_in_flight fc" by auto
qed

lemma insert_ok:
  assumes U: "ulru_laws U" and ok: "entries_ok E U D H disk fc" "books_ok U fc"
    and e: "bytes = disk key modified" "etag = generate_etag (length bytes) modified"
      "ContentHeaders_new H mime (length bytes) etag (fmt_http_date D modified) = Some hs"
    and fc': "fc' = content_insert U now key bytes mime modified etag hs fc"
  shows "entries_ok E U D H disk fc'" "books_ok U fc'" "fc_in_flight fc' = fc_in_flight fc"
proof -
  let ?e = "\<lparr>ce_bytes = bytes, ce_mime_type = mime, ce_modified = modified, ce_etag = etag, ce_headers = hs,
                   ce_last_checked = now, ce_artifacts = \<lambda>_. Absent\<rparr>"
  have "entries_ok E U D H disk fc' \<and> books_ok U fc' \<and> fc_in_flight fc' = fc_in_flight fc"
  proof (cases "length bytes > MAX_CACHE_FILE_SIZE")
    case True
    then show ?thesis using ok by (simp add: fc' content_insert_def)
  next
    case False
    obtain b fc1 where m: "make_room (room_fuel U fc) U None (length bytes) fc = (b, fc1)" by (cases "make_room (room_fuel U fc) U None (length bytes) fc")
    have tot: "fc_total_bytes fc = charge (ul_items U (fc_entries fc))" using ok(2) by (simp add: books_ok_def)
    note room = make_room_spec[OF U m tot]
    have fit: "fc_total_bytes fc1 + int (length bytes) \<le> MAX_CACHE_TOTAL_BYTES"
    proof -
      have b using m by (rule make_room_kept)
      then have "fc_total_bytes fc1 + int (length bytes) \<le> MAX_CACHE_TOTAL_BYTES \<or> ul_items U (fc_entries fc1) = []"
        using room(5) by (simp add: room_fuel_def)
      then show ?thesis using False room(1) by (auto simp: MAX_CACHE_TOTAL_BYTES_def MAX_CACHE_FILE_SIZE_def)
    qed
    define fc2 where "fc2 = (case ul_peek U (fc_entries fc1) key of
        Some old \<Rightarrow> fc1\<lparr>fc_entries := ul_pop U (fc_entries fc1) key, fc_total_bytes := fc_total_bytes fc1 - int (footprint old)\<rparr>
      | None \<Rightarrow> fc1)"
    have two: "fc_total_bytes fc2 = charge (ul_items U (fc_entries fc2))" "fc_in_flight fc2 = fc_in_flight fc"
      "set (ul_items U (fc_entries fc2)) \<subseteq> set (ul_items U (fc_entries fc))" "fc_total_bytes fc2 \<le> fc_total_bytes fc1"
      "map_of (ul_items U (fc_entries fc2)) key = None"
    proof -
      have "fc_total_bytes fc2 = charge (ul_items U (fc_entries fc2)) \<and> fc_in_flight fc2 = fc_in_flight fc \<and>
        set (ul_items U (fc_entries fc2)) \<subseteq> set (ul_items U (fc_entries fc)) \<and> fc_total_bytes fc2 \<le> fc_total_bytes fc1 \<and>
        map_of (ul_items U (fc_entries fc2)) key = None"
      proof (cases "ul_peek U (fc_entries fc1) key")
        case None
        then show ?thesis using room(1-3) by (simp add: fc2_def ulru_facts(3)[OF U])
      next
        case (Some old)
        note pop = pop_ok[OF U room(1) Some]
        have "map_of (ul_items U (ul_pop U (fc_entries fc1) key)) key = None"
          by (simp add: ulru_facts(7)[OF U] AList.delete_conv')
        moreover have "set (ul_items U (ul_pop U (fc_entries fc1) key)) \<subseteq> set (ul_items U (fc_entries fc))"
          using pop(2) room(2) by (rule subset_trans)
        ultimately show ?thesis using pop(1) room(3) by (simp add: fc2_def Some)
      qed
      then show "fc_total_bytes fc2 = charge (ul_items U (fc_entries fc2))" "fc_in_flight fc2 = fc_in_flight fc"
        "set (ul_items U (fc_entries fc2)) \<subseteq> set (ul_items U (fc_entries fc))" "fc_total_bytes fc2 \<le> fc_total_bytes fc1"
        "map_of (ul_items U (fc_entries fc2)) key = None" by blast+
    qed
    have new: "fc' = fc2\<lparr>fc_total_bytes := fc_total_bytes fc2 + int (length bytes), fc_entries := ul_put U (fc_entries fc2) key ?e\<rparr>"
      using False by (simp add: fc' content_insert_def Let_def m fc2_def)
    have del: "AList.delete key (ul_items U (fc_entries fc2)) = ul_items U (fc_entries fc2)"
      using two(5) by (intro AList.delete_id) (simp add: map_of_eq_None_iff)
    have fp: "footprint ?e = length bytes" by (simp add: footprint_def Coding_ALL_def)
    have "entry_ok E D H disk (key, ?e)" using e False by (simp add: entry_ok_def artifact_ok_def)
    then have "entries_ok E U D H disk fc'"
      using two(3) by (intro entries_okI[OF ok(1), where x = "(key, ?e)"]) (auto simp: new ulru_facts(6)[OF U] del)
    moreover have "books_ok U fc'" using two(1,4) fit by (simp add: books_ok_def new ulru_facts(6)[OF U] del fp)
    ultimately show ?thesis using two(2) by (simp add: new)
  qed
  then show "entries_ok E U D H disk fc'" "books_ok U fc'" "fc_in_flight fc' = fc_in_flight fc" by auto
qed

lemma footprint_store:
  assumes "ce_artifacts e c = Absent"
  shows "footprint (e\<lparr>ce_artifacts := (ce_artifacts e)(c := Ready art)\<rparr>) = footprint e + length art"
    "footprint (e\<lparr>ce_artifacts := (ce_artifacts e)(c := Rejected)\<rparr>) = footprint e"
  using assms by (cases c; simp add: footprint_def Coding_ALL_def)+

lemma entry_ok_artifact:
  assumes "entry_ok E D H disk (k, e)" "artifact_ok E (ce_bytes e) c a"
  shows "entry_ok E D H disk (k, e\<lparr>ce_artifacts := (ce_artifacts e)(c := a)\<rparr>)"
  using assms by (auto simp: entry_ok_def)

lemma reject_ok:
  assumes U: "ulru_laws U" and ok: "entries_ok E U D H disk fc" "books_ok U fc"
    and art: "compress_artifact E (disk key m) c = None" and fc': "fc' = reject_artifact U key c m fc"
  shows "entries_ok E U D H disk fc'" "books_ok U fc'" "fc_in_flight fc' = fc_in_flight fc"
proof -
  let ?f = "\<lambda>e. if wants_artifact c m e then e\<lparr>ce_artifacts := (ce_artifacts e)(c := Rejected)\<rparr> else e"
  have fp: "footprint (?f e) = footprint e" for e by (simp add: wants_artifact_def footprint_store)
  have "entry_ok E D H disk (key, ?f e)" if "entry_ok E D H disk (key, e)" for e
  proof (cases "wants_artifact c m e")
    case True
    then have "artifact_ok E (ce_bytes e) c Rejected"
      using that art by (simp add: entry_ok_def wants_artifact_def artifact_ok_def)
    then show ?thesis using entry_ok_artifact[OF that] True by simp
  qed (use that in simp)
  then have "entries_ok E U D H disk (fc\<lparr>fc_entries := ul_update U (fc_entries fc) key ?f, fc_total_bytes := fc_total_bytes fc\<rparr>)"
    by (rule update_ok[OF U ok(1)])
  then show "entries_ok E U D H disk fc'" by (simp add: fc' reject_artifact_def)
  show "books_ok U fc'"
  proof (cases "ul_peek U (fc_entries fc) key")
    case None
    then show ?thesis using ok(2) by (simp add: fc' reject_artifact_def books_ok_def ulru_facts(3,4)[OF U])
  next
    case (Some e)
    from update_charge[OF U Some, of ?f] ok(2) show ?thesis
      unfolding fp by (simp add: fc' reject_artifact_def books_ok_def)
  qed
  show "fc_in_flight fc' = fc_in_flight fc" by (simp add: fc' reject_artifact_def)
qed

lemma insert_artifact_ok:
  assumes U: "ulru_laws U" and ok: "entries_ok E U D H disk fc" "books_ok U fc"
    and art: "compress_artifact E (disk key m) c = Some art" and fc': "fc' = insert_artifact U key c m art fc"
  shows "entries_ok E U D H disk fc'" "books_ok U fc'" "fc_in_flight fc' = fc_in_flight fc"
proof -
  let ?f = "\<lambda>e. e\<lparr>ce_artifacts := (ce_artifacts e)(c := Ready art)\<rparr>"
  define fc1 where "fc1 = fc\<lparr>fc_entries := ul_get U (fc_entries fc) key\<rparr>"
  have ok1: "entries_ok E U D H disk fc1" "books_ok U fc1" "fc_in_flight fc1 = fc_in_flight fc"
    "set (ul_items U (fc_entries fc1)) = set (ul_items U (fc_entries fc))"
    using promote_ok[OF U ok] by (simp_all add: fc1_def)
  obtain kept fc2 where m: "make_room (room_fuel U fc1) U (Some key) (length art) fc1 = (kept, fc2)"
    by (cases "make_room (room_fuel U fc1) U (Some key) (length art) fc1")
  have "fc_total_bytes fc1 = charge (ul_items U (fc_entries fc1))" using ok1(2) by (simp add: books_ok_def)
  note room = make_room_spec[OF U m this]
  have ok2: "entries_ok E U D H disk fc2" by (rule entries_ok_subset[OF ok1(1) room(2)])
  have bk2: "books_ok U fc2" using room(1,4) ok1(2) by (simp add: books_ok_def)
  have "entries_ok E U D H disk fc' \<and> books_ok U fc' \<and> fc_in_flight fc' = fc_in_flight fc"
  proof (cases "\<exists>e. ul_peek U (fc_entries fc) key = Some e \<and> wants_artifact c m e")
    case False
    then have "fc' = fc1" by (auto simp: fc' insert_artifact_def fc1_def Let_def split: option.split)
    then show ?thesis using ok1 by simp
  next
    case True
    then obtain e where e: "ul_peek U (fc_entries fc) key = Some e" "wants_artifact c m e" by blast
    have form: "fc' = (if kept \<and> ul_peek U (fc_entries fc2) key \<noteq> None
        then fc2\<lparr>fc_entries := ul_update U (fc_entries fc2) key ?f, fc_total_bytes := fc_total_bytes fc2 + int (length art)\<rparr> else fc2)"
      using e m by (simp add: fc' insert_artifact_def fc1_def[symmetric] Let_def split: option.split bool.split)
    show ?thesis
    proof (cases "kept \<and> ul_peek U (fc_entries fc2) key \<noteq> None")
      case False
      then have "fc' = fc2" unfolding form by (rule if_not_P)
      then show ?thesis using ok2 bk2 room(3) ok1(3) by simp
    next
      case grow: True
      then obtain e2 where e2: "ul_peek U (fc_entries fc2) key = Some e2" by blast
      have mem: "(key, e2) \<in> set (ul_items U (fc_entries fc))"
        using e2 room(2) ok1(4) map_of_SomeD[of _ key e2] by (simp add: ulru_facts(3)[OF U]) blast
      then have "e2 = e" using e(1) ulru_facts(2)[OF U] by (simp add: ulru_facts(3)[OF U])
      have bytes: "ce_bytes e = disk key m"
        using ok(1) mem e(2) \<open>e2 = e\<close> by (auto simp: entries_ok_def entry_ok_def wants_artifact_def)
      have fit: "fc_total_bytes fc2 + int (length art) \<le> MAX_CACHE_TOTAL_BYTES"
        using room(5) grow e2 by (auto simp: room_fuel_def ulru_facts(3)[OF U])
      have step: "fc' = fc2\<lparr>fc_entries := ul_update U (fc_entries fc2) key ?f, fc_total_bytes := fc_total_bytes fc2 + int (length art)\<rparr>"
        unfolding form using grow by (rule if_P)
      have ch: "charge (ul_items U (ul_update U (fc_entries fc2) key ?f)) = charge (ul_items U (fc_entries fc2)) + int (length art)"
        using update_charge[OF U e2, of ?f] e(2) footprint_store(1)[of e c art] by (simp add: \<open>e2 = e\<close> wants_artifact_def)
      have "entry_ok E D H disk (key, e)" using ok(1) mem \<open>e2 = e\<close> by (auto simp: entries_ok_def)
      then have new: "entry_ok E D H disk (key, ?f e)"
        by (rule entry_ok_artifact) (simp add: artifact_ok_def bytes art)
      have "set (ul_items U (ul_update U (fc_entries fc2) key ?f)) \<subseteq> insert (key, ?f e) (set (ul_items U (fc_entries fc2)))"
        using e2 delete_subset[of key "ul_items U (fc_entries fc2)"]
        by (auto simp: ulru_facts(3,4)[OF U] \<open>e2 = e\<close>)
      then have "entries_ok E U D H disk fc'"
        using entries_okI[OF ok2 _ new] by (simp add: step)
      then show ?thesis using ch fit room(1,3) ok1(3) by (simp add: step books_ok_def)
    qed
  qed
  then show "entries_ok E U D H disk fc'" "books_ok U fc'" "fc_in_flight fc' = fc_in_flight fc" by auto
qed

section \<open>Every interleaving\<close>

definition job_of :: "ArtifactWanted \<Rightarrow> string \<times> Coding" where
  "job_of = (\<lambda>j. (aw_key j, aw_coding j))"

definition cache_inv ::
    "encoders \<Rightarrow> 'l content_lru \<Rightarrow> http_dates \<Rightarrow> 'h headers \<Rightarrow> (string \<Rightarrow> time \<Rightarrow> string) \<Rightarrow> nat \<Rightarrow> 'l cache_world \<Rightarrow> bool"
where
  "cache_inv E U D H disk builds w \<longleftrightarrow>
     entries_ok E U D H disk (cw_cache w) \<and> books_ok U (cw_cache w) \<and>
     (\<forall>j \<in> set (cw_wanted w) \<union> set (cw_jobs w). aw_bytes j = disk (aw_key j) (aw_modified j)) \<and>
     distinct (map job_of (cw_jobs w)) \<and> fc_in_flight (cw_cache w) = set (map job_of (cw_jobs w)) \<and>
     cw_permits w + length (cw_jobs w) = builds"

lemma cache_start_inv: "ulru_laws U \<Longrightarrow> cache_inv E U D H disk (ARTIFACT_BUILDS cpus) (cache_start U cpus)"
  by (simp add: cache_inv_def cache_start_def FileCache_new_def entries_ok_def books_ok_def ulru_facts(1) MAX_CACHE_TOTAL_BYTES_def)

lemma run_job_ok:
  assumes U: "ulru_laws U" and ok: "entries_ok E U D H disk fc" "books_ok U fc"
    and j: "aw_bytes j = disk (aw_key j) (aw_modified j)"
  shows "entries_ok E U D H disk (run_job E U j fc) \<and> books_ok U (run_job E U j fc) \<and>
    fc_in_flight (run_job E U j fc) = fc_in_flight fc"
proof (cases "compress_artifact E (aw_bytes j) (aw_coding j)")
  case None
  then show ?thesis using reject_ok[OF U ok _ refl] j by (simp add: run_job_def)
next
  case (Some art)
  then show ?thesis using insert_artifact_ok[OF U ok _ refl] j by (simp add: run_job_def)
qed

lemma map_remove1_distinct:
  assumes "distinct (map f xs)" "x \<in> set xs"
  shows "map f (remove1 x xs) = remove1 (f x) (map f xs)"
  using assms by (induction xs) (auto, metis imageI)

lemma cache_step_inv:
  assumes U: "ulru_laws U"
  shows "cache_step E U D H ttl disk w w' \<Longrightarrow> cache_inv E U D H disk builds w \<Longrightarrow> cache_inv E U D H disk builds w'"
proof (induction rule: cache_step.induct)
  case (insert bytes key modified etag mime hs w now)
  then have ok: "entries_ok E U D H disk (cw_cache w)" "books_ok U (cw_cache w)" by (simp_all add: cache_inv_def)
  show ?case using insert.prems insert_ok[OF U ok insert.hyps refl] by (simp add: cache_inv_def)
next
  case (claim now w key headers try_304 coding res fc)
  then have ok: "entries_ok E U D H disk (cw_cache w)" "books_ok U (cw_cache w)" by (simp_all add: cache_inv_def)
  show ?case using claim.prems claim_ok[OF U ok claim.hyps] by (simp add: cache_inv_def)
next
  case (settle w key headers try_304 coding modified disk_mtime found fc)
  then have ok: "entries_ok E U D H disk (cw_cache w)" "books_ok U (cw_cache w)" by (simp_all add: cache_inv_def)
  show ?case using settle.prems settle_ok[OF U ok settle.hyps] by (simp add: cache_inv_def)
next
  case (want w key e coding)
  then have "(key, e) \<in> set (ul_items U (fc_entries (cw_cache w)))"
    by (simp add: ulru_facts(3)[OF U] map_of_SomeD)
  then have "ce_bytes e = disk key (ce_modified e)"
    using want.prems unfolding cache_inv_def entries_ok_def entry_ok_def by blast
  then show ?case using want.prems by (simp add: cache_inv_def)
next
  case (schedule j w)
  then show ?case
    using set_remove1_subset[of j "cw_wanted w"]
    by (auto simp: cache_inv_def schedule_artifact_def claim_artifact_def job_of_def entries_ok_def books_ok_def split: if_splits)
next
  case (store j w)
  then have ok: "entries_ok E U D H disk (cw_cache w)" "books_ok U (cw_cache w)" "aw_bytes j = disk (aw_key j) (aw_modified j)"
    by (simp_all add: cache_inv_def)
  show ?case using store.prems run_job_ok[OF U ok] by (simp add: cache_inv_def)
next
  case (finish j w)
  then have d: "distinct (map job_of (cw_jobs w))" by (simp add: cache_inv_def)
  have eq: "map job_of (remove1 j (cw_jobs w)) = remove1 (job_of j) (map job_of (cw_jobs w))"
    using d finish.hyps by (intro map_remove1_distinct)
  have "distinct (map job_of (remove1 j (cw_jobs w)))"
    "set (map job_of (remove1 j (cw_jobs w))) = set (map job_of (cw_jobs w)) - {job_of j}"
    unfolding eq using d by (simp_all only: distinct_remove1 set_remove1_eq)
  moreover have "length (remove1 j (cw_jobs w)) + 1 = length (cw_jobs w)"
    using finish.hyps length_pos_if_in_set[OF finish.hyps] by (simp add: length_remove1)
  ultimately show ?case
    using finish.prems set_remove1_subset[of j "cw_jobs w"]
    by (auto simp: cache_inv_def end_job_def drop_claim_def job_of_def entries_ok_def books_ok_def)
qed

lemma cache_reachable_inv:
  assumes "ulru_laws U" "(cache_step E U D H ttl disk)\<^sup>*\<^sup>* (cache_start U cpus) w"
  shows "cache_inv E U D H disk (ARTIFACT_BUILDS cpus) w"
  using assms(2) by (induction rule: rtranclp_induct) (simp_all add: assms(1) cache_start_inv cache_step_inv)

text \<open>
  What the content cache holds is true, whatever the interleaving of lookups, misses, evictions and background jobs: an entry's
  bytes are those of the file version its modification time names, its validator is computed from them, and an encoded copy is
  shorter and decodes to exactly those bytes, even if the entry was replaced while the copy was being built.
\<close>

lemma cached_content_true:
  assumes "ulru_laws U" "codec_laws E decode" "(cache_step E U D H ttl disk)\<^sup>*\<^sup>* (cache_start U cpus) w"
    and e: "ul_peek U (fc_entries (cw_cache w)) key = Some e"
  shows "ce_bytes e = disk key (ce_modified e) \<and> ce_etag e = generate_etag (length (ce_bytes e)) (ce_modified e) \<and>
     (\<forall>c art. ce_artifacts e c = Ready art \<longrightarrow> decode c art = Some (ce_bytes e) \<and> length art < length (ce_bytes e))"
proof -
  have "(key, e) \<in> set (ul_items U (fc_entries (cw_cache w)))"
    using e by (simp add: ulru_facts(3)[OF assms(1)] map_of_SomeD)
  then have ok: "entry_ok E D H disk (key, e)"
    using cache_reachable_inv[OF assms(1,3)] unfolding cache_inv_def entries_ok_def by blast
  have "decode c art = Some (ce_bytes e) \<and> length art < length (ce_bytes e)" if "ce_artifacts e c = Ready art" for c art
  proof -
    have "artifact_ok E (ce_bytes e) c (ce_artifacts e c)" using ok unfolding entry_ok_def prod.case by blast
    then have "artifact_ok E (ce_bytes e) c (Ready art)" unfolding that .
    then show ?thesis using assms(2) by (auto simp: artifact_ok_def compress_artifact_def compress_def codec_laws_def split: option.splits if_splits)
  qed
  then show ?thesis using ok unfolding entry_ok_def by auto
qed

text \<open>
  C39. The content cache keeps its books: in every interleaving the running total is the sum of what the entries and their encoded
  copies take, and at most 64 MiB.  No copy is built twice at once, and no more copies are being built than there are permits.
\<close>

theorem content_cache_books:
  assumes "ulru_laws U" "(cache_step E U D H ttl disk)\<^sup>*\<^sup>* (cache_start U cpus) w"
  shows "fc_total_bytes (cw_cache w) = (\<Sum>(k, e)\<leftarrow>ul_items U (fc_entries (cw_cache w)). int (footprint e)) \<and>
     fc_total_bytes (cw_cache w) \<le> MAX_CACHE_TOTAL_BYTES \<and>
     distinct (map (\<lambda>j. (aw_key j, aw_coding j)) (cw_jobs w)) \<and> length (cw_jobs w) \<le> ARTIFACT_BUILDS cpus"
  using cache_reachable_inv[OF assms] by (auto simp: cache_inv_def books_ok_def charge_def job_of_def)

text \<open>A list as the map: the entries in order, a key counting once.  A run: a page is read, asked for encoded, and the copy stored.\<close>

definition list_ulru :: "((string \<times> 'v) list, 'v) ulru" where
  "list_ulru =
     \<lparr>ul_new = [],
      ul_items = AList.clearjunk,
      ul_peek = map_of,
      ul_get = (\<lambda>l k. case map_of l k of Some v \<Rightarrow> (k, v) # AList.delete k l | None \<Rightarrow> l),
      ul_update = (\<lambda>l k f. case map_of l k of Some v \<Rightarrow> (k, f v) # AList.delete k l | None \<Rightarrow> l),
      ul_put = (\<lambda>l k v. (k, v) # AList.delete k l),
      ul_pop = (\<lambda>l k. AList.delete k l),
      ul_pop_lru = (\<lambda>l. case AList.clearjunk l of [] \<Rightarrow> None | xs \<Rightarrow> Some (last xs, butlast xs))\<rparr>"

lemma list_ulru_laws: "ulru_laws list_ulru"
proof -
  have bl: "AList.clearjunk (butlast (AList.clearjunk l)) = butlast (AList.clearjunk l)" for l :: "(string \<times> 'v) list"
    by (intro AList.distinct_clearjunk_id) (metis AList.distinct_clearjunk distinct_butlast map_butlast)
  have lru: "case ul_pop_lru list_ulru l of None \<Rightarrow> ul_items list_ulru l = []
    | Some (kv, l') \<Rightarrow> ul_items list_ulru l = ul_items list_ulru l' @ [kv]" for l :: "(string \<times> 'v) list"
  proof (cases "AList.clearjunk l")
    case (Cons x xs)
    then have "butlast (AList.clearjunk l) @ [last (AList.clearjunk l)] = AList.clearjunk l" by (intro append_butlast_last_id) simp
    moreover have "ul_pop_lru list_ulru l = Some (last (AList.clearjunk l), butlast (AList.clearjunk l))"
      by (simp add: list_ulru_def Cons)
    moreover have "ul_items list_ulru l' = AList.clearjunk l'" for l' :: "(string \<times> 'v) list" by (simp add: list_ulru_def)
    ultimately show ?thesis by (simp only: option.case prod.case bl)
  qed (simp add: list_ulru_def)
  have rest: "ul_items list_ulru (ul_new list_ulru) = ([] :: (string \<times> 'v) list)"
    "distinct (map fst (ul_items list_ulru l))" "ul_peek list_ulru l k = map_of (ul_items list_ulru l) k"
    "ul_items list_ulru (ul_update list_ulru l k f) = (case map_of (ul_items list_ulru l) k of
       Some v \<Rightarrow> (k, f v) # AList.delete k (ul_items list_ulru l) | None \<Rightarrow> ul_items list_ulru l)"
    "ul_items list_ulru (ul_get list_ulru l k) = (case map_of (ul_items list_ulru l) k of
       Some v \<Rightarrow> (k, v) # AList.delete k (ul_items list_ulru l) | None \<Rightarrow> ul_items list_ulru l)"
    "ul_items list_ulru (ul_put list_ulru l k v) = (k, v) # AList.delete k (ul_items list_ulru l)"
    "ul_items list_ulru (ul_pop list_ulru l k) = AList.delete k (ul_items list_ulru l)"
    for l :: "(string \<times> 'v) list" and k f v
    by (simp_all add: list_ulru_def AList.map_of_clearjunk AList.clearjunk_delete AList.delete_idem split: option.split)
  show ?thesis unfolding ulru_laws_def by (intro conjI allI rest lru)
qed

definition demo_versions :: "string \<Rightarrow> time \<Rightarrow> string" where
  "demo_versions key t = page_bytes"

definition demo_page_headers :: ContentHeaders where
  "demo_page_headers =
     \<lparr>ch_content_type = ''text/html'', ch_content_length = show_nat 300, ch_etag = generate_etag 300 5000000000,
      ch_weak_etag = ''W/'' @ generate_etag 300 5000000000, ch_last_modified = ''date''\<rparr>"

definition demo_entry :: ContentEntry where
  "demo_entry =
     \<lparr>ce_bytes = page_bytes, ce_mime_type = ''text/html'', ce_modified = 5000000000, ce_etag = generate_etag 300 5000000000,
      ce_headers = demo_page_headers, ce_last_checked = 7, ce_artifacts = \<lambda>_. Absent\<rparr>"

definition demo_job :: ArtifactWanted where
  "demo_job = \<lparr>aw_key = ''/a.html'', aw_coding = Br, aw_bytes = page_bytes, aw_modified = 5000000000\<rparr>"

definition demo_cached :: "(string \<times> ContentEntry) list FileCache" where
  "demo_cached = \<lparr>fc_entries = [(''/a.html'', demo_entry)], fc_total_bytes = 300, fc_in_flight = {}\<rparr>"

definition demo_stored :: "(string \<times> ContentEntry) list cache_world" where
  "demo_stored =
     \<lparr>cw_cache = \<lparr>fc_entries = [(''/a.html'', demo_entry\<lparr>ce_artifacts := (\<lambda>_. Absent)(Br := Ready ''packed'')\<rparr>)],
        fc_total_bytes = 306, fc_in_flight = {(''/a.html'', Br)}\<rparr>,
      cw_wanted = [], cw_jobs = [demo_job], cw_permits = 1\<rparr>"

lemma page_length: "length page_bytes = 300"
  by (simp add: page_bytes_def)

lemma demo_insert:
  "content_insert list_ulru 7 ''/a.html'' page_bytes ''text/html'' 5000000000 (generate_etag 300 5000000000) demo_page_headers
     (FileCache_new list_ulru) = demo_cached"
  by (simp add: content_insert_def page_length MAX_CACHE_FILE_SIZE_def MAX_CACHE_TOTAL_BYTES_def room_fuel_def FileCache_new_def
      list_ulru_def demo_cached_def demo_entry_def Let_def)

lemma demo_store: "run_job demo_encoders list_ulru demo_job (demo_cached\<lparr>fc_in_flight := {(''/a.html'', Br)}\<rparr>) = cw_cache demo_stored"
  by (simp add: run_job_def compress_artifact_def compress_def demo_job_def demo_encoders_def page_length insert_artifact_def
      wants_artifact_def room_fuel_def MAX_CACHE_TOTAL_BYTES_def list_ulru_def demo_cached_def demo_stored_def demo_entry_def Let_def)

lemma demo_run:
  "(cache_step demo_encoders list_ulru demo_dates list_headers None demo_versions)\<^sup>*\<^sup>* (cache_start list_ulru (Some 8)) demo_stored"
proof -
  let ?step = "cache_step demo_encoders list_ulru demo_dates list_headers None demo_versions"
  let ?w0 = "cache_start list_ulru (Some 8)"
  let ?w1 = "?w0\<lparr>cw_cache := demo_cached\<rparr>"
  let ?w3 = "?w1\<lparr>cw_cache := demo_cached\<lparr>fc_in_flight := {(''/a.html'', Br)}\<rparr>, cw_jobs := [demo_job], cw_permits := 1\<rparr>"
  have "list_all visible (generate_etag 300 5000000000)" using etag_solid solid_visible by blast
  then have hs: "ContentHeaders_new list_headers ''text/html'' (length page_bytes) (generate_etag 300 5000000000)
      (fmt_http_date demo_dates 5000000000) = Some demo_page_headers"
    unfolding ContentHeaders_new_def demo_page_headers_def page_length
    by (simp add: demo_dates_def header_values[OF list_headers_laws] visible_def)
  have "?step ?w0 ?w1"
    using cache_step.insert[where E = demo_encoders and U = list_ulru and D = demo_dates and H = list_headers and ttl = None and disk = demo_versions and w = ?w0 and now = 7 and key = "''/a.html''", OF _ _ hs]
    by (simp add: demo_versions_def page_length cache_start_def demo_insert)
  moreover have "?step ?w1 (?w1\<lparr>cw_wanted := [demo_job]\<rparr>)"
    using cache_step.want[where E = demo_encoders and U = list_ulru and D = demo_dates and H = list_headers and ttl = None and disk = demo_versions and w = ?w1 and key = "''/a.html''" and e = demo_entry and coding = Br]
    by (simp add: cache_start_def demo_cached_def list_ulru_def demo_job_def demo_entry_def)
  moreover have "?step (?w1\<lparr>cw_wanted := [demo_job]\<rparr>) ?w3"
    using cache_step.schedule[where E = demo_encoders and U = list_ulru and D = demo_dates and H = list_headers and ttl = None and disk = demo_versions and w = "?w1\<lparr>cw_wanted := [demo_job]\<rparr>" and wanted = demo_job]
    by (simp add: cache_start_def schedule_artifact_def claim_artifact_def demo_cached_def demo_job_def ARTIFACT_BUILDS_def)
  moreover have "?step ?w3 demo_stored"
    using cache_step.store[where E = demo_encoders and U = list_ulru and D = demo_dates and H = list_headers and ttl = None and disk = demo_versions and w = ?w3 and wanted = demo_job]
    by (simp add: demo_store cache_start_def demo_stored_def)
  ultimately show ?thesis by (meson rtranclp.rtrancl_into_rtrancl rtranclp.rtrancl_refl)
qed

lemma cached_content_true_witness:
  "ce_artifacts (the (ul_peek list_ulru (fc_entries (cw_cache demo_stored)) ''/a.html'')) Br = Ready ''packed'' \<and>
   demo_decode Br ''packed'' = Some page_bytes"
  using cached_content_true[OF list_ulru_laws demo_codec demo_run, where key = "''/a.html''"]
  by (simp add: demo_stored_def list_ulru_def demo_entry_def)

theorem content_cache_books_witness:
  "fc_total_bytes (cw_cache demo_stored) = 306 \<and> length (cw_jobs demo_stored) \<le> ARTIFACT_BUILDS (Some 8)"
  using content_cache_books[OF list_ulru_laws demo_run] by (simp add: demo_stored_def)

end
