(* ===== verification/Static_File.thy ===== *)
theory Static_File
  imports Content_Cache File_Probe Metrics
begin

text \<open>
  Serving a static file (\<^verbatim>\<open>serve\<close> of \<^verbatim>\<open>src/server/response/static_file.rs\<close>): from the content cache, from a
  file read whole, or as a stream.  What the operating system answers is a parameter, \<^verbatim>\<open>mime_guess\<close> too.
\<close>

section \<open>What the file system answers\<close>

datatype open_failure = FailNotFound | FailOther

text \<open>
  An open file: what its metadata gives (size and modification time, which may be missing), what reading at most so many bytes
  to the end gives, whether seeking works, and what a stream of at most so many bytes from an offset gives.
\<close>

record opened_static =
  os_file :: open_file
  os_meta :: "(nat \<times> time option) option"
  os_read :: "nat \<Rightarrow> string option"
  os_seek_ok :: bool
  os_stream :: "nat \<Rightarrow> nat \<Rightarrow> string option"

record static_io =
  io_now :: time
  io_claim_now :: time
  io_insert_now :: time
  io_stat :: "string \<Rightarrow> time option"
  io_attempt :: "string \<Rightarrow> nat \<Rightarrow> (open_failure + opened_static) open_result"
  io_late :: "nat \<Rightarrow> nat"
  io_open_now :: nat
  io_canonicalize :: "string \<Rightarrow> string option"
  io_dev_ino :: "string \<Rightarrow> (nat \<times> nat) option"

record static_env =
  se_canonical_root :: string
  se_allow_list :: "string list"
  se_mime :: "string \<Rightarrow> string"
  se_revalidate_ttl :: "time option"
  se_levels :: Levels

record 'l static_state =
  ss_cache :: "'l FileCache"
  ss_metrics :: Metrics
  ss_off_disk :: nat

definition MAX_OFF_DISK_COMPRESSIONS :: nat where
  "MAX_OFF_DISK_COMPRESSIONS = 16"

definition LEASE_WAIT_MS :: nat where
  "LEASE_WAIT_MS = 50000"

definition open_static :: "static_io \<Rightarrow> string \<Rightarrow> (open_failure + opened_static) open_result option" where
  "open_static io path =
     open_loop (LEASE_WAIT_MS + 1) (io_attempt io path) (io_late io) (io_open_now io + LEASE_WAIT_MS) 5 (io_open_now io)"

definition resolved_path_names_opened_file :: "static_io \<Rightarrow> static_env \<Rightarrow> string \<Rightarrow> open_file \<Rightarrow> bool" where
  "resolved_path_names_opened_file io env file_path opened =
     (case io_canonicalize io file_path of
        None \<Rightarrow> False
      | Some real \<Rightarrow>
          path_allowed real (se_canonical_root env) (se_allow_list env) \<and>
          (case io_dev_ino io real of Some named \<Rightarrow> of_dev_ino opened = Some named | None \<Rightarrow> False))"

definition opened_file_allowed :: "static_io \<Rightarrow> static_env \<Rightarrow> string \<Rightarrow> open_file \<Rightarrow> bool" where
  "opened_file_allowed io env file_path file =
     (case of_descriptor_paths file of
        Some paths \<Rightarrow> list_ex (\<lambda>p. path_allowed p (se_canonical_root env) (se_allow_list env)) paths
      | None \<Rightarrow> resolved_path_names_opened_file io env file_path file)"

section \<open>Answers\<close>

text \<open>
  What a request is answered: a response, with the encoded copy it asks for and whether it holds a permit for a file read whole,
  or an error, which the caller turns into a 500.
\<close>

record 'h static_answer =
  an_response :: "'h response"
  an_wanted :: "ArtifactWanted option"
  an_permit :: bool

datatype 'h serve_result = Failed | Served "'h static_answer"

definition plain_answer :: "'h response \<Rightarrow> 'h serve_result" where
  "plain_answer r = Served \<lparr>an_response = r, an_wanted = None, an_permit = False\<rparr>"

definition not_found :: "'h headers \<Rightarrow> 'h response" where
  "not_found H =
     \<lparr>rs_status = 404, rs_headers = built_with H [(''content-type'', ''text/plain; charset=utf-8'')], rs_body = Full ''404 Not Found''\<rparr>"

definition conditional :: "string \<Rightarrow> bool" where
  "conditional meth = (meth = ''GET'' \<or> meth = ''HEAD'')"

record 'h static_request =
  sr_path :: string
  sr_method :: string
  sr_headers :: 'h
  sr_cache_control :: "string option"
  sr_coding :: "Coding option"

section \<open>From the cache\<close>

definition swap_artifact :: "'h headers \<Rightarrow> Coding \<Rightarrow> ContentHeaders \<Rightarrow> string \<Rightarrow> 'h response \<Rightarrow> 'h response" where
  "swap_artifact H coding hs art r =
     (let h = (if get H (rs_headers r) ''etag'' \<noteq> None then hset H (rs_headers r) ''etag'' (ch_weak_etag hs) else rs_headers r)
      in mark_encoded H coding (r\<lparr>rs_body := Full art, rs_headers := h\<rparr>))"

definition serve_cached ::
    "http_dates \<Rightarrow> 'h headers \<Rightarrow> static_env \<Rightarrow> static_io \<Rightarrow> 'h static_request \<Rightarrow> Lookup \<Rightarrow> Metrics \<Rightarrow> 'h serve_result \<times> Metrics"
where
  "serve_cached D H env io rq found m =
     (case found of
        NotModified etag hs \<Rightarrow>
          (plain_answer
             (build_304 H (if client_tag_is_weak H (sr_headers rq) etag then ch_weak_etag hs else ch_etag hs)
                (ch_last_modified hs) (case sr_cache_control rq of Some cc \<Rightarrow> cc | None \<Rightarrow> [])), m)
      | Content bytes mime modified etag hs art_state \<Rightarrow>
          (let allow_ranges = ranges_allowed (sr_coding rq \<noteq> None) (se_levels env) mime (length bytes);
               r = respond_bytes D H (io_now io) bytes hs mime etag modified (sr_cache_control rq) (sr_method rq) (sr_headers rq)
                     allow_ranges (se_levels env)
           in case (if allow_ranges then None else sr_coding rq) of
                None \<Rightarrow> (plain_answer r, m)
              | Some coding \<Rightarrow>
                  (case art_state of
                     Ready art \<Rightarrow>
                       (plain_answer (swap_artifact H coding hs art r),
                        record_compression (of_nat (length bytes - length art)) m)
                   | Absent \<Rightarrow>
                       (Served \<lparr>an_response = r,
                                an_wanted = Some \<lparr>aw_key = sr_path rq, aw_coding = coding, aw_bytes = bytes, aw_modified = modified\<rparr>,
                                an_permit = False\<rparr>, m)
                   | Rejected \<Rightarrow> (plain_answer r, m))))"

section \<open>From the disk\<close>

text \<open>A 304 for a file just opened: both header values have to be acceptable.\<close>

definition serve_304 :: "'h headers \<Rightarrow> 'h static_request \<Rightarrow> string \<Rightarrow> string \<Rightarrow> string \<Rightarrow> 'h serve_result" where
  "serve_304 H rq etag_str last_modified cc =
     (case (from_str H (if client_tag_is_weak H (sr_headers rq) etag_str then ''W/'' @ etag_str else etag_str), from_str H last_modified) of
        (Some tag, Some lm) \<Rightarrow> plain_answer (build_304 H tag lm cc)
      | _ \<Rightarrow> Failed)"

text \<open>A file read whole.  What is shorter than its metadata said is sent without a validator and not kept.\<close>

definition serve_whole ::
    "'l content_lru \<Rightarrow> http_dates \<Rightarrow> 'h headers \<Rightarrow> static_env \<Rightarrow> static_io \<Rightarrow> 'h static_request \<Rightarrow> opened_static \<Rightarrow> string \<Rightarrow> nat \<Rightarrow>
     time \<Rightarrow> bool \<Rightarrow> 'l FileCache \<Rightarrow> 'h serve_result \<times> 'l FileCache"
where
  "serve_whole U D H env io rq file mime file_size modified permit fc =
     (let etag = generate_etag file_size modified in
      case os_read file file_size of
        None \<Rightarrow> (Failed, fc)
      | Some bytes \<Rightarrow>
          if length bytes \<noteq> file_size
          then (case from_str H mime of
                  None \<Rightarrow> (Failed, fc)
                | Some ct \<Rightarrow>
                    (plain_answer
                       \<lparr>rs_status = 200,
                        rs_headers = built_with H [(''content-type'', ct), (''content-length'', show_nat (length bytes))],
                        rs_body = Full bytes\<rparr>, fc))
          else
            (case ContentHeaders_new H mime file_size etag (fmt_http_date D modified) of
               None \<Rightarrow> (Failed, fc)
             | Some hs \<Rightarrow>
                 (Served
                    \<lparr>an_response =
                       respond_bytes D H (io_now io) bytes hs mime etag modified (sr_cache_control rq) (sr_method rq) (sr_headers rq)
                         (ranges_allowed (sr_coding rq \<noteq> None) (se_levels env) mime file_size) (se_levels env),
                     an_wanted = None, an_permit = permit\<rparr>,
                  content_insert U (io_insert_now io) (sr_path rq) bytes mime modified etag hs fc)))"

text \<open>A file too large to hold: its headers promise a length, and the body is what the descriptor yields up to it.\<close>

definition serve_stream ::
    "http_dates \<Rightarrow> 'h headers \<Rightarrow> static_env \<Rightarrow> static_io \<Rightarrow> 'h static_request \<Rightarrow> opened_static \<Rightarrow> string \<Rightarrow> nat \<Rightarrow> time \<Rightarrow> 'h serve_result"
where
  "serve_stream D H env io rq file mime file_size modified =
     (let etag = generate_etag file_size modified;
          varies = would_compress (se_levels env) mime file_size;
          send = (\<lambda>status start len content_range.
            case from_str H mime of
              None \<Rightarrow> Failed
            | Some ct \<Rightarrow>
                (let r = (\<lambda>cached.
                       \<lparr>rs_status = status,
                        rs_headers = cached (built_with H
                          ([(''content-type'', ct), (''accept-ranges'', ''bytes'')] @
                           (if varies then [(''vary'', ''Accept-Encoding'')] else []) @
                           (case content_range of Some cr \<Rightarrow> [(''content-range'', cr)] | None \<Rightarrow> []) @
                           [(''content-length'', show_nat len)])),
                        rs_body = Streamed 0 None (os_stream file start len)\<rparr>)
                 in case sr_cache_control rq of
                      None \<Rightarrow> plain_answer (r id)
                    | Some cc \<Rightarrow>
                        (case (from_str H etag, from_str H (fmt_http_date D modified)) of
                           (Some tag, Some lm) \<Rightarrow> plain_answer (r (add_cache_headers H tag lm cc))
                         | _ \<Rightarrow> Failed)))
      in case plan_range D H (io_now io) (sr_method rq) (sr_headers rq) file_size etag modified of
           NotSatisfiable \<Rightarrow> plain_answer (vary_by_encoding H varies (build_416 H file_size))
         | Partial start e \<Rightarrow>
             if os_seek_ok file
             then send 206 start (e - start + 1)
                    (Some (''bytes '' @ show_nat start @ ''-'' @ show_nat e @ ''/'' @ show_nat file_size))
             else Failed
         | FullRange \<Rightarrow> send 200 0 file_size None)"

definition serve_opened ::
    "'l content_lru \<Rightarrow> http_dates \<Rightarrow> 'h headers \<Rightarrow> static_env \<Rightarrow> static_io \<Rightarrow> 'h static_request \<Rightarrow> opened_static \<Rightarrow> 'l static_state \<Rightarrow>
     'h serve_result \<times> 'l static_state"
where
  "serve_opened U D H env io rq file st =
     (case os_meta file of
        None \<Rightarrow> (Failed, st)
      | Some (file_size, modified_opt) \<Rightarrow>
          if \<not> opened_file_allowed io env (sr_path rq) (os_file file) then (plain_answer (not_found H), st)
          else
            (let mime = se_mime env (sr_path rq);
                 modified = (case modified_opt of Some t \<Rightarrow> t | None \<Rightarrow> 0);
                 etag_str = generate_etag file_size modified;
                 large = file_size > MAX_CACHE_FILE_SIZE;
                 off_disk = large \<and> sr_coding rq \<noteq> None \<and> would_compress (se_levels env) mime file_size \<and> ss_off_disk st > 0
             in if conditional (sr_method rq) \<and> sr_cache_control rq \<noteq> None \<and>
                   check_not_modified D H (sr_headers rq) etag_str modified
                then (serve_304 H rq etag_str (fmt_http_date D modified) (case sr_cache_control rq of Some cc \<Rightarrow> cc | None \<Rightarrow> []), st)
                else if \<not> large \<or> off_disk
                then (let (answer, fc) = serve_whole U D H env io rq file mime file_size modified off_disk (ss_cache st)
                      in (answer,
                          st\<lparr>ss_cache := fc,
                             ss_off_disk := (case answer of
                               Served a \<Rightarrow> if an_permit a then ss_off_disk st - 1 else ss_off_disk st
                             | Failed \<Rightarrow> ss_off_disk st)\<rparr>))
                else (serve_stream D H env io rq file mime file_size modified, st)))"

definition serve ::
    "'l content_lru \<Rightarrow> http_dates \<Rightarrow> 'h headers \<Rightarrow> static_env \<Rightarrow> static_io \<Rightarrow> 'h static_request \<Rightarrow> 'l static_state \<Rightarrow>
     'h serve_result \<times> 'l static_state"
where
  "serve U D H env io rq st =
     (let try_304 = conditional (sr_method rq) \<and> sr_cache_control rq \<noteq> None;
          (found, fc) = content_lookup U D H (se_revalidate_ttl env) (io_now io) (io_claim_now io) (io_stat io) (ss_cache st) (sr_path rq)
            (sr_headers rq) try_304 (sr_coding rq);
          st' = st\<lparr>ss_cache := fc\<rparr>
      in case found of
           Some l \<Rightarrow> (let (answer, m) = serve_cached D H env io rq l (ss_metrics st') in (answer, st'\<lparr>ss_metrics := m\<rparr>))
         | None \<Rightarrow>
             (case open_static io (sr_path rq) of
                Some (Opened (Inr file)) \<Rightarrow> serve_opened U D H env io rq file st'
              | Some (Opened (Inl FailNotFound)) \<Rightarrow> (plain_answer (not_found H), st')
              | _ \<Rightarrow> (Failed, st')))"

text \<open>The permit travels with the response and is given back when that has been written.\<close>

definition drop_answer :: "'h serve_result \<Rightarrow> 'l static_state \<Rightarrow> 'l static_state" where
  "drop_answer answer st =
     (case answer of Served a \<Rightarrow> if an_permit a then st\<lparr>ss_off_disk := Suc (ss_off_disk st)\<rparr> else st | Failed \<Rightarrow> st)"

section \<open>Confinement\<close>

text \<open>Where an open file was found to lie.\<close>

definition lies_at :: "static_io \<Rightarrow> string \<Rightarrow> open_file \<Rightarrow> string \<Rightarrow> bool" where
  "lies_at io path file p =
     (case of_descriptor_paths file of
        Some paths \<Rightarrow> p \<in> set paths
      | None \<Rightarrow> io_canonicalize io path = Some p \<and> io_dev_ino io p = of_dev_ino file \<and> of_dev_ino file \<noteq> None)"

lemma allowed_lies:
  assumes "opened_file_allowed io env path file"
  shows "\<exists>p. lies_at io path file p \<and> path_allowed p (se_canonical_root env) (se_allow_list env)"
  using assms
  by (auto simp: opened_file_allowed_def lies_at_def resolved_path_names_opened_file_def list_ex_iff split: option.splits)

lemma open_static_attempt: "open_static io path = Some r \<Longrightarrow> \<exists>t. io_attempt io path t = r"
  using open_loop_result unfolding open_static_def by blast

text \<open>The loop around a leased file ends: its fuel lasts for the wait.\<close>

lemma open_static_answers: "\<exists>r. open_static io path = Some r"
  unfolding open_static_def by (rule open_loop_terminates) simp_all

text \<open>What a response carries of a file: nothing, what a whole read gave or a slice of it, or what a stream of it yields.\<close>

definition carries :: "opened_static \<Rightarrow> body \<Rightarrow> bool" where
  "carries file b \<longleftrightarrow>
     b = Full [] \<or> b = Full ''416 Range Not Satisfiable'' \<or>
     (\<exists>n bytes s l. os_read file n = Some bytes \<and> b = Full (take l (drop s bytes))) \<or>
     (\<exists>s l. b = Streamed 0 None (os_stream file s l))"

lemma carries_simps [simp]:
  "carries file (Full [])" "carries file (Full ''416 Range Not Satisfiable'')" "carries file (Streamed 0 None (os_stream file s l))"
  unfolding carries_def by blast+

lemma respond_bytes_body:
  "rs_body (respond_bytes D H now bytes hs mime etag m cc meth h ar lv) = Full ''416 Range Not Satisfiable'' \<or>
   (\<exists>s l. rs_body (respond_bytes D H now bytes hs mime etag m cc meth h ar lv) = Full (take l (drop s bytes)))"
proof (cases rule: respond_cases[of D H now bytes hs mime etag m cc meth h ar lv])
  case whole
  then have "rs_body (respond_bytes D H now bytes hs mime etag m cc meth h ar lv) = Full (take (length bytes) (drop 0 bytes))" by simp
  then show ?thesis by blast
next
  case (part s e)
  then show ?thesis by auto
next
  case unsat
  then show ?thesis by (simp add: vary_by_encoding_def build_416_def)
qed

lemma serve_whole_carries:
  assumes "serve_whole U D H env io rq file mime n m permit fc = (Served a, fc')"
  shows "carries file (rs_body (an_response a))"
proof -
  obtain bytes where b: "os_read file n = Some bytes"
    using assms by (cases "os_read file n") (simp_all add: serve_whole_def Let_def)
  show ?thesis
  proof (cases "length bytes = n")
    case False
    then have "rs_body (an_response a) = Full (take (length bytes) (drop 0 bytes))"
      using assms b by (auto simp: serve_whole_def Let_def plain_answer_def split: option.splits)
    then show ?thesis unfolding carries_def using b by blast
  next
    case True
    then obtain hs where hs: "ContentHeaders_new H mime n (generate_etag n m) (fmt_http_date D m) = Some hs"
      using assms b by (auto simp: serve_whole_def Let_def split: option.splits)
    let ?r = "respond_bytes D H (io_now io) bytes hs mime (generate_etag n m) m (sr_cache_control rq) (sr_method rq) (sr_headers rq)
      (ranges_allowed (sr_coding rq \<noteq> None) (se_levels env) mime n) (se_levels env)"
    have "an_response a = ?r" using assms b True hs unfolding serve_whole_def Let_def by (auto split: if_splits)
    then show ?thesis
      using respond_bytes_body[of D H "io_now io" bytes hs mime] b unfolding carries_def by metis
  qed
qed

lemma serve_stream_carries:
  assumes "serve_stream D H env io rq file mime n m = Served a"
  shows "carries file (rs_body (an_response a))"
  using assms
  by (auto simp: serve_stream_def Let_def plain_answer_def vary_by_encoding_def build_416_def
      split: option.splits if_splits RangePlan.splits)


section \<open>The cache does not show\<close>

text \<open>The same answer, or an encoded form of it: the body decodes to the other's, and only the headers that describe the coding differ.\<close>

definition same_answer :: "(Coding \<Rightarrow> string \<Rightarrow> string option) \<Rightarrow> 'h headers \<Rightarrow> Coding option \<Rightarrow> 'h response \<Rightarrow> 'h response \<Rightarrow> bool" where
  "same_answer decode H coding r r' \<longleftrightarrow>
     r = r' \<or>
     (\<exists>c art. coding = Some c \<and> rs_body r = Full art \<and> rs_status r = rs_status r' \<and> decode c art = collect (rs_body r') \<and>
        get_all H (rs_headers r) ''content-encoding'' = [Coding_name c] \<and>
        get_all H (rs_headers r) ''content-length'' = [show_nat (length art)] \<and>
        (\<forall>k. k \<notin> {''content-encoding'', ''etag'', ''accept-ranges'', ''content-length'', ''vary''} \<longrightarrow>
           get_all H (rs_headers r) k = get_all H (rs_headers r') k))"

lemma swap_artifact_same:
  assumes H: "header_laws H" and r: "rs_body r = Full bytes" and d: "decode c art = Some bytes"
  shows "same_answer decode H (Some c) (swap_artifact H c hs art r) r"
proof -
  define h where "h = (if get H (rs_headers r) ''etag'' \<noteq> None then hset H (rs_headers r) ''etag'' (ch_weak_etag hs) else rs_headers r)"
  let ?r = "r\<lparr>rs_body := Full art, rs_headers := h\<rparr>"
  have s: "swap_artifact H c hs art r = mark_encoded H c ?r" by (simp add: swap_artifact_def h_def)
  note me = mark_encoded_headers[OF H, where r = ?r and b = art and c = c]
  have "get_all H h k = get_all H (rs_headers r) k" if "k \<noteq> ''etag''" for k
    using that by (simp add: h_def header_lookup[OF H])
  then show ?thesis using me r d by (auto simp: same_answer_def s)
qed

lemma content_headers_values:
  assumes "ContentHeaders_new H mime n etag lm = Some hs"
  shows "from_str H etag = Some (ch_etag hs)" "from_str H (''W/'' @ etag) = Some (ch_weak_etag hs)"
    "from_str H lm = Some (ch_last_modified hs)" "ch_content_length hs = show_nat n"
  using assms by (auto simp: ContentHeaders_new_def split: option.splits)

lemma hit_like_miss:
  assumes H: "header_laws H" and E: "codec_laws E decode" and ok: "entry_ok E D H disk (sr_path rq, e)"
    and fl: "os_meta fl = Some (length (ce_bytes e), Some (ce_modified e))" "os_read fl (length (ce_bytes e)) = Some (ce_bytes e)"
      "opened_file_allowed io env (sr_path rq) (os_file fl)"
    and mime: "se_mime env (sr_path rq) = ce_mime_type e"
  shows "\<exists>a a'. fst (serve_cached D H env io rq (build_lookup D H e (sr_headers rq)
        (conditional (sr_method rq) \<and> sr_cache_control rq \<noteq> None) (sr_coding rq)) m) = Served a \<and>
     fst (serve_opened U D H env io rq fl st) = Served a' \<and> same_answer decode H (sr_coding rq) (an_response a) (an_response a')"
proof -
  let ?b = "ce_bytes e" and ?m = "ce_modified e"
  have e: "ce_etag e = generate_etag (length ?b) ?m" "length ?b \<le> MAX_CACHE_FILE_SIZE"
    and hs: "ContentHeaders_new H (ce_mime_type e) (length ?b) (ce_etag e) (fmt_http_date D ?m) = Some (ce_headers e)"
    and art: "\<And>c. artifact_ok E ?b c (ce_artifacts e c)"
    using ok unfolding entry_ok_def prod.case by blast+
  note hv = content_headers_values[OF hs]
  let ?t304 = "conditional (sr_method rq) \<and> sr_cache_control rq \<noteq> None"
  show ?thesis
  proof (cases "?t304 \<and> check_not_modified D H (sr_headers rq) (ce_etag e) ?m")
    case True
    then show ?thesis
      using fl hv by (auto simp: build_lookup_def serve_cached_def serve_opened_def serve_304_def plain_answer_def same_answer_def e(1))
  next
    case False
    define ar where "ar = ranges_allowed (sr_coding rq \<noteq> None) (se_levels env) (ce_mime_type e) (length ?b)"
    define r where "r = respond_bytes D H (io_now io) ?b (ce_headers e) (ce_mime_type e) (ce_etag e) ?m (sr_cache_control rq)
      (sr_method rq) (sr_headers rq) ar (se_levels env)"
    have miss: "fst (serve_opened U D H env io rq fl st) = Served \<lparr>an_response = r, an_wanted = None, an_permit = False\<rparr>"
      using False e(2) fl hs unfolding serve_opened_def serve_whole_def Let_def mime e(1)[symmetric]
      by (auto simp: r_def ar_def mime e(1)[symmetric] split: prod.split)
    have whole: "rs_body r = Full ?b" if "\<not> ar"
      using that by (simp add: r_def respond_bytes_def Let_def)
    define found where "found = Content ?b (ce_mime_type e) ?m (ce_etag e) (ce_headers e)
      (case sr_coding rq of None \<Rightarrow> Absent | Some c \<Rightarrow> ce_artifacts e c)"
    have found: "build_lookup D H e (sr_headers rq) ?t304 (sr_coding rq) = found"
      using False by (auto simp: build_lookup_def found_def)
    have "\<exists>a. fst (serve_cached D H env io rq found m) = Served a \<and> same_answer decode H (sr_coding rq) (an_response a) r"
    proof (cases "\<exists>c art. sr_coding rq = Some c \<and> ce_artifacts e c = Ready art \<and> \<not> ar")
      case True
      then obtain c art' where c: "sr_coding rq = Some c" "ce_artifacts e c = Ready art'" "\<not> ar" by blast
      have "decode c art' = Some ?b"
        using art[of c] E c(2) by (auto simp: artifact_ok_def compress_artifact_def compress_def codec_laws_def split: option.splits if_splits)
      then have "same_answer decode H (Some c) (swap_artifact H c (ce_headers e) art' r) r"
        using swap_artifact_same[OF H whole[OF c(3)]] by blast
      moreover have "fst (serve_cached D H env io rq found m) = plain_answer (swap_artifact H c (ce_headers e) art' r)"
        unfolding serve_cached_def found_def Lookup.case Let_def ar_def[symmetric] r_def[symmetric] using c by simp
      ultimately show ?thesis using c(1) by (simp add: plain_answer_def)
    next
      case False
      then have "\<exists>w. fst (serve_cached D H env io rq found m) = Served \<lparr>an_response = r, an_wanted = w, an_permit = False\<rparr>"
        unfolding serve_cached_def found_def Lookup.case Let_def ar_def[symmetric] r_def[symmetric]
        by (auto simp: plain_answer_def split: option.splits ArtifactState.splits)
      then show ?thesis by (auto simp: same_answer_def)
    qed
    then show ?thesis unfolding found miss by auto
  qed
qed


definition demo_open :: opened_static where
  "demo_open =
     \<lparr>os_file = \<lparr>of_descriptor_paths = Some [''/srv/www/a.html''], of_dev_ino = Some (1, 7), of_is_file = Some True, of_setfl_ok = True\<rparr>,
      os_meta = Some (300, Some 5000000000), os_read = \<lambda>n. Some (take n page_bytes), os_seek_ok = True,
      os_stream = \<lambda>s l. Some (take l (drop s page_bytes))\<rparr>"

definition demo_io :: static_io where
  "demo_io =
     \<lparr>io_now = 0, io_claim_now = 0, io_insert_now = 7, io_stat = \<lambda>_. Some 5000000000, io_attempt = \<lambda>_ _. Opened (Inr demo_open),
      io_late = \<lambda>_. 0, io_open_now = 0, io_canonicalize = \<lambda>_. None, io_dev_ino = \<lambda>_. None\<rparr>"

definition demo_static_env :: static_env where
  "demo_static_env =
     \<lparr>se_canonical_root = ''/srv/www'', se_allow_list = [], se_mime = \<lambda>_. ''text/html'', se_revalidate_ttl = None, se_levels = demo_levels\<rparr>"

definition demo_get :: "(string \<times> string) list static_request" where
  "demo_get = \<lparr>sr_path = ''/a.html'', sr_method = ''GET'', sr_headers = [], sr_cache_control = None, sr_coding = Some Br\<rparr>"

definition demo_static_state :: "(string \<times> ContentEntry) list static_state" where
  "demo_static_state = \<lparr>ss_cache = FileCache_new list_ulru, ss_metrics = Metrics_new_with_workers 1, ss_off_disk = MAX_OFF_DISK_COMPRESSIONS\<rparr>"

lemma demo_allowed: "opened_file_allowed demo_io demo_static_env (sr_path demo_get) (os_file demo_open)"
proof -
  have "path_allowed ''/srv/www/a.html'' ''/srv/www'' []" by code_simp
  then show ?thesis by (simp add: opened_file_allowed_def demo_open_def demo_static_env_def)
qed



end
