(* ===== verification/Spec2Isabelle.thy ===== *)
theory Spec2Isabelle
  imports Routing_Props Executor_Props Channel_Props Request_Events Php_Request Php_Response Static_File
begin

text \<open>
  OxPHP, a PHP application server written in Rust: a verification library for its request path and for the data it
  shares between PHP threads.

  \<^bold>\<open>The program.\<close>  A connection task (\<^verbatim>\<open>src/server/connection.rs\<close>) gives an arriving request an id and a trace
  context, finds out whose request it is behind trusted proxies, and charges it to the rate limiter.  The router
  (\<^verbatim>\<open>src/server/routing\<close>) decides from the path, the deny lists and the file system whether a static file is
  served, a script is run or the request is refused.  A static file comes from a cache, from a file read whole or as
  a stream.  A script is handed to a pool of PHP threads (\<^verbatim>\<open>src/executor\<close>) through an admission gate and a bounded
  channel; the PHP thread is told of the request and collects what the script writes (\<^verbatim>\<open>src/php\<close>).  The response is
  dressed by handlers, encoded for the client and counted.  Next to this path, PHP threads share values through a
  process-wide registry (\<^verbatim>\<open>src/plugins/ox_shared\<close>), of which the channel is the one that makes threads wait.

  \<^bold>\<open>Conventions.\<close>  A string is the list of its bytes.  A struct is a record, an enum a datatype, an early return or
  a panic a value.  Counters that may wrap are machine words (\<open>Ox_Words\<close>); elsewhere integers are \<open>nat\<close>, or \<open>int\<close> where
  a subtraction too many should show.  What a lock protects is changed in one step; concurrent code is an inductive
  step relation over such steps, so a theorem about its reachable states is about every interleaving.  Crates, the
  operating system and the clock are parameters: records of functions, with what is documented of them as predicates
  named \<open>_laws\<close> (\<open>lru_laws\<close>, \<open>ulru_laws\<close>, \<open>gl_laws\<close>, \<open>sem_laws\<close>, \<open>ch_laws\<close>, \<open>x_laws\<close>, \<open>net_laws\<close>, \<open>header_laws\<close>,
  \<open>codec_laws\<close>); each is shown to hold of a concrete instance, at which the witnesses are taken.

  \<^bold>\<open>Routing.\<close>
  \<^item> \<open>Ox_Prelude\<close>: lists, paths, trimming, numbers as text, the bounded LRU map.
  \<^item> \<open>Uri_Path\<close>: the path functions of \<^verbatim>\<open>src/server/routing/mod.rs\<close>; the fast path of \<^verbatim>\<open>sanitize_path\<close> agrees with a
    reference definition.
  \<^item> \<open>Ignore_Rules\<close>, \<open>Deny_File\<close>: \<^verbatim>\<open>src/config/ignore_rules.rs\<close> and \<^verbatim>\<open>src/config/deny_file.rs\<close>, from the text of a rule
    file to the verdict on a request, with the cost of a decision.
  \<^item> \<open>Php_Deny\<close>, \<open>Path_Policy\<close>, \<open>File_Probe\<close>: \<^verbatim>\<open>src/config/php_deny.rs\<close>, \<^verbatim>\<open>src/config/symlink_allow.rs\<close> with
    \<^verbatim>\<open>src/path_guard.rs\<close>, and the metadata and canonical-path caches of \<^verbatim>\<open>src/server/response/static_file.rs\<close>.
  \<^item> \<open>Routing\<close>, \<open>Routing_Props\<close>: \<^verbatim>\<open>resolve_request\<close> in the state monad with the mode routers and all three caches.  The
    caches do not show in the answer; what is served or run is confined; denials hold whatever the disk is and are
    never cached; no request reaches a panic.

  \<^bold>\<open>Static files.\<close>
  \<^item> \<open>Static_Range\<close>: validators, conditional requests and ranges; a resumed download is exact.
  \<^item> \<open>Content_Cache\<close>: the content cache, its revalidation and the jobs that build encoded copies; the cache stays within
    its budget and holds only true copies.
  \<^item> \<open>Static_File\<close>: \<^verbatim>\<open>serve\<close>, from the lookup to the stream; the cache does not show, and what is opened is confined.

  \<^bold>\<open>Execution.\<close>
  \<^item> \<open>Admission\<close>: the gate, the adjusting wait budget and the byte budget of \<^verbatim>\<open>src/executor/admission.rs\<close>.
  \<^item> \<open>Executor\<close>, \<open>Executor_Own\<close>, \<open>Executor_Props\<close>: \<^verbatim>\<open>src/executor/sapi/mod.rs\<close> and the claim between a waiting request and
    the worker that takes it.  Permits, places and bytes are conserved, a request with a permit finds room, a running
    request has one owner, and every refusal is counted once.

  \<^bold>\<open>Requests and responses.\<close>
  \<^item> \<open>Ip_Addr\<close>, \<open>Client_Addr\<close>, \<open>Rate_Limit\<close>, \<open>Trace_Context\<close>: \<^verbatim>\<open>src/config/proxy.rs\<close>, \<^verbatim>\<open>src/handlers/trusted_proxy.rs\<close>,
    \<^verbatim>\<open>src/server/rate_limit.rs\<close>, \<^verbatim>\<open>src/trace_context.rs\<close>.
  \<^item> \<open>Http_Headers\<close>, \<open>Compression\<close>, \<open>Metrics\<close>: header maps and bodies, \<^verbatim>\<open>src/server/compression.rs\<close>, \<^verbatim>\<open>src/metrics.rs\<close>.
  \<^item> \<open>Request_Events\<close>: the dispatcher and the handlers in the order they are registered, and \<^verbatim>\<open>handle_request\<close> around them.
  \<^item> \<open>Plugin_Cookies\<close>, \<open>Packed_Pairs\<close>, \<open>Php_Request\<close>: \<^verbatim>\<open>src/plugin/cookies.rs\<close>, \<^verbatim>\<open>src/php/request_buffers.rs\<close> and the request
    side of \<^verbatim>\<open>src/php/sapi.rs\<close>: what a script is told of a request.
  \<^item> \<open>Response_Spool\<close>, \<open>Php_Response\<close>: \<^verbatim>\<open>src/php/response_spool.rs\<close>, \<^verbatim>\<open>src/php/stream_wait.rs\<close> and the response side of
    \<^verbatim>\<open>src/php/sapi.rs\<close> with the flags of \<^verbatim>\<open>ext/bridge/oxphp_bridge.c\<close>: a response is not lost in spooling, and a request is
    answered exactly once.

  \<^bold>\<open>Shared data.\<close>
  \<^item> \<open>Shared_Registry\<close>, \<open>Shared_Value\<close>, \<open>Cycle_Check\<close>: \<^verbatim>\<open>registry.rs\<close>, \<^verbatim>\<open>value.rs\<close> and \<^verbatim>\<open>cycle.rs\<close>.  The counters of the registry are
    exact, the wire format reads back, and a write that passes the check closes no cycle.
  \<^item> \<open>Shared_Channel\<close>, \<open>Channel_Books\<close>, \<open>Channel_Props\<close>: \<^verbatim>\<open>types/channel.rs\<close> and \<^verbatim>\<open>src/plugins/ox_async/synthetic.rs\<close> as steps of threads.
    Nothing is lost or delivered twice, and no parked thread is forgotten while there is work for it.

  \<^bold>\<open>Interfaces.\<close>  \<open>ancestor_judging\<close> is what the deny file needs of rule lookup, \<open>file_probe\<close> what the router needs of the
  caches, \<open>continuing\<close> what the dispatcher needs of a handler, \<open>bounded_histogram\<close> what the rendered metrics need of a bucket
  table, \<open>pair_buffer\<close> what the request side needs of its buffers.  Each is interpreted on the definitions of the
  component that provides it.

  \<^bold>\<open>Bounds and fuel.\<close>  Loops of the source are recursive functions with a termination proof; the walk that reads a cycle
  back is a partial function, shown to return.  Fuel appears twice and is shown to suffice: one attempt per millisecond of
  the lease wait for the open loops, one round per entry for the eviction loops of the content cache.

  \<^bold>\<open>Findings.\<close>  Where the model contradicts a comment or a document, a lemma shows it: \<open>early_answer_forgets_the_code\<close>,
  \<open>finish_keeps_stream_open\<close>, \<open>close_strands_a_receiver\<close>, \<open>failed_body_counted_as_compressed\<close>, \<open>over_refund_wraps\<close>,
  \<open>huge_insert_accepted\<close>, \<open>tracked_addresses_unbounded\<close>, \<open>early_response_undressed\<close>, \<open>same_second_rewrite_spliced\<close>.

  \<^bold>\<open>Not modelled.\<close>  The accept loop, TLS, logging, the command line and the reading of settings are calls into
  libraries and the operating system.  The fiber scheduler and the extension in C switch stacks and work on
  structures of the Zend engine, which is not among the sources; so do the bindings, decorators and the profiling
  and tracing plug-ins.  Of the shared types, the map, the pool, the lock, the once cell and the atomic cells are left
  out: they rest on DashMap shards, condition variables and PHP callbacks; what they have in common, the registry, the
  values and the cycle check, is modelled.  Spawning and supervision of worker threads, and the pool of asynchronous
  tasks, are left out with the engine they start.  Texts of log and error messages are left out throughout.
\<close>

end
